(* ===== verification/Cpp_Prelude.thy ===== *)
theory Cpp_Prelude
  imports Main "HOL-Library.Word"
begin

text \<open>
  Shared vocabulary of the development: the collections of rewrite rules that the component
  theories fill, the type names of the C and C++ values the sources use, and the pieces of the C
  and C++ standard library that the sources call on characters, strings and decimal numbers.

  Characters are bytes (\<open>char\<close>), so \<open>length\<close> is what \<open>std::string::size\<close> returns. A search
  result \<open>std::string::npos\<close> is \<^term>\<open>None\<close>. Where the sources compare a (signed) \<open>char\<close> with a
  literal the value is \<open>schar_val\<close>, the x86-64 reading of the byte.
\<close>

named_theorems wf_simps \<open>definitions of the well-formedness predicates of the components\<close>
named_theorems char_class \<open>definitions of the character classes\<close>
named_theorems op_defs \<open>definitions of the non-recursive operations of the components\<close>

subsection \<open>Types\<close>

type_synonym u8 = "8 word"
type_synonym u16 = "16 word"
type_synonym u64 = "64 word"
type_synonym fd = int

text \<open>The exceptions of the C++ standard library that the sources can meet.\<close>

datatype cpp_error = InvalidArgument | OutOfRange | SdkFailure

type_synonym 'a res = "cpp_error + 'a"

subsection \<open>Characters\<close>

definition char_val :: "char \<Rightarrow> nat" where
  "char_val c = of_char c"

definition schar_val :: "char \<Rightarrow> int" where
  "schar_val c = (if char_val c < 128 then int (char_val c) else int (char_val c) - 256)"

text \<open>The classification functions of \<open>ctype.h\<close> in the C locale.\<close>

definition isspace :: "char \<Rightarrow> bool" where
  "isspace c \<longleftrightarrow> char_val c = 32 \<or> (9 \<le> char_val c \<and> char_val c \<le> 13)"

definition isdigit :: "char \<Rightarrow> bool" where
  "isdigit c \<longleftrightarrow> 48 \<le> char_val c \<and> char_val c \<le> 57"

definition islower :: "char \<Rightarrow> bool" where
  "islower c \<longleftrightarrow> 97 \<le> char_val c \<and> char_val c \<le> 122"

definition isupper :: "char \<Rightarrow> bool" where
  "isupper c \<longleftrightarrow> 65 \<le> char_val c \<and> char_val c \<le> 90"

definition isalnum :: "char \<Rightarrow> bool" where
  "isalnum c \<longleftrightarrow> isdigit c \<or> islower c \<or> isupper c"

definition to_lower :: "char \<Rightarrow> char" where
  "to_lower c = (if isupper c then char_of (char_val c + 32) else c)"

definition to_upper :: "char \<Rightarrow> char" where
  "to_upper c = (if islower c then char_of (char_val c - 32) else c)"

abbreviation CR :: char where "CR \<equiv> char_of (13::nat)"
abbreviation LF :: char where "LF \<equiv> char_of (10::nat)"
abbreviation NUL :: char where "NUL \<equiv> char_of (0::nat)"
abbreviation CRLF :: string where "CRLF \<equiv> [CR, LF]"

subsection \<open>Searching and slicing\<close>

text \<open>\<open>s.find(c)\<close> from the start of a list, and \<open>s.find(c, pos)\<close>.\<close>

fun index_of :: "('a \<Rightarrow> bool) \<Rightarrow> 'a list \<Rightarrow> nat option" where
  "index_of P [] = None"
| "index_of P (x # xs) = (if P x then Some 0 else map_option Suc (index_of P xs))"

definition find_char :: "char \<Rightarrow> string \<Rightarrow> nat \<Rightarrow> nat option" where
  "find_char c s pos = map_option ((+) pos) (index_of (\<lambda>x. x = c) (drop pos s))"

fun is_prefix :: "'a list \<Rightarrow> 'a list \<Rightarrow> bool" where
  "is_prefix [] ys = True"
| "is_prefix (x # xs) [] = False"
| "is_prefix (x # xs) (y # ys) = (x = y \<and> is_prefix xs ys)"

fun find_sub :: "'a list \<Rightarrow> 'a list \<Rightarrow> nat option" where
  "find_sub pat [] = (if pat = [] then Some 0 else None)"
| "find_sub pat (y # ys) =
     (if is_prefix pat (y # ys) then Some 0 else map_option Suc (find_sub pat ys))"

text \<open>
  \<open>s.find(pat, pos)\<close>: \<open>npos\<close> when \<open>pos\<close> is past the end. A slice \<open>s.substr(pos, n)\<close> with
  \<open>pos\<close> inside the string; the throwing variant is in theory \<open>String_View\<close>.
\<close>

definition find_str :: "string \<Rightarrow> string \<Rightarrow> nat \<Rightarrow> nat option" where
  "find_str pat s pos =
     (if pos \<le> length s then map_option ((+) pos) (find_sub pat (drop pos s)) else None)"

definition sub_at :: "'a list \<Rightarrow> nat \<Rightarrow> nat \<Rightarrow> 'a list" where
  "sub_at s pos n = take n (drop pos s)"

text \<open>The bytes up to the first NUL: what a \<open>const char *\<close> shows of a buffer.\<close>

definition c_str :: "string \<Rightarrow> string" where
  "c_str s = takeWhile (\<lambda>c. c \<noteq> NUL) s"

subsection \<open>Decimal numbers\<close>

definition digit_val :: "char \<Rightarrow> int" where
  "digit_val c = int (char_val c) - 48"

fun digits_val :: "int \<Rightarrow> string \<Rightarrow> int" where
  "digits_val acc [] = acc"
| "digits_val acc (c # cs) = digits_val (acc * 10 + digit_val c) cs"

fun nat_digits :: "nat \<Rightarrow> string" where
  "nat_digits n =
     (if n < 10 then [char_of (48 + n)] else nat_digits (n div 10) @ [char_of (48 + n mod 10)])"

declare nat_digits.simps [simp del]

definition to_string :: "int \<Rightarrow> string" where
  "to_string i = (if i < 0 then CHR ''-'' # nat_digits (nat (- i)) else nat_digits (nat i))"

definition LONG_MAX :: int where "LONG_MAX = 9223372036854775807"
definition LONG_MIN :: int where "LONG_MIN = - 9223372036854775808"
definition INT_MAX :: int where "INT_MAX = 2147483647"
definition INT_MIN :: int where "INT_MIN = - 2147483648"

text \<open>
  \<open>strtol(s, &end, 10)\<close> on a NUL-terminated string: optional white space, an optional sign,
  decimal digits. The result is the (clamped) value, the number of characters consumed
  (0 when no conversion was possible, \<open>end == s\<close>) and whether \<open>errno\<close> was set to \<open>ERANGE\<close>.
\<close>

record strtol_result =
  st_num :: int
  st_used :: nat
  st_erange :: bool

definition clamp_long :: "int \<Rightarrow> int" where
  "clamp_long i = (if i < LONG_MIN then LONG_MIN else if LONG_MAX < i then LONG_MAX else i)"

definition strtol10 :: "string \<Rightarrow> strtol_result" where
  "strtol10 s =
     (let ws = takeWhile isspace s;
          r1 = drop (length ws) s;
          neg = (case r1 of c # _ \<Rightarrow> c = CHR ''-'' | [] \<Rightarrow> False);
          sg = (case r1 of c # _ \<Rightarrow> if c = CHR ''-'' \<or> c = CHR ''+'' then 1 else 0 | [] \<Rightarrow> 0);
          ds = takeWhile isdigit (drop sg r1);
          v = (if neg then - digits_val 0 ds else digits_val 0 ds)
      in if ds = [] then \<lparr>st_num = 0, st_used = 0, st_erange = False\<rparr>
         else \<lparr>st_num = clamp_long v, st_used = length ws + sg + length ds,
               st_erange = (clamp_long v \<noteq> v)\<rparr>)"

text \<open>\<open>std::stol\<close> and \<open>std::stoi\<close>: \<open>strtol\<close> with the failures as exceptions.\<close>

definition stol :: "string \<Rightarrow> int res" where
  "stol s =
     (let r = strtol10 (c_str s)
      in if st_used r = 0 then Inl InvalidArgument
         else if st_erange r then Inl OutOfRange else Inr (st_num r))"

definition stoi :: "string \<Rightarrow> int res" where
  "stoi s =
     (case stol s of
        Inl e \<Rightarrow> Inl e
      | Inr v \<Rightarrow> if v < INT_MIN \<or> INT_MAX < v then Inl OutOfRange else Inr v)"

text \<open>\<open>atoi\<close> as glibc has it: the low 32 bits of \<open>strtol\<close>, 0 when there is no number.\<close>

definition atoi :: "string \<Rightarrow> int" where
  "atoi s = (let v = st_num (strtol10 (c_str s)) mod 4294967296
             in if v < 2147483648 then v else v - 4294967296)"

lemmas char_class_defs [char_class] =
  isspace_def isdigit_def islower_def isupper_def isalnum_def

subsection \<open>Facts about searching and slicing\<close>

lemma index_of_None [simp]: "index_of P xs = None \<longleftrightarrow> (\<forall>x \<in> set xs. \<not> P x)"
  by (induction xs) auto

lemma index_of_Some_less: "index_of P xs = Some i \<Longrightarrow> i < length xs"
  by (induction xs arbitrary: i) (auto split: if_splits)

lemma index_of_Some_nth: "index_of P xs = Some i \<Longrightarrow> P (xs ! i)"
  by (induction xs arbitrary: i) (auto split: if_splits)

lemma index_of_take: "index_of P xs = Some i \<Longrightarrow> take i xs = takeWhile (\<lambda>x. \<not> P x) xs"
  by (induction xs arbitrary: i) (auto split: if_splits)

lemma index_of_append:
  "\<forall>x \<in> set xs. \<not> P x \<Longrightarrow> P y \<Longrightarrow> index_of P (xs @ y # ys) = Some (length xs)"
  by (induction xs) auto

lemma find_char_Some_bounds: "find_char c s pos = Some i \<Longrightarrow> pos \<le> i \<and> i < length s"
  by (auto simp: find_char_def dest: index_of_Some_less)

lemma is_prefix_append [simp]: "is_prefix xs (xs @ ys)"
  by (induction xs) auto

lemma is_prefix_iff: "is_prefix xs ys \<longleftrightarrow> (\<exists>zs. ys = xs @ zs)"
  by (induction xs ys rule: is_prefix.induct) auto

lemma find_sub_bound: "find_sub pat s = Some i \<Longrightarrow> i + length pat \<le> length s"
proof (induction s arbitrary: i)
  case Nil
  then show ?case by (auto split: if_splits)
next
  case (Cons y ys)
  then show ?case by (fastforce simp: is_prefix_iff split: if_splits dest: arg_cong [of _ _ length])
qed

lemma find_str_bounds:
  "find_str pat s pos = Some i \<Longrightarrow> pos \<le> i \<and> i + length pat \<le> length s"
  by (auto simp: find_str_def split: if_splits dest: find_sub_bound)

lemma length_sub_at [simp]: "length (sub_at s pos n) = min n (length s - pos)"
  by (simp add: sub_at_def)

lemma c_str_no_nul: "NUL \<notin> set s \<Longrightarrow> c_str s = s"
  unfolding c_str_def by (rule takeWhile_eq_all_conv [THEN iffD2]) auto

subsection \<open>Facts about characters and decimal numbers\<close>

lemma char_val_less [simp]: "char_val c < 256"
proof -
  have "char_val c mod 256 = char_val c"
    using of_char_of [of "of_char c :: nat"] by (simp add: char_val_def)
  then show ?thesis using mod_less_divisor [of 256 "char_val c"] by simp
qed

lemma char_val_char_of [simp]: "n < 256 \<Longrightarrow> char_val (char_of n) = n"
  by (simp add: char_val_def of_char_of take_bit_nat_eq_self_iff)

lemma char_of_char_val [simp]: "char_of (char_val c) = c"
  by (simp add: char_val_def)

lemma char_val_inject [simp]: "char_val a = char_val b \<longleftrightarrow> a = b"
  by (simp add: char_val_def)

lemma isdigit_char_of [simp]: "(k::nat) < 10 \<Longrightarrow> isdigit (char_of (48 + k))"
  by (simp add: isdigit_def)

lemma digit_val_char_of [simp]: "k < 10 \<Longrightarrow> digit_val (char_of (48 + k)) = int k"
  by (simp add: digit_val_def)

lemma nat_digits_nonempty [simp]: "nat_digits n \<noteq> []"
  by (subst nat_digits.simps) simp

lemma nat_digits_isdigit: "c \<in> set (nat_digits n) \<Longrightarrow> isdigit c"
proof (induction n rule: nat_digits.induct)
  case (1 n)
  then show ?case by (cases "n < 10") (auto simp: nat_digits.simps [of n])
qed

lemma digits_val_append: "digits_val acc (xs @ ys) = digits_val (digits_val acc xs) ys"
  by (induction xs arbitrary: acc) auto

lemma digits_val_nat_digits [simp]: "digits_val 0 (nat_digits n) = int n"
proof (induction n rule: nat_digits.induct)
  case (1 n)
  then show ?case
    by (cases "n < 10") (simp_all add: nat_digits.simps [of n] digits_val_append, presburger)
qed

lemma isdigit_not_space [simp]: "isdigit c \<Longrightarrow> \<not> isspace c"
  by (auto simp: char_class)

lemma takeWhile_isdigit_nat_digits:
  "(case rest of c # _ \<Rightarrow> \<not> isdigit c | [] \<Rightarrow> True) \<Longrightarrow>
   takeWhile isdigit (nat_digits n @ rest) = nat_digits n"
  by (subst takeWhile_append2) (auto simp: nat_digits_isdigit split: list.splits)

lemma nat_digits_hd: "\<exists>c cs. nat_digits n = c # cs \<and> isdigit c"
  by (metis list.exhaust list.set_intros(1) nat_digits_isdigit nat_digits_nonempty)

lemma isdigit_not_sign [simp]: "isdigit c \<Longrightarrow> c \<noteq> CHR ''-'' \<and> c \<noteq> CHR ''+''"
  by (auto simp: char_class char_val_def)

text \<open>Printing a number and reading it back, whatever follows it.\<close>

lemma strtol10_nat_digits:
  assumes "case rest of c # _ \<Rightarrow> \<not> isdigit c | [] \<Rightarrow> True" and "int n \<le> LONG_MAX"
  shows "strtol10 (nat_digits n @ rest) =
    \<lparr>st_num = int n, st_used = length (nat_digits n), st_erange = False\<rparr>"
proof -
  obtain c cs where c: "nat_digits n = c # cs" "isdigit c" using nat_digits_hd by blast
  have t: "takeWhile isdigit (c # cs @ rest) = c # cs"
    using takeWhile_isdigit_nat_digits [OF assms(1), of n] by (simp add: c(1))
  have v: "digits_val 0 (c # cs) = int n" using digits_val_nat_digits [of n] by (simp only: c(1))
  have "clamp_long (int n) = int n" using assms(2) by (simp add: clamp_long_def LONG_MIN_def)
  then show ?thesis using c(2) t v by (simp add: strtol10_def c(1) Let_def)
qed

end
