(* ===== verification/String_View.thy ===== *)
theory String_View
  imports Cpp_Prelude
begin

text \<open>
  The back port of \<open>std::string_view\<close> in \<open>opentelemetry/nostd/string_view.h\<close>. A view is its bytes
  (a \<open>string\<close>): the pair of a data pointer and a length that the class stores is only ever read
  through them. \<open>substr\<close> throws \<open>std::out_of_range\<close> past the end and is the only operation that
  can fail. The three-way comparison is shown to be a linear order whose equality is the
  equality of the bytes.
\<close>

subsection \<open>Construction and access\<close>

definition sv_of_cstr :: "string \<Rightarrow> string" where
  "sv_of_cstr str = c_str str"

definition sv_of_ptr_len :: "string \<Rightarrow> nat \<Rightarrow> string" where
  "sv_of_ptr_len str len = take len str"

definition sv_size :: "string \<Rightarrow> nat" where
  "sv_size s = length s"

definition sv_empty :: "string \<Rightarrow> bool" where
  "sv_empty s \<longleftrightarrow> length s = 0"

text \<open>The count \<open>npos\<close> is \<^term>\<open>None\<close>.\<close>

definition sv_substr :: "string \<Rightarrow> nat \<Rightarrow> nat option \<Rightarrow> string res" where
  "sv_substr s pos n =
     (if pos > length s then Inl OutOfRange
      else let n' = (case n of None \<Rightarrow> length s - pos | Some m \<Rightarrow> min m (length s - pos))
           in Inr (take n' (drop pos s)))"

definition sv_find :: "string \<Rightarrow> char \<Rightarrow> nat \<Rightarrow> nat option" where
  "sv_find s ch pos = (if pos < length s then find_char ch s pos else None)"

subsection \<open>Comparison\<close>

text \<open>\<open>char_traits<char>::compare\<close> on the first \<open>len\<close> bytes: the sign of the first difference.\<close>

fun traits_compare :: "string \<Rightarrow> string \<Rightarrow> nat \<Rightarrow> int" where
  "traits_compare (a # as) (b # bs) (Suc n) =
     (if char_val a < char_val b then - 1
      else if char_val b < char_val a then 1 else traits_compare as bs n)"
| "traits_compare _ _ _ = 0"

definition sv_compare :: "string \<Rightarrow> string \<Rightarrow> int" where
  "sv_compare s v =
     (let len = min (length s) (length v);
          result = traits_compare s v len
      in if result = 0
         then (if length s = length v then 0 else if length s < length v then - 1 else 1)
         else result)"

definition sv_compare_sub :: "string \<Rightarrow> nat \<Rightarrow> nat \<Rightarrow> string \<Rightarrow> int res" where
  "sv_compare_sub s pos1 count1 v =
     (case sv_substr s pos1 (Some count1) of Inl e \<Rightarrow> Inl e | Inr a \<Rightarrow> Inr (sv_compare a v))"

definition sv_compare_sub2 :: "string \<Rightarrow> nat \<Rightarrow> nat \<Rightarrow> string \<Rightarrow> nat \<Rightarrow> nat \<Rightarrow> int res" where
  "sv_compare_sub2 s pos1 count1 v pos2 count2 =
     (case sv_substr s pos1 (Some count1) of
        Inl e \<Rightarrow> Inl e
      | Inr a \<Rightarrow> (case sv_substr v pos2 (Some count2) of
                    Inl e \<Rightarrow> Inl e
                  | Inr b \<Rightarrow> Inr (sv_compare a b)))"

definition sv_compare_cstr_sub :: "string \<Rightarrow> nat \<Rightarrow> nat \<Rightarrow> string \<Rightarrow> int res" where
  "sv_compare_cstr_sub s pos1 count1 p = sv_compare_sub s pos1 count1 (sv_of_cstr p)"

definition sv_compare_ptr_sub :: "string \<Rightarrow> nat \<Rightarrow> nat \<Rightarrow> string \<Rightarrow> nat \<Rightarrow> int res" where
  "sv_compare_ptr_sub s pos1 count1 p count2 =
     sv_compare_sub s pos1 count1 (sv_of_ptr_len p count2)"

definition sv_less :: "string \<Rightarrow> string \<Rightarrow> bool" where
  "sv_less s v \<longleftrightarrow> sv_compare s v < 0"

definition sv_greater :: "string \<Rightarrow> string \<Rightarrow> bool" where
  "sv_greater s v \<longleftrightarrow> sv_compare s v > 0"

text \<open>\<open>operator==\<close>: equal lengths and \<open>std::equal\<close> on the bytes of the left view.\<close>

fun std_equal :: "string \<Rightarrow> string \<Rightarrow> bool" where
  "std_equal [] _ = True"
| "std_equal (a # as) (b # bs) = (a = b \<and> std_equal as bs)"
| "std_equal (a # as) [] = False"

definition sv_eq :: "string \<Rightarrow> string \<Rightarrow> bool" where
  "sv_eq lhs rhs \<longleftrightarrow> length lhs = length rhs \<and> std_equal lhs rhs"

definition sv_neq :: "string \<Rightarrow> string \<Rightarrow> bool" where
  "sv_neq lhs rhs \<longleftrightarrow> \<not> sv_eq lhs rhs"

subsection \<open>Laws\<close>

lemma sv_eq_iff [simp]: "sv_eq a b \<longleftrightarrow> a = b"
proof -
  have "length a = length b \<Longrightarrow> std_equal a b \<longleftrightarrow> a = b"
    by (induction a b rule: list_induct2) auto
  then show ?thesis by (auto simp: sv_eq_def)
qed

lemma sv_neq_iff [simp]: "sv_neq a b \<longleftrightarrow> a \<noteq> b"
  by (simp add: sv_neq_def)

lemma sv_compare_Nil [simp]:
  "sv_compare [] b = (if b = [] then 0 else - 1)"
  "sv_compare a [] = (if a = [] then 0 else 1)"
  by (cases a; cases b; simp add: sv_compare_def)+

lemma sv_compare_Cons [simp]:
  "sv_compare (a # as) (b # bs) =
     (if char_val a < char_val b then - 1
      else if char_val b < char_val a then 1 else sv_compare as bs)"
  by (simp add: sv_compare_def)

lemma sv_compare_range: "sv_compare a b \<in> {- 1, 0, 1}"
  by (induction a b rule: list_induct2') (auto split: if_splits)

lemma sv_compare_swap: "sv_compare b a = - sv_compare a b"
  by (induction a b rule: list_induct2') (auto split: if_splits)

lemma sv_compare_eq_0 [simp]: "sv_compare a b = 0 \<longleftrightarrow> a = b"
  by (induction a b rule: list_induct2') (auto split: if_splits)

lemma sv_compare_refl [simp]: "sv_compare a a = 0"
  by simp

lemma sv_compare_trans: "sv_compare a b \<le> 0 \<Longrightarrow> sv_compare b c \<le> 0 \<Longrightarrow> sv_compare a c \<le> 0"
proof (induction a arbitrary: b c)
  case Nil
  then show ?case by simp
next
  case (Cons x xs)
  then obtain y ys where b: "b = y # ys" by (cases b) (auto split: if_splits)
  with Cons.prems obtain z zs where c: "c = z # zs" by (cases c) (auto split: if_splits)
  from Cons b c show ?case by (fastforce split: if_splits)
qed

text \<open>The views are linearly ordered by \<open>compare\<close>, as the \<open>std::map\<close>s keyed by them need.\<close>

interpretation sv: linorder "\<lambda>a b. sv_compare a b \<le> 0" sv_less
proof
  fix x y z :: string
  show "sv_less x y \<longleftrightarrow> sv_compare x y \<le> 0 \<and> \<not> sv_compare y x \<le> 0"
    using sv_compare_swap [of x y] by (auto simp: sv_less_def)
  show "sv_compare x x \<le> 0" by simp
  show "sv_compare x y \<le> 0 \<Longrightarrow> sv_compare y z \<le> 0 \<Longrightarrow> sv_compare x z \<le> 0"
    by (rule sv_compare_trans)
  show "sv_compare x y \<le> 0 \<Longrightarrow> sv_compare y x \<le> 0 \<Longrightarrow> x = y"
    using sv_compare_swap [of x y] sv_compare_eq_0 [of x y] by linarith
  show "sv_compare x y \<le> 0 \<or> sv_compare y x \<le> 0"
    using sv_compare_swap [of x y] by linarith
qed

lemma sv_substr_ok [simp]:
  "pos \<le> length s \<Longrightarrow> sv_substr s pos (Some n) = Inr (take n (drop pos s))"
  "pos \<le> length s \<Longrightarrow> sv_substr s pos None = Inr (drop pos s)"
  by (auto simp: sv_substr_def min_def)

lemma sv_substr_fails: "sv_substr s pos n = Inl e \<longleftrightarrow> pos > length s \<and> e = OutOfRange"
  by (auto simp: sv_substr_def Let_def)

lemma sv_find_Some:
  "sv_find s ch pos = Some i \<longleftrightarrow>
     pos \<le> i \<and> i < length s \<and> s ! i = ch \<and> (\<forall>j. pos \<le> j \<and> j < i \<longrightarrow> s ! j \<noteq> ch)"
proof -
  have *: "index_of P xs = Some k \<longleftrightarrow> k < length xs \<and> P (xs ! k) \<and> (\<forall>j<k. \<not> P (xs ! j))"
    for P and xs :: "char list" and k
    by (induction xs arbitrary: k) (auto simp: less_Suc_eq_0_disj nth_Cons split: nat.splits if_splits)
  show ?thesis (is "?L = ?R")
  proof
    assume ?L
    then obtain k where k: "i = pos + k" "index_of (\<lambda>x. x = ch) (drop pos s) = Some k"
      by (auto simp: sv_find_def find_char_def split: if_splits)
    from k(2) have "pos \<le> length s" by (auto dest: index_of_Some_less)
    with k show ?R unfolding * by (auto simp: le_iff_add)
  next
    assume R: ?R
    then have "index_of (\<lambda>x. x = ch) (drop pos s) = Some (i - pos)" unfolding * by auto
    with R show ?L by (auto simp: sv_find_def find_char_def)
  qed
qed

lemma sv_compare_lexord: "sv_compare a b < 0 \<longleftrightarrow> (a, b) \<in> lexord {(x, y). char_val x < char_val y}"
  by (induction a b rule: list_induct2') (auto split: if_splits)

subsection \<open>Properties\<close>

text \<open>Comparing and searching string views. \<open>operator<\<close> is the lexicographic order of the bytes as
  unsigned numbers, \<open>compare\<close> is 0 exactly on equal views and changes sign with its arguments; \<open>find\<close>
  returns the first occurrence at or after the position; \<open>substr\<close> throws exactly when the position is past the end.\<close>

theorem string_view_operations:
  "(sv_less a b \<longleftrightarrow> (a, b) \<in> lexord {(x, y). char_val x < char_val y}) \<and>
   (sv_compare a b = 0 \<longleftrightarrow> a = b) \<and> sv_compare b a = - sv_compare a b \<and> (sv_eq a b \<longleftrightarrow> a = b) \<and>
   (sv_find s ch pos = Some i \<longleftrightarrow>
      pos \<le> i \<and> i < length s \<and> s ! i = ch \<and> list_all (\<lambda>j. s ! j \<noteq> ch) [pos..<i]) \<and>
   (sv_substr s pos n = Inl e \<longleftrightarrow> pos > length s \<and> e = OutOfRange)"
  using sv_compare_lexord [of a b] sv_compare_swap [of b a] sv_substr_fails [of s pos n e]
  by (auto simp: sv_less_def sv_find_Some list_all_iff)

end
