(* ===== verification/Hex_Codec.thy ===== *)
theory Hex_Codec
  imports String_View
begin

unbundle bit_operations_syntax

text \<open>
  \<open>opentelemetry/trace/propagation/detail/hex.h\<close> and \<open>string.h\<close>: the hexadecimal decoder and the
  bounded field splitter that every header propagator uses. \<open>HexToBinary\<close> fills a byte buffer in
  place through running indices; it is shown to decode the byte pairs of its input, left padded
  with zero bytes, and to invert the base16 printers of theory \<open>Trace_Ids\<close>. \<open>SplitString\<close> is
  shown to return the first \<open>count\<close> fields of the unbounded split.
\<close>

subsection \<open>hex.h\<close>

definition kHexDigits :: "int list" where
  "kHexDigits =
     replicate 48 (- 1) @ [0, 1, 2, 3, 4, 5, 6, 7, 8, 9] @ replicate 7 (- 1)
     @ [10, 11, 12, 13, 14, 15] @ replicate 26 (- 1) @ [10, 11, 12, 13, 14, 15]
     @ replicate 153 (- 1)"

definition HexToInt :: "char \<Rightarrow> int" where
  "HexToInt c = kHexDigits ! char_val c"

definition IsValidHex :: "string \<Rightarrow> bool" where
  "IsValidHex s \<longleftrightarrow> list_all (\<lambda>c. HexToInt c \<noteq> - 1) s"

text \<open>The byte written for two digits: \<open>(HexToInt(hi) << 4) | HexToInt(lo)\<close> cut to 8 bits.\<close>

definition hex_byte :: "char \<Rightarrow> char \<Rightarrow> u8" where
  "hex_byte hi lo = word_of_int (push_bit 4 (HexToInt hi) OR HexToInt lo)"

function hex_loop :: "string \<Rightarrow> nat \<Rightarrow> nat \<Rightarrow> u8 list \<Rightarrow> u8 list" where
  "hex_loop hex i buffer_pos buffer =
     (if int i < int (length hex) - 1
      then hex_loop hex (i + 2) (buffer_pos + 1)
             (buffer[buffer_pos := hex_byte (hex ! i) (hex ! (i + 1))])
      else buffer)"
  by pat_completeness auto
termination
  by (relation "measure (\<lambda>(hex, i, p, b). length hex - i)") auto

declare hex_loop.simps [simp del]

definition HexToBinary :: "string \<Rightarrow> nat \<Rightarrow> bool \<times> u8 list" where
  "HexToBinary hex buffer_size =
     (let buffer = replicate buffer_size 0
      in if length hex > buffer_size * 2 then (False, buffer)
         else let buffer_pos = buffer_size - (length hex + 1) div 2
              in if length hex mod 2 = 1
                 then (True, hex_loop hex 1 (buffer_pos + 1)
                               (buffer[buffer_pos := word_of_int (HexToInt (hex ! 0))]))
                 else (True, hex_loop hex 0 buffer_pos buffer))"

subsection \<open>string.h\<close>

text \<open>The loop of \<open>SplitString\<close>; \<open>filled\<close> is the length of the results so far.\<close>

function split_loop :: "string \<Rightarrow> char \<Rightarrow> nat \<Rightarrow> nat \<Rightarrow> nat \<Rightarrow> string list \<Rightarrow> string list" where
  "split_loop s sep count i token_start results =
     (if i < length s
      then (if s ! i \<noteq> sep then split_loop s sep count (i + 1) token_start results
            else let results' = results @ [sub_at s token_start (i - token_start)]
                 in if length results' = count then results'
                    else split_loop s sep count (i + 1) (i + 1) results')
      else if length results < count then results @ [drop token_start s] else results)"
  by pat_completeness auto
termination
  by (relation "measure (\<lambda>(s, sep, count, i, t, r). length s - i)") auto

declare split_loop.simps [simp del]

definition SplitString :: "string \<Rightarrow> char \<Rightarrow> nat \<Rightarrow> string list" where
  "SplitString s sep count = (if count = 0 then [] else split_loop s sep count 0 0 [])"

subsection \<open>Reference definitions\<close>

text \<open>The bytes spelled by an even number of digits, and the unbounded split.\<close>

fun hex_pairs :: "string \<Rightarrow> u8 list" where
  "hex_pairs (a # b # r) = hex_byte a b # hex_pairs r"
| "hex_pairs _ = []"

text \<open>The number that a hexadecimal string spells, and the number that a buffer holds in network order.\<close>

definition hex_number :: "string \<Rightarrow> int" where
  "hex_number s = foldl (\<lambda>n c. 16 * n + HexToInt c) 0 s"

definition be_number :: "u8 list \<Rightarrow> int" where
  "be_number bs = foldl (\<lambda>n b. 256 * n + uint b) 0 bs"

fun join_with :: "char \<Rightarrow> string list \<Rightarrow> string" where
  "join_with sep [] = []"
| "join_with sep [a] = a"
| "join_with sep (a # b # r) = a @ sep # join_with sep (b # r)"

fun split_all :: "char \<Rightarrow> string \<Rightarrow> string list" where
  "split_all sep [] = [[]]"
| "split_all sep (c # cs) =
     (if c = sep then [] # split_all sep cs
      else (case split_all sep cs of [] \<Rightarrow> [[c]] | t # ts \<Rightarrow> (c # t) # ts))"

subsection \<open>Decoding\<close>

lemma length_kHexDigits [simp]: "length kHexDigits = 256"
  by (simp add: kHexDigits_def)

lemma HexToInt_zero: "HexToInt CHR ''0'' = 0"
  by (simp add: HexToInt_def kHexDigits_def char_val_def nth_append)

lemma length_hex_pairs [simp]: "length (hex_pairs s) = length s div 2"
  by (induction s rule: hex_pairs.induct) auto

lemma hex_pairs_drop:
  "Suc i < length s \<Longrightarrow> hex_pairs (drop i s) = hex_byte (s ! i) (s ! Suc i) # hex_pairs (drop (i + 2) s)"
  by (simp add: Cons_nth_drop_Suc [symmetric] numeral_2_eq_2)

lemma hex_loop_eq:
  assumes "even (length hex - i)" and "p + (length hex - i) div 2 \<le> length buf"
  shows "hex_loop hex i p buf =
    take p buf @ hex_pairs (drop i hex) @ drop (p + (length hex - i) div 2) buf"
  using assms
proof (induction hex i p buf rule: hex_loop.induct)
  case (1 hex i p buf)
  show ?case
  proof (cases "Suc i < length hex")
    case True
    let ?b = "buf[p := hex_byte (hex ! i) (hex ! (i + 1))]"
    have len: "length hex - i = Suc (Suc (length hex - (i + 2)))" using True by simp
    then have half: "(length hex - i) div 2 = Suc ((length hex - (i + 2)) div 2)" by simp
    with "1.prems"(2) have p: "p < length buf" by simp
    have "hex_loop hex (i + 2) (p + 1) ?b = take (p + 1) ?b @ hex_pairs (drop (i + 2) hex)
        @ drop (p + 1 + (length hex - (i + 2)) div 2) ?b"
      using "1.IH" True "1.prems" len half by simp
    moreover have "take (p + 1) ?b = take p buf @ [hex_byte (hex ! i) (hex ! (i + 1))]"
      using p by (simp add: take_Suc_conv_app_nth)
    ultimately show ?thesis
      using True half by (simp add: hex_loop.simps [of hex i] hex_pairs_drop del: drop_drop)
  next
    case False
    with "1.prems"(1) have "length hex \<le> i" by presburger
    then show ?thesis by (simp add: hex_loop.simps [of hex i])
  qed
qed

text \<open>What \<open>HexToBinary\<close> leaves in the buffer.\<close>

lemma HexToBinary_even:
  "length hex \<le> 2 * n \<Longrightarrow> even (length hex) \<Longrightarrow>
   HexToBinary hex n = (True, replicate (n - length hex div 2) 0 @ hex_pairs hex)"
  by (auto simp: HexToBinary_def Let_def hex_loop_eq min_def elim!: evenE)

lemma HexToBinary_odd:
  assumes "length hex \<le> 2 * n" and "odd (length hex)"
  shows "HexToBinary hex n =
    (True, replicate (n - (length hex + 1) div 2) 0 @ hex_pairs (CHR ''0'' # hex))"
proof -
  from assms(2) obtain c r where hex: "hex = c # r" by (cases hex) auto
  with assms have ev: "even (length r)" and le: "length r div 2 < n" by (auto elim!: evenE)
  let ?p = "n - Suc (length r div 2)"
  have "hex_loop hex 1 (?p + 1) ((replicate n 0)[?p := word_of_int (HexToInt c)]) =
      take (?p + 1) ((replicate n 0)[?p := word_of_int (HexToInt c)]) @ hex_pairs r"
    using ev le by (subst hex_loop_eq) (auto simp: hex)
  also have "\<dots> = replicate ?p 0 @ hex_byte CHR ''0'' c # hex_pairs r"
    using le by (simp add: take_Suc_conv_app_nth hex_byte_def HexToInt_zero)
  finally show ?thesis
    using assms ev le by (simp add: HexToBinary_def Let_def hex mod_2_eq_odd)
qed

lemma HexToBinary_too_long: "length hex > 2 * n \<Longrightarrow> HexToBinary hex n = (False, replicate n 0)"
  by (simp add: HexToBinary_def Let_def)

lemma length_HexToBinary [simp]: "length (snd (HexToBinary hex n)) = n"
proof (cases "length hex \<le> 2 * n")
  case True
  then show ?thesis
    by (cases "even (length hex)") (auto simp: HexToBinary_even HexToBinary_odd elim!: evenE oddE)
qed (simp add: HexToBinary_too_long)

subsection \<open>Splitting\<close>

lemma join_with_Cons: "join_with sep (a # r) = (if r = [] then a else a @ sep # join_with sep r)"
  by (cases r) auto

lemma split_all_nonempty [simp]: "split_all sep s \<noteq> []"
  by (cases s) (auto split: list.splits)

lemma split_all_no_sep: "sep \<notin> set s \<Longrightarrow> split_all sep s = [s]"
  by (induction s) auto

lemma split_all_append_sep:
  "sep \<notin> set a \<Longrightarrow> split_all sep (a @ sep # b) = a # split_all sep b"
  by (induction a) auto

lemma split_loop_eq:
  assumes "token_start \<le> i" and "i \<le> length s" and "length results < count"
    and "sep \<notin> set (sub_at s token_start (i - token_start))"
  shows "split_loop s sep count i token_start results =
    results @ take (count - length results) (split_all sep (drop token_start s))"
  using assms
proof (induction s sep count i token_start results rule: split_loop.induct)
  case (1 s sep count i token_start results)
  let ?tok = "sub_at s token_start (i - token_start)"
  show ?case
  proof (cases "i < length s")
    case False
    with "1.prems" have "?tok = drop token_start s" by (simp add: sub_at_def)
    with False "1.prems" show ?thesis
      by (subst split_loop.simps) (simp add: split_all_no_sep take_Cons')
  next
    case i: True
    have step: "drop token_start s = ?tok @ s ! i # drop (i + 1) s"
      using i "1.prems"(1) unfolding sub_at_def
      by (metis Cons_nth_drop_Suc Suc_eq_plus1 append_take_drop_id drop_drop le_add_diff_inverse2)
    show ?thesis
    proof (cases "s ! i = sep")
      case False
      have "sub_at s token_start (i + 1 - token_start) = ?tok @ [s ! i]"
        using i "1.prems"(1) by (simp add: sub_at_def Suc_diff_le take_Suc_conv_app_nth)
      with False i "1.IH"(1) "1.prems" show ?thesis
        by (simp add: split_loop.simps [of s sep count i])
    next
      case True
      have all: "split_all sep (drop token_start s) = ?tok # split_all sep (drop (i + 1) s)"
        using "1.prems"(4) by (subst step) (simp add: True split_all_append_sep)
      show ?thesis
      proof (cases "length results + 1 = count")
        case False
        with True i "1.IH"(2) "1.prems" have
          "split_loop s sep count (i + 1) (i + 1) (results @ [?tok]) =
           (results @ [?tok]) @ take (count - length (results @ [?tok])) (split_all sep (drop (i + 1) s))"
          by (simp add: sub_at_def)
        with False True i "1.prems"(3) show ?thesis
          by (simp add: split_loop.simps [of s sep count i] all take_Cons')
      qed (use True i in \<open>auto simp: split_loop.simps [of s sep count i] all take_Cons'\<close>)
    qed
  qed
qed

lemma SplitString_eq: "SplitString s sep count = take count (split_all sep s)"
  by (simp add: SplitString_def split_loop_eq sub_at_def)

lemma split_all_Cons_ConsD:
  "split_all sep s = a # b # r \<Longrightarrow> \<exists>s'. s = a @ sep # s' \<and> split_all sep s' = b # r \<and> sep \<notin> set a"
proof (induction sep s arbitrary: a rule: split_all.induct)
  case (2 sep c cs)
  show ?case
  proof (cases "c = sep")
    case False
    obtain a' where a: "a = c # a'" "split_all sep cs = a' # b # r"
      using "2.prems" False by (auto split: list.splits)
    from "2.IH"(2) [OF False a(2)] show ?thesis using a(1) False by auto
  qed (use "2.prems" in auto)
qed simp

lemma split_all_singleD: "split_all sep s = [a] \<Longrightarrow> s = a \<and> sep \<notin> set a"
  by (induction sep s arbitrary: a rule: split_all.induct) (auto split: list.splits if_splits)

lemma join_split_all: "join_with sep (split_all sep s) = s"
  by (induction s) (auto split: list.splits elim: join_with.elims simp: join_with_Cons)

subsection \<open>The number decoded\<close>

lemma HexToInt_range: "HexToInt c \<noteq> - 1 \<Longrightarrow> 0 \<le> HexToInt c \<and> HexToInt c < 16"
proof -
  assume "HexToInt c \<noteq> - 1"
  moreover have "HexToInt c \<in> set kHexDigits" unfolding HexToInt_def by (intro nth_mem) simp
  moreover have "\<forall>x \<in> set kHexDigits. x = - 1 \<or> 0 \<le> x \<and> x < 16" by (auto simp: kHexDigits_def)
  ultimately show ?thesis by blast
qed

lemma nibble_or:
  assumes "0 \<le> y" and "y < (16::int)"
  shows "push_bit 4 x OR y = 16 * x + y"
proof -
  have "take_bit 4 y = y" using assms by (simp add: take_bit_int_eq_self_iff)
  moreover have "push_bit 4 x AND take_bit 4 y = 0" by (rule bit_eqI) (auto simp: bit_simps)
  ultimately have "push_bit 4 x AND y = 0" by simp
  then have "push_bit 4 x + y = push_bit 4 x OR y" by (rule disjunctive_add_eq_or)
  then show ?thesis by (simp add: push_bit_eq_mult)
qed

lemma uint_hex_byte:
  assumes "HexToInt a \<noteq> - 1" and "HexToInt b \<noteq> - 1"
  shows "uint (hex_byte a b) = 16 * HexToInt a + HexToInt b"
proof -
  note r = HexToInt_range [OF assms(1)] HexToInt_range [OF assms(2)]
  then have "hex_byte a b = word_of_int (16 * HexToInt a + HexToInt b)" by (simp only: hex_byte_def nibble_or)
  then show ?thesis using r by (simp only: uint_word_of_int) (simp add: take_bit_int_eq_self_iff)
qed

lemma be_number_hex_pairs:
  assumes "even (length s)" and "IsValidHex s"
  shows "be_number (hex_pairs s) = hex_number s"
proof -
  have "foldl (\<lambda>n b. 256 * n + uint b) n (hex_pairs s) = foldl (\<lambda>n c. 16 * n + HexToInt c) n s" for n
    using assms
    by (induction s arbitrary: n rule: hex_pairs.induct) (auto simp: IsValidHex_def uint_hex_byte algebra_simps)
  then show ?thesis by (simp add: be_number_def hex_number_def)
qed

lemma be_number_replicate [simp]: "be_number (replicate k 0 @ bs) = be_number bs"
proof -
  have "foldl (\<lambda>n b. 256 * n + uint b) 0 (replicate k (0 :: u8)) = 0" by (induction k) auto
  then show ?thesis by (simp add: be_number_def)
qed

lemma HexToBinary_number:
  assumes "IsValidHex hex" and "length hex \<le> 2 * n"
  shows "fst (HexToBinary hex n)" and "be_number (snd (HexToBinary hex n)) = hex_number hex"
proof -
  have z: "hex_number (CHR ''0'' # hex) = hex_number hex" "IsValidHex (CHR ''0'' # hex)"
    using assms(1) by (simp_all add: hex_number_def HexToInt_zero IsValidHex_def)
  show "fst (HexToBinary hex n)"
    using assms(2) by (cases "even (length hex)") (simp_all add: HexToBinary_even HexToBinary_odd)
  show "be_number (snd (HexToBinary hex n)) = hex_number hex"
    using assms z be_number_hex_pairs [of "CHR ''0'' # hex"]
    by (cases "even (length hex)") (simp_all add: HexToBinary_even HexToBinary_odd be_number_hex_pairs)
qed

subsection \<open>Properties\<close>

text \<open>\<open>HexToBinary\<close> fills the whole buffer, whatever the digits. Digits that fit (an odd number
  of them included) leave in it, in network order, the number they spell; too many digits are
  refused and leave zeros.\<close>

theorem hex_to_binary_number:
  "length (snd (HexToBinary hex n)) = n \<and>
   (fst (HexToBinary hex n) \<longleftrightarrow> length hex \<le> 2 * n) \<and>
   (IsValidHex hex \<and> length hex \<le> 2 * n \<longrightarrow> be_number (snd (HexToBinary hex n)) = hex_number hex) \<and>
   (length hex > 2 * n \<longrightarrow> snd (HexToBinary hex n) = replicate n 0)"
proof -
  have "fst (HexToBinary hex n) \<longleftrightarrow> length hex \<le> 2 * n"
    by (cases "even (length hex)"; cases "length hex \<le> 2 * n")
      (simp_all add: HexToBinary_even HexToBinary_odd HexToBinary_too_long)
  then show ?thesis using HexToBinary_number(2) [of hex n] by (simp add: HexToBinary_too_long)
qed

theorem hex_to_binary_number_witness:
  "be_number (snd (HexToBinary ''a0f'' 2)) = 2575 \<and> snd (HexToBinary ''12345'' 2) = [0, 0]"
proof -
  have "hex_number ''a0f'' = 2575" "IsValidHex ''a0f''" by code_simp+
  then show ?thesis
    using hex_to_binary_number [of "''a0f''" 2] hex_to_binary_number [of "''12345''" 2] by (simp add: numeral_2_eq_2)
qed

text \<open>\<open>SplitString\<close> returns the first \<open>count\<close> fields of the unbounded split, the fields have no
  separator in them, and joined together again they are the string.\<close>

theorem split_string_fields:
  "SplitString s sep count = take count (split_all sep s) \<and> join_with sep (split_all sep s) = s \<and>
   list_all (\<lambda>f. sep \<notin> set f) (split_all sep s)"
proof -
  have "list_all (\<lambda>f. sep \<notin> set f) (split_all sep s)" by (induction s) (auto split: list.splits)
  then show ?thesis by (simp add: SplitString_eq join_split_all)
qed

end
