(* ===== verification/Trace_Ids.thy ===== *)
theory Trace_Ids
  imports Hex_Codec
begin

text \<open>
  The identifiers of \<open>opentelemetry/trace\<close>: \<open>TraceId\<close> (\<open>trace_id.h\<close>), \<open>SpanId\<close> (\<open>span_id.h\<close>) and
  \<open>TraceFlags\<close> (\<open>trace_flags.h\<close>). The two identifier classes share a contract, the locale
  \<open>byte_id\<close>: a fixed number of bytes, printed in base16, valid when some byte is not zero. The
  propagators need one consequence, that decoding the printed form gives the identifier back; it
  is proved once in the locale.
\<close>

subsection \<open>TraceId\<close>

datatype trace_id = TraceId (tid_rep: "u8 list")

definition trace_id_kSize :: nat where "trace_id_kSize = 16"

definition trace_id_zero :: trace_id where
  "trace_id_zero = TraceId (replicate trace_id_kSize 0)"

definition trace_id_of_bytes :: "u8 list \<Rightarrow> trace_id" where
  "trace_id_of_bytes bs = TraceId (take trace_id_kSize bs)"

text \<open>Two digits per byte, high half first.\<close>

fun base16_loop :: "string \<Rightarrow> u8 list \<Rightarrow> string" where
  "base16_loop kHex [] = []"
| "base16_loop kHex (b # bs) =
     kHex ! unat (drop_bit 4 b AND 15) # kHex ! unat (b AND 15) # base16_loop kHex bs"

definition kHexLower :: string where "kHexLower = ''0123456789abcdef''"
definition kHexUpper :: string where "kHexUpper = ''0123456789ABCDEF''"

definition trace_id_ToLowerBase16 :: "trace_id \<Rightarrow> string" where
  "trace_id_ToLowerBase16 t = base16_loop kHexLower (tid_rep t)"

definition trace_id_eq :: "trace_id \<Rightarrow> trace_id \<Rightarrow> bool" where
  "trace_id_eq a b \<longleftrightarrow> take trace_id_kSize (tid_rep a) = take trace_id_kSize (tid_rep b)"

definition trace_id_IsValid :: "trace_id \<Rightarrow> bool" where
  "trace_id_IsValid t \<longleftrightarrow> \<not> trace_id_eq t trace_id_zero"

definition trace_id_CopyBytesTo :: "trace_id \<Rightarrow> u8 list" where
  "trace_id_CopyBytesTo t = take trace_id_kSize (tid_rep t)"

subsection \<open>SpanId\<close>

datatype span_id = SpanId (sid_rep: "u8 list")

definition span_id_kSize :: nat where "span_id_kSize = 8"

definition span_id_zero :: span_id where
  "span_id_zero = SpanId (replicate span_id_kSize 0)"

definition span_id_of_bytes :: "u8 list \<Rightarrow> span_id" where
  "span_id_of_bytes bs = SpanId (take span_id_kSize bs)"

definition span_id_ToLowerBase16 :: "span_id \<Rightarrow> string" where
  "span_id_ToLowerBase16 s = base16_loop kHexLower (sid_rep s)"

definition span_id_eq :: "span_id \<Rightarrow> span_id \<Rightarrow> bool" where
  "span_id_eq a b \<longleftrightarrow> take span_id_kSize (sid_rep a) = take span_id_kSize (sid_rep b)"

definition span_id_IsValid :: "span_id \<Rightarrow> bool" where
  "span_id_IsValid s \<longleftrightarrow> take span_id_kSize (sid_rep s) \<noteq> replicate span_id_kSize 0"

definition span_id_CopyBytesTo :: "span_id \<Rightarrow> u8 list" where
  "span_id_CopyBytesTo s = take span_id_kSize (sid_rep s)"

subsection \<open>TraceFlags\<close>

datatype trace_flags = TraceFlags (tf_rep: u8)

definition kIsSampled :: u8 where "kIsSampled = 1"
definition kIsRandom :: u8 where "kIsRandom = 2"
definition kAllW3CTraceContext1Flags :: u8 where "kAllW3CTraceContext1Flags = kIsSampled"
definition kAllW3CTraceContext2Flags :: u8 where
  "kAllW3CTraceContext2Flags = kIsSampled OR kIsRandom"

definition trace_flags_IsSampled :: "trace_flags \<Rightarrow> bool" where
  "trace_flags_IsSampled f \<longleftrightarrow> tf_rep f AND kIsSampled \<noteq> 0"

definition trace_flags_IsRandom :: "trace_flags \<Rightarrow> bool" where
  "trace_flags_IsRandom f \<longleftrightarrow> tf_rep f AND kIsRandom \<noteq> 0"

definition trace_flags_ToLowerBase16 :: "trace_flags \<Rightarrow> string" where
  "trace_flags_ToLowerBase16 f =
     [kHexUpper ! unat (drop_bit 4 (tf_rep f) AND 15), kHexUpper ! unat (tf_rep f AND 15)]"

definition wf_trace_id :: "trace_id \<Rightarrow> bool" where
  "wf_trace_id t \<longleftrightarrow> length (tid_rep t) = trace_id_kSize"

definition wf_span_id :: "span_id \<Rightarrow> bool" where
  "wf_span_id s \<longleftrightarrow> length (sid_rep s) = span_id_kSize"

subsection \<open>Printing and decoding bytes\<close>

definition hex_table :: "string \<Rightarrow> bool" where
  "hex_table tbl \<longleftrightarrow> (\<forall>k<16. HexToInt (tbl ! k) = int k)"

lemma all_less_16: "(\<forall>k<16. P k) \<longleftrightarrow> list_all P [0..<16]"
  by (auto simp: list_all_iff)

lemma hex_tables [simp]: "hex_table kHexLower" "hex_table kHexUpper"
  unfolding hex_table_def all_less_16
  by (simp_all add: HexToInt_def kHexDigits_def char_val_def nth_append kHexLower_def kHexUpper_def
      upt_conv_Cons)

lemma unat_nibble_less [simp]: "unat (b AND 15 :: u8) < 16"
proof -
  have "unat (b AND 15) \<le> unat (15 :: u8)"
    by (rule word_and_le1 [THEN word_le_nat_alt [THEN iffD1]])
  then show ?thesis by simp
qed

lemma nibbles_join: "push_bit 4 (drop_bit 4 b AND 15) OR (b AND 15) = (b :: u8)"
proof -
  have "x AND 15 = take_bit 4 x" for x :: u8
    by (simp add: take_bit_eq_mask mask_eq_exp_minus_1)
  then show ?thesis by (auto intro!: bit_word_eqI simp: bit_simps)
qed

lemma word_of_int_nibbles: "word_of_int (push_bit 4 (uint x) OR uint y) = push_bit 4 x OR (y :: u8)"
  by (rule bit_word_eqI) (auto simp: bit_simps)

lemma hex_byte_nibbles:
  assumes "hex_table tbl"
  shows "hex_byte (tbl ! unat (drop_bit 4 b AND 15)) (tbl ! unat (b AND 15)) = b"
proof -
  have "hex_byte (tbl ! unat (drop_bit 4 b AND 15)) (tbl ! unat (b AND 15)) =
      word_of_int (push_bit 4 (uint (drop_bit 4 b AND 15)) OR uint (b AND 15))"
    using assms by (simp add: hex_byte_def hex_table_def)
  also have "\<dots> = push_bit 4 (drop_bit 4 b AND 15) OR (b AND 15)"
    by (rule word_of_int_nibbles)
  finally show ?thesis by (simp only: nibbles_join)
qed

lemma length_base16_loop [simp]: "length (base16_loop tbl bs) = 2 * length bs"
  by (induction bs) auto

lemma hex_pairs_base16 [simp]: "hex_table tbl \<Longrightarrow> hex_pairs (base16_loop tbl bs) = bs"
  by (induction bs) (auto simp: hex_byte_nibbles)

lemma base16_HexToInt:
  "hex_table tbl \<Longrightarrow> c \<in> set (base16_loop tbl bs) \<Longrightarrow> 0 \<le> HexToInt c"
  by (induction bs) (auto simp: hex_table_def)

lemma IsValidHex_base16 [simp]: "hex_table tbl \<Longrightarrow> IsValidHex (base16_loop tbl bs)"
  unfolding IsValidHex_def list_all_iff by (auto dest: base16_HexToInt)

lemma HexToInt_separators [simp]:
  "HexToInt CHR ''-'' = - 1" "HexToInt CHR '':'' = - 1" "HexToInt CHR '' '' = - 1"
  by (simp_all add: HexToInt_def kHexDigits_def char_val_def nth_append)

lemma base16_no_separator [simp]:
  "hex_table tbl \<Longrightarrow> CHR ''-'' \<notin> set (base16_loop tbl bs)"
  "hex_table tbl \<Longrightarrow> CHR '':'' \<notin> set (base16_loop tbl bs)"
  by (auto dest: base16_HexToInt)

lemma HexToBinary_base16 [simp]:
  "hex_table tbl \<Longrightarrow> length bs = n \<Longrightarrow> HexToBinary (base16_loop tbl bs) n = (True, bs)"
  by (simp add: HexToBinary_even)

lemma trace_flags_base16: "trace_flags_ToLowerBase16 f = base16_loop kHexUpper [tf_rep f]"
  by (simp add: trace_flags_ToLowerBase16_def)

subsection \<open>The contract of the identifier classes\<close>

locale byte_id =
  fixes mk :: "u8 list \<Rightarrow> 'i" and rep :: "'i \<Rightarrow> u8 list" and kSize :: nat
    and to_base16 :: "'i \<Rightarrow> string" and is_valid :: "'i \<Rightarrow> bool" and zero :: 'i
  assumes mk_rep: "length (rep i) = kSize \<Longrightarrow> mk (rep i) = i"
    and rep_mk: "length b = kSize \<Longrightarrow> rep (mk b) = b"
    and printed: "to_base16 i = base16_loop kHexLower (rep i)"
    and valid_iff: "length (rep i) = kSize \<Longrightarrow> is_valid i \<longleftrightarrow> (\<exists>b \<in> set (rep i). b \<noteq> 0)"
    and rep_zero: "rep zero = replicate kSize 0"
begin

lemma from_hex_to_hex:
  "length (rep i) = kSize \<Longrightarrow> mk (snd (HexToBinary (to_base16 i) kSize)) = i"
  by (simp add: printed mk_rep)

lemma length_printed: "length (rep i) = kSize \<Longrightarrow> length (to_base16 i) = 2 * kSize"
  by (simp add: printed)

lemma valid_printed: "IsValidHex (to_base16 i)"
  by (simp add: printed)

lemma printed_no_separator: "CHR ''-'' \<notin> set (to_base16 i)" "CHR '':'' \<notin> set (to_base16 i)"
  by (simp_all add: printed)

lemma printed_inject:
  assumes "length (rep i) = kSize" and "length (rep j) = kSize"
    and "to_base16 i = to_base16 j"
  shows "i = j"
  by (metis assms from_hex_to_hex)

lemma zero_invalid: "\<not> is_valid zero"
  using valid_iff [of zero] by (simp add: rep_zero)

lemma wf_from_hex: "length (rep (mk (snd (HexToBinary hex kSize)))) = kSize"
  by (simp add: rep_mk)

end

lemma replicate_eq_iff_all_zero:
  assumes "length xs = n"
  shows "xs \<noteq> replicate n (0 :: u8) \<longleftrightarrow> (\<exists>b \<in> set xs. b \<noteq> 0)"
proof
  show "xs \<noteq> replicate n 0 \<Longrightarrow> \<exists>b \<in> set xs. b \<noteq> 0"
    using replicate_length_same [of xs 0] assms by metis
qed (auto dest: in_set_replicate [THEN iffD1])

interpretation tid: byte_id trace_id_of_bytes tid_rep trace_id_kSize trace_id_ToLowerBase16
  trace_id_IsValid trace_id_zero
proof
  fix i :: trace_id and b :: "u8 list"
  show "length (tid_rep i) = trace_id_kSize \<Longrightarrow> trace_id_of_bytes (tid_rep i) = i"
    by (cases i) (simp add: trace_id_of_bytes_def)
  show "length b = trace_id_kSize \<Longrightarrow> tid_rep (trace_id_of_bytes b) = b"
    by (simp add: trace_id_of_bytes_def)
  show "trace_id_ToLowerBase16 i = base16_loop kHexLower (tid_rep i)"
    by (simp add: trace_id_ToLowerBase16_def)
  show "length (tid_rep i) = trace_id_kSize \<Longrightarrow>
      trace_id_IsValid i \<longleftrightarrow> (\<exists>b \<in> set (tid_rep i). b \<noteq> 0)"
    by (simp add: trace_id_IsValid_def trace_id_eq_def trace_id_zero_def
        replicate_eq_iff_all_zero [symmetric])
  show "tid_rep trace_id_zero = replicate trace_id_kSize 0"
    by (simp add: trace_id_zero_def)
qed

interpretation sid: byte_id span_id_of_bytes sid_rep span_id_kSize span_id_ToLowerBase16
  span_id_IsValid span_id_zero
proof
  fix i :: span_id and b :: "u8 list"
  show "length (sid_rep i) = span_id_kSize \<Longrightarrow> span_id_of_bytes (sid_rep i) = i"
    by (cases i) (simp add: span_id_of_bytes_def)
  show "length b = span_id_kSize \<Longrightarrow> sid_rep (span_id_of_bytes b) = b"
    by (simp add: span_id_of_bytes_def)
  show "span_id_ToLowerBase16 i = base16_loop kHexLower (sid_rep i)"
    by (simp add: span_id_ToLowerBase16_def)
  show "length (sid_rep i) = span_id_kSize \<Longrightarrow>
      span_id_IsValid i \<longleftrightarrow> (\<exists>b \<in> set (sid_rep i). b \<noteq> 0)"
    by (simp add: span_id_IsValid_def replicate_eq_iff_all_zero [symmetric])
  show "sid_rep span_id_zero = replicate span_id_kSize 0"
    by (simp add: span_id_zero_def)
qed

lemma flags_from_hex_to_hex:
  "HexToBinary (trace_flags_ToLowerBase16 f) 1 = (True, [tf_rep f])"
  by (simp add: trace_flags_base16 del: base16_loop.simps)

lemma hex_number_base16: "hex_table tbl \<Longrightarrow> hex_number (base16_loop tbl bs) = be_number bs"
  using be_number_hex_pairs [of "base16_loop tbl bs"] by simp

lemma be_number_zero_iff: "be_number bs = 0 \<longleftrightarrow> (\<forall>b \<in> set bs. b = 0)"
proof -
  have "0 \<le> n \<Longrightarrow> foldl (\<lambda>n b. 256 * n + uint b) n bs = 0 \<longleftrightarrow> n = 0 \<and> (\<forall>b \<in> set bs. b = 0)" for n :: int and bs :: "u8 list"
  proof (induction bs arbitrary: n)
    case (Cons b bs)
    then have "0 \<le> 256 * n + uint b" by simp
    moreover have "256 * n + uint b = 0 \<longleftrightarrow> n = 0 \<and> b = 0"
    proof -
      have "0 \<le> uint b" by simp
      then have "256 * n + uint b = 0 \<longleftrightarrow> n = 0 \<and> uint b = 0" using Cons.prems by linarith
      then show ?thesis by (simp only: uint_0_iff)
    qed
    ultimately show ?case using Cons.IH [of "256 * n + uint b"] by auto
  qed simp
  then show ?thesis by (simp add: be_number_def)
qed

subsection \<open>Properties\<close>

text \<open>The printed identifiers read back: decoding the base16 text of a trace id, a span id or
  flags gives the same value, so that different values print differently, and an id is valid exactly when
  the number that its text spells is not zero. The flags are printed with upper-case digits.\<close>

theorem ids_print_and_read_back:
  assumes "wf_trace_id t" and "wf_span_id s"
  shows "trace_id_of_bytes (snd (HexToBinary (trace_id_ToLowerBase16 t) trace_id_kSize)) = t \<and>
     span_id_of_bytes (snd (HexToBinary (span_id_ToLowerBase16 s) span_id_kSize)) = s \<and>
     HexToBinary (trace_flags_ToLowerBase16 f) 1 = (True, [tf_rep f]) \<and>
     (trace_id_IsValid t \<longleftrightarrow> hex_number (trace_id_ToLowerBase16 t) \<noteq> 0) \<and>
     (span_id_IsValid s \<longleftrightarrow> hex_number (span_id_ToLowerBase16 s) \<noteq> 0) \<and>
     trace_flags_ToLowerBase16 (TraceFlags 255) = ''FF''"
proof -
  have "trace_id_IsValid t \<longleftrightarrow> hex_number (trace_id_ToLowerBase16 t) \<noteq> 0"
    using tid.valid_iff [of t] assms(1)
    by (simp add: wf_trace_id_def trace_id_ToLowerBase16_def hex_number_base16 be_number_zero_iff)
  moreover have "span_id_IsValid s \<longleftrightarrow> hex_number (span_id_ToLowerBase16 s) \<noteq> 0"
    using sid.valid_iff [of s] assms(2)
    by (simp add: wf_span_id_def span_id_ToLowerBase16_def hex_number_base16 be_number_zero_iff)
  moreover have "trace_flags_ToLowerBase16 (TraceFlags 255) = ''FF''" by code_simp
  ultimately show ?thesis
    using tid.from_hex_to_hex [of t] sid.from_hex_to_hex [of s] flags_from_hex_to_hex [of f] assms
    by (simp add: wf_trace_id_def wf_span_id_def)
qed

theorem ids_print_and_read_back_witness:
  "trace_id_of_bytes (snd (HexToBinary (trace_id_ToLowerBase16 (TraceId (replicate 16 171))) 16)) = TraceId (replicate 16 171)"
  using ids_print_and_read_back [of "TraceId (replicate 16 171)" span_id_zero]
  by (simp add: wf_trace_id_def wf_span_id_def trace_id_kSize_def span_id_zero_def)

end
