(* ===== verification/Kv_Properties.thy ===== *)
theory Kv_Properties
  imports Hex_Codec
begin

text \<open>
  \<open>opentelemetry/common/string_util.h\<close> and \<open>kv_properties.h\<close>: trimming, the tokenizer of
  \<open>k=v,k=v\<close> headers, and the fixed-size array of key-value entries under \<open>TraceState\<close> and
  \<open>Baggage\<close>. The index arithmetic of \<open>Trim\<close> and of the tokenizer is kept. The lemmas relate them
  to reference definitions on lists: \<open>strip\<close>, and \<open>members\<close>, the non-blank members of a header in
  order. The entry array is abstracted by \<open>kvp_list\<close>.
\<close>

subsection \<open>StringUtil::Trim\<close>

function trim_left :: "string \<Rightarrow> nat \<Rightarrow> nat \<Rightarrow> nat" where
  "trim_left str left right =
     (if left \<le> right \<and> isspace (str ! left) then trim_left str (left + 1) right else left)"
  by pat_completeness auto
termination
  by (relation "measure (\<lambda>(str, left, right). Suc right - left)") auto

text \<open>
  \<open>right--\<close> at 0 would wrap around (\<open>size_t\<close>) and read out of bounds; \<open>trim_right_bounds\<close> shows
  that this branch is dead after \<open>trim_left\<close>.
\<close>

fun trim_right :: "string \<Rightarrow> nat \<Rightarrow> nat \<Rightarrow> nat" where
  "trim_right str left right =
     (if left \<le> right \<and> isspace (str ! right)
      then (if right = 0 then 2 ^ 64 - 1 else trim_right str left (right - 1))
      else right)"

declare trim_left.simps [simp del] trim_right.simps [simp del]

definition Trim_range :: "string \<Rightarrow> nat \<Rightarrow> nat \<Rightarrow> string" where
  "Trim_range str left right =
     (let left' = trim_left str left right;
          right' = trim_right str left' right
      in sub_at str left' (1 + right' - left'))"

definition Trim :: "string \<Rightarrow> string" where
  "Trim str = (if str = [] then str else Trim_range str 0 (length str - 1))"

subsection \<open>KeyValueStringTokenizer\<close>

record tokenizer_options =
  member_separator :: char
  key_value_separator :: char
  ignore_empty_members :: bool

definition default_tokenizer_options :: tokenizer_options where
  "default_tokenizer_options =
     \<lparr>member_separator = CHR '','', key_value_separator = CHR ''='', ignore_empty_members = True\<rparr>"

record tokenizer =
  tk_str :: string
  tk_opts :: tokenizer_options
  tk_index :: nat

definition KeyValueStringTokenizer :: "string \<Rightarrow> tokenizer" where
  "KeyValueStringTokenizer str =
     \<lparr>tk_str = str, tk_opts = default_tokenizer_options, tk_index = 0\<rparr>"

text \<open>
  \<open>next\<close>: the caller's \<open>key\<close> and \<open>value\<close> come in and go out (a malformed member leaves them
  alone); the result is whether a member was found, whether it is well formed, the two strings
  and the advanced tokenizer.
\<close>

function tk_next :: "tokenizer \<Rightarrow> string \<Rightarrow> string \<Rightarrow> bool \<times> bool \<times> string \<times> string \<times> tokenizer" where
  "tk_next t key val =
     (if tk_index t < length (tk_str t)
      then
        let found = find_char (member_separator (tk_opts t)) (tk_str t) (tk_index t);
            is_empty_pair = (found = Some (tk_index t));
            end_pos = (case found of
                         None \<Rightarrow> length (tk_str t) - 1
                       | Some e \<Rightarrow> if is_empty_pair then e else e - 1);
            list_member = Trim_range (tk_str t) (tk_index t) end_pos
        in if list_member = [] \<or> is_empty_pair
           then let t' = t\<lparr>tk_index := end_pos + 2 - (if is_empty_pair then 1 else 0)\<rparr>
                in if ignore_empty_members (tk_opts t) then tk_next t' key val
                   else (True, True, [], [], t')
           else let t' = t\<lparr>tk_index := end_pos + 2\<rparr>
                in case find_char (key_value_separator (tk_opts t)) list_member 0 of
                     None \<Rightarrow> (True, False, key, val, t')
                   | Some k \<Rightarrow> (True, True, take k list_member, drop (k + 1) list_member, t')
      else (False, True, key, val, t))"
  by pat_completeness auto
termination
  by (relation "measure (\<lambda>(t, k, v). length (tk_str t) - tk_index t)")
    (auto simp: Let_def split: option.splits if_splits dest: find_char_Some_bounds)

declare tk_next.simps [simp del]

function num_tokens_loop :: "string \<Rightarrow> char \<Rightarrow> nat \<Rightarrow> nat \<Rightarrow> nat" where
  "num_tokens_loop str sep cnt beg =
     (if beg < length str
      then (case find_char sep str beg of
              None \<Rightarrow> cnt + 1
            | Some e \<Rightarrow> num_tokens_loop str sep (cnt + 1) (e + 1))
      else cnt)"
  by pat_completeness auto
termination
  by (relation "measure (\<lambda>(str, sep, cnt, beg). length str - beg)")
    (auto dest: find_char_Some_bounds)

declare num_tokens_loop.simps [simp del]

definition NumTokens :: "tokenizer \<Rightarrow> nat" where
  "NumTokens t = num_tokens_loop (tk_str t) (member_separator (tk_opts t)) 0 0"

definition tk_reset :: "tokenizer \<Rightarrow> tokenizer" where
  "tk_reset t = t\<lparr>tk_index := 0\<rparr>"

subsection \<open>KeyValueProperties\<close>

text \<open>
  An \<open>Entry\<close> owns two NUL-terminated copies (null in a default entry), so that reading it back
  stops at the first NUL byte.
\<close>

record kv_entry =
  e_key :: "string option"
  e_val :: "string option"

definition null_entry :: kv_entry where
  "null_entry = \<lparr>e_key = None, e_val = None\<rparr>"

definition CopyStringToPointer :: "string \<Rightarrow> string option" where
  "CopyStringToPointer str = Some (str @ [NUL])"

definition mk_entry :: "string \<Rightarrow> string \<Rightarrow> kv_entry" where
  "mk_entry key val = \<lparr>e_key = CopyStringToPointer key, e_val = CopyStringToPointer val\<rparr>"

definition entry_GetKey :: "kv_entry \<Rightarrow> string" where
  "entry_GetKey e = (case e_key e of Some p \<Rightarrow> sv_of_cstr p | None \<Rightarrow> [])"

definition entry_GetValue :: "kv_entry \<Rightarrow> string" where
  "entry_GetValue e = (case e_val e of Some p \<Rightarrow> sv_of_cstr p | None \<Rightarrow> [])"

definition entry_SetValue :: "kv_entry \<Rightarrow> string \<Rightarrow> kv_entry" where
  "entry_SetValue e v = e\<lparr>e_val := CopyStringToPointer v\<rparr>"

record kv_properties =
  num_entries :: nat
  max_num_entries :: nat
  entries :: "kv_entry list"

definition KeyValueProperties :: "nat \<Rightarrow> kv_properties" where
  "KeyValueProperties sz =
     \<lparr>num_entries = 0, max_num_entries = sz, entries = replicate sz null_entry\<rparr>"

definition KeyValueProperties_empty :: kv_properties where
  "KeyValueProperties_empty = \<lparr>num_entries = 0, max_num_entries = 0, entries = []\<rparr>"

definition AddEntry :: "kv_properties \<Rightarrow> string \<Rightarrow> string \<Rightarrow> kv_properties" where
  "AddEntry p key val =
     (if num_entries p < max_num_entries p
      then p\<lparr>entries := (entries p)[num_entries p := mk_entry key val],
             num_entries := num_entries p + 1\<rparr>
      else p)"

fun push_entries :: "kv_properties \<Rightarrow> (string \<times> string) list \<Rightarrow> kv_properties" where
  "push_entries p [] = p"
| "push_entries p ((k, v) # kvs) =
     push_entries (p\<lparr>entries := (entries p)[num_entries p := mk_entry k v],
                     num_entries := num_entries p + 1\<rparr>) kvs"

definition KeyValueProperties_of :: "(string \<times> string) list \<Rightarrow> kv_properties" where
  "KeyValueProperties_of kvs = push_entries (KeyValueProperties (length kvs)) kvs"

text \<open>\<open>GetAllEntries\<close>: the callback updates a state and says whether to go on.\<close>

function get_all_loop ::
    "kv_properties \<Rightarrow> nat \<Rightarrow> (string \<Rightarrow> string \<Rightarrow> 's \<Rightarrow> bool \<times> 's) \<Rightarrow> 's \<Rightarrow> bool \<times> 's" where
  "get_all_loop p i callback s =
     (if i < num_entries p
      then let entry = entries p ! i;
               (go, s') = callback (entry_GetKey entry) (entry_GetValue entry) s
           in if \<not> go then (False, s') else get_all_loop p (i + 1) callback s'
      else (True, s))"
  by pat_completeness auto
termination
  by (relation "measure (\<lambda>(p, i, cb, s). num_entries p - i)") auto

declare get_all_loop.simps [simp del]

definition kvp_GetAllEntries ::
    "kv_properties \<Rightarrow> (string \<Rightarrow> string \<Rightarrow> 's \<Rightarrow> bool \<times> 's) \<Rightarrow> 's \<Rightarrow> bool \<times> 's" where
  "kvp_GetAllEntries p callback s = get_all_loop p 0 callback s"

function get_value_loop :: "kv_properties \<Rightarrow> string \<Rightarrow> nat \<Rightarrow> string option" where
  "get_value_loop p key i =
     (if i < num_entries p
      then (if sv_eq (entry_GetKey (entries p ! i)) key
            then Some (entry_GetValue (entries p ! i)) else get_value_loop p key (i + 1))
      else None)"
  by pat_completeness auto
termination
  by (relation "measure (\<lambda>(p, key, i). num_entries p - i)") auto

declare get_value_loop.simps [simp del]

definition kvp_GetValue :: "kv_properties \<Rightarrow> string \<Rightarrow> string option" where
  "kvp_GetValue p key = get_value_loop p key 0"

definition kvp_Size :: "kv_properties \<Rightarrow> nat" where
  "kvp_Size p = num_entries p"

subsection \<open>Reference definitions\<close>

definition strip :: "string \<Rightarrow> string" where
  "strip s = rev (dropWhile isspace (rev (dropWhile isspace s)))"

definition members :: "char \<Rightarrow> string \<Rightarrow> string list" where
  "members sep s = filter (\<lambda>m. m \<noteq> []) (map strip (split_all sep s))"

text \<open>A member \<open>k=v\<close> read by the tokenizer: split at its first \<open>=\<close>.\<close>

definition member_ok :: "string \<Rightarrow> bool" where
  "member_ok m \<longleftrightarrow> CHR ''='' \<in> set m"

definition member_key :: "string \<Rightarrow> string" where
  "member_key m = takeWhile (\<lambda>c. c \<noteq> CHR ''='') m"

definition member_val :: "string \<Rightarrow> string" where
  "member_val m = drop (Suc (length (member_key m))) m"

fun run_callback :: "(string \<Rightarrow> string \<Rightarrow> 's \<Rightarrow> bool \<times> 's) \<Rightarrow> (string \<times> string) list \<Rightarrow> 's \<Rightarrow> bool \<times> 's" where
  "run_callback cb [] s = (True, s)"
| "run_callback cb ((k, v) # l) s =
     (case cb k v s of (go, s') \<Rightarrow> if \<not> go then (False, s') else run_callback cb l s')"

text \<open>The member that starts at \<open>pos\<close>, and where the next one starts.\<close>

definition next_segment :: "char \<Rightarrow> string \<Rightarrow> nat \<Rightarrow> string \<times> nat" where
  "next_segment sep s pos =
     (case find_char sep s pos of
        None \<Rightarrow> (drop pos s, length s + 1)
      | Some e \<Rightarrow> (sub_at s pos (e - pos), e + 1))"

text \<open>A printed list of members, and the members that survive tokenizing as they are.\<close>

fun join_members :: "(string \<times> string) list \<Rightarrow> string" where
  "join_members [] = []"
| "join_members [(k, v)] = k @ ''='' @ v"
| "join_members ((k, v) # l) = k @ ''='' @ v @ '','' @ join_members l"

definition clean_member :: "string \<Rightarrow> bool" where
  "clean_member m \<longleftrightarrow> CHR '','' \<notin> set m \<and> strip m = m"

definition wf_kvp :: "kv_properties \<Rightarrow> bool" where
  "wf_kvp p \<longleftrightarrow> num_entries p \<le> max_num_entries p \<and> length (entries p) = max_num_entries p"

definition kvp_list :: "kv_properties \<Rightarrow> (string \<times> string) list" where
  "kvp_list p = map (\<lambda>e. (entry_GetKey e, entry_GetValue e)) (take (num_entries p) (entries p))"

subsection \<open>Trimming\<close>

lemma sub_at_Cons: "pos < length s \<Longrightarrow> sub_at s pos (Suc n) = s ! pos # sub_at s (pos + 1) n"
  by (simp add: sub_at_def Cons_nth_drop_Suc [symmetric])

lemma sub_at_snoc: "pos + n < length s \<Longrightarrow> sub_at s pos (Suc n) = sub_at s pos n @ [s ! (pos + n)]"
  by (simp add: sub_at_def take_Suc_conv_app_nth)

lemma sub_at_0 [simp]: "sub_at s pos 0 = []"
  by (simp add: sub_at_def)

lemma trim_left_eq:
  "left \<le> Suc right \<Longrightarrow> right < length str \<Longrightarrow>
   trim_left str left right = left + length (takeWhile isspace (sub_at str left (Suc right - left)))"
proof (induction str left right rule: trim_left.induct)
  case (1 str left right)
  show ?case
  proof (cases "left \<le> right")
    case True
    then have "sub_at str left (Suc right - left) = str ! left # sub_at str (left + 1) (right - left)"
      using "1.prems" by (simp add: Suc_diff_le sub_at_Cons)
    with True "1" show ?thesis by (subst trim_left.simps) auto
  next
    case False
    with "1.prems" show ?thesis by (subst trim_left.simps) auto
  qed
qed

lemma trim_right_eq:
  "left \<le> Suc right \<Longrightarrow> right < length str \<Longrightarrow> left = Suc right \<or> \<not> isspace (str ! left) \<Longrightarrow>
   trim_right str left right = right - length (takeWhile isspace (rev (sub_at str left (Suc right - left))))"
proof (induction right)
  case 0
  then show ?case by (subst trim_right.simps) (auto simp: sub_at_Cons le_Suc_eq)
next
  case (Suc right)
  show ?case
  proof (cases "left \<le> Suc right")
    case True
    then have "sub_at str left (Suc (Suc right) - left) =
        sub_at str left (Suc right - left) @ [str ! Suc right]"
      using Suc.prems by (simp add: Suc_diff_le sub_at_snoc)
    with True Suc show ?thesis by (subst trim_right.simps) (auto simp: le_Suc_eq)
  next
    case False
    with Suc.prems show ?thesis by (subst trim_right.simps) auto
  qed
qed

lemma take_minus_takeWhile_rev:
  "take (length w - length (takeWhile P (rev w))) w = rev (dropWhile P (rev w))"
  by (metis dropWhile_eq_drop length_rev rev_rev_ident take_rev rev_drop)

lemma trailing_run_less:
  assumes "dropWhile P w \<noteq> []"
  shows "length (takeWhile P (rev (dropWhile P w))) < length (dropWhile P w)"
proof -
  have "hd (dropWhile P w) \<notin> set (takeWhile P (rev (dropWhile P w)))"
    using hd_dropWhile [OF assms] by (auto dest: set_takeWhileD)
  then have "takeWhile P (rev (dropWhile P w)) \<noteq> rev (dropWhile P w)"
    using hd_in_set [OF assms] by (metis set_rev)
  then have "length (takeWhile P (rev (dropWhile P w))) < length (rev (dropWhile P w))"
    by (metis takeWhile_eq_take take_all_iff not_le_imp_less)
  then show ?thesis by simp
qed

lemma Trim_range_eq:
  assumes "left \<le> right" and "right < length str"
  shows "Trim_range str left right = strip (sub_at str left (Suc right - left))"
proof -
  define w where "w = sub_at str left (Suc right - left)"
  define a where "a = length (takeWhile isspace w)"
  define l where "l = left + a"
  have lw: "length w = Suc right - left" using assms by (simp add: w_def)
  have a: "a \<le> Suc right - left" unfolding a_def lw [symmetric] by (rule length_takeWhile_le)
  have l: "trim_left str left right = l"
    using assms by (simp add: trim_left_eq l_def a_def w_def)
  have w': "sub_at str l (Suc right - l) = dropWhile isspace w"
  proof -
    have "dropWhile isspace w = drop a w" by (simp add: dropWhile_eq_drop a_def)
    then show ?thesis by (simp add: w_def sub_at_def drop_take l_def add.commute)
  qed
  have stop: "l = Suc right \<or> \<not> isspace (str ! l)"
  proof (cases "a = length w")
    case False
    with a lw have "\<not> isspace (w ! a)" unfolding a_def by (intro nth_length_takeWhile) simp
    with False a lw assms show ?thesis by (auto simp: w_def l_def sub_at_def)
  qed (use lw assms in \<open>auto simp: l_def\<close>)
  let ?b = "length (takeWhile isspace (rev (dropWhile isspace w)))"
  have b: "?b < length (dropWhile isspace w)" if "dropWhile isspace w \<noteq> []"
    by (rule trailing_run_less [OF that])
  have ld: "length (dropWhile isspace w) = Suc right - l"
    using arg_cong [OF w', of length] assms by simp
  have "trim_right str l right = right - ?b"
  proof -
    have "l \<le> Suc right" using a assms by (simp add: l_def)
    from trim_right_eq [OF this assms(2) stop] show ?thesis by (simp only: w')
  qed
  moreover have "1 + (right - ?b) - l = length (dropWhile isspace w) - ?b"
  proof (cases "dropWhile isspace w = []")
    case True
    show ?thesis using ld unfolding True by simp
  next
    case False
    then show ?thesis using b ld by linarith
  qed
  moreover have "sub_at str l (length (dropWhile isspace w) - ?b) =
      take (length (dropWhile isspace w) - ?b) (dropWhile isspace w)"
    using ld by (simp add: w' [symmetric] sub_at_def min_def)
  ultimately show ?thesis
    by (simp add: Trim_range_def l Let_def take_minus_takeWhile_rev strip_def w_def [symmetric])
qed

lemma Trim_eq: "Trim str = strip str"
  by (cases "str = []") (auto simp: Trim_def Trim_range_eq sub_at_def strip_def)

text \<open>The slice that \<open>Trim\<close> asks for is in range: \<open>substr\<close> does not throw.\<close>

lemma Trim_range_no_throw:
  assumes "left \<le> right" and "right < length str"
  shows "trim_left str left right \<le> length str"
proof -
  have "length (takeWhile isspace (sub_at str left (Suc right - left))) \<le> Suc right - left"
    by (metis assms(2) length_sub_at length_takeWhile_le min.cobounded1 order_trans)
  then show ?thesis using assms by (simp add: trim_left_eq)
qed

lemma strip_Nil [simp]: "strip [] = []"
  by (simp add: strip_def)

lemma strip_eq_Nil: "strip s = [] \<longleftrightarrow> (\<forall>c \<in> set s. isspace c)"
proof
  assume "strip s = []"
  then have "\<forall>c \<in> set (dropWhile isspace s). isspace c" by (simp add: strip_def dropWhile_eq_Nil_conv)
  moreover have "dropWhile isspace s \<noteq> [] \<Longrightarrow> \<not> isspace (hd (dropWhile isspace s))"
    by (rule hd_dropWhile)
  ultimately have "dropWhile isspace s = []" using hd_in_set by blast
  then show "\<forall>c \<in> set s. isspace c" by (simp add: dropWhile_eq_Nil_conv)
qed (auto simp: strip_def dropWhile_eq_Nil_conv dest: set_dropWhileD)

lemma strip_id: "s \<noteq> [] \<Longrightarrow> \<not> isspace (hd s) \<Longrightarrow> \<not> isspace (last s) \<Longrightarrow> strip s = s"
proof -
  assume a: "s \<noteq> []" "\<not> isspace (hd s)" "\<not> isspace (last s)"
  then have "dropWhile isspace s = s" by (cases s) auto
  moreover from a have "dropWhile isspace (rev s) = rev s" by (cases "rev s") (auto simp: hd_rev [symmetric])
  ultimately show "strip s = s" by (simp add: strip_def)
qed

subsection \<open>The tokenizer\<close>

lemma find_char_None: "find_char c s pos = None \<longleftrightarrow> c \<notin> set (drop pos s)"
  by (auto simp: find_char_def)

lemma split_all_at:
  assumes "find_char sep str pos = Some e"
  shows "split_all sep (drop pos str) = sub_at str pos (e - pos) # split_all sep (drop (e + 1) str)"
proof -
  obtain j where j: "e = pos + j" "index_of (\<lambda>x. x = sep) (drop pos str) = Some j"
    using assms by (auto simp: find_char_def)
  have lt: "j < length (drop pos str)" using j(2) by (rule index_of_Some_less)
  have at: "drop pos str ! j = sep" using index_of_Some_nth [OF j(2)] .
  have free: "sep \<notin> set (take j (drop pos str))"
    unfolding index_of_take [OF j(2)] by (auto dest: set_takeWhileD)
  have "drop pos str = take j (drop pos str) @ sep # drop (Suc j) (drop pos str)"
    using lt at by (metis id_take_nth_drop)
  then have "split_all sep (drop pos str) = take j (drop pos str) # split_all sep (drop (Suc j) (drop pos str))"
    using split_all_append_sep [OF free] by metis
  then show ?thesis using j(1) by (simp add: sub_at_def add.commute)
qed

lemma members_Nil [simp]: "members sep [] = []"
  by (simp add: members_def)

lemma next_segment_advances: "pos < length s \<Longrightarrow> pos < snd (next_segment sep s pos)"
  by (auto simp: next_segment_def split: option.splits dest: find_char_Some_bounds)

lemma members_segment:
  "members sep (drop pos s) =
     (case next_segment sep s pos of (tok, pos') \<Rightarrow>
        (if strip tok = [] then [] else [strip tok]) @ members sep (drop pos' s))"
  by (auto simp: next_segment_def members_def split_all_at find_char_None split_all_no_sep
      split: option.splits)

lemma find_char_member:
  "find_char CHR ''='' m 0 = (if member_ok m then Some (length (member_key m)) else None)"
proof (cases "index_of (\<lambda>x. x = CHR ''='') m")
  case None
  then show ?thesis by (auto simp: find_char_def member_ok_def)
next
  case (Some i)
  have "i < length m" and "CHR ''='' \<in> set m"
    using index_of_Some_less [OF Some] index_of_Some_nth [OF Some] nth_mem by fastforce+
  moreover have "i = length (member_key m)"
    using index_of_take [OF Some] \<open>i < length m\<close> unfolding member_key_def
    by (metis length_take less_imp_le min.absorb2)
  ultimately show ?thesis using Some by (simp add: find_char_def member_ok_def)
qed

lemma take_member_key: "take (length (member_key m)) m = member_key m"
  by (simp add: member_key_def takeWhile_eq_take [symmetric])

lemma tk_next_done: "length (tk_str t) \<le> tk_index t \<Longrightarrow> tk_next t k v = (False, True, k, v, t)"
  by (subst tk_next.simps) simp

lemma Trim_range_segment:
  assumes "pos < length s"
  shows "find_char sep s pos = None \<Longrightarrow> Trim_range s pos (length s - 1) = strip (drop pos s)"
    and "find_char sep s pos = Some e \<Longrightarrow> pos < e \<Longrightarrow>
      Trim_range s pos (e - 1) = strip (sub_at s pos (e - pos))"
  using assms by (auto simp: Trim_range_eq sub_at_def dest!: find_char_Some_bounds)

lemma tk_next_step:
  assumes "tk_opts t = default_tokenizer_options" and "tk_index t < length (tk_str t)"
    and "next_segment CHR '','' (tk_str t) (tk_index t) = (tok, pos')"
  shows "tk_next t k v =
    (if strip tok = [] then tk_next (t\<lparr>tk_index := pos'\<rparr>) k v
     else (True, member_ok (strip tok),
           if member_ok (strip tok) then member_key (strip tok) else k,
           if member_ok (strip tok) then member_val (strip tok) else v, t\<lparr>tk_index := pos'\<rparr>))"
proof (cases "find_char CHR '','' (tk_str t) (tk_index t)")
  case None
  obtain n where n: "length (tk_str t) = Suc n" using assms(2) by (cases "tk_str t") auto
  have "Trim_range (tk_str t) (tk_index t) n = strip tok"
    using Trim_range_segment(1) [OF assms(2) None] assms(3) None n by (simp add: next_segment_def)
  with None n assms show ?thesis
    by (subst tk_next.simps)
      (auto simp: default_tokenizer_options_def next_segment_def
        find_char_member take_member_key member_val_def Let_def)
next
  case (Some e)
  show ?thesis
  proof (cases "e = tk_index t")
    case True
    with Some assms show ?thesis
      by (subst tk_next.simps) (auto simp: default_tokenizer_options_def next_segment_def)
  next
    case False
    with Some have lt: "tk_index t < e" by (auto dest: find_char_Some_bounds)
    then obtain n where n: "e = Suc n" by (cases e) auto
    have "Trim_range (tk_str t) (tk_index t) n = strip tok"
      using Trim_range_segment(2) [OF assms(2) Some lt] assms(3) Some n by (simp add: next_segment_def)
    with Some False n assms show ?thesis
      by (subst tk_next.simps)
        (auto simp: default_tokenizer_options_def next_segment_def
          find_char_member take_member_key member_val_def Let_def)
  qed
qed

text \<open>One call of \<open>next\<close> delivers the next non-blank member and leaves the later ones.\<close>

lemma tk_next_members:
  assumes "tk_opts t = default_tokenizer_options"
  shows "case members CHR '','' (drop (tk_index t) (tk_str t)) of
      [] \<Rightarrow> \<exists>t'. tk_next t k v = (False, True, k, v, t')
    | m # ms \<Rightarrow> \<exists>t'. tk_next t k v =
          (True, member_ok m, if member_ok m then member_key m else k,
             if member_ok m then member_val m else v, t')
        \<and> tk_opts t' = default_tokenizer_options \<and> tk_str t' = tk_str t
        \<and> members CHR '','' (drop (tk_index t') (tk_str t)) = ms"
  using assms
proof (induction "length (tk_str t) - tk_index t" arbitrary: t rule: less_induct)
  case less
  show ?case
  proof (cases "tk_index t < length (tk_str t)")
    case False
    then show ?thesis by (simp add: tk_next_done)
  next
    case True
    obtain tok pos' where seg: "next_segment CHR '','' (tk_str t) (tk_index t) = (tok, pos')"
      by (cases "next_segment CHR '','' (tk_str t) (tk_index t)")
    note step = tk_next_step [OF less.prems True seg, of k v]
    have "tk_index t < pos'" using next_segment_advances [OF True, of "CHR '',''"] seg by simp
    then have dec: "length (tk_str t) - pos' < length (tk_str t) - tk_index t"
      using True by linarith
    show ?thesis
    proof (cases "strip tok = []")
      case True
      have "members CHR '','' (drop (tk_index t) (tk_str t)) = members CHR '','' (drop pos' (tk_str t))"
        by (simp add: members_segment [of _ "tk_index t"] seg True)
      then show ?thesis
        using less.hyps [of "t\<lparr>tk_index := pos'\<rparr>"] dec less.prems step True
        by (auto split: list.splits)
    next
      case False
      then show ?thesis
        using less.prems step by (simp add: members_segment [of _ "tk_index t"] seg)
    qed
  qed
qed

text \<open>A call that finds a member moves the index forward, whatever the options.\<close>

lemma tk_next_advances:
  "tk_next t k v = (True, b, k', v', t') \<Longrightarrow>
   tk_str t' = tk_str t \<and> tk_index t < tk_index t' \<and> tk_index t < length (tk_str t)"
proof (induction t k v arbitrary: b k' v' t' rule: tk_next.induct)
  case (1 t k v)
  define found where "found = find_char (member_separator (tk_opts t)) (tk_str t) (tk_index t)"
  define ie where "ie \<longleftrightarrow> found = Some (tk_index t)"
  define ep where "ep = (case found of None \<Rightarrow> length (tk_str t) - 1 | Some e \<Rightarrow> if ie then e else e - 1)"
  define lm where "lm = Trim_range (tk_str t) (tk_index t) ep"
  note IH = "1.IH" [OF _ found_def ie_def ep_def lm_def _ refl]
  note p = "1.prems" [unfolded tk_next.simps [of t k v] Let_def,
      folded found_def, folded ie_def, folded ep_def, folded lm_def]
  have lt: "tk_index t < length (tk_str t)" using p by (simp split: if_splits)
  then have ge: "tk_index t \<le> ep"
    by (auto simp: ep_def ie_def found_def split: option.splits dest: find_char_Some_bounds)
  show ?case
  proof (cases "lm = [] \<or> ie")
    case True
    with p lt ge IH show ?thesis
      by (cases "ignore_empty_members (tk_opts t)") (auto split: if_splits)
  next
    case False
    with p lt ge show ?thesis
      by (cases "find_char (key_value_separator (tk_opts t)) lm 0") auto
  qed
qed

lemma num_tokens_loop_ge:
  "cnt + length (members sep (drop beg str)) \<le> num_tokens_loop str sep cnt beg"
proof (induction str sep cnt beg rule: num_tokens_loop.induct)
  case (1 str sep cnt beg)
  show ?case
  proof (cases "beg < length str")
    case False
    then show ?thesis by (subst num_tokens_loop.simps) simp
  next
    case True
    with "1" show ?thesis
      by (cases "find_char sep str beg"; subst num_tokens_loop.simps)
        (auto simp: members_segment [of sep beg] next_segment_def)
  qed
qed

lemma num_tokens_loop_le:
  "num_tokens_loop str sep cnt beg \<le> cnt + length (split_all sep (drop beg str))"
proof (induction str sep cnt beg rule: num_tokens_loop.induct)
  case (1 str sep cnt beg)
  show ?case
  proof (cases "beg < length str")
    case True
    with "1" show ?thesis
      by (cases "find_char sep str beg"; subst num_tokens_loop.simps)
        (auto simp: split_all_at Suc_le_eq)
  qed (subst num_tokens_loop.simps, simp)
qed

lemma NumTokens_le:
  "NumTokens (KeyValueStringTokenizer s) \<le> length (split_all CHR '','' s)"
  using num_tokens_loop_le [of s "CHR '',''" 0 0]
  by (simp add: NumTokens_def KeyValueStringTokenizer_def default_tokenizer_options_def)

lemma NumTokens_ge:
  "length (members CHR '','' s) \<le> NumTokens (KeyValueStringTokenizer s)"
  using num_tokens_loop_ge [of 0 "CHR '',''" 0 s]
  by (simp add: NumTokens_def KeyValueStringTokenizer_def default_tokenizer_options_def)

subsection \<open>The entry array\<close>

lemma c_str_snoc_nul: "c_str (s @ [NUL]) = c_str s"
  unfolding c_str_def by (induction s) auto

lemma entry_read_back [simp]:
  "entry_GetKey (mk_entry k v) = c_str k" "entry_GetValue (mk_entry k v) = c_str v"
  by (simp_all add: entry_GetKey_def entry_GetValue_def mk_entry_def CopyStringToPointer_def
      sv_of_cstr_def c_str_snoc_nul)

lemma wf_KeyValueProperties [simp]:
  "wf_kvp (KeyValueProperties n)" "wf_kvp KeyValueProperties_empty"
  by (simp_all add: wf_kvp_def KeyValueProperties_def KeyValueProperties_empty_def)

lemma kvp_list_new [simp]:
  "kvp_list (KeyValueProperties n) = []" "kvp_list KeyValueProperties_empty = []"
  by (simp_all add: kvp_list_def KeyValueProperties_def KeyValueProperties_empty_def)

lemma wf_AddEntry [simp]: "wf_kvp p \<Longrightarrow> wf_kvp (AddEntry p k v)"
  by (simp add: wf_kvp_def AddEntry_def)

lemma max_num_entries_AddEntry [simp]: "max_num_entries (AddEntry p k v) = max_num_entries p"
  by (simp add: AddEntry_def)

lemma num_entries_AddEntry [simp]:
  "num_entries (AddEntry p k v) =
     (if num_entries p < max_num_entries p then num_entries p + 1 else num_entries p)"
  by (simp add: AddEntry_def)

lemma length_kvp_list [simp]: "wf_kvp p \<Longrightarrow> length (kvp_list p) = num_entries p"
  by (simp add: wf_kvp_def kvp_list_def)

lemma kvp_list_set:
  assumes "num_entries p < length (entries p)"
  shows "kvp_list (p\<lparr>entries := (entries p)[num_entries p := mk_entry k v],
                     num_entries := num_entries p + 1\<rparr>) = kvp_list p @ [(c_str k, c_str v)]"
  using assms by (simp add: kvp_list_def take_Suc_conv_app_nth)

lemma kvp_list_AddEntry [simp]:
  assumes "wf_kvp p"
  shows "kvp_list (AddEntry p k v) =
    (if num_entries p < max_num_entries p then kvp_list p @ [(c_str k, c_str v)] else kvp_list p)"
  using assms kvp_list_set [of p k v] by (simp add: AddEntry_def wf_kvp_def)

lemma kvp_list_push_entries:
  "wf_kvp p \<Longrightarrow> num_entries p + length kvs \<le> max_num_entries p \<Longrightarrow>
   wf_kvp (push_entries p kvs) \<and>
   kvp_list (push_entries p kvs) = kvp_list p @ map (\<lambda>(k, v). (c_str k, c_str v)) kvs"
proof (induction p kvs rule: push_entries.induct)
  case (2 p k v kvs)
  let ?q = "p\<lparr>entries := (entries p)[num_entries p := mk_entry k v], num_entries := num_entries p + 1\<rparr>"
  have "wf_kvp ?q" and "num_entries ?q + length kvs \<le> max_num_entries ?q"
    and l: "num_entries p < length (entries p)"
    using "2.prems" by (simp_all add: wf_kvp_def)
  from "2.IH" [OF this(1,2)] kvp_list_set [OF l, of k v] show ?case by simp
qed simp

lemma kvp_list_of [simp]:
  "kvp_list (KeyValueProperties_of kvs) = map (\<lambda>(k, v). (c_str k, c_str v)) kvs"
  "wf_kvp (KeyValueProperties_of kvs)"
  using kvp_list_push_entries [of "KeyValueProperties (length kvs)" kvs]
  by (simp_all add: KeyValueProperties_of_def KeyValueProperties_def wf_kvp_def kvp_list_def)

lemma kvp_list_drop:
  assumes "wf_kvp p" and "i < num_entries p"
  shows "drop i (kvp_list p) =
    (entry_GetKey (entries p ! i), entry_GetValue (entries p ! i)) # drop (i + 1) (kvp_list p)"
proof -
  have "i < length (kvp_list p)" using assms by simp
  moreover have "kvp_list p ! i = (entry_GetKey (entries p ! i), entry_GetValue (entries p ! i))"
    using assms by (simp add: kvp_list_def wf_kvp_def)
  ultimately show ?thesis by (simp add: Cons_nth_drop_Suc [symmetric])
qed

lemma get_all_loop_eq:
  "wf_kvp p \<Longrightarrow> get_all_loop p i cb s = run_callback cb (drop i (kvp_list p)) s"
proof (induction p i cb s rule: get_all_loop.induct)
  case (1 p i cb s)
  then show ?case
    by (subst get_all_loop.simps) (auto simp: kvp_list_drop Let_def split: prod.splits)
qed

lemma kvp_GetAllEntries_eq: "wf_kvp p \<Longrightarrow> kvp_GetAllEntries p cb s = run_callback cb (kvp_list p) s"
  by (simp add: kvp_GetAllEntries_def get_all_loop_eq)

lemma get_value_loop_eq:
  "wf_kvp p \<Longrightarrow> get_value_loop p key i = map_of (drop i (kvp_list p)) key"
proof (induction p key i rule: get_value_loop.induct)
  case (1 p key i)
  then show ?case
    by (subst get_value_loop.simps) (auto simp: kvp_list_drop)
qed

lemma kvp_GetValue_eq: "wf_kvp p \<Longrightarrow> kvp_GetValue p key = map_of (kvp_list p) key"
  by (simp add: kvp_GetValue_def get_value_loop_eq)

lemma kvp_Size_eq: "wf_kvp p \<Longrightarrow> kvp_Size p = length (kvp_list p)"
  by (simp add: kvp_Size_def)

lemma run_callback_fold:
  "run_callback (\<lambda>k v t. (True, f k v t)) l s = (True, fold (\<lambda>(k, v). f k v) l s)"
  by (induction l arbitrary: s) auto

lemma c_str_idem [simp]: "c_str (c_str s) = c_str s"
  by (rule c_str_no_nul) (auto simp: c_str_def dest: set_takeWhileD)

lemma c_str_Nil [simp]: "c_str [] = []"
  by (simp add: c_str_def)

lemma kvp_list_c_str: "(k, v) \<in> set (kvp_list p) \<Longrightarrow> c_str k = k \<and> c_str v = v"
  by (auto simp: kvp_list_def entry_GetKey_def entry_GetValue_def sv_of_cstr_def
      split: option.splits)

subsection \<open>Printing a list of members, and rebuilding an array\<close>

lemma join_members_Cons:
  "join_members ((k, v) # l) = k @ ''='' @ v @ concat (map (\<lambda>(k, v). '','' @ k @ ''='' @ v) l)"
  by (induction l arbitrary: k v) auto

lemma split_all_join:
  "list_all (\<lambda>(k, v). clean_member (k @ ''='' @ v)) l \<Longrightarrow> l \<noteq> [] \<Longrightarrow>
   split_all CHR '','' (join_members l) = map (\<lambda>(k, v). k @ ''='' @ v) l"
proof (induction l rule: join_members.induct)
  case (2 k v)
  then show ?case by (simp add: split_all_no_sep clean_member_def)
next
  case (3 k v kv l)
  have "CHR '','' \<notin> set (k @ ''='' @ v)" using "3.prems" by (simp add: clean_member_def)
  from split_all_append_sep [OF this, of "join_members (kv # l)"] "3" show ?case by simp
qed simp

lemma members_join:
  assumes "list_all (\<lambda>(k, v). clean_member (k @ ''='' @ v)) l"
  shows "members CHR '','' (join_members l) = map (\<lambda>(k, v). k @ ''='' @ v) l"
proof (cases "l = []")
  case False
  have e: "map strip (map (\<lambda>(k, v). k @ ''='' @ v) l) = map (\<lambda>(k, v). k @ ''='' @ v) l"
    using assms by (auto simp: list_all_iff clean_member_def)
  show ?thesis
    unfolding members_def split_all_join [OF assms False] e by (rule filter_True) auto
qed simp

lemma kvp_fold_AddEntry:
  "wf_kvp p \<Longrightarrow> length (kvp_list p) + length l \<le> max_num_entries p \<Longrightarrow>
   kvp_list (fold (\<lambda>(k, v) p. AddEntry p k v) l p) = kvp_list p @ map (\<lambda>(k, v). (c_str k, c_str v)) l
   \<and> wf_kvp (fold (\<lambda>(k, v) p. AddEntry p k v) l p)"
  by (induction l arbitrary: p) auto

lemma fold_filter:
  "fold (\<lambda>(k, v) t. if P k then f t k v else t) l t = fold (\<lambda>(k, v) t. f t k v) (filter (\<lambda>(k, v). P k) l) t"
  by (induction l arbitrary: t) auto

subsection \<open>Properties\<close>

text \<open>The tokenizer of header lists reads the non-empty, trimmed members between the commas, one per call:
  a call reports the first member still unread, split at its first equals sign (or as malformed, with the
  caller's strings untouched), and leaves the rest to the next call; when none is left it reports the end. The index
  grows with each member, so that every loop over the tokenizer ends, and \<open>NumTokens\<close> is large enough for all members.\<close>

theorem tokenizer_reads_members:
  assumes "tk_opts t = default_tokenizer_options"
  shows "(case members CHR '','' (drop (tk_index t) (tk_str t)) of
      [] \<Rightarrow> \<exists>t'. tk_next t k v = (False, True, k, v, t')
    | m # ms \<Rightarrow> \<exists>t'. tk_next t k v =
          (True, member_ok m, if member_ok m then member_key m else k, if member_ok m then member_val m else v, t') \<and>
        tk_opts t' = default_tokenizer_options \<and> tk_str t' = tk_str t \<and> tk_index t < tk_index t' \<and>
        members CHR '','' (drop (tk_index t') (tk_str t')) = ms) \<and>
    length (members CHR '','' (tk_str t)) \<le> NumTokens t"
proof
  show "length (members CHR '','' (tk_str t)) \<le> NumTokens t"
    using NumTokens_ge [of "tk_str t"] assms by (simp add: NumTokens_def KeyValueStringTokenizer_def)
  show "case members CHR '','' (drop (tk_index t) (tk_str t)) of
      [] \<Rightarrow> \<exists>t'. tk_next t k v = (False, True, k, v, t')
    | m # ms \<Rightarrow> \<exists>t'. tk_next t k v =
          (True, member_ok m, if member_ok m then member_key m else k, if member_ok m then member_val m else v, t') \<and>
        tk_opts t' = default_tokenizer_options \<and> tk_str t' = tk_str t \<and> tk_index t < tk_index t' \<and>
        members CHR '','' (drop (tk_index t') (tk_str t')) = ms"
    using tk_next_members [OF assms, of k v] tk_next_advances [of t k v] by (fastforce split: list.splits)
qed

theorem tokenizer_reads_members_witness:
  "\<exists>t'. tk_next (KeyValueStringTokenizer '' a=1 ,, b'') [] [] = (True, True, ''a'', ''1'', t') \<and>
     members CHR '','' (drop (tk_index t') (tk_str t')) = [''b'']"
proof -
  have m: "members CHR '','' '' a=1 ,, b'' = [''a=1'', ''b'']" and ok: "member_ok ''a=1''"
    "member_key ''a=1'' = ''a''" "member_val ''a=1'' = ''1''" by code_simp+
  show ?thesis
    using tokenizer_reads_members [of "KeyValueStringTokenizer '' a=1 ,, b''" "[]" "[]"]
    by (auto simp: KeyValueStringTokenizer_def m ok)
qed

text \<open>\<open>KeyValueProperties\<close> refines a bounded list of pairs: \<open>AddEntry\<close> appends while there is room and
  otherwise leaves the array alone, never writing past it; the lookup finds the first pair of a key, \<open>Size\<close> is
  the length, and \<open>GetAllEntries\<close> visits the pairs in order and stops when the callback says so.\<close>

theorem kv_properties_refine_list:
  assumes "wf_kvp p"
  shows "wf_kvp (AddEntry p k v) \<and>
     kvp_list (AddEntry p k v) = kvp_list p @ (if length (kvp_list p) < max_num_entries p then [(c_str k, c_str v)] else []) \<and>
     kvp_GetValue p key = map_of (kvp_list p) key \<and> kvp_Size p = length (kvp_list p) \<and>
     kvp_GetAllEntries p cb s = run_callback cb (kvp_list p) s \<and> kvp_Size p \<le> max_num_entries p"
  using assms by (simp add: kvp_GetValue_eq kvp_Size_eq kvp_GetAllEntries_eq) (simp add: wf_kvp_def)

theorem kv_properties_refine_list_witness:
  "kvp_list (AddEntry (AddEntry (KeyValueProperties 1) ''a'' ''1'') ''b'' ''2'') = [(''a'', ''1'')]"
proof -
  let ?p = "AddEntry (KeyValueProperties 1) ''a'' ''1''"
  have w: "wf_kvp (KeyValueProperties 1)" by simp
  have m: "max_num_entries (KeyValueProperties 1) = 1" "max_num_entries ?p = 1"
    by (simp_all only: max_num_entries_AddEntry) (simp_all add: KeyValueProperties_def)
  have c: "c_str ''a'' = ''a''" "c_str ''1'' = ''1''" by code_simp+
  have "kvp_list ?p = kvp_list (KeyValueProperties 1) @
      (if length (kvp_list (KeyValueProperties 1)) < max_num_entries (KeyValueProperties 1) then [(c_str ''a'', c_str ''1'')] else [])"
    by (rule kv_properties_refine_list [OF w, THEN conjunct2, THEN conjunct1])
  then have e: "kvp_list ?p = [(''a'', ''1'')]" unfolding m c by simp
  have p: "wf_kvp ?p" by (rule kv_properties_refine_list [OF w, THEN conjunct1])
  have "kvp_list (AddEntry ?p ''b'' ''2'') = kvp_list ?p @
      (if length (kvp_list ?p) < max_num_entries ?p then [(c_str ''b'', c_str ''2'')] else [])"
    by (rule kv_properties_refine_list [OF p, THEN conjunct2, THEN conjunct1])
  then show ?thesis unfolding m e by simp
qed

end
