(* ===== verification/Trace_State.thy ===== *)
theory Trace_State
  imports Kv_Properties
begin

text \<open>
  \<open>opentelemetry/trace/trace_state.h\<close>: the W3C \<open>tracestate\<close> list. The two validators are given in
  both forms of the source, with the regular expressions translated for a small matcher; which
  one a build uses is the macro \<open>OPENTELEMETRY_HAVE_WORKING_REGEX\<close> (1 except for GCC 4.8 and 4.9).
  The lemmas give the parser and the mutators as functions on the abstract list \<open>ts_list\<close>, and the
  round trip through the header.
\<close>

subsection \<open>Validation of keys and values\<close>

definition kKeyMaxSize :: nat where "kKeyMaxSize = 256"
definition kValueMaxSize :: nat where "kValueMaxSize = 256"
definition kMaxKeyValuePairs :: nat where "kMaxKeyValuePairs = 32"

text \<open>
  \<open>std::regex_match\<close> on an anchored concatenation of bounded character classes \<open>[..]{lo,hi}\<close>.
\<close>

type_synonym regex = "((char \<Rightarrow> bool) \<times> nat \<times> nat) list"

fun regex_match :: "regex \<Rightarrow> string \<Rightarrow> bool" where
  "regex_match [] s \<longleftrightarrow> s = []"
| "regex_match ((P, lo, hi) # r) s \<longleftrightarrow>
     list_ex (\<lambda>n. n \<le> length s \<and> list_all P (take n s) \<and> regex_match r (drop n s)) [lo..<Suc hi]"

definition IsLowerCaseAlphaOrDigit :: "char \<Rightarrow> bool" where
  "IsLowerCaseAlphaOrDigit c \<longleftrightarrow> isdigit c \<or> islower c"

definition key_class :: "char \<Rightarrow> bool" where
  "key_class c \<longleftrightarrow> IsLowerCaseAlphaOrDigit c \<or> c = CHR ''*'' \<or> c = CHR ''_'' \<or> c = CHR ''-'' \<or> c = CHR ''/''"

definition reg_key :: regex where
  "reg_key = [(IsLowerCaseAlphaOrDigit, 1, 1), (key_class, 0, 255)]"

definition reg_key_multitenant :: regex where
  "reg_key_multitenant =
     [(IsLowerCaseAlphaOrDigit, 1, 1), (key_class, 0, 240), (\<lambda>c. c = CHR ''@'', 1, 1),
      (IsLowerCaseAlphaOrDigit, 1, 1), (key_class, 0, 13)]"

definition value_class :: "nat \<Rightarrow> char \<Rightarrow> bool" where
  "value_class first c \<longleftrightarrow>
     (first \<le> char_val c \<and> char_val c \<le> 43) \<or> (45 \<le> char_val c \<and> char_val c \<le> 60) \<or>
     (62 \<le> char_val c \<and> char_val c \<le> 126)"

definition reg_value :: regex where
  "reg_value = [(value_class 32, 0, 255), (value_class 33, 1, 1)]"

definition IsValidKeyRegEx :: "string \<Rightarrow> bool" where
  "IsValidKeyRegEx key \<longleftrightarrow> regex_match reg_key key \<or> regex_match reg_key_multitenant key"

definition IsValidValueRegEx :: "string \<Rightarrow> bool" where
  "IsValidValueRegEx v \<longleftrightarrow> regex_match reg_value v"

fun key_loop :: "int \<Rightarrow> string \<Rightarrow> bool" where
  "key_loop ats [] = True"
| "key_loop ats (c # cs) =
     (if \<not> IsLowerCaseAlphaOrDigit c \<and> c \<noteq> CHR ''_'' \<and> c \<noteq> CHR ''-'' \<and> c \<noteq> CHR ''@'' \<and>
         c \<noteq> CHR ''*'' \<and> c \<noteq> CHR ''/''
      then False
      else if c = CHR ''@'' \<and> ats + 1 > 1 then False
      else key_loop (if c = CHR ''@'' then ats + 1 else ats) cs)"

definition IsValidKeyNonRegEx :: "string \<Rightarrow> bool" where
  "IsValidKeyNonRegEx key =
     (if key = [] \<or> length key > kKeyMaxSize \<or> \<not> IsLowerCaseAlphaOrDigit (key ! 0) then False
      else key_loop 0 key)"

fun value_loop :: "string \<Rightarrow> bool" where
  "value_loop [] = True"
| "value_loop (c # cs) =
     (if schar_val c < 32 \<or> schar_val c > 126 \<or> c = CHR '','' \<or> c = CHR ''='' then False
      else value_loop cs)"

definition IsValidValueNonRegEx :: "string \<Rightarrow> bool" where
  "IsValidValueNonRegEx v =
     (if v = [] \<or> length v > kValueMaxSize then False else value_loop v)"

definition OPENTELEMETRY_HAVE_WORKING_REGEX :: bool where
  "OPENTELEMETRY_HAVE_WORKING_REGEX = True"

definition IsValidKey :: "string \<Rightarrow> bool" where
  "IsValidKey key =
     (if OPENTELEMETRY_HAVE_WORKING_REGEX then IsValidKeyRegEx key else IsValidKeyNonRegEx key)"

definition IsValidValue :: "string \<Rightarrow> bool" where
  "IsValidValue v =
     (if OPENTELEMETRY_HAVE_WORKING_REGEX then IsValidValueRegEx v else IsValidValueNonRegEx v)"

subsection \<open>The class TraceState\<close>

record trace_state =
  ts_kv_properties :: kv_properties

definition TraceState_default :: trace_state where
  "TraceState_default = \<lparr>ts_kv_properties = KeyValueProperties_empty\<rparr>"

definition TraceState :: "nat \<Rightarrow> trace_state" where
  "TraceState n = \<lparr>ts_kv_properties = KeyValueProperties n\<rparr>"

definition ts_GetDefault :: trace_state where
  "ts_GetDefault = TraceState_default"

definition ts_AddEntry :: "trace_state \<Rightarrow> string \<Rightarrow> string \<Rightarrow> trace_state" where
  "ts_AddEntry ts k v = ts\<lparr>ts_kv_properties := AddEntry (ts_kv_properties ts) k v\<rparr>"

text \<open>
  The loop of \<open>FromHeader\<close>. It ends because a call of \<open>next\<close> that finds a member advances the
  index of the tokenizer.
\<close>

function from_header_loop :: "nat \<Rightarrow> tokenizer \<Rightarrow> string \<Rightarrow> string \<Rightarrow> trace_state \<Rightarrow> trace_state" where
  "from_header_loop cnt t key val ts =
     (case tk_next t key val of (found, kv_valid, key', val', t') \<Rightarrow>
        if found \<and> kvp_Size (ts_kv_properties ts) < cnt
        then (if kv_valid = False then ts_GetDefault
              else if \<not> IsValidKey key' \<or> \<not> IsValidValue val'
              then ts\<lparr>ts_kv_properties := KeyValueProperties_empty\<rparr>
              else from_header_loop cnt t' key' val' (ts_AddEntry ts key' val'))
        else ts)"
  by pat_completeness auto
termination
  by (relation "measure (\<lambda>(cnt, t, key, val, ts). length (tk_str t) - tk_index t)")
    (auto dest!: tk_next_advances [OF sym])

declare from_header_loop.simps [simp del]

definition FromHeader :: "string \<Rightarrow> trace_state" where
  "FromHeader header =
     (let t = KeyValueStringTokenizer header;
          cnt = NumTokens t
      in if cnt > kMaxKeyValuePairs then ts_GetDefault
         else from_header_loop cnt t [] [] (TraceState cnt))"

definition header_callback :: "string \<Rightarrow> string \<Rightarrow> string \<times> bool \<Rightarrow> bool \<times> (string \<times> bool)" where
  "header_callback key val st =
     (case st of (header_s, first) \<Rightarrow>
        (True, ((if \<not> first then header_s @ '','' else header_s) @ key @ ''='' @ val, False)))"

definition ToHeader :: "trace_state \<Rightarrow> string" where
  "ToHeader ts = fst (snd (kvp_GetAllEntries (ts_kv_properties ts) header_callback ([], True)))"


definition ts_Set :: "trace_state \<Rightarrow> string \<Rightarrow> string \<Rightarrow> trace_state" where
  "ts_Set ts key val =
     (let curr_size = kvp_Size (ts_kv_properties ts)
      in if \<not> IsValidKey key \<or> \<not> IsValidValue val then ts_GetDefault
         else let allocate_size = (if curr_size < kMaxKeyValuePairs then curr_size + 1 else curr_size);
                  ts1 = TraceState allocate_size;
                  ts2 = (if curr_size < kMaxKeyValuePairs then ts_AddEntry ts1 key val else ts1)
              in snd (kvp_GetAllEntries (ts_kv_properties ts) (\<lambda>k v t. (True, ts_AddEntry t k v)) ts2))"


definition ts_Empty :: "trace_state \<Rightarrow> bool" where
  "ts_Empty ts \<longleftrightarrow> kvp_Size (ts_kv_properties ts) = 0"

definition ts_GetAllEntries ::
    "trace_state \<Rightarrow> (string \<Rightarrow> string \<Rightarrow> 's \<Rightarrow> bool \<times> 's) \<Rightarrow> 's \<Rightarrow> bool \<times> 's" where
  "ts_GetAllEntries ts callback s = kvp_GetAllEntries (ts_kv_properties ts) callback s"

text \<open>The unused helper \<open>TrimString\<close>.\<close>

fun trim_string_right :: "string \<Rightarrow> nat \<Rightarrow> nat \<Rightarrow> nat" where
  "trim_string_right str left right =
     (if str ! right = CHR '' '' \<and> left < right then trim_string_right str left (right - 1) else right)"

function trim_string_left :: "string \<Rightarrow> nat \<Rightarrow> nat \<Rightarrow> nat" where
  "trim_string_left str left right =
     (if str ! left = CHR '' '' \<and> left < right then trim_string_left str (left + 1) right else left)"
  by pat_completeness auto
termination
  by (relation "measure (\<lambda>(str, left, right). right - left)") auto

declare trim_string_left.simps [simp del] trim_string_right.simps [simp del]

definition TrimString :: "string \<Rightarrow> nat \<Rightarrow> nat \<Rightarrow> string" where
  "TrimString str left right =
     (let right' = trim_string_right str left right;
          left' = trim_string_left str left right'
      in sub_at str left' (right' - left' + 1))"

subsection \<open>Reference definitions\<close>

definition ts_list :: "trace_state \<Rightarrow> (string \<times> string) list" where
  "ts_list ts = kvp_list (ts_kv_properties ts)"

text \<open>The invariant: at most 32 members, each with a valid key and a valid value.\<close>

definition wf_ts :: "trace_state \<Rightarrow> bool" where
  "wf_ts ts \<longleftrightarrow> wf_kvp (ts_kv_properties ts) \<and> length (ts_list ts) \<le> kMaxKeyValuePairs \<and>
     list_all (\<lambda>(k, v). IsValidKey k \<and> IsValidValue v) (ts_list ts)"

definition good_member :: "string \<Rightarrow> bool" where
  "good_member m \<longleftrightarrow> member_ok m \<and> IsValidKey (member_key m) \<and> IsValidValue (member_val m)"

text \<open>A state with two members.\<close>

definition demo_ts :: trace_state where "demo_ts = ts_Set (ts_Set ts_GetDefault ''acme'' ''1'') ''other'' ''2''"

subsection \<open>The validators\<close>

lemma regex_match_class_end:
  "regex_match [(P, 0, hi)] s \<longleftrightarrow> length s \<le> hi \<and> list_all P s"
  by (auto simp: list_ex_iff)

lemma regex_match_one:
  "regex_match ((P, 1, 1) # r) s \<longleftrightarrow> (\<exists>c cs. s = c # cs \<and> P c \<and> regex_match r cs)"
  by (cases s) auto

lemma regex_match_split:
  "regex_match ((P, 0, hi) # r) s \<longleftrightarrow>
   (\<exists>a b. s = a @ b \<and> length a \<le> hi \<and> list_all P a \<and> regex_match r b)"
proof
  assume "regex_match ((P, 0, hi) # r) s"
  then obtain n where "n \<le> hi" "n \<le> length s" "list_all P (take n s)" "regex_match r (drop n s)"
    by (force simp: list_ex_iff less_Suc_eq_le simp del: upt_Suc)
  then show "\<exists>a b. s = a @ b \<and> length a \<le> hi \<and> list_all P a \<and> regex_match r b"
    by (intro exI [of _ "take n s"] exI [of _ "drop n s"]) auto
next
  assume "\<exists>a b. s = a @ b \<and> length a \<le> hi \<and> list_all P a \<and> regex_match r b"
  then obtain a b where "s = a @ b" "length a \<le> hi" "list_all P a" "regex_match r b" by blast
  then show "regex_match ((P, 0, hi) # r) s"
    by (auto simp: list_ex_iff intro!: bexI [of _ "length a"])
qed

lemma regex_key_iff:
  "regex_match reg_key s \<longleftrightarrow>
   (\<exists>c cs. s = c # cs \<and> IsLowerCaseAlphaOrDigit c \<and> length cs \<le> 255 \<and> list_all key_class cs)"
  unfolding reg_key_def regex_match_one regex_match_class_end by simp

lemma regex_key_multitenant_iff:
  "regex_match reg_key_multitenant s \<longleftrightarrow>
   (\<exists>c cs d ds. s = c # cs @ CHR ''@'' # d # ds \<and> IsLowerCaseAlphaOrDigit c \<and> length cs \<le> 240 \<and>
      list_all key_class cs \<and> IsLowerCaseAlphaOrDigit d \<and> length ds \<le> 13 \<and> list_all key_class ds)"
  unfolding reg_key_multitenant_def regex_match_one regex_match_class_end
    regex_match_split [where r = "_ # _"] by blast

lemma regex_value_iff:
  "regex_match reg_value s \<longleftrightarrow>
   (\<exists>cs c. s = cs @ [c] \<and> length cs \<le> 255 \<and> list_all (value_class 32) cs \<and> value_class 33 c)"
  unfolding reg_value_def regex_match_one regex_match_split [where r = "_ # _"] regex_match.simps(1)
  by blast

lemma key_char_facts:
  assumes "key_class c \<or> c = CHR ''@''"
  shows "c \<noteq> CHR ''='' \<and> c \<noteq> CHR '','' \<and> c \<noteq> NUL \<and> \<not> isspace c"
proof -
  have "45 \<le> char_val c \<and> char_val c \<noteq> 61 \<and> char_val c \<noteq> 44 \<or> char_val c = 42"
    using assms by (auto simp: key_class_def IsLowerCaseAlphaOrDigit_def char_class char_val_def)
  then show ?thesis by (auto simp: isspace_def char_val_def)
qed

lemma valid_key_chars:
  assumes "IsValidKeyRegEx k"
  shows "k \<noteq> []" and "length k \<le> 256" and "\<forall>c \<in> set k. key_class c \<or> c = CHR ''@''"
  using assms
  by (auto simp: IsValidKeyRegEx_def regex_key_iff regex_key_multitenant_iff list_all_iff key_class_def)

lemma value_char_facts:
  "value_class 32 c \<Longrightarrow> c \<noteq> CHR ''='' \<and> c \<noteq> CHR '','' \<and> c \<noteq> NUL"
  "value_class 33 c \<Longrightarrow> value_class 32 c \<and> \<not> isspace c"
  by (auto simp: value_class_def isspace_def char_val_def)

lemma valid_value_chars:
  assumes "IsValidValueRegEx v"
  shows "v \<noteq> []" and "length v \<le> 256" and "\<forall>c \<in> set v. value_class 32 c" and "\<not> isspace (last v)"
  using assms by (auto simp: IsValidValueRegEx_def regex_value_iff list_all_iff value_char_facts(2))

lemmas valid_regex = IsValidKey_def IsValidValue_def OPENTELEMETRY_HAVE_WORKING_REGEX_def

lemma no_nul_valid:
  shows "IsValidKey k \<Longrightarrow> c_str k = k" and "IsValidValue v \<Longrightarrow> c_str v = v"
proof -
  assume "IsValidKey k"
  then have "\<forall>c \<in> set k. key_class c \<or> c = CHR ''@''" by (simp add: valid_regex valid_key_chars(3))
  then show "c_str k = k" using key_char_facts by (intro c_str_no_nul) blast
next
  assume "IsValidValue v"
  then have "\<forall>c \<in> set v. value_class 32 c" by (simp add: valid_regex valid_value_chars(3))
  then show "c_str v = v" using value_char_facts(1) by (intro c_str_no_nul) blast
qed

subsection \<open>Parsing\<close>

lemma ts_list_default [simp]: "ts_list ts_GetDefault = []" "ts_list (TraceState n) = []"
  by (simp_all add: ts_list_def ts_GetDefault_def TraceState_default_def TraceState_def)

lemma wf_ts_default [simp]: "wf_ts ts_GetDefault" "n \<le> kMaxKeyValuePairs \<Longrightarrow> wf_ts (TraceState n)"
  by (simp_all add: wf_ts_def ts_list_def ts_GetDefault_def TraceState_default_def TraceState_def)

lemma from_header_loop_eq:
  assumes "tk_opts t = default_tokenizer_options" and "wf_kvp (ts_kv_properties ts)"
    and "max_num_entries (ts_kv_properties ts) = cnt"
    and "members CHR '','' (drop (tk_index t) (tk_str t)) = ms"
    and "length (ts_list ts) + length ms \<le> cnt"
  shows "ts_list (from_header_loop cnt t k v ts) =
      (if list_all good_member ms then ts_list ts @ map (\<lambda>m. (member_key m, member_val m)) ms else [])
    \<and> wf_kvp (ts_kv_properties (from_header_loop cnt t k v ts))"
  using assms
proof (induction ms arbitrary: t k v ts)
  case Nil
  obtain t' where "tk_next t k v = (False, True, k, v, t')"
    using tk_next_members [OF Nil(1), of k v] Nil(4) by auto
  with Nil show ?case by (subst (1 2) from_header_loop.simps) simp
next
  case (Cons m ms)
  obtain t' where step: "tk_next t k v =
      (True, member_ok m, if member_ok m then member_key m else k, if member_ok m then member_val m else v, t')"
    and t': "tk_opts t' = default_tokenizer_options"
      "members CHR '','' (drop (tk_index t') (tk_str t')) = ms"
    using tk_next_members [OF Cons.prems(1), of k v] Cons.prems(4) by auto
  have room: "num_entries (ts_kv_properties ts) < cnt"
    using Cons.prems(2,5) by (simp add: ts_list_def)
  let ?ts = "ts_AddEntry ts (member_key m) (member_val m)"
  show ?case
  proof (cases "good_member m")
    case False
    then show ?thesis using step room Cons.prems(3)
      by (subst (1 2) from_header_loop.simps)
        (auto simp: good_member_def ts_list_def kvp_Size_def ts_GetDefault_def TraceState_default_def)
  next
    case True
    have l: "ts_list ?ts = ts_list ts @ [(member_key m, member_val m)]"
      using Cons.prems(2,3) room True
      by (simp add: ts_list_def ts_AddEntry_def good_member_def no_nul_valid)
    have "from_header_loop cnt t k v ts = from_header_loop cnt t' (member_key m) (member_val m) ?ts"
      using step room True by (subst from_header_loop.simps) (simp add: good_member_def kvp_Size_def)
    moreover note Cons.IH [OF t'(1), of ?ts "member_key m" "member_val m"]
    ultimately show ?thesis using t'(2) Cons.prems l True by (simp add: ts_AddEntry_def)
  qed
qed

lemma FromHeader_spec:
  "ts_list (FromHeader h) =
     (if NumTokens (KeyValueStringTokenizer h) \<le> 32 \<and> list_all good_member (members CHR '','' h)
      then map (\<lambda>m. (member_key m, member_val m)) (members CHR '','' h) else [])
   \<and> wf_kvp (ts_kv_properties (FromHeader h))"
proof (cases "NumTokens (KeyValueStringTokenizer h) \<le> 32")
  case True
  have "wf_kvp (ts_kv_properties (TraceState n)) \<and> max_num_entries (ts_kv_properties (TraceState n)) = n" for n
    by (simp add: TraceState_def) (simp add: KeyValueProperties_def)
  with True from_header_loop_eq [of "KeyValueStringTokenizer h" "TraceState (NumTokens (KeyValueStringTokenizer h))"
      "NumTokens (KeyValueStringTokenizer h)" "members CHR '','' h" "[]" "[]"] NumTokens_ge [of h]
  show ?thesis by (simp add: FromHeader_def Let_def kMaxKeyValuePairs_def KeyValueStringTokenizer_def)
qed (simp add: FromHeader_def Let_def kMaxKeyValuePairs_def ts_GetDefault_def TraceState_default_def ts_list_def)

lemma wf_FromHeader: "wf_ts (FromHeader h)"
  using FromHeader_spec [of h] NumTokens_ge [of h]
  by (auto simp: wf_ts_def kMaxKeyValuePairs_def list_all_iff good_member_def)

subsection \<open>Printing, and the round trip\<close>

lemma run_header_callback:
  "run_callback header_callback l (h, False) =
     (True, (h @ concat (map (\<lambda>(k, v). '','' @ k @ ''='' @ v) l), False))"
  by (induction l arbitrary: h) (auto simp: header_callback_def)

lemma ToHeader_eq:
  assumes "wf_kvp (ts_kv_properties ts)"
  shows "ToHeader ts = join_members (ts_list ts)"
proof (cases "ts_list ts")
  case (Cons kv l)
  then show ?thesis using assms
    by (cases kv) (simp add: ToHeader_def kvp_GetAllEntries_eq ts_list_def [symmetric]
        header_callback_def [of _ _ "([], True)"] run_header_callback join_members_Cons)
qed (use assms in \<open>simp add: ToHeader_def kvp_GetAllEntries_eq ts_list_def\<close>)

text \<open>A printed member is one token that the parser accepts and splits as it was.\<close>

lemma printed_member:
  assumes "IsValidKey k" and "IsValidValue v"
  shows "CHR '','' \<notin> set (k @ ''='' @ v)" and "strip (k @ ''='' @ v) = k @ ''='' @ v"
    and "good_member (k @ ''='' @ v)" and "member_key (k @ ''='' @ v) = k" and "member_val (k @ ''='' @ v) = v"
proof -
  note kc = valid_key_chars [of k] and vc = valid_value_chars [of v]
  have k: "IsValidKeyRegEx k" and v: "IsValidValueRegEx v" using assms by (simp_all add: valid_regex)
  note kf = kc(3) [OF k, rule_format, THEN key_char_facts]
  show "CHR '','' \<notin> set (k @ ''='' @ v)" using kf vc(3) [OF v] value_char_facts(1) by auto
  show "strip (k @ ''='' @ v) = k @ ''='' @ v"
    using kc(1) [OF k] kf [of "hd k"] vc(1,4) [OF v] by (intro strip_id) auto
  show mk: "member_key (k @ ''='' @ v) = k"
    unfolding member_key_def by (subst takeWhile_append2) (use kf in auto)
  then show mv: "member_val (k @ ''='' @ v) = v" by (simp add: member_val_def)
  show "good_member (k @ ''='' @ v)" using assms mk mv by (simp add: good_member_def member_ok_def)
qed

lemma clean_printed:
  "list_all (\<lambda>(k, v). IsValidKey k \<and> IsValidValue v) l \<Longrightarrow> list_all (\<lambda>(k, v). clean_member (k @ ''='' @ v)) l"
  using printed_member(1,2) by (auto simp: list_all_iff clean_member_def)

lemma FromHeader_ToHeader:
  assumes "wf_ts ts"
  shows "ts_list (FromHeader (ToHeader ts)) = ts_list ts"
proof -
  let ?l = "ts_list ts"
  have v: "list_all (\<lambda>(k, v). IsValidKey k \<and> IsValidValue v) ?l" and n: "length ?l \<le> 32"
    and h: "ToHeader ts = join_members ?l"
    using assms ToHeader_eq by (auto simp: wf_ts_def kMaxKeyValuePairs_def)
  have "NumTokens (KeyValueStringTokenizer (join_members ?l)) \<le> 32"
    using NumTokens_le [of "join_members ?l"] split_all_join [OF clean_printed [OF v]] n by (cases "?l = []") auto
  moreover have "list_all good_member (map (\<lambda>(k, v). k @ ''='' @ v) ?l)"
    using v printed_member(3) by (auto simp: list_all_iff)
  moreover have "map (\<lambda>m. (member_key m, member_val m)) (map (\<lambda>(k, v). k @ ''='' @ v) ?l) = ?l"
    using v printed_member(4,5) by (auto simp: list_all_iff intro!: map_idI)
  ultimately show ?thesis using FromHeader_spec [of "ToHeader ts"] by (simp add: h members_join [OF clean_printed [OF v]])
qed

subsection \<open>Set, Get and Delete\<close>

lemma ts_fold_kvp:
  "ts_kv_properties (fold (\<lambda>(k, v) t. ts_AddEntry t k v) l ts) =
   fold (\<lambda>(k, v) p. AddEntry p k v) l (ts_kv_properties ts)"
  by (induction l arbitrary: ts) (auto simp: ts_AddEntry_def)

lemma ts_fold_AddEntry:
  assumes "wf_kvp (ts_kv_properties ts)"
    and "length (ts_list ts) + length l \<le> max_num_entries (ts_kv_properties ts)"
  shows "ts_list (fold (\<lambda>(k, v) t. ts_AddEntry t k v) l ts) = ts_list ts @ map (\<lambda>(k, v). (c_str k, c_str v)) l
    \<and> wf_kvp (ts_kv_properties (fold (\<lambda>(k, v) t. ts_AddEntry t k v) l ts))"
  using kvp_fold_AddEntry assms by (simp add: ts_list_def ts_fold_kvp)

lemma wf_ts_c_str: "wf_ts ts \<Longrightarrow> map (\<lambda>(k, v). (c_str k, c_str v)) (ts_list ts) = ts_list ts"
  by (auto simp: ts_list_def dest: kvp_list_c_str intro!: map_idI)

lemma TraceState_max [simp]:
  "wf_kvp (ts_kv_properties (TraceState n))" "max_num_entries (ts_kv_properties (TraceState n)) = n"
  by (simp_all add: TraceState_def) (simp add: KeyValueProperties_def)

lemma ts_Size: "wf_ts ts \<Longrightarrow> kvp_Size (ts_kv_properties ts) = length (ts_list ts)"
  by (simp add: wf_ts_def ts_list_def kvp_Size_eq)

lemma ts_Set_spec:
  assumes "wf_ts ts"
  shows "ts_list (ts_Set ts key val) =
      (if \<not> IsValidKey key \<or> \<not> IsValidValue val then []
       else if length (ts_list ts) < 32 then (key, val) # ts_list ts else ts_list ts)
    \<and> wf_ts (ts_Set ts key val)"
proof (cases "IsValidKey key \<and> IsValidValue val")
  case True
  have w: "wf_kvp (ts_kv_properties ts)" using assms by (simp add: wf_ts_def)
  let ?n = "length (ts_list ts)"
  let ?ts = "if ?n < 32 then ts_AddEntry (TraceState (?n + 1)) key val else TraceState ?n"
  have "ts_list ?ts = (if ?n < 32 then [(key, val)] else [])"
    using True by (simp add: ts_list_def ts_AddEntry_def TraceState_def no_nul_valid)
      (simp add: KeyValueProperties_def)
  moreover have "max_num_entries (ts_kv_properties ?ts) = (if ?n < 32 then ?n + 1 else ?n)"
    and wt: "wf_kvp (ts_kv_properties ?ts)" by (simp_all add: ts_AddEntry_def)
  ultimately have "ts_list (fold (\<lambda>(k, v) t. ts_AddEntry t k v) (ts_list ts) ?ts) =
      (if ?n < 32 then (key, val) # ts_list ts else ts_list ts)
      \<and> wf_kvp (ts_kv_properties (fold (\<lambda>(k, v) t. ts_AddEntry t k v) (ts_list ts) ?ts))"
    using ts_fold_AddEntry [OF wt, of "ts_list ts"] wf_ts_c_str [OF assms] by simp
  moreover have "ts_Set ts key val = fold (\<lambda>(k, v) t. ts_AddEntry t k v) (ts_list ts) ?ts"
    using True w by (simp add: ts_Set_def Let_def kMaxKeyValuePairs_def ts_Size [OF assms]
        kvp_GetAllEntries_eq run_callback_fold ts_list_def)
  ultimately show ?thesis using assms True by (simp add: wf_ts_def kMaxKeyValuePairs_def)
qed (auto simp: ts_Set_def Let_def)




lemma key_loop_no_at:
  "list_all key_class s \<Longrightarrow> key_loop n (s @ r) = key_loop n r"
  by (induction s) (auto simp: key_class_def IsLowerCaseAlphaOrDigit_def char_class char_val_def)

lemma key_loop_class: "list_all key_class s \<Longrightarrow> key_loop n s"
  using key_loop_no_at [of s n "[]"] by simp

lemma alpha_key_class: "IsLowerCaseAlphaOrDigit c \<Longrightarrow> key_class c"
  by (simp add: key_class_def)

lemma key_regex_imp_nonregex: "IsValidKeyRegEx k \<Longrightarrow> IsValidKeyNonRegEx k"
proof -
  assume "IsValidKeyRegEx k"
  then consider
      (simple) c cs where "k = c # cs" "IsLowerCaseAlphaOrDigit c" "length cs \<le> 255" "list_all key_class cs"
    | (tenant) c cs d ds where "k = c # cs @ CHR ''@'' # d # ds" "IsLowerCaseAlphaOrDigit c" "length cs \<le> 240"
        "list_all key_class cs" "IsLowerCaseAlphaOrDigit d" "length ds \<le> 13" "list_all key_class ds"
    by (auto simp: IsValidKeyRegEx_def regex_key_iff regex_key_multitenant_iff)
  then show ?thesis
  proof cases
    case simple
    have "key_loop 0 (c # cs)" using simple by (intro key_loop_class) (simp add: alpha_key_class)
    then show ?thesis using simple by (simp add: IsValidKeyNonRegEx_def kKeyMaxSize_def del: key_loop.simps)
  next
    case tenant
    have "key_loop 1 (d # ds)" using tenant by (intro key_loop_class) (simp add: alpha_key_class)
    then have "key_loop 0 (CHR ''@'' # d # ds)" by (simp del: key_loop.simps add: key_loop.simps(2) [of 0])
    moreover have "list_all key_class (c # cs)" using tenant by (simp add: alpha_key_class)
    ultimately have "key_loop 0 ((c # cs) @ CHR ''@'' # d # ds)" by (simp only: key_loop_no_at)
    then show ?thesis using tenant by (simp add: IsValidKeyNonRegEx_def kKeyMaxSize_def del: key_loop.simps)
  qed
qed

lemma value_char_step:
  "schar_val c < 32 \<or> schar_val c > 126 \<or> c = CHR '','' \<or> c = CHR ''='' \<longleftrightarrow> \<not> value_class 32 c"
proof -
  have "c = d \<longleftrightarrow> char_val c = char_val d" for d by (simp add: char_val_def)
  from this [of "CHR '',''"] this [of "CHR ''=''"]
  have "c = CHR '','' \<longleftrightarrow> char_val c = 44" and "c = CHR ''='' \<longleftrightarrow> char_val c = 61" by (simp_all add: char_val_def)
  moreover have "char_val c < 256" by (rule char_val_less)
  ultimately show ?thesis by (cases "char_val c < 128") (auto simp: value_class_def schar_val_def simp del: char_val_less)
qed

lemma value_loop_iff: "value_loop v \<longleftrightarrow> list_all (value_class 32) v"
  by (induction v) (simp_all only: value_loop.simps value_char_step list.pred_inject, auto)

lemma value_nonregex_iff:
  "IsValidValueNonRegEx v \<longleftrightarrow> v \<noteq> [] \<and> length v \<le> 256 \<and> list_all (value_class 32) v"
  by (simp add: IsValidValueNonRegEx_def value_loop_iff kValueMaxSize_def)

lemma value_class_33: "value_class 33 c \<longleftrightarrow> value_class 32 c \<and> c \<noteq> CHR '' ''"
proof -
  have "char_val CHR '' '' = 32" by (simp add: char_val_def)
  then have "c = CHR '' '' \<longleftrightarrow> char_val c = 32" by (metis char_val_inject)
  then show ?thesis by (auto simp: value_class_def)
qed

lemma value_regex_iff:
  "IsValidValueRegEx v \<longleftrightarrow> IsValidValueNonRegEx v \<and> last v \<noteq> CHR '' ''"
  unfolding IsValidValueRegEx_def regex_value_iff value_nonregex_iff
  by (cases v rule: rev_cases) (auto simp: value_class_33)

lemma demo_valid:
  "IsValidKey ''acme''" "IsValidKey ''other''" "IsValidValue ''1''" "IsValidValue ''2''"
  by code_simp+

lemma demo_ts_facts: "wf_ts demo_ts" "ts_list demo_ts = [(''other'', ''2''), (''acme'', ''1'')]"
  using ts_Set_spec [OF wf_ts_default(1), of "''acme''" "''1''"]
    ts_Set_spec [of "ts_Set ts_GetDefault ''acme'' ''1''" "''other''" "''2''"] demo_valid
  by (simp_all add: demo_ts_def)

subsection \<open>Properties\<close>

text \<open>C10: Parsing a \<open>tracestate\<close> header. Whatever the header holds, the result is well formed (at
  most 32 members with valid keys and values). It has the members of the header, in order, when the
  header has at most 32 tokens and each member is a valid key and value, and is empty otherwise.\<close>

theorem trace_state_from_header:
  "wf_ts (FromHeader h) \<and>
   ts_list (FromHeader h) =
     (if NumTokens (KeyValueStringTokenizer h) \<le> 32 \<and> list_all good_member (members CHR '','' h)
      then map (\<lambda>m. (member_key m, member_val m)) (members CHR '','' h) else [])"
  using FromHeader_spec [of h] wf_FromHeader [of h] by simp

text \<open>A well-formed trace state survives the wire: parsing the header it prints gives back the same
  members in the same order.\<close>

theorem trace_state_round_trip:
  assumes "wf_ts ts"
  shows "ts_list (FromHeader (ToHeader ts)) = ts_list ts \<and> ToHeader (FromHeader (ToHeader ts)) = ToHeader ts"
  using FromHeader_ToHeader [OF assms] assms wf_FromHeader [of "ToHeader ts"]
  by (simp add: ToHeader_eq wf_ts_def)

theorem trace_state_round_trip_witness:
  "ts_list (FromHeader (ToHeader demo_ts)) = [(''other'', ''2''), (''acme'', ''1'')]"
  using trace_state_round_trip [OF demo_ts_facts(1)] by (simp add: demo_ts_facts(2))



text \<open>The two validators that the build chooses between are not the same: what the regular
  expressions accept the hand-written loops accept too, but the loops also accept a key whose
  tenant part is empty and a value that ends in a space.\<close>

theorem trace_state_validators_compared:
  "(IsValidKeyRegEx k \<longrightarrow> IsValidKeyNonRegEx k) \<and>
   (IsValidValueRegEx v \<longleftrightarrow> IsValidValueNonRegEx v \<and> last v \<noteq> CHR '' '') \<and>
   IsValidKeyNonRegEx ''a@'' \<and> \<not> IsValidKeyRegEx ''a@'' \<and>
   IsValidValueNonRegEx ''a '' \<and> \<not> IsValidValueRegEx ''a ''"
proof -
  have "IsValidKeyNonRegEx ''a@''" "\<not> IsValidKeyRegEx ''a@''" "IsValidValueNonRegEx ''a ''" "\<not> IsValidValueRegEx ''a ''"
    by code_simp+
  then show ?thesis using key_regex_imp_nonregex value_regex_iff by blast
qed

theorem trace_state_validators_compared_witness:
  "IsValidKeyRegEx ''t@v'' \<and> IsValidKeyNonRegEx ''t@v''"
proof -
  have "IsValidKeyRegEx ''t@v''" by code_simp
  then show ?thesis using trace_state_validators_compared [of "''t@v''"] by simp
qed

end
