(* ===== verification/Span_Context.thy ===== *)
theory Span_Context
  imports Trace_Ids Trace_State
begin

text \<open>
  \<open>opentelemetry/trace/span_context.h\<close>: the immutable context of a span, and
  \<open>opentelemetry/trace/default_span.h\<close>: the span that only carries one. A span of another
  implementation (the SDK's, which is not part of the headers) is known by its identity and by
  the context that its \<open>GetContext\<close> returns.
\<close>

record span_context =
  sc_trace_id :: trace_id
  sc_span_id :: span_id
  sc_trace_flags :: trace_flags
  sc_is_remote :: bool
  sc_trace_state :: trace_state

definition SpanContext_flagged :: "bool \<Rightarrow> bool \<Rightarrow> span_context" where
  "SpanContext_flagged sampled_flag is_remote =
     \<lparr>sc_trace_id = trace_id_zero, sc_span_id = span_id_zero,
      sc_trace_flags = TraceFlags (if sampled_flag then 1 else 0), sc_is_remote = is_remote,
      sc_trace_state = ts_GetDefault\<rparr>"

definition SpanContext :: "trace_id \<Rightarrow> span_id \<Rightarrow> trace_flags \<Rightarrow> bool \<Rightarrow> trace_state \<Rightarrow> span_context" where
  "SpanContext tid sid fl is_remote ts =
     \<lparr>sc_trace_id = tid, sc_span_id = sid, sc_trace_flags = fl, sc_is_remote = is_remote,
      sc_trace_state = ts\<rparr>"

definition sc_IsValid :: "span_context \<Rightarrow> bool" where
  "sc_IsValid c \<longleftrightarrow> trace_id_IsValid (sc_trace_id c) \<and> span_id_IsValid (sc_span_id c)"

definition sc_eq :: "span_context \<Rightarrow> span_context \<Rightarrow> bool" where
  "sc_eq a b \<longleftrightarrow> trace_id_eq (sc_trace_id a) (sc_trace_id b) \<and> span_id_eq (sc_span_id a) (sc_span_id b) \<and>
     tf_rep (sc_trace_flags a) = tf_rep (sc_trace_flags b)"

definition sc_IsRemote :: "span_context \<Rightarrow> bool" where
  "sc_IsRemote c = sc_is_remote c"

definition sc_GetInvalid :: span_context where
  "sc_GetInvalid = SpanContext_flagged False False"

definition sc_IsSampled :: "span_context \<Rightarrow> bool" where
  "sc_IsSampled c = trace_flags_IsSampled (sc_trace_flags c)"

datatype span =
    DefaultSpan span_context
  | ForeignSpan nat span_context

fun span_GetContext :: "span \<Rightarrow> span_context" where
  "span_GetContext (DefaultSpan c) = c"
| "span_GetContext (ForeignSpan i c) = c"

text \<open>The operations of \<open>DefaultSpan\<close> have empty bodies: each leaves the span as it is.\<close>

datatype span_op =
    OpSetAttribute string | OpAddEvent string | OpSetStatus nat string | OpUpdateName string | OpEnd

definition DefaultSpan_op :: "span_context \<Rightarrow> span_op \<Rightarrow> span_context" where
  "DefaultSpan_op c op = c"

definition DefaultSpan_IsRecording :: "span_context \<Rightarrow> bool" where
  "DefaultSpan_IsRecording c = False"

definition DefaultSpan_GetInvalid :: span where
  "DefaultSpan_GetInvalid = DefaultSpan sc_GetInvalid"

definition wf_span_context :: "span_context \<Rightarrow> bool" where
  "wf_span_context c \<longleftrightarrow> wf_trace_id (sc_trace_id c) \<and> wf_span_id (sc_span_id c) \<and> wf_ts (sc_trace_state c)"

text \<open>A valid context.\<close>

definition demo_span_context :: span_context where
  "demo_span_context = SpanContext (TraceId (replicate 15 0 @ [1])) (SpanId (replicate 7 0 @ [2])) (TraceFlags 1) False ts_GetDefault"

lemma GetInvalid_not_valid [simp]: "\<not> sc_IsValid sc_GetInvalid"
  by (simp add: sc_IsValid_def sc_GetInvalid_def SpanContext_flagged_def trace_id_IsValid_def trace_id_eq_def)

lemma wf_GetInvalid [simp]: "wf_span_context sc_GetInvalid"
  by (simp add: wf_span_context_def sc_GetInvalid_def SpanContext_flagged_def wf_trace_id_def wf_span_id_def
      trace_id_zero_def span_id_zero_def)

text \<open>\<open>operator==\<close> identifies the contexts that agree on ids and flags; the trace state and the
  remote flag are left out.\<close>

lemma sc_eq_iff:
  assumes "wf_span_context a" and "wf_span_context b"
  shows "sc_eq a b \<longleftrightarrow> sc_trace_id a = sc_trace_id b \<and> sc_span_id a = sc_span_id b \<and>
    sc_trace_flags a = sc_trace_flags b"
  using assms
  by (cases "sc_trace_id a"; cases "sc_trace_id b"; cases "sc_span_id a"; cases "sc_span_id b";
      cases "sc_trace_flags a"; cases "sc_trace_flags b")
    (simp add: sc_eq_def wf_span_context_def wf_trace_id_def wf_span_id_def trace_id_eq_def span_id_eq_def)

lemma sc_eq_IsValid:
  assumes "wf_span_context a" and "wf_span_context b" and "sc_eq a b"
  shows "sc_IsValid a = sc_IsValid b"
  using assms by (simp add: sc_eq_iff sc_IsValid_def)

lemma demo_span_context_ok: "wf_span_context demo_span_context" "sc_IsValid demo_span_context"
  by (simp_all add: demo_span_context_def SpanContext_def wf_span_context_def wf_trace_id_def wf_span_id_def
      sc_IsValid_def trace_id_kSize_def span_id_kSize_def trace_id_IsValid_def trace_id_eq_def trace_id_zero_def
      span_id_IsValid_def replicate_app_Cons_same numeral_eq_Suc)

end
