(* ===== verification/Baggage.thy ===== *)
theory Baggage
  imports Kv_Properties
begin

text \<open>
  \<open>opentelemetry/baggage/baggage.h\<close>: the W3C \<open>baggage\<close> header, with percent-encoding of keys and
  values and metadata after a semicolon. \<open>FromHeader\<close> is related to a reference reading of the
  header members (\<open>decode_member\<close>); percent-encoding is shown to be invertible on every byte
  string, and the header round trip is stated with the exact condition under which it holds.
\<close>

definition bag_kMaxKeyValuePairs :: nat where "bag_kMaxKeyValuePairs = 180"
definition bag_kMaxKeyValueSize :: nat where "bag_kMaxKeyValueSize = 4096"
definition bag_kMaxSize :: nat where "bag_kMaxSize = 8192"

record baggage =
  bag_kv_properties :: kv_properties

definition Baggage_default :: baggage where
  "Baggage_default = \<lparr>bag_kv_properties = KeyValueProperties_empty\<rparr>"

definition Baggage_sized :: "nat \<Rightarrow> baggage" where
  "Baggage_sized n = \<lparr>bag_kv_properties = KeyValueProperties n\<rparr>"

definition Baggage_of :: "(string \<times> string) list \<Rightarrow> baggage" where
  "Baggage_of kvs = \<lparr>bag_kv_properties = KeyValueProperties_of kvs\<rparr>"

definition bag_AddEntry :: "baggage \<Rightarrow> string \<Rightarrow> string \<Rightarrow> baggage" where
  "bag_AddEntry b k v = b\<lparr>bag_kv_properties := AddEntry (bag_kv_properties b) k v\<rparr>"

definition bag_GetValue :: "baggage \<Rightarrow> string \<Rightarrow> string option" where
  "bag_GetValue b key = kvp_GetValue (bag_kv_properties b) key"

fun IsPrintableString :: "string \<Rightarrow> bool" where
  "IsPrintableString [] = True"
| "IsPrintableString (ch # str) =
     (if schar_val ch < 32 \<or> schar_val ch > 126 then False else IsPrintableString str)"

definition bag_IsValidKey :: "string \<Rightarrow> bool" where
  "bag_IsValidKey key \<longleftrightarrow> length key \<noteq> 0 \<and> IsPrintableString key"

definition bag_IsValidValue :: "string \<Rightarrow> bool" where
  "bag_IsValidValue val \<longleftrightarrow> IsPrintableString val"

definition bag_Set :: "baggage \<Rightarrow> string \<Rightarrow> string \<Rightarrow> baggage" where
  "bag_Set b key val =
     (let new = Baggage_sized (kvp_Size (bag_kv_properties b) + 1);
          valid_kv = (bag_IsValidKey key \<and> bag_IsValidValue val);
          new1 = (if valid_kv then bag_AddEntry new key val else new)
      in snd (kvp_GetAllEntries (bag_kv_properties b)
                (\<lambda>k v t. (True, if \<not> valid_kv \<or> sv_neq key k then bag_AddEntry t k v else t)) new1))"

definition bag_GetAllEntries ::
    "baggage \<Rightarrow> (string \<Rightarrow> string \<Rightarrow> 's \<Rightarrow> bool \<times> 's) \<Rightarrow> 's \<Rightarrow> bool \<times> 's" where
  "bag_GetAllEntries b callback s = kvp_GetAllEntries (bag_kv_properties b) callback s"

definition bag_Delete :: "baggage \<Rightarrow> string \<Rightarrow> baggage" where
  "bag_Delete b key =
     snd (kvp_GetAllEntries (bag_kv_properties b)
            (\<lambda>k v t. (True, if sv_neq key k then bag_AddEntry t k v else t))
            (Baggage_sized (kvp_Size (bag_kv_properties b))))"

subsection \<open>Percent-encoding\<close>

definition url_hex :: string where "url_hex = ''0123456789ABCDEF''"

definition unreserved :: "char \<Rightarrow> bool" where
  "unreserved c \<longleftrightarrow> isalnum c \<or> c = CHR ''-'' \<or> c = CHR ''_'' \<or> c = CHR ''.'' \<or> c = CHR ''~''"

fun UrlEncode :: "string \<Rightarrow> string" where
  "UrlEncode [] = []"
| "UrlEncode (c # str) =
     (if unreserved c then [c]
      else if c = CHR '' '' then ''+''
      else [CHR ''%'', url_hex ! (char_val c div 16), url_hex ! (char_val c mod 16)]) @ UrlEncode str"

definition IsHex :: "char \<Rightarrow> bool" where
  "IsHex c \<longleftrightarrow> isdigit c \<or> (65 \<le> char_val c \<and> char_val c \<le> 70) \<or> (97 \<le> char_val c \<and> char_val c \<le> 102)"

definition from_hex :: "char \<Rightarrow> nat" where
  "from_hex c = (if isdigit c then char_val c - 48 else char_val (to_upper c) - 65 + 10)"

text \<open>\<open>err\<close> is only ever set, never cleared: \<^term>\<open>None\<close> stands for \<open>err = 1\<close> with an empty result.\<close>

fun UrlDecode :: "string \<Rightarrow> string option" where
  "UrlDecode [] = Some []"
| "UrlDecode (c # str) =
     (if c = CHR ''%''
      then (case str of
              a # b # rest \<Rightarrow>
                if \<not> IsHex a \<or> \<not> IsHex b then None
                else map_option ((#) (char_of (from_hex a * 16 + from_hex b))) (UrlDecode rest)
            | _ \<Rightarrow> None)
      else if c = CHR ''+'' then map_option ((#) CHR '' '') (UrlDecode str)
      else if unreserved c then map_option ((#) c) (UrlDecode str)
      else None)"

subsection \<open>FromHeader and ToHeader\<close>

definition split_metadata :: "string \<Rightarrow> string \<times> string" where
  "split_metadata val =
     (case find_char CHR '';'' val 0 of
        None \<Rightarrow> (val, [])
      | Some i \<Rightarrow> (take i val, drop i val))"

function bag_from_header_loop :: "nat \<Rightarrow> tokenizer \<Rightarrow> string \<Rightarrow> string \<Rightarrow> baggage \<Rightarrow> baggage" where
  "bag_from_header_loop cnt t key val b =
     (case tk_next t key val of (found, kv_valid, key', val', t') \<Rightarrow>
        if found \<and> kvp_Size (bag_kv_properties b) < cnt
        then (if \<not> kv_valid \<or> length key' + length val' > bag_kMaxKeyValueSize
              then bag_from_header_loop cnt t' key' val' b
              else let (val2, metadata) = split_metadata val'
                   in case (UrlDecode (Trim key'), UrlDecode (Trim val2)) of
                        (Some key_str, Some value_str) \<Rightarrow>
                          if bag_IsValidKey key_str \<and> bag_IsValidValue value_str
                          then bag_from_header_loop cnt t' key' val2
                                 (bag_AddEntry b key_str (value_str @ metadata))
                          else bag_from_header_loop cnt t' key' val2 b
                      | _ \<Rightarrow> bag_from_header_loop cnt t' key' val2 b)
        else b)"
  by pat_completeness auto
termination
  by (relation "measure (\<lambda>(cnt, t, key, val, b). length (tk_str t) - tk_index t)")
    (auto dest!: tk_next_advances [OF sym])

declare bag_from_header_loop.simps [simp del]

definition bag_FromHeader :: "string \<Rightarrow> baggage" where
  "bag_FromHeader header =
     (if length header > bag_kMaxSize then Baggage_default
      else let t = KeyValueStringTokenizer header;
               cnt = (if NumTokens t > bag_kMaxKeyValuePairs then bag_kMaxKeyValuePairs else NumTokens t)
           in bag_from_header_loop cnt t [] [] (Baggage_sized cnt))"

definition print_value :: "string \<Rightarrow> string" where
  "print_value val =
     (case find_char CHR '';'' val 0 of
        Some i \<Rightarrow> UrlEncode (take i val) @ drop i val
      | None \<Rightarrow> UrlEncode val)"

definition bag_header_callback :: "string \<Rightarrow> string \<Rightarrow> string \<times> bool \<Rightarrow> bool \<times> (string \<times> bool)" where
  "bag_header_callback key val st =
     (case st of (header_s, first) \<Rightarrow>
        (True, ((if \<not> first then header_s @ '','' else header_s) @ UrlEncode key @ ''='' @ print_value val,
                False)))"

definition bag_ToHeader :: "baggage \<Rightarrow> string" where
  "bag_ToHeader b = fst (snd (kvp_GetAllEntries (bag_kv_properties b) bag_header_callback ([], True)))"

subsection \<open>Reference definitions\<close>

definition bag_list :: "baggage \<Rightarrow> (string \<times> string) list" where
  "bag_list b = kvp_list (bag_kv_properties b)"

text \<open>What a header member contributes: nothing when it is malformed, too long, badly encoded or
  not printable; otherwise the decoded key and value, with the metadata as it stands.\<close>

definition decode_member :: "string \<Rightarrow> (string \<times> string) option" where
  "decode_member m =
     (if \<not> member_ok m \<or> length (member_key m) + length (member_val m) > 4096 then None
      else case (UrlDecode (strip (member_key m)), UrlDecode (strip (fst (split_metadata (member_val m))))) of
             (Some k, Some v) \<Rightarrow>
               if bag_IsValidKey k \<and> bag_IsValidValue v
               then Some (c_str k, c_str (v @ snd (split_metadata (member_val m)))) else None
           | _ \<Rightarrow> None)"

definition wf_bag :: "baggage \<Rightarrow> bool" where
  "wf_bag b \<longleftrightarrow> wf_kvp (bag_kv_properties b)"

definition print_member :: "string \<times> string \<Rightarrow> string" where
  "print_member kv = UrlEncode (fst kv) @ ''='' @ print_value (snd kv)"

text \<open>The entries that survive a trip through the header.\<close>

definition portable_entry :: "string \<times> string \<Rightarrow> bool" where
  "portable_entry kv \<longleftrightarrow>
     bag_IsValidKey (fst kv) \<and> bag_IsValidValue (snd kv) \<and>
     CHR '','' \<notin> set (snd (split_metadata (snd kv))) \<and>
     (snd (split_metadata (snd kv)) \<noteq> [] \<longrightarrow> \<not> isspace (last (snd kv))) \<and>
     length (UrlEncode (fst kv)) + length (print_value (snd kv)) \<le> 4096"

subsection \<open>Percent-encoding\<close>

lemma url_hex_digits: "k < 16 \<Longrightarrow> IsHex (url_hex ! k) \<and> from_hex (url_hex ! k) = k"
proof -
  have "\<forall>k \<in> set [0..<16]. IsHex (url_hex ! k) \<and> from_hex (url_hex ! k) = k"
    by (simp add: upt_conv_Cons IsHex_def from_hex_def url_hex_def to_upper_def char_class char_val_def)
  then show "k < 16 \<Longrightarrow> ?thesis" by simp
qed

lemma unreserved_facts:
  assumes "unreserved c"
  shows "c \<noteq> CHR ''%'' \<and> c \<noteq> CHR ''+'' \<and> c \<noteq> CHR ''='' \<and> c \<noteq> CHR '','' \<and> c \<noteq> CHR '';'' \<and>
    c \<noteq> NUL \<and> \<not> isspace c"
proof -
  have "45 \<le> char_val c \<and> char_val c \<noteq> 59 \<and> char_val c \<noteq> 61"
    using assms by (auto simp: unreserved_def char_class char_val_def)
  then show ?thesis by (auto simp: isspace_def char_val_def)
qed

lemma char_val_high: "char_val c div 16 < 16"
  by (rule less_mult_imp_div_less) simp

lemma UrlDecode_UrlEncode [simp]: "UrlDecode (UrlEncode s) = Some s"
proof (induction s)
  case (Cons c s)
  then show ?case using char_val_high [of c] Cons url_hex_digits unreserved_facts [of c] by auto
qed simp

lemma url_hex_unreserved: "k < 16 \<Longrightarrow> unreserved (url_hex ! k)"
  using url_hex_digits [of k] by (auto simp: IsHex_def unreserved_def char_class)

lemma UrlEncode_chars: "c \<in> set (UrlEncode s) \<Longrightarrow> unreserved c \<or> c = CHR ''%'' \<or> c = CHR ''+''"
proof (induction s)
  case (Cons d s)
  then show ?case using char_val_high [of d] Cons url_hex_unreserved by (auto split: if_splits)
qed simp

lemma UrlEncode_plain:
  assumes "c \<in> set (UrlEncode s)"
  shows "c \<noteq> CHR ''='' \<and> c \<noteq> CHR '','' \<and> c \<noteq> CHR '';'' \<and> c \<noteq> NUL \<and> \<not> isspace c"
proof -
  have "37 \<le> char_val c \<and> char_val c \<noteq> 44 \<and> char_val c \<noteq> 59 \<and> char_val c \<noteq> 61"
    using UrlEncode_chars [OF assms] by (auto simp: unreserved_def char_class char_val_def)
  then show ?thesis by (auto simp: isspace_def char_val_def)
qed

lemma UrlEncode_eq_Nil [simp]: "UrlEncode s = [] \<longleftrightarrow> s = []"
  by (cases s) auto

lemma strip_UrlEncode [simp]: "strip (UrlEncode s) = UrlEncode s"
proof (cases "s = []")
  case False
  then show ?thesis
    using UrlEncode_plain [of "hd (UrlEncode s)" s] UrlEncode_plain [of "last (UrlEncode s)" s]
    by (intro strip_id) auto
qed simp

subsection \<open>FromHeader\<close>

lemma IsPrintable_no_nul: "IsPrintableString s \<Longrightarrow> NUL \<notin> set s"
  by (induction s) (auto simp: schar_val_def split: if_splits)

lemma bag_from_header_loop_eq:
  assumes "tk_opts t = default_tokenizer_options" and "wf_kvp (bag_kv_properties b)"
    and "max_num_entries (bag_kv_properties b) = cnt"
    and "members CHR '','' (drop (tk_index t) (tk_str t)) = ms"
  shows "bag_list (bag_from_header_loop cnt t k v b) =
      bag_list b @ take (cnt - length (bag_list b)) (List.map_filter decode_member ms)
    \<and> wf_kvp (bag_kv_properties (bag_from_header_loop cnt t k v b))"
  using assms
proof (induction ms arbitrary: t k v b)
  case Nil
  obtain t' where "tk_next t k v = (False, True, k, v, t')"
    using tk_next_members [OF Nil(1), of k v] Nil(4) by auto
  with Nil show ?case by (subst (1 2) bag_from_header_loop.simps) (simp add: map_filter_simps)
next
  case (Cons m ms)
  obtain t' where step: "tk_next t k v =
      (True, member_ok m, if member_ok m then member_key m else k, if member_ok m then member_val m else v, t')"
    and t': "tk_opts t' = default_tokenizer_options"
      "members CHR '','' (drop (tk_index t') (tk_str t')) = ms"
    using tk_next_members [OF Cons.prems(1), of k v] Cons.prems(4) by auto
  have len: "num_entries (bag_kv_properties b) = length (bag_list b)"
    using Cons.prems(2) by (simp add: bag_list_def)
  show ?case
  proof (cases "length (bag_list b) < cnt")
    case False
    with step len show ?thesis using Cons.prems(2)
      by (subst (1 2) bag_from_header_loop.simps) (simp add: kvp_Size_def)
  next
    case room: True
    note IH = Cons.IH [OF t'(1) _ _ t'(2)]
    show ?thesis
    proof (cases "decode_member m")
      case None
      then have "\<exists>k' v'. bag_from_header_loop cnt t k v b = bag_from_header_loop cnt t' k' v' b"
        using step room len unfolding decode_member_def
        by (subst bag_from_header_loop.simps)
          (auto simp: kvp_Size_def bag_kMaxKeyValueSize_def Trim_eq split: if_splits option.splits prod.splits)
      with None IH Cons.prems(2,3) show ?thesis by (auto simp: map_filter_simps)
    next
      case (Some kv)
      then obtain a c where dec: "member_ok m" "length (member_key m) + length (member_val m) \<le> 4096"
          "UrlDecode (strip (member_key m)) = Some a"
          "UrlDecode (strip (fst (split_metadata (member_val m)))) = Some c"
          "bag_IsValidKey a" "bag_IsValidValue c"
          "kv = (c_str a, c_str (c @ snd (split_metadata (member_val m))))"
        by (auto simp: decode_member_def split: if_splits option.splits)
      let ?b = "bag_AddEntry b a (c @ snd (split_metadata (member_val m)))"
      have l: "bag_list ?b = bag_list b @ [kv]"
        using Cons.prems(2,3) room by (simp add: bag_list_def bag_AddEntry_def dec(7))
      have "bag_from_header_loop cnt t k v b =
          bag_from_header_loop cnt t' (member_key m) (fst (split_metadata (member_val m))) ?b"
        using step room len dec
        by (subst bag_from_header_loop.simps)
          (auto simp: kvp_Size_def bag_kMaxKeyValueSize_def Trim_eq split: prod.splits)
      moreover note IH [of ?b "member_key m" "fst (split_metadata (member_val m))"]
      ultimately show ?thesis
        using Cons.prems(2,3) l room Some
        by (auto simp: bag_AddEntry_def map_filter_simps take_Cons' Suc_diff_le)
    qed
  qed
qed

lemma Baggage_sized_max [simp]:
  "wf_kvp (bag_kv_properties (Baggage_sized n))" "max_num_entries (bag_kv_properties (Baggage_sized n)) = n"
  "bag_list (Baggage_sized n) = []"
  by (simp_all add: Baggage_sized_def bag_list_def) (simp add: KeyValueProperties_def)

lemma bag_FromHeader_spec:
  "bag_list (bag_FromHeader h) =
     (if length h \<le> 8192
      then take (min 180 (NumTokens (KeyValueStringTokenizer h)))
             (List.map_filter decode_member (members CHR '','' h))
      else [])
   \<and> wf_bag (bag_FromHeader h)"
proof (cases "length h \<le> 8192")
  case True
  let ?t = "KeyValueStringTokenizer h"
  let ?n = "min 180 (NumTokens ?t)"
  have e: "bag_FromHeader h = bag_from_header_loop ?n ?t [] [] (Baggage_sized ?n)"
    using True by (simp add: bag_FromHeader_def Let_def bag_kMaxSize_def bag_kMaxKeyValuePairs_def min_def)
  have o: "tk_opts ?t = default_tokenizer_options" "members CHR '','' (drop (tk_index ?t) (tk_str ?t)) = members CHR '','' h"
    by (simp_all add: KeyValueStringTokenizer_def)
  show ?thesis
    using bag_from_header_loop_eq [OF o(1) _ _ o(2), of "Baggage_sized ?n" ?n "[]" "[]"] True
    by (simp add: e wf_bag_def)
qed (simp add: bag_FromHeader_def bag_kMaxSize_def Baggage_default_def bag_list_def wf_bag_def)

text \<open>The members that decode always fit, unless there are more than 180 of them.\<close>

lemma length_map_filter_le: "length (List.map_filter f xs) \<le> length xs"
  by (induction xs) (auto simp: map_filter_simps split: option.splits)

lemma bag_FromHeader_list:
  assumes "length h \<le> 8192" and "length (members CHR '','' h) \<le> 180"
  shows "bag_list (bag_FromHeader h) = List.map_filter decode_member (members CHR '','' h)"
  using bag_FromHeader_spec [of h] assms NumTokens_ge [of h]
    length_map_filter_le [of decode_member "members CHR '','' h"] by simp

subsection \<open>ToHeader, and the round trip\<close>

lemma run_bag_header_callback:
  "run_callback bag_header_callback l (h, False) =
     (True, (h @ concat (map (\<lambda>(k, v). '','' @ k @ ''='' @ v)
                           (map (\<lambda>(k, v). (UrlEncode k, print_value v)) l)), False))"
  by (induction l arbitrary: h) (auto simp: bag_header_callback_def)

lemma bag_ToHeader_eq:
  assumes "wf_bag b"
  shows "bag_ToHeader b = join_members (map (\<lambda>(k, v). (UrlEncode k, print_value v)) (bag_list b))"
proof (cases "bag_list b")
  case (Cons kv l)
  then show ?thesis using assms
    by (cases kv) (simp add: bag_ToHeader_def kvp_GetAllEntries_eq bag_list_def [symmetric] wf_bag_def
        bag_header_callback_def [of _ _ "([], True)"] run_bag_header_callback join_members_Cons)
qed (use assms in \<open>simp add: bag_ToHeader_def kvp_GetAllEntries_eq bag_list_def wf_bag_def\<close>)

lemma split_metadata_eq:
  "split_metadata v = (takeWhile (\<lambda>c. c \<noteq> CHR '';'') v, dropWhile (\<lambda>c. c \<noteq> CHR '';'') v)"
proof (cases "index_of (\<lambda>x. x = CHR '';'') v")
  case None
  then have all: "\<forall>c \<in> set v. c \<noteq> CHR '';''" by simp
  have "takeWhile (\<lambda>c. c \<noteq> CHR '';'') v = v" "dropWhile (\<lambda>c. c \<noteq> CHR '';'') v = []"
    using all by (simp_all only: takeWhile_eq_all_conv dropWhile_eq_Nil_conv)
  moreover have "split_metadata v = (v, [])"
    by (simp add: split_metadata_def find_char_def None del: index_of_None)
  ultimately show ?thesis by (simp only:)
next
  case (Some i)
  have "length (takeWhile (\<lambda>c. c \<noteq> CHR '';'') v) = i"
    using index_of_take [OF Some] index_of_Some_less [OF Some] by (metis length_take less_imp_le min.absorb2)
  then show ?thesis
    using Some index_of_take [OF Some] by (simp add: split_metadata_def find_char_def dropWhile_eq_drop)
qed

lemma print_value_eq: "print_value v = UrlEncode (fst (split_metadata v)) @ snd (split_metadata v)"
  by (auto simp: print_value_def split_metadata_def split: option.splits)

lemma split_print_value:
  "split_metadata (print_value v) = (UrlEncode (fst (split_metadata v)), snd (split_metadata v))"
proof -
  let ?P = "\<lambda>c. c \<noteq> CHR '';''"
  have p: "?P c" if "c \<in> set (UrlEncode s)" for c s using UrlEncode_plain [OF that] by simp
  have "takeWhile ?P (dropWhile ?P v) = []" and "dropWhile ?P (dropWhile ?P v) = dropWhile ?P v"
    by (induction v) auto
  moreover have "takeWhile ?P (UrlEncode x @ b) = UrlEncode x @ takeWhile ?P b"
    and "dropWhile ?P (UrlEncode x @ b) = dropWhile ?P b" for x b
    by (rule takeWhile_append2 dropWhile_append2, erule p)+
  ultimately show ?thesis
    unfolding print_value_eq split_metadata_eq fst_conv snd_conv by simp
qed

lemma IsPrintable_append [simp]: "IsPrintableString (a @ b) \<longleftrightarrow> IsPrintableString a \<and> IsPrintableString b"
  by (induction a) auto

lemma portable_printed:
  assumes "portable_entry (k, v)"
  shows "clean_member (UrlEncode k @ ''='' @ print_value v)"
    and "decode_member (UrlEncode k @ ''='' @ print_value v) = Some (k, v)"
proof -
  let ?m = "UrlEncode k @ ''='' @ print_value v"
  have kne: "k \<noteq> []" and pk: "IsPrintableString k" and pv: "IsPrintableString v"
    using assms by (auto simp: portable_entry_def bag_IsValidKey_def bag_IsValidValue_def)
  have v: "fst (split_metadata v) @ snd (split_metadata v) = v" by (simp add: split_metadata_eq)
  have c: "CHR '','' \<notin> set ?m"
    using assms UrlEncode_plain by (auto simp: portable_entry_def print_value_eq)
  have "\<not> isspace (hd ?m)" using kne UrlEncode_plain [of "hd (UrlEncode k)" k] by auto
  moreover have "\<not> isspace (last ?m)"
  proof (cases "snd (split_metadata v) = []")
    case True
    then show ?thesis
      using UrlEncode_plain [of "last (UrlEncode (fst (split_metadata v)))" "fst (split_metadata v)"]
      by (cases "fst (split_metadata v) = []") (auto simp: print_value_eq isspace_def char_val_def)
  next
    case False
    then have "last ?m = last v" by (metis (no_types, lifting) last_appendR print_value_eq v append_is_Nil_conv)
    then show ?thesis using False assms by (simp add: portable_entry_def)
  qed
  ultimately show "clean_member ?m" using c strip_id [of ?m] by (simp add: clean_member_def)
  have mk: "member_key ?m = UrlEncode k"
    unfolding member_key_def by (subst takeWhile_append2) (use UrlEncode_plain in auto)
  then have mv: "member_val ?m = print_value v" by (simp add: member_val_def)
  have "c_str k = k" "c_str v = v" using pk pv by (simp_all add: c_str_no_nul IsPrintable_no_nul)
  moreover have "IsPrintableString (fst (split_metadata v))" using pv v IsPrintable_append by metis
  ultimately show "decode_member ?m = Some (k, v)"
    using assms v mk mv by (simp add: decode_member_def member_ok_def split_print_value
        portable_entry_def bag_IsValidValue_def)
qed

lemma map_filter_all: "(\<And>x. x \<in> set xs \<Longrightarrow> f (g x) = Some x) \<Longrightarrow> List.map_filter f (map g xs) = xs"
  by (induction xs) (auto simp: map_filter_simps)

lemma bag_FromHeader_ToHeader:
  assumes "wf_bag b" and "list_all portable_entry (bag_list b)"
    and "length (bag_list b) \<le> 180" and "length (bag_ToHeader b) \<le> 8192"
  shows "bag_list (bag_FromHeader (bag_ToHeader b)) = bag_list b"
proof -
  let ?l = "map (\<lambda>(k, v). (UrlEncode k, print_value v)) (bag_list b)"
  have "list_all (\<lambda>(k, v). clean_member (k @ ''='' @ v)) ?l"
    using assms(2) portable_printed(1) by (auto simp: list_all_iff)
  from members_join [OF this] have m: "members CHR '','' (bag_ToHeader b) = map print_member (bag_list b)"
    by (auto simp: bag_ToHeader_eq [OF assms(1)] print_member_def)
  have "List.map_filter decode_member (map print_member (bag_list b)) = bag_list b"
    using assms(2) portable_printed(2) by (intro map_filter_all) (auto simp: list_all_iff print_member_def)
  then show ?thesis using assms(3,4) bag_FromHeader_list [of "bag_ToHeader b"] by (simp add: m)
qed

subsection \<open>Set, GetValue and Delete\<close>

lemma bag_fold_kvp:
  "bag_kv_properties (fold (\<lambda>(k, v) t. bag_AddEntry t k v) l b) =
   fold (\<lambda>(k, v) p. AddEntry p k v) l (bag_kv_properties b)"
  by (induction l arbitrary: b) (auto simp: bag_AddEntry_def)

lemma bag_fold_AddEntry:
  assumes "wf_bag b" and "length (bag_list b) + length l \<le> max_num_entries (bag_kv_properties b)"
  shows "bag_list (fold (\<lambda>(k, v) t. bag_AddEntry t k v) l b) =
      bag_list b @ map (\<lambda>(k, v). (c_str k, c_str v)) l
    \<and> wf_bag (fold (\<lambda>(k, v) t. bag_AddEntry t k v) l b)"
  using kvp_fold_AddEntry assms by (simp add: bag_list_def bag_fold_kvp wf_bag_def)

lemma bag_list_c_str:
  "map (\<lambda>(k, v). (c_str k, c_str v)) (filter P (bag_list b)) = filter P (bag_list b)"
  by (auto simp: bag_list_def dest: kvp_list_c_str intro!: map_idI)

lemma bag_Delete_spec:
  assumes "wf_bag b"
  shows "bag_list (bag_Delete b key) = filter (\<lambda>(k, v). k \<noteq> key) (bag_list b) \<and> wf_bag (bag_Delete b key)"
proof -
  let ?l = "filter (\<lambda>(k, v). k \<noteq> key) (bag_list b)" and ?n = "length (bag_list b)"
  have "bag_Delete b key = fold (\<lambda>(k, v) t. bag_AddEntry t k v) ?l (Baggage_sized ?n)"
    using assms by (simp add: bag_Delete_def kvp_GetAllEntries_eq run_callback_fold wf_bag_def kvp_Size_eq
        bag_list_def [symmetric] sv_neq_def fold_filter [of "\<lambda>k. k \<noteq> key"] eq_commute)
  then show ?thesis
    using bag_fold_AddEntry [of "Baggage_sized ?n" ?l] length_filter_le [of _ "bag_list b"]
    by (simp add: bag_list_c_str wf_bag_def)
qed

lemma bag_Set_spec:
  assumes "wf_bag b"
  shows "bag_list (bag_Set b key val) =
      (if bag_IsValidKey key \<and> bag_IsValidValue val
       then (key, val) # filter (\<lambda>(k, v). k \<noteq> key) (bag_list b) else bag_list b)
    \<and> wf_bag (bag_Set b key val)"
proof -
  let ?ok = "bag_IsValidKey key \<and> bag_IsValidValue val" and ?n = "length (bag_list b)"
  let ?l = "filter (\<lambda>(k, v). \<not> ?ok \<or> k \<noteq> key) (bag_list b)"
  let ?new = "if ?ok then bag_AddEntry (Baggage_sized (?n + 1)) key val else Baggage_sized (?n + 1)"
  have e: "bag_Set b key val = fold (\<lambda>(k, v) t. bag_AddEntry t k v) ?l ?new"
  proof (cases ?ok)
    case True
    then show ?thesis
      using assms by (simp add: bag_Set_def Let_def kvp_GetAllEntries_eq run_callback_fold wf_bag_def
          kvp_Size_eq bag_list_def [symmetric] sv_neq_def fold_filter [of "\<lambda>k. k \<noteq> key"] eq_commute)
  next
    case False
    then show ?thesis
      using assms by (auto simp: bag_Set_def Let_def kvp_GetAllEntries_eq run_callback_fold wf_bag_def
          kvp_Size_eq bag_list_def [symmetric])
  qed
  have "c_str key = key" "c_str val = val" if ?ok
    using that by (simp_all add: bag_IsValidKey_def bag_IsValidValue_def c_str_no_nul IsPrintable_no_nul)
  then have "bag_list ?new = (if ?ok then [(key, val)] else [])" and "wf_bag ?new"
    and "max_num_entries (bag_kv_properties ?new) = ?n + 1"
    by (simp_all add: bag_AddEntry_def bag_list_def Baggage_sized_def wf_bag_def)
      (simp_all add: KeyValueProperties_def)
  moreover have "length ?l \<le> ?n" by (rule length_filter_le)
  ultimately show ?thesis
    using bag_fold_AddEntry [of ?new ?l] by (auto simp: e bag_list_c_str cong: if_cong)
qed

lemma bag_GetValue_eq: "wf_bag b \<Longrightarrow> bag_GetValue b key = map_of (bag_list b) key"
  by (simp add: bag_GetValue_def wf_bag_def bag_list_def kvp_GetValue_eq)

subsection \<open>Properties\<close>

text \<open>Percent-encoding. Decoding inverts encoding on every byte string, and the encoded text has
  none of the characters that the header format gives a meaning.\<close>

theorem url_encoding_round_trip:
  "UrlDecode (UrlEncode s) = Some s \<and>
   list_all (\<lambda>c. c \<noteq> CHR ''='' \<and> c \<noteq> CHR '','' \<and> c \<noteq> CHR '';'' \<and> c \<noteq> NUL \<and> \<not> isspace c) (UrlEncode s)"
  using UrlEncode_plain by (auto simp: list_all_iff)

text \<open>Parsing a \<open>baggage\<close> header. Whatever the header holds the result is well formed: a header of
  more than 8192 bytes gives the empty baggage; otherwise the members that decode contribute, in order, at
  most 180 of them, and a bad member is skipped without harm to the others.\<close>

theorem baggage_from_header:
  "wf_bag (bag_FromHeader h) \<and>
   bag_list (bag_FromHeader h) =
     (if length h \<le> 8192
      then take (min 180 (NumTokens (KeyValueStringTokenizer h))) (List.map_filter decode_member (members CHR '','' h))
      else [])"
  using bag_FromHeader_spec [of h] by simp

text \<open>\<open>Set\<close> and \<open>Delete\<close> return new baggages and refine the map operations: after \<open>Set\<close> with a valid
  pair the key has the value, once, and every other key keeps its own; an invalid pair changes
  nothing; \<open>Delete\<close> removes the key and nothing else.\<close>

theorem baggage_operations:
  assumes "wf_bag b"
  shows "wf_bag (bag_Set b key val) \<and> wf_bag (bag_Delete b key) \<and>
     bag_GetValue (bag_Set b key val) =
       (if bag_IsValidKey key \<and> bag_IsValidValue val then (bag_GetValue b)(key \<mapsto> val) else bag_GetValue b) \<and>
     bag_GetValue (bag_Delete b key) = (bag_GetValue b)(key := None) \<and>
     (distinct (map fst (bag_list b)) \<longrightarrow> distinct (map fst (bag_list (bag_Set b key val))))"
proof -
  have m: "map_of (filter (\<lambda>(k, v). k \<noteq> key) l) = (map_of l)(key := None)" for l :: "(string \<times> string) list"
    by (induction l) (auto simp: fun_eq_iff)
  have "bag_GetValue (bag_Set b key val) =
      (if bag_IsValidKey key \<and> bag_IsValidValue val then (bag_GetValue b)(key \<mapsto> val) else bag_GetValue b)"
    using bag_Set_spec [OF assms, of key val] by (auto simp: fun_eq_iff bag_GetValue_eq assms m)
  moreover have "bag_GetValue (bag_Delete b key) = (bag_GetValue b)(key := None)"
    using bag_Delete_spec [OF assms, of key] by (auto simp: fun_eq_iff bag_GetValue_eq assms m)
  moreover have "distinct (map fst (bag_list b)) \<longrightarrow> distinct (map fst (bag_list (bag_Set b key val)))"
    using bag_Set_spec [OF assms, of key val] by (auto simp: distinct_map_filter)
  ultimately show ?thesis using bag_Set_spec [OF assms] bag_Delete_spec [OF assms] by blast
qed

theorem baggage_operations_witness:
  "bag_GetValue (bag_Set Baggage_default ''user'' ''7'') ''user'' = Some ''7'' \<and>
   bag_GetValue (bag_Delete (bag_Set Baggage_default ''user'' ''7'') ''user'') ''user'' = None"
proof -
  have w: "wf_bag Baggage_default" by (simp add: wf_bag_def Baggage_default_def)
  have v: "bag_IsValidKey ''user''" "bag_IsValidValue ''7''" by code_simp+
  note s = baggage_operations [OF w, of "''user''" "''7''"]
  then have "wf_bag (bag_Set Baggage_default ''user'' ''7'')" by blast
  from s baggage_operations [OF this, of "''user''" "[]"] show ?thesis by (simp add: v)
qed

text \<open>A baggage of printable entries, whose metadata have no comma and do not end in white space,
  survives the header, as long as it keeps to the limits on members and size. Without the condition on
  commas it need not: an encoded semicolon decodes to the start of a metadata part, which is printed
  without encoding.\<close>

theorem baggage_round_trip:
  assumes "wf_bag b" and "list_all portable_entry (bag_list b)"
    and "length (bag_list b) \<le> 180" and "length (bag_ToHeader b) \<le> 8192"
  shows "bag_list (bag_FromHeader (bag_ToHeader b)) = bag_list b \<and>
     bag_list (bag_FromHeader ''k=a%3Bb%2Cc'') = [(''k'', ''a;b,c'')] \<and>
     bag_list (bag_FromHeader (bag_ToHeader (bag_FromHeader ''k=a%3Bb%2Cc''))) = [(''k'', ''a;b'')]"
proof -
  have "bag_list (bag_FromHeader ''k=a%3Bb%2Cc'') = [(''k'', ''a;b,c'')]" by code_simp
  moreover have "bag_list (bag_FromHeader (bag_ToHeader (bag_FromHeader ''k=a%3Bb%2Cc''))) = [(''k'', ''a;b'')]"
    by code_simp
  ultimately show ?thesis using bag_FromHeader_ToHeader [OF assms] by simp
qed

theorem baggage_round_trip_witness:
  "bag_list (bag_FromHeader (bag_ToHeader (bag_Set Baggage_default ''a b'' ''x;y=1''))) = [(''a b'', ''x;y=1'')]"
proof -
  let ?b = "bag_Set Baggage_default ''a b'' ''x;y=1''"
  have l: "bag_list ?b = [(''a b'', ''x;y=1'')]" by code_simp
  have "wf_bag ?b" using bag_Set_spec [of Baggage_default] by (simp add: wf_bag_def Baggage_default_def)
  moreover have "portable_entry (''a b'', ''x;y=1'')" by code_simp
  moreover have "length (bag_ToHeader ?b) \<le> 8192" by code_simp
  ultimately show ?thesis using baggage_round_trip [of ?b] l by simp
qed

end
