(* ===== verification/Otel_Context.thy ===== *)
theory Otel_Context
  imports Span_Context Baggage
begin

text \<open>
  \<open>opentelemetry/context/context.h\<close> with its values (\<open>context_value.h\<close>), the accessors of
  \<open>trace/context.h\<close> and of \<open>baggage/baggage_context.h\<close>. A context is a pointer into a linked list
  of nodes that contexts share, so the nodes live in an explicit heap (an address is an index
  into the list of all nodes ever allocated; nodes are never reused). \<open>ctx_rep\<close> relates a context
  to the association list it stands for. The loops over the list take as fuel the number of nodes
  in the heap, which \<open>chain_length\<close> shows to be enough.
\<close>

datatype context_value =
    CV_monostate
  | CV_bool bool
  | CV_int64 "64 word"
  | CV_uint64 u64
  | CV_double "64 word"
  | CV_span span
  | CV_span_context span_context
  | CV_baggage baggage

record data_list =
  dl_key :: string
  dl_next :: "nat option"
  dl_value :: context_value

type_synonym ctx_heap = "data_list list"

datatype ctx = Context (ctx_head: "nat option")

definition DataList_default :: data_list where
  "DataList_default = \<lparr>dl_key = [], dl_next = None, dl_value = CV_monostate\<rparr>"

definition DataList_kv :: "string \<Rightarrow> context_value \<Rightarrow> data_list" where
  "DataList_kv key val = \<lparr>dl_key = key, dl_next = None, dl_value = val\<rparr>"

text \<open>\<open>DataList(keys_and_vals)\<close>: the node at the first fresh address, the others linked after it.\<close>

fun link_nodes :: "ctx_heap \<Rightarrow> nat \<Rightarrow> (string \<times> context_value) list \<Rightarrow> ctx_heap" where
  "link_nodes h node [] = h"
| "link_nodes h node ((k, v) # kvs) =
     link_nodes (h[node := (h ! node)\<lparr>dl_next := Some (length h)\<rparr>] @ [DataList_kv k v]) (length h) kvs"

definition DataList_of :: "ctx_heap \<Rightarrow> (string \<times> context_value) list \<Rightarrow> ctx_heap" where
  "DataList_of h kvs =
     (case kvs of
        [] \<Rightarrow> h @ [DataList_default]
      | (k, v) # r \<Rightarrow> link_nodes (h @ [DataList_kv k v]) (length h) r)"

definition Context_default :: ctx where
  "Context_default = Context None"

definition Context_of :: "ctx_heap \<Rightarrow> (string \<times> context_value) list \<Rightarrow> ctx_heap \<times> ctx" where
  "Context_of h kvs = (DataList_of h kvs, Context (Some (length h)))"

definition Context_kv :: "ctx_heap \<Rightarrow> string \<Rightarrow> context_value \<Rightarrow> ctx_heap \<times> ctx" where
  "Context_kv h key val = (h @ [DataList_kv key val], Context (Some (length h)))"

fun last_node :: "nat \<Rightarrow> ctx_heap \<Rightarrow> nat \<Rightarrow> nat" where
  "last_node 0 h p = p"
| "last_node (Suc fuel) h p =
     (case dl_next (h ! p) of None \<Rightarrow> p | Some q \<Rightarrow> last_node fuel h q)"

definition ctx_SetValues :: "ctx_heap \<Rightarrow> ctx \<Rightarrow> (string \<times> context_value) list \<Rightarrow> ctx_heap \<times> ctx" where
  "ctx_SetValues h c kvs =
     (let (h1, c1) = Context_of h kvs;
          last = last_node (length h1) h1 (length h)
      in (h1[last := (h1 ! last)\<lparr>dl_next := ctx_head c\<rparr>], c1))"

definition ctx_SetValue :: "ctx_heap \<Rightarrow> ctx \<Rightarrow> string \<Rightarrow> context_value \<Rightarrow> ctx_heap \<times> ctx" where
  "ctx_SetValue h c key val =
     (let (h1, c1) = Context_kv h key val
      in (h1[length h := (h1 ! length h)\<lparr>dl_next := ctx_head c\<rparr>], c1))"

fun get_value :: "nat \<Rightarrow> ctx_heap \<Rightarrow> nat option \<Rightarrow> string \<Rightarrow> context_value" where
  "get_value 0 h p key = CV_monostate"
| "get_value (Suc fuel) h p key =
     (case p of
        None \<Rightarrow> CV_monostate
      | Some a \<Rightarrow>
          if length key = length (dl_key (h ! a)) \<and> key = dl_key (h ! a)
          then dl_value (h ! a) else get_value fuel h (dl_next (h ! a)) key)"

definition ctx_GetValue :: "ctx_heap \<Rightarrow> ctx \<Rightarrow> string \<Rightarrow> context_value" where
  "ctx_GetValue h c key = get_value (length h + 1) h (ctx_head c) key"

definition ctx_HasKey :: "ctx_heap \<Rightarrow> ctx \<Rightarrow> string \<Rightarrow> bool" where
  "ctx_HasKey h c key \<longleftrightarrow> ctx_GetValue h c key \<noteq> CV_monostate"

definition ctx_eq :: "ctx \<Rightarrow> ctx \<Rightarrow> bool" where
  "ctx_eq a b \<longleftrightarrow> ctx_head a = ctx_head b"

subsection \<open>Spans and baggage in a context\<close>

definition kSpanKey :: string where "kSpanKey = ''active_span''"
definition kIsRootSpanKey :: string where "kIsRootSpanKey = ''is_root_span''"
definition kBaggageHeader :: string where "kBaggageHeader = ''baggage''"

definition GetSpan :: "ctx_heap \<Rightarrow> ctx \<Rightarrow> span" where
  "GetSpan h c = (case ctx_GetValue h c kSpanKey of CV_span s \<Rightarrow> s | _ \<Rightarrow> DefaultSpan sc_GetInvalid)"

definition IsRootSpan :: "ctx_heap \<Rightarrow> ctx \<Rightarrow> bool" where
  "IsRootSpan h c = (case ctx_GetValue h c kIsRootSpanKey of CV_bool b \<Rightarrow> b | _ \<Rightarrow> False)"

definition SetSpan :: "ctx_heap \<Rightarrow> ctx \<Rightarrow> span \<Rightarrow> ctx_heap \<times> ctx" where
  "SetSpan h c s = ctx_SetValue h c kSpanKey (CV_span s)"

definition GetBaggage :: "ctx_heap \<Rightarrow> ctx \<Rightarrow> baggage" where
  "GetBaggage h c = (case ctx_GetValue h c kBaggageHeader of CV_baggage b \<Rightarrow> b | _ \<Rightarrow> Baggage_default)"

definition SetBaggage :: "ctx_heap \<Rightarrow> ctx \<Rightarrow> baggage \<Rightarrow> ctx_heap \<times> ctx" where
  "SetBaggage h c b = ctx_SetValue h c kBaggageHeader (CV_baggage b)"

subsection \<open>What a context stands for\<close>

fun chain :: "ctx_heap \<Rightarrow> nat option \<Rightarrow> nat list \<Rightarrow> bool" where
  "chain h p [] \<longleftrightarrow> p = None"
| "chain h p (a # as) \<longleftrightarrow> p = Some a \<and> a < length h \<and> chain h (dl_next (h ! a)) as"

definition node_kv :: "data_list \<Rightarrow> string \<times> context_value" where
  "node_kv n = (dl_key n, dl_value n)"

definition ctx_rep :: "ctx_heap \<Rightarrow> ctx \<Rightarrow> (string \<times> context_value) list \<Rightarrow> bool" where
  "ctx_rep h c l \<longleftrightarrow> (\<exists>as. chain h (ctx_head c) as \<and> l = map (\<lambda>a. node_kv (h ! a)) as)"

definition lookup_ctx :: "(string \<times> context_value) list \<Rightarrow> string \<Rightarrow> context_value" where
  "lookup_ctx l key = (case map_of l key of Some v \<Rightarrow> v | None \<Rightarrow> CV_monostate)"

text \<open>The nodes that \<open>DataList(keys_and_vals)\<close> adds, with \<open>q\<close> as the last link.\<close>

fun linked :: "nat option \<Rightarrow> nat \<Rightarrow> data_list \<Rightarrow> (string \<times> context_value) list \<Rightarrow> data_list list" where
  "linked q base n [] = [n\<lparr>dl_next := q\<rparr>]"
| "linked q base n ((k, v) # kvs) =
     n\<lparr>dl_next := Some (Suc base)\<rparr> # linked q (Suc base) (DataList_kv k v) kvs"

subsection \<open>Chains\<close>

lemma chain_unique: "chain h p as \<Longrightarrow> chain h p bs \<Longrightarrow> as = bs"
proof (induction as arbitrary: p bs)
  case Nil
  then show ?case by (cases bs) auto
next
  case (Cons a as)
  then show ?case by (cases bs) auto
qed

lemma chain_suffix: "chain h p (as @ a # bs) \<Longrightarrow> chain h (Some a) (a # bs)"
  by (induction as arbitrary: p) auto

lemma chain_distinct: "chain h p as \<Longrightarrow> distinct as"
proof (induction as arbitrary: p)
  case (Cons a as)
  have "a \<notin> set as"
  proof
    assume "a \<in> set as"
    then obtain us vs where "as = us @ a # vs" by (auto dest: split_list)
    with Cons.prems have "chain h p (a # us @ a # vs)" by simp
    from chain_suffix [of h p "a # us" a vs] this have "chain h (Some a) (a # vs)" by simp
    moreover have "chain h (Some a) (a # us @ a # vs)" using \<open>chain h p (a # us @ a # vs)\<close> by simp
    ultimately have "a # vs = a # us @ a # vs" by (rule chain_unique)
    then show False by simp
  qed
  with Cons show ?case by auto
qed simp

lemma chain_less: "chain h p as \<Longrightarrow> a \<in> set as \<Longrightarrow> a < length h"
  by (induction as arbitrary: p) auto

lemma chain_length: "chain h p as \<Longrightarrow> length as \<le> length h"
proof -
  assume c: "chain h p as"
  then have "card (set as) \<le> card {..<length h}"
    using chain_less by (intro card_mono) blast+
  then show ?thesis using chain_distinct [OF c] by (simp add: distinct_card)
qed

lemma get_value_chain:
  "chain h p as \<Longrightarrow> length as < fuel \<Longrightarrow>
   get_value fuel h p key = lookup_ctx (map (\<lambda>a. node_kv (h ! a)) as) key"
proof (induction as arbitrary: p fuel)
  case Nil
  then show ?case by (cases fuel) (auto simp: lookup_ctx_def)
next
  case (Cons a as)
  then obtain f where f: "fuel = Suc f" by (cases fuel) auto
  with Cons show ?case by (auto simp: lookup_ctx_def node_kv_def)
qed

lemma ctx_GetValue_rep: "ctx_rep h c l \<Longrightarrow> ctx_GetValue h c key = lookup_ctx l key"
  using chain_length
  by (auto simp: ctx_rep_def ctx_GetValue_def less_Suc_eq_le simp del: get_value.simps intro!: get_value_chain)

lemma chain_grow: "chain h p as \<Longrightarrow> chain (h @ ns) p as"
  by (induction as arbitrary: p) (auto simp: nth_append)

text \<open>Allocation leaves every context as it was.\<close>

lemma ctx_rep_grow: "ctx_rep h c l \<Longrightarrow> ctx_rep (h @ ns) c l"
  unfolding ctx_rep_def using chain_grow chain_less by (fastforce simp: nth_append)

lemma ctx_rep_default [simp]: "ctx_rep h Context_default []"
  by (simp add: ctx_rep_def Context_default_def exI [of _ "[]"])

lemma ctx_rep_unique: "ctx_rep h c l \<Longrightarrow> ctx_rep h c l' \<Longrightarrow> l = l'"
  using chain_unique by (auto simp: ctx_rep_def)

subsection \<open>SetValue\<close>

lemma ctx_SetValue_eq:
  "ctx_SetValue h c key val =
     (h @ [\<lparr>dl_key = key, dl_next = ctx_head c, dl_value = val\<rparr>], Context (Some (length h)))"
  by (simp add: ctx_SetValue_def Context_kv_def DataList_kv_def list_update_append)

lemma ctx_SetValue_rep:
  assumes "ctx_rep h c l" and "ctx_SetValue h c key val = (h', c')"
  shows "ctx_rep h' c' ((key, val) # l)" and "ctx_rep h d m \<Longrightarrow> ctx_rep h' d m"
proof -
  let ?n = "\<lparr>dl_key = key, dl_next = ctx_head c, dl_value = val\<rparr>"
  have e: "h' = h @ [?n]" "c' = Context (Some (length h))" using assms(2) by (simp_all add: ctx_SetValue_eq)
  show "ctx_rep h d m \<Longrightarrow> ctx_rep h' d m" unfolding e by (rule ctx_rep_grow)
  have "ctx_rep h' c l" unfolding e by (rule ctx_rep_grow [OF assms(1)])
  then obtain as where "chain h' (ctx_head c) as" "l = map (\<lambda>a. node_kv (h' ! a)) as"
    by (auto simp: ctx_rep_def)
  then show "ctx_rep h' c' ((key, val) # l)"
    by (auto simp: ctx_rep_def e node_kv_def intro!: exI [of _ "length h # as"])
qed

text \<open>The value just set is found at once, even if the older part of the list is not known.\<close>

lemma GetValue_SetValue [simp]:
  "ctx_SetValue h c key val = (h', c') \<Longrightarrow> ctx_GetValue h' c' key = val"
  by (auto simp: ctx_SetValue_eq ctx_GetValue_def)

lemma get_value_other:
  "ctx_rep h c l \<Longrightarrow> ctx_SetValue h c key val = (h', c') \<Longrightarrow> k \<noteq> key \<Longrightarrow>
   ctx_GetValue h' c' k = ctx_GetValue h c k"
  using ctx_GetValue_rep [of h c l k] ctx_GetValue_rep [OF ctx_SetValue_rep(1), of h c l key val h' c' k]
  by (simp add: lookup_ctx_def)

subsection \<open>SetValues\<close>

lemma link_nodes_eq:
  "dl_next n = None \<Longrightarrow> link_nodes (h @ [n]) (length h) kvs = h @ linked None (length h) n kvs"
proof (induction kvs arbitrary: h n)
  case (Cons kv kvs)
  obtain k v where kv: "kv = (k, v)" by (cases kv)
  show ?case
    using Cons.IH [of "DataList_kv k v" "h @ [n\<lparr>dl_next := Some (Suc (length h))\<rparr>]"]
    by (simp add: kv list_update_append DataList_kv_def)
qed simp

lemma length_linked [simp]: "length (linked q base n kvs) = Suc (length kvs)"
  by (induction q base n kvs rule: linked.induct) auto

lemma relink_last:
  "(h @ linked None (length h) n kvs)[length h + length kvs :=
      ((h @ linked None (length h) n kvs) ! (length h + length kvs))\<lparr>dl_next := q\<rparr>] = h @ linked q (length h) n kvs"
proof (induction kvs arbitrary: h n)
  case (Cons kv kvs)
  obtain k v where kv: "kv = (k, v)" by (cases kv)
  show ?case
    using Cons.IH [of "h @ [n\<lparr>dl_next := Some (Suc (length h))\<rparr>]" "DataList_kv k v"] by (simp add: kv)
qed simp

lemma last_node_linked:
  "length kvs < fuel \<Longrightarrow>
   last_node fuel (h @ linked None (length h) n kvs) (length h) = length h + length kvs"
proof (induction kvs arbitrary: h n fuel)
  case Nil
  then show ?case by (cases fuel) auto
next
  case (Cons kv kvs)
  obtain k v f where kv: "kv = (k, v)" "fuel = Suc f" using Cons.prems by (cases kv; cases fuel) auto
  show ?case
    using Cons.IH [of f "h @ [n\<lparr>dl_next := Some (Suc (length h))\<rparr>]" "DataList_kv k v"] Cons.prems
    by (simp add: kv)
qed

lemma chain_linked:
  "chain h q as \<Longrightarrow> length h = base \<Longrightarrow>
   chain (h @ linked q base n kvs) (Some base) ([base..<Suc (base + length kvs)] @ as) \<and>
   map (\<lambda>a. node_kv ((h @ linked q base n kvs) ! a)) ([base..<Suc (base + length kvs)] @ as) =
     node_kv n # kvs @ map (\<lambda>a. node_kv (h ! a)) as"
proof (induction kvs arbitrary: h base n)
  case Nil
  then show ?case using chain_grow [of h q as] chain_less [OF Nil(1)]
    by (auto simp: node_kv_def nth_append)
next
  case (Cons kv kvs)
  obtain k v where kv: "kv = (k, v)" by (cases kv)
  let ?n = "n\<lparr>dl_next := Some (Suc base)\<rparr>"
  have "chain (h @ [?n]) q as" by (rule chain_grow [OF Cons.prems(1)])
  from Cons.IH [OF this, of "Suc base" "DataList_kv k v"] Cons.prems(2)
  have IH: "chain (h @ ?n # linked q (Suc base) (DataList_kv k v) kvs) (Some (Suc base))
      ([Suc base..<Suc (Suc base + length kvs)] @ as)"
    "map (\<lambda>a. node_kv ((h @ ?n # linked q (Suc base) (DataList_kv k v) kvs) ! a))
       ([Suc base..<Suc (Suc base + length kvs)] @ as) =
      node_kv (DataList_kv k v) # kvs @ map (\<lambda>a. node_kv ((h @ [?n]) ! a)) as" by simp_all
  have "map (\<lambda>a. node_kv ((h @ [?n]) ! a)) as = map (\<lambda>a. node_kv (h ! a)) as"
    using chain_less [OF Cons.prems(1)] by (auto simp: nth_append)
  moreover have "[base..<Suc (base + length (kv # kvs))] = base # [Suc base..<Suc (Suc base + length kvs)]"
    by (simp add: upt_rec)
  moreover have "(h @ ?n # X) ! base = ?n" for X using Cons.prems(2) by auto
  ultimately show ?case using IH Cons.prems(2)
    by (simp add: kv node_kv_def DataList_kv_def del: upt_Suc)
qed

lemma ctx_SetValues_rep:
  assumes "ctx_rep h c l" and "ctx_SetValues h c kvs = (h', c')"
  shows "ctx_rep h' c' ((if kvs = [] then [([], CV_monostate)] else kvs) @ l)"
    and "ctx_rep h d m \<Longrightarrow> ctx_rep h' d m"
proof -
  define n where "n = (case kvs of [] \<Rightarrow> DataList_default | (k, v) # r \<Rightarrow> DataList_kv k v)"
  define r where "r = tl kvs"
  have nn: "dl_next n = None"
    by (auto simp: n_def DataList_default_def DataList_kv_def split: list.splits)
  have "DataList_of h kvs = h @ linked None (length h) n r"
    using link_nodes_eq [OF nn, of h r] nn
    by (auto simp: DataList_of_def n_def r_def DataList_default_def split: list.splits)
  then have e: "h' = h @ linked (ctx_head c) (length h) n r" "c' = Context (Some (length h))"
    using assms(2) relink_last [of h n r "ctx_head c"]
      last_node_linked [of r "length h + Suc (length r)" h n]
    by (simp_all add: ctx_SetValues_def Context_of_def Let_def)
  show "ctx_rep h d m \<Longrightarrow> ctx_rep h' d m" unfolding e by (rule ctx_rep_grow)
  obtain as where as: "chain h (ctx_head c) as" "l = map (\<lambda>a. node_kv (h ! a)) as"
    using assms(1) by (auto simp: ctx_rep_def)
  have kvs: "node_kv n # r = (if kvs = [] then [([], CV_monostate)] else kvs)"
    by (auto simp: n_def r_def node_kv_def DataList_default_def DataList_kv_def split: list.splits)
  have "ctx_rep h' c' ((node_kv n # r) @ l)"
    using chain_linked [OF as(1) refl, of n r] as(2) unfolding ctx_rep_def e ctx.sel
    by (metis append_Cons)
  then show "ctx_rep h' c' ((if kvs = [] then [([], CV_monostate)] else kvs) @ l)" by (simp only: kvs)
qed

subsection \<open>Spans and baggage\<close>

lemma GetSpan_SetSpan [simp]: "SetSpan h c s = (h', c') \<Longrightarrow> GetSpan h' c' = s"
  by (simp add: SetSpan_def GetSpan_def)

lemma GetBaggage_SetBaggage [simp]: "SetBaggage h c b = (h', c') \<Longrightarrow> GetBaggage h' c' = b"
  by (simp add: SetBaggage_def GetBaggage_def)

subsection \<open>Properties\<close>

text \<open>C32: Contexts are persistent. For a context that stands for the list \<open>l\<close>, \<open>SetValue\<close> and \<open>SetValues\<close>
  return a context that stands for the new pairs in front of \<open>l\<close>; lookups return the first pair of the key
  (or \<open>monostate\<close>); and every other context keeps standing for what it stood for, also those that
  share nodes with it. The loops over the nodes end.\<close>

theorem contexts_are_persistent:
  assumes "ctx_rep h c l" and "ctx_rep h d m"
    and "ctx_SetValue h c key val = (h1, c1)" and "ctx_SetValues h c kvs = (h2, c2)" and "kvs \<noteq> []"
  shows "ctx_rep h1 c1 ((key, val) # l) \<and> ctx_rep h1 d m \<and> ctx_rep h2 c2 (kvs @ l) \<and> ctx_rep h2 d m \<and>
     ctx_GetValue h1 c1 k = (if k = key then val else ctx_GetValue h c k) \<and>
     ctx_GetValue h2 c2 k = (case map_of kvs k of Some v \<Rightarrow> v | None \<Rightarrow> ctx_GetValue h c k) \<and>
     ctx_GetValue h1 d k = ctx_GetValue h d k \<and> ctx_GetValue h2 d k = ctx_GetValue h d k"
proof -
  note r1 = ctx_SetValue_rep [OF assms(1,3)] and r2 = ctx_SetValues_rep [OF assms(1,4)]
  have r: "ctx_rep h1 c1 ((key, val) # l)" "ctx_rep h1 d m" "ctx_rep h2 c2 (kvs @ l)" "ctx_rep h2 d m"
    using r1 r2 assms(2,5) by simp_all
  show ?thesis
    using r by (simp add: ctx_GetValue_rep [OF r(1)] ctx_GetValue_rep [OF r(2)] ctx_GetValue_rep [OF r(3)]
        ctx_GetValue_rep [OF r(4)] ctx_GetValue_rep [OF assms(1)] ctx_GetValue_rep [OF assms(2)]
        lookup_ctx_def map_add_def split: option.splits)
qed

theorem contexts_are_persistent_witness:
  "\<exists>h1 c1. ctx_SetValue [] Context_default ''k'' (CV_bool True) = (h1, c1) \<and>
     ctx_GetValue h1 c1 ''k'' = CV_bool True \<and> ctx_GetValue h1 Context_default ''k'' = CV_monostate"
proof -
  obtain h1 c1 where e: "ctx_SetValue [] Context_default ''k'' (CV_bool True) = (h1, c1)" by force
  obtain h2 c2 where f: "ctx_SetValues [] Context_default [(''k'', CV_bool False)] = (h2, c2)" by force
  show ?thesis
    using contexts_are_persistent [OF ctx_rep_default ctx_rep_default e f, of "''k''"] e
      ctx_GetValue_rep [OF ctx_rep_default, of "[]" "''k''"] by (auto simp: lookup_ctx_def)
qed

end
