(* ===== verification/Runtime_Context.thy ===== *)
theory Runtime_Context
  imports Otel_Context
begin

text \<open>
  \<open>opentelemetry/context/runtime_context.h\<close>: the thread-local stack of attached contexts, with its
  growing array, and the static class \<open>RuntimeContext\<close> over it. The interface
  \<open>RuntimeContextStorage\<close> is the locale \<open>context_storage\<close>; \<open>ThreadLocalContextStorage\<close> interprets
  it. The state is the stack of one thread.
\<close>

subsection \<open>The stack\<close>

record ctx_stack =
  stk_size :: nat
  stk_capacity :: nat
  stk_base :: "ctx list"

definition Stack_new :: ctx_stack where
  "Stack_new = \<lparr>stk_size = 0, stk_capacity = 0, stk_base = []\<rparr>"

definition stk_Pop :: "ctx_stack \<Rightarrow> ctx_stack" where
  "stk_Pop s =
     (if stk_size s = 0 then s
      else s\<lparr>stk_base := (stk_base s)[stk_size s - 1 := Context_default], stk_size := stk_size s - 1\<rparr>)"

text \<open>A token holds the context it was made for.\<close>

datatype token = Token (tok_context: ctx)

definition token_eq :: "token \<Rightarrow> ctx \<Rightarrow> bool" where
  "token_eq t c \<longleftrightarrow> ctx_eq (tok_context t) c"

fun contains_loop :: "ctx list \<Rightarrow> token \<Rightarrow> nat \<Rightarrow> bool" where
  "contains_loop base t 0 = False"
| "contains_loop base t (Suc n) = (if token_eq t (base ! n) then True else contains_loop base t n)"

definition stk_Contains :: "ctx_stack \<Rightarrow> token \<Rightarrow> bool" where
  "stk_Contains s t = contains_loop (stk_base s) t (stk_size s)"

definition stk_Top :: "ctx_stack \<Rightarrow> ctx" where
  "stk_Top s = (if stk_size s = 0 then Context_default else stk_base s ! (stk_size s - 1))"

text \<open>\<open>Resize\<close> is called by \<open>Push\<close> after \<open>size_\<close> was incremented; the copy loop takes
  \<open>min(old_size, new_capacity)\<close> contexts, the rest of the new array is default contexts.\<close>

definition stk_Resize :: "ctx_stack \<Rightarrow> nat \<Rightarrow> ctx_stack" where
  "stk_Resize s new_capacity =
     (let old_size = stk_size s - 1;
          cap = (if new_capacity = 0 then 2 else new_capacity);
          n = min old_size cap
      in s\<lparr>stk_base := take n (stk_base s) @ replicate (cap - n) Context_default, stk_capacity := cap\<rparr>)"

definition stk_Push :: "ctx_stack \<Rightarrow> ctx \<Rightarrow> ctx_stack" where
  "stk_Push s c =
     (let s1 = s\<lparr>stk_size := stk_size s + 1\<rparr>;
          s2 = (if stk_size s1 > stk_capacity s1 then stk_Resize s1 (stk_size s1 * 2) else s1)
      in s2\<lparr>stk_base := (stk_base s2)[stk_size s2 - 1 := c]\<rparr>)"

subsection \<open>ThreadLocalContextStorage\<close>

definition tls_GetCurrent :: "ctx_stack \<Rightarrow> ctx" where
  "tls_GetCurrent s = stk_Top s"

definition tls_Attach :: "ctx_stack \<Rightarrow> ctx \<Rightarrow> ctx_stack \<times> token" where
  "tls_Attach s c = (stk_Push s c, Token c)"

text \<open>The loop \<open>while (!(token == Top())) Pop()\<close>; on an empty stack \<open>Pop\<close> does nothing, so the
  loop would not end there: the model stops, and \<open>pop_until_found\<close> shows the case is not met.\<close>

function pop_until :: "ctx_stack \<Rightarrow> token \<Rightarrow> ctx_stack" where
  "pop_until s t =
     (if \<not> token_eq t (stk_Top s) then (if stk_size s = 0 then s else pop_until (stk_Pop s) t) else s)"
  by pat_completeness auto
termination
  by (relation "measure (\<lambda>(s, t). stk_size s)") (auto simp: stk_Pop_def)

declare pop_until.simps [simp del]

definition tls_Detach :: "ctx_stack \<Rightarrow> token \<Rightarrow> bool \<times> ctx_stack" where
  "tls_Detach s t =
     (if token_eq t (stk_Top s) then (True, stk_Pop s)
      else if \<not> stk_Contains s t then (False, s)
      else (True, stk_Pop (pop_until s t)))"

text \<open>The destructor of a token detaches it.\<close>

definition token_destroy :: "ctx_stack \<Rightarrow> token \<Rightarrow> ctx_stack" where
  "token_destroy s t = snd (tls_Detach s t)"

subsection \<open>RuntimeContext\<close>

definition rt_GetCurrent :: "ctx_stack \<Rightarrow> ctx" where
  "rt_GetCurrent s = tls_GetCurrent s"

definition rt_Attach :: "ctx_stack \<Rightarrow> ctx \<Rightarrow> ctx_stack \<times> token" where
  "rt_Attach s c = tls_Attach s c"

definition rt_Detach :: "ctx_stack \<Rightarrow> token \<Rightarrow> bool \<times> ctx_stack" where
  "rt_Detach s t = tls_Detach s t"

definition rt_SetValue :: "ctx_stack \<Rightarrow> ctx_heap \<Rightarrow> string \<Rightarrow> context_value \<Rightarrow> ctx option \<Rightarrow> ctx_heap \<times> ctx" where
  "rt_SetValue s h key val c =
     ctx_SetValue h (case c of None \<Rightarrow> rt_GetCurrent s | Some c \<Rightarrow> c) key val"

definition rt_GetValue :: "ctx_stack \<Rightarrow> ctx_heap \<Rightarrow> string \<Rightarrow> ctx option \<Rightarrow> context_value" where
  "rt_GetValue s h key c = ctx_GetValue h (case c of None \<Rightarrow> rt_GetCurrent s | Some c \<Rightarrow> c) key"

subsection \<open>Abstraction\<close>

definition wf_stack :: "ctx_stack \<Rightarrow> bool" where
  "wf_stack s \<longleftrightarrow> stk_size s \<le> stk_capacity s \<and> length (stk_base s) = stk_capacity s"

text \<open>The attached contexts, the current one first.\<close>

definition stk_list :: "ctx_stack \<Rightarrow> ctx list" where
  "stk_list s = rev (take (stk_size s) (stk_base s))"

text \<open>What the storage promises: attaching makes a context current, detaching its token brings
  back what was attached before, also past contexts that were not detached.\<close>

locale context_storage =
  fixes inv :: "'s \<Rightarrow> bool" and attached :: "'s \<Rightarrow> ctx list"
    and GetCurrent :: "'s \<Rightarrow> ctx" and Attach :: "'s \<Rightarrow> ctx \<Rightarrow> 's \<times> token"
    and Detach :: "'s \<Rightarrow> token \<Rightarrow> bool \<times> 's"
  assumes current: "inv s \<Longrightarrow> GetCurrent s = (case attached s of [] \<Rightarrow> Context_default | c # _ \<Rightarrow> c)"
    and attach: "inv s \<Longrightarrow> Attach s c = (s', t) \<Longrightarrow> inv s' \<and> attached s' = c # attached s \<and> t = Token c"
    and detach_found: "inv s \<Longrightarrow> attached s = xs @ tok_context t # ys \<Longrightarrow> tok_context t \<notin> set xs \<Longrightarrow>
      \<exists>s'. Detach s t = (True, s') \<and> inv s' \<and> attached s' = ys"
    and detach_missing: "inv s \<Longrightarrow> tok_context t \<notin> set (attached s) \<Longrightarrow>
      Detach s t = (attached s = [] \<and> tok_context t = Context_default, s)"
begin

text \<open>Scoped use: attach, any balanced work that leaves the scope's own frame, detach.\<close>

lemma attach_current: "inv s \<Longrightarrow> Attach s c = (s', t) \<Longrightarrow> GetCurrent s' = c"
  using attach [of s c s' t] current [of s'] by simp

lemma detach_attach:
  assumes "inv s" and "Attach s c = (s', t)"
  shows "\<exists>s''. Detach s' t = (True, s'') \<and> inv s'' \<and> attached s'' = attached s"
  using attach [OF assms] detach_found [of s' "[]" t "attached s"] by simp

fun attach_all :: "'s \<Rightarrow> ctx list \<Rightarrow> 's" where
  "attach_all s [] = s"
| "attach_all s (c # cs) = attach_all (fst (Attach s c)) cs"

lemma attach_all: "inv s \<Longrightarrow> inv (attach_all s cs) \<and> attached (attach_all s cs) = rev cs @ attached s"
proof (induction cs arbitrary: s)
  case (Cons c cs)
  obtain s' t where a: "Attach s c = (s', t)" by (cases "Attach s c")
  from attach [OF Cons.prems a] Cons.IH [of s'] show ?case by (simp add: a)
qed simp

lemma detach_unwinds:
  assumes "inv s" and "Attach s c = (s', t)" and "c \<notin> set cs"
  shows "\<exists>s''. Detach (attach_all s' cs) t = (True, s'') \<and> inv s'' \<and> attached s'' = attached s"
  using attach [OF assms(1,2)] attach_all [of s' cs] assms(3)
    detach_found [of "attach_all s' cs" "rev cs" t "attached s"] by simp

end

subsection \<open>The stack implements the storage\<close>

lemma stk_Pop_list: "wf_stack s \<Longrightarrow> wf_stack (stk_Pop s) \<and> stk_list (stk_Pop s) = tl (stk_list s)"
proof -
  assume w: "wf_stack s"
  show ?thesis
  proof (cases "stk_size s")
    case 0
    with w show ?thesis by (simp add: stk_Pop_def stk_list_def)
  next
    case (Suc n)
    with w have "take (Suc n) (stk_base s) = take n (stk_base s) @ [stk_base s ! n]"
      by (intro take_Suc_conv_app_nth) (simp add: wf_stack_def)
    with Suc w show ?thesis by (simp add: stk_Pop_def stk_list_def wf_stack_def)
  qed
qed

lemma stk_Top_list: "wf_stack s \<Longrightarrow> stk_Top s = (case stk_list s of [] \<Rightarrow> Context_default | c # _ \<Rightarrow> c)"
  by (cases "stk_size s") (auto simp: stk_Top_def stk_list_def wf_stack_def take_Suc_conv_app_nth)

lemma stk_Push_list: "wf_stack s \<Longrightarrow> wf_stack (stk_Push s c) \<and> stk_list (stk_Push s c) = c # stk_list s"
  by (cases "stk_size s = stk_capacity s")
    (auto simp: stk_Push_def stk_Resize_def stk_list_def wf_stack_def Let_def take_Suc_conv_app_nth
      min_def list_update_append)

lemma contains_loop_iff: "contains_loop base t n \<longleftrightarrow> (\<exists>i<n. base ! i = tok_context t)"
  by (induction n) (auto simp: token_eq_def ctx_eq_def less_Suc_eq ctx.expand)

lemma stk_Contains_iff: "wf_stack s \<Longrightarrow> stk_Contains s t \<longleftrightarrow> tok_context t \<in> set (stk_list s)"
  by (auto simp: stk_Contains_def contains_loop_iff stk_list_def wf_stack_def in_set_conv_nth)

lemma token_eq_iff [simp]: "token_eq t c \<longleftrightarrow> c = tok_context t"
  by (auto simp: token_eq_def ctx_eq_def ctx.expand)

lemma pop_until_found:
  "wf_stack s \<Longrightarrow> stk_list s = xs @ tok_context t # ys \<Longrightarrow> tok_context t \<notin> set xs \<Longrightarrow>
   wf_stack (pop_until s t) \<and> stk_list (pop_until s t) = tok_context t # ys"
proof (induction xs arbitrary: s)
  case Nil
  then show ?case by (subst (1 2) pop_until.simps) (simp add: stk_Top_list)
next
  case (Cons x xs)
  then have "stk_list s \<noteq> []" by simp
  then have "stk_size s \<noteq> 0" by (auto simp: stk_list_def)
  moreover have "pop_until s t = pop_until (stk_Pop s) t"
    using Cons.prems calculation by (subst pop_until.simps) (auto simp: stk_Top_list)
  ultimately show ?case using Cons.IH [of "stk_Pop s"] Cons.prems stk_Pop_list [of s] by simp
qed

lemma tls_Detach_found:
  assumes "wf_stack s" and "stk_list s = xs @ tok_context t # ys" and "tok_context t \<notin> set xs"
  shows "\<exists>s'. tls_Detach s t = (True, s') \<and> wf_stack s' \<and> stk_list s' = ys"
proof (cases xs)
  case Nil
  with assms show ?thesis using stk_Pop_list [of s] by (simp add: tls_Detach_def stk_Top_list)
next
  case (Cons x r)
  with assms have "\<not> token_eq t (stk_Top s)" "stk_Contains s t"
    by (auto simp: stk_Top_list stk_Contains_iff)
  then show ?thesis
    using pop_until_found [OF assms] stk_Pop_list [of "pop_until s t"] by (simp add: tls_Detach_def)
qed

interpretation tls: context_storage wf_stack stk_list tls_GetCurrent tls_Attach tls_Detach
proof
  fix s c s' t xs ys
  show "wf_stack s \<Longrightarrow> tls_GetCurrent s = (case stk_list s of [] \<Rightarrow> Context_default | c # _ \<Rightarrow> c)"
    by (simp add: tls_GetCurrent_def stk_Top_list)
  show "wf_stack s \<Longrightarrow> tls_Attach s c = (s', t) \<Longrightarrow> wf_stack s' \<and> stk_list s' = c # stk_list s \<and> t = Token c"
    using stk_Push_list [of s c] by (auto simp: tls_Attach_def)
  show "wf_stack s \<Longrightarrow> stk_list s = xs @ tok_context t # ys \<Longrightarrow> tok_context t \<notin> set xs \<Longrightarrow>
      \<exists>s'. tls_Detach s t = (True, s') \<and> wf_stack s' \<and> stk_list s' = ys"
    by (rule tls_Detach_found)
  assume w: "wf_stack s" and n: "tok_context t \<notin> set (stk_list s)"
  then show "tls_Detach s t = (stk_list s = [] \<and> tok_context t = Context_default, s)"
    using stk_Pop_list [of s]
    by (cases "stk_list s")
      (auto simp: tls_Detach_def stk_Top_list stk_Contains_iff stk_list_def stk_Pop_def wf_stack_def)
qed

lemma wf_Stack_new [simp]: "wf_stack Stack_new" "stk_list Stack_new = []"
  by (simp_all add: wf_stack_def Stack_new_def stk_list_def)

lemma tls_attach_all: "tls.attach_all s cs = fold (\<lambda>c s. fst (rt_Attach s c)) cs s"
  by (induction cs arbitrary: s) (simp_all add: rt_Attach_def)

subsection \<open>Properties\<close>

text \<open>The runtime context as a stack. Attaching makes a context current. Detaching its token
  succeeds and restores exactly what was attached before, also when contexts attached later (other than
  itself) were never detached; detaching a context that is not attached fails and changes nothing.\<close>

theorem runtime_context_stack:
  assumes "wf_stack s" and "rt_Attach s c = (s', t)" and "c \<notin> set cs"
  shows "wf_stack s' \<and> rt_GetCurrent s' = c \<and>
     (\<exists>s''. rt_Detach (fold (\<lambda>c s. fst (rt_Attach s c)) cs s') t = (True, s'') \<and> wf_stack s'' \<and>
        stk_list s'' = stk_list s \<and> rt_GetCurrent s'' = rt_GetCurrent s) \<and>
     (c \<notin> set (stk_list s) \<and> c \<noteq> Context_default \<longrightarrow> rt_Detach s t = (False, s))"
proof -
  have a: "tls_Attach s c = (s', t)" using assms(2) by (simp add: rt_Attach_def)
  have t: "wf_stack s'" "tok_context t = c" using tls.attach [OF assms(1) a] by simp_all
  have "rt_GetCurrent s' = c" using tls.attach_current [OF assms(1) a] by (simp add: rt_GetCurrent_def)
  moreover obtain s'' where "tls_Detach (tls.attach_all s' cs) t = (True, s'')" "wf_stack s''" "stk_list s'' = stk_list s"
    using tls.detach_unwinds [OF assms(1) a assms(3)] by blast
  moreover have "c \<notin> set (stk_list s) \<and> c \<noteq> Context_default \<longrightarrow> rt_Detach s t = (False, s)"
    using tls.detach_missing [OF assms(1), of t] t(2) by (simp add: rt_Detach_def)
  ultimately show ?thesis
    using t assms(1) by (simp add: tls_attach_all rt_Detach_def rt_GetCurrent_def tls.current)
qed

theorem runtime_context_stack_witness:
  "\<exists>s''. rt_Detach (fold (\<lambda>c s. fst (rt_Attach s c)) [Context (Some 1), Context (Some 2)]
       (fst (rt_Attach Stack_new (Context (Some 0))))) (Token (Context (Some 0))) = (True, s'') \<and> stk_list s'' = []"
proof -
  have "rt_Attach Stack_new (Context (Some 0)) = (fst (rt_Attach Stack_new (Context (Some 0))), Token (Context (Some 0)))"
    by (simp add: rt_Attach_def tls_Attach_def)
  from runtime_context_stack [OF wf_Stack_new(1) this, of "[Context (Some 1), Context (Some 2)]"] show ?thesis by auto
qed

end
