(* ===== verification/Text_Map_Propagator.thy ===== *)
theory Text_Map_Propagator
  imports Otel_Context
begin

text \<open>
  The propagation interfaces of \<open>opentelemetry/context/propagation\<close>: \<open>TextMapCarrier\<close> and
  \<open>TextMapPropagator\<close>, with \<open>NoOpPropagator\<close>, \<open>CompositePropagator\<close> and
  \<open>GlobalTextMapPropagator\<close>. A carrier is code of the application: its two methods are a record of
  functions that every operation takes, and \<open>carrier_laws\<close> is what its documentation promises. The
  contract of the propagators that carry a span context is the locale \<open>span_propagator\<close>.
\<close>

record 'c carrier_ops =
  tc_Get :: "'c \<Rightarrow> string \<Rightarrow> string"
  tc_Set :: "'c \<Rightarrow> string \<Rightarrow> string \<Rightarrow> 'c"

definition carrier_laws :: "'c carrier_ops \<Rightarrow> bool" where
  "carrier_laws ops \<longleftrightarrow>
     (\<forall>c k v. tc_Get ops (tc_Set ops c k v) k = v) \<and>
     (\<forall>c k v k'. k' \<noteq> k \<longrightarrow> tc_Get ops (tc_Set ops c k v) k' = tc_Get ops c k')"

definition fresh_carrier :: "'c carrier_ops \<Rightarrow> 'c \<Rightarrow> bool" where
  "fresh_carrier ops c \<longleftrightarrow> (\<forall>k. tc_Get ops c k = [])"

text \<open>A carrier in memory: a map from header names to values.\<close>

definition map_carrier :: "(string \<rightharpoonup> string) carrier_ops" where
  "map_carrier = \<lparr>tc_Get = (\<lambda>m k. case m k of Some v \<Rightarrow> v | None \<Rightarrow> []), tc_Set = (\<lambda>m k v. m(k \<mapsto> v))\<rparr>"

text \<open>A callback of \<open>Fields\<close> updates a state and says whether to go on.\<close>

type_synonym 's field_callback = "string \<Rightarrow> 's \<Rightarrow> bool \<times> 's"

fun call_fields :: "'s field_callback \<Rightarrow> string list \<Rightarrow> 's \<Rightarrow> bool \<times> 's" where
  "call_fields cb [] s = (True, s)"
| "call_fields cb (k # ks) s =
     (case cb k s of (go, s') \<Rightarrow> if go then call_fields cb ks s' else (False, s'))"

record ('c, 's) text_map_propagator =
  pr_Inject :: "'c \<Rightarrow> ctx_heap \<Rightarrow> ctx \<Rightarrow> 'c"
  pr_Extract :: "'c \<Rightarrow> ctx_heap \<Rightarrow> ctx \<Rightarrow> ctx_heap \<times> ctx"
  pr_Fields :: "'s field_callback \<Rightarrow> 's \<Rightarrow> bool \<times> 's"

subsection \<open>NoOpPropagator\<close>

definition noop_Extract :: "'c \<Rightarrow> ctx_heap \<Rightarrow> ctx \<Rightarrow> ctx_heap \<times> ctx" where
  "noop_Extract carrier h x = (h, x)"

definition noop_Inject :: "'c \<Rightarrow> ctx_heap \<Rightarrow> ctx \<Rightarrow> 'c" where
  "noop_Inject carrier h x = carrier"

definition NoOpPropagator :: "('c, 's) text_map_propagator" where
  "NoOpPropagator = \<lparr>pr_Inject = noop_Inject, pr_Extract = noop_Extract, pr_Fields = (\<lambda>cb s. (True, s))\<rparr>"

subsection \<open>CompositePropagator\<close>

fun composite_Inject :: "('c, 's) text_map_propagator list \<Rightarrow> 'c \<Rightarrow> ctx_heap \<Rightarrow> ctx \<Rightarrow> 'c" where
  "composite_Inject [] carrier h x = carrier"
| "composite_Inject (p # ps) carrier h x = composite_Inject ps (pr_Inject p carrier h x) h x"

fun composite_extract_loop ::
    "('c, 's) text_map_propagator list \<Rightarrow> bool \<Rightarrow> 'c \<Rightarrow> ctx \<Rightarrow> ctx_heap \<Rightarrow> ctx \<Rightarrow> ctx_heap \<times> ctx" where
  "composite_extract_loop [] first carrier x h tmp = (h, tmp)"
| "composite_extract_loop (p # ps) first carrier x h tmp =
     (case pr_Extract p carrier h (if first then x else tmp) of (h', tmp') \<Rightarrow>
        composite_extract_loop ps False carrier x h' tmp')"

definition composite_Extract ::
    "('c, 's) text_map_propagator list \<Rightarrow> 'c \<Rightarrow> ctx_heap \<Rightarrow> ctx \<Rightarrow> ctx_heap \<times> ctx" where
  "composite_Extract ps carrier h x =
     (case composite_extract_loop ps True carrier x h Context_default of (h', tmp) \<Rightarrow>
        if length ps \<noteq> 0 then (h', tmp) else (h', x))"

fun composite_Fields ::
    "('c, 's) text_map_propagator list \<Rightarrow> bool \<Rightarrow> 's field_callback \<Rightarrow> 's \<Rightarrow> bool \<times> 's" where
  "composite_Fields [] status cb s = (status, s)"
| "composite_Fields (p # ps) status cb s =
     (if status then (case pr_Fields p cb s of (b, s') \<Rightarrow> composite_Fields ps b cb s')
      else composite_Fields ps False cb s)"

definition CompositePropagator :: "('c, 's) text_map_propagator list \<Rightarrow> ('c, 's) text_map_propagator" where
  "CompositePropagator ps =
     \<lparr>pr_Inject = composite_Inject ps, pr_Extract = composite_Extract ps, pr_Fields = composite_Fields ps True\<rparr>"

subsection \<open>GlobalTextMapPropagator\<close>

text \<open>The singleton: a state that starts as the no-op propagator; both methods hold the lock.\<close>

record ('c, 's) global_propagator =
  gp_propagator :: "('c, 's) text_map_propagator"

definition global_init :: "('c, 's) global_propagator" where
  "global_init = \<lparr>gp_propagator = NoOpPropagator\<rparr>"

definition GetGlobalPropagator :: "('c, 's) global_propagator \<Rightarrow> ('c, 's) text_map_propagator" where
  "GetGlobalPropagator g = gp_propagator g"

definition SetGlobalPropagator ::
    "('c, 's) global_propagator \<Rightarrow> ('c, 's) text_map_propagator \<Rightarrow> ('c, 's) global_propagator" where
  "SetGlobalPropagator g p = g\<lparr>gp_propagator := p\<rparr>"

subsection \<open>The extraction step that the span propagators share\<close>

definition extract_with :: "span_context \<Rightarrow> ctx_heap \<Rightarrow> ctx \<Rightarrow> ctx_heap \<times> ctx" where
  "extract_with sc h x = (if sc_IsValid sc then SetSpan h x (DefaultSpan sc) else (h, x))"

lemma extract_with_GetSpan:
  "sc_IsValid sc \<Longrightarrow> extract_with sc h x = (h', x') \<Longrightarrow> GetSpan h' x' = DefaultSpan sc"
  by (simp add: extract_with_def)

subsection \<open>Facts about carriers and composition\<close>

lemma carrier_get_set [simp]:
  "carrier_laws ops \<Longrightarrow> tc_Get ops (tc_Set ops c k v) k' = (if k' = k then v else tc_Get ops c k')"
  by (simp add: carrier_laws_def)

lemma fresh_get [simp]: "fresh_carrier ops c \<Longrightarrow> tc_Get ops c k = []"
  by (simp add: fresh_carrier_def)

lemma map_carrier_laws: "carrier_laws map_carrier" "fresh_carrier map_carrier Map.empty"
  by (simp_all add: carrier_laws_def fresh_carrier_def map_carrier_def)

lemma composite_extract_fold:
  "composite_extract_loop ps False carrier x h tmp =
     fold (\<lambda>p (h, t). pr_Extract p carrier h t) ps (h, tmp)"
  by (induction ps arbitrary: h tmp) (auto split: prod.splits)

text \<open>The composite threads the context through its parts in order; with no parts it is the
  identity, like the no-op propagator.\<close>

lemma composite_Extract_fold:
  "composite_Extract ps carrier h x = fold (\<lambda>p (h, t). pr_Extract p carrier h t) ps (h, x)"
  by (cases ps) (auto simp: composite_Extract_def composite_extract_fold split: prod.splits)

lemma composite_Inject_fold: "composite_Inject ps carrier h x = fold (\<lambda>p c. pr_Inject p c h x) ps carrier"
  by (induction ps arbitrary: carrier) auto

lemma composite_Extract_append:
  "composite_Extract (ps @ qs) carrier h x =
     (case composite_Extract ps carrier h x of (h', x') \<Rightarrow> composite_Extract qs carrier h' x')"
  by (auto simp: composite_Extract_fold split: prod.splits)

text \<open>A composite of composites is the composite of the concatenation.\<close>

lemma composite_nested:
  "composite_Extract [CompositePropagator ps, CompositePropagator qs] carrier h x =
     composite_Extract (ps @ qs) carrier h x"
  by (simp add: composite_Extract_fold CompositePropagator_def split: prod.splits)

lemma composite_Fields_False [simp]: "composite_Fields ps False cb s = (False, s)"
  by (induction ps) auto

subsection \<open>The contract of a span propagator\<close>

text \<open>
  \<open>portable\<close> says which span contexts the wire format can carry, \<open>received\<close> what arrives.
\<close>

locale span_propagator =
  fixes Inject :: "'c carrier_ops \<Rightarrow> 'c \<Rightarrow> ctx_heap \<Rightarrow> ctx \<Rightarrow> 'c"
    and ExtractImpl :: "'c carrier_ops \<Rightarrow> 'c \<Rightarrow> span_context"
    and Extract :: "'c carrier_ops \<Rightarrow> 'c \<Rightarrow> ctx_heap \<Rightarrow> ctx \<Rightarrow> ctx_heap \<times> ctx"
    and portable :: "span_context \<Rightarrow> bool" and received :: "span_context \<Rightarrow> span_context"
  assumes inject_invalid: "\<not> sc_IsValid (span_GetContext (GetSpan h x)) \<Longrightarrow> Inject ops c h x = c"
    and extract_step: "Extract ops c h x = extract_with (ExtractImpl ops c) h x"
    and absent: "fresh_carrier ops c \<Longrightarrow> \<not> sc_IsValid (ExtractImpl ops c)"
    and wire: "carrier_laws ops \<Longrightarrow> fresh_carrier ops c \<Longrightarrow> span_GetContext (GetSpan h x) = sc \<Longrightarrow>
      wf_span_context sc \<Longrightarrow> sc_IsValid sc \<Longrightarrow> portable sc \<Longrightarrow>
      ExtractImpl ops (Inject ops c h x) = received sc"
    and received_ids: "sc_trace_id (received sc) = sc_trace_id sc"
      "sc_span_id (received sc) = sc_span_id sc" "sc_is_remote (received sc)"
begin

lemma received_valid: "sc_IsValid (received sc) = sc_IsValid sc"
  by (simp add: sc_IsValid_def received_ids)

lemma round_trip:
  assumes "carrier_laws ops" and "fresh_carrier ops c" and "span_GetContext (GetSpan h x) = sc"
    and "wf_span_context sc" and "sc_IsValid sc" and "portable sc"
    and "Extract ops (Inject ops c h x) h' y = (h'', y')"
  shows "GetSpan h'' y' = DefaultSpan (received sc)"
  using wire [OF assms(1-6)] assms(5,7) extract_with_GetSpan [of "received sc" h' y h'' y']
  by (simp add: extract_step received_valid)

text \<open>Nothing injected, nothing changed: an invalid span leaves the receiver's context alone.\<close>

lemma no_span_no_change:
  assumes "fresh_carrier ops c" and "\<not> sc_IsValid (span_GetContext (GetSpan h x))"
  shows "Extract ops (Inject ops c h x) h' y = (h', y)"
  using assms absent by (simp add: inject_invalid extract_step extract_with_def)

end

end
