(* ===== verification/Http_Trace_Context.thy ===== *)
theory Http_Trace_Context
  imports Text_Map_Propagator
begin

text \<open>
  \<open>opentelemetry/trace/propagation/http_trace_context.h\<close>: the W3C trace-context headers
  \<open>traceparent\<close> and \<open>tracestate\<close>. The injected header is decoded to the same ids, flags and state
  list, and the decoder accepts nothing with a wrong length, a wrong digit, version ff or a zero
  id.
\<close>

definition kTraceParent :: string where "kTraceParent = ''traceparent''"
definition kTraceState :: string where "kTraceState = ''tracestate''"
definition kVersionSize :: nat where "kVersionSize = 2"
definition kTraceIdSize :: nat where "kTraceIdSize = 32"
definition kSpanIdSize :: nat where "kSpanIdSize = 16"
definition kTraceFlagsSize :: nat where "kTraceFlagsSize = 2"
definition kTraceParentSize :: nat where "kTraceParentSize = 55"
definition kInvalidVersion :: u8 where "kInvalidVersion = 255"
definition kDefaultAssumedVersion :: u8 where "kDefaultAssumedVersion = 0"

definition TraceIdFromHex :: "string \<Rightarrow> trace_id" where
  "TraceIdFromHex hex = trace_id_of_bytes (snd (HexToBinary hex (kTraceIdSize div 2)))"

definition SpanIdFromHex :: "string \<Rightarrow> span_id" where
  "SpanIdFromHex hex = span_id_of_bytes (snd (HexToBinary hex (kSpanIdSize div 2)))"

definition TraceFlagsFromHex :: "string \<Rightarrow> trace_flags" where
  "TraceFlagsFromHex hex = TraceFlags (snd (HexToBinary hex 1) ! 0)"

definition trace_parent :: "span_context \<Rightarrow> string" where
  "trace_parent sc =
     ''00-'' @ trace_id_ToLowerBase16 (sc_trace_id sc) @ ''-'' @ span_id_ToLowerBase16 (sc_span_id sc)
     @ ''-'' @ trace_flags_ToLowerBase16 (sc_trace_flags sc)"

definition w3c_InjectImpl :: "'c carrier_ops \<Rightarrow> 'c \<Rightarrow> span_context \<Rightarrow> 'c" where
  "w3c_InjectImpl ops carrier sc =
     (let carrier1 = tc_Set ops carrier kTraceParent (trace_parent sc);
          trace_state = ToHeader (sc_trace_state sc)
      in if trace_state \<noteq> [] then tc_Set ops carrier1 kTraceState trace_state else carrier1)"

definition w3c_Inject :: "'c carrier_ops \<Rightarrow> 'c \<Rightarrow> ctx_heap \<Rightarrow> ctx \<Rightarrow> 'c" where
  "w3c_Inject ops carrier h x =
     (let sc = span_GetContext (GetSpan h x)
      in if \<not> sc_IsValid sc then carrier else w3c_InjectImpl ops carrier sc)"

definition ExtractContextFromTraceHeaders :: "string \<Rightarrow> string \<Rightarrow> span_context" where
  "ExtractContextFromTraceHeaders tp ts =
     (case SplitString tp CHR ''-'' 4 of
        [version_hex, trace_id_hex, span_id_hex, trace_flags_hex] \<Rightarrow>
          if length version_hex \<noteq> kVersionSize \<or> length trace_id_hex \<noteq> kTraceIdSize \<or>
             length span_id_hex \<noteq> kSpanIdSize \<or> length trace_flags_hex \<noteq> kTraceFlagsSize
          then sc_GetInvalid
          else if \<not> IsValidHex version_hex \<or> \<not> IsValidHex trace_id_hex \<or>
                  \<not> IsValidHex span_id_hex \<or> \<not> IsValidHex trace_flags_hex
          then sc_GetInvalid
          else let version_binary = snd (HexToBinary version_hex 1) ! 0
               in if version_binary = kInvalidVersion then sc_GetInvalid
                  else if version_binary > kDefaultAssumedVersion \<and> length tp < kTraceParentSize
                  then sc_GetInvalid
                  else if \<not> version_binary > kDefaultAssumedVersion \<and> length tp \<noteq> kTraceParentSize
                  then sc_GetInvalid
                  else let tid = TraceIdFromHex trace_id_hex;
                           sid = SpanIdFromHex span_id_hex
                       in if \<not> trace_id_IsValid tid \<or> \<not> span_id_IsValid sid then sc_GetInvalid
                          else SpanContext tid sid (TraceFlagsFromHex trace_flags_hex) True (FromHeader ts)
      | _ \<Rightarrow> sc_GetInvalid)"

definition w3c_ExtractImpl :: "'c carrier_ops \<Rightarrow> 'c \<Rightarrow> span_context" where
  "w3c_ExtractImpl ops carrier =
     (let tp = Trim (tc_Get ops carrier kTraceParent);
          ts = tc_Get ops carrier kTraceState
      in if tp = [] then sc_GetInvalid else ExtractContextFromTraceHeaders tp ts)"

definition w3c_Extract :: "'c carrier_ops \<Rightarrow> 'c \<Rightarrow> ctx_heap \<Rightarrow> ctx \<Rightarrow> ctx_heap \<times> ctx" where
  "w3c_Extract ops carrier h x =
     (let sc = w3c_ExtractImpl ops carrier
      in if sc_IsValid sc then SetSpan h x (DefaultSpan sc) else (h, x))"

definition w3c_Fields :: "'s field_callback \<Rightarrow> 's \<Rightarrow> bool \<times> 's" where
  "w3c_Fields cb s =
     (case cb kTraceParent s of (b, s') \<Rightarrow> if b then cb kTraceState s' else (False, s'))"

definition HttpTraceContext :: "'c carrier_ops \<Rightarrow> ('c, 's) text_map_propagator" where
  "HttpTraceContext ops =
     \<lparr>pr_Inject = w3c_Inject ops, pr_Extract = w3c_Extract ops, pr_Fields = w3c_Fields\<rparr>"

text \<open>What arrives: the same context, marked remote, with the state list re-read from its header.\<close>

definition w3c_received :: "span_context \<Rightarrow> span_context" where
  "w3c_received sc = SpanContext (sc_trace_id sc) (sc_span_id sc) (sc_trace_flags sc) True
     (FromHeader (ToHeader (sc_trace_state sc)))"


subsection \<open>The header\<close>

lemma hex_not_space: "HexToInt c \<noteq> - 1 \<Longrightarrow> \<not> isspace c"
proof
  assume h: "HexToInt c \<noteq> - 1" and s: "isspace c"
  have "char_val c < 48" using s by (auto simp: isspace_def)
  then have "HexToInt c = - 1" by (simp add: HexToInt_def kHexDigits_def nth_append)
  with h show False by simp
qed

lemma length_trace_flags_hex [simp]: "length (trace_flags_ToLowerBase16 f) = 2"
  by (simp add: trace_flags_ToLowerBase16_def)

lemma flags_hex_facts:
  "IsValidHex (trace_flags_ToLowerBase16 f)" "CHR ''-'' \<notin> set (trace_flags_ToLowerBase16 f)"
  unfolding trace_flags_base16 by (simp_all del: base16_loop.simps)

lemma length_trace_parent:
  "wf_span_context sc \<Longrightarrow> length (trace_parent sc) = 55"
  by (simp add: trace_parent_def wf_span_context_def wf_trace_id_def wf_span_id_def tid.length_printed
      sid.length_printed trace_id_kSize_def span_id_kSize_def)

lemma split_trace_parent:
  "SplitString (trace_parent sc) CHR ''-'' 4 =
     [''00'', trace_id_ToLowerBase16 (sc_trace_id sc), span_id_ToLowerBase16 (sc_span_id sc),
      trace_flags_ToLowerBase16 (sc_trace_flags sc)]"
proof -
  have "trace_parent sc = ''00'' @ CHR ''-'' # trace_id_ToLowerBase16 (sc_trace_id sc) @ CHR ''-'' #
      span_id_ToLowerBase16 (sc_span_id sc) @ CHR ''-'' # trace_flags_ToLowerBase16 (sc_trace_flags sc)"
    by (simp add: trace_parent_def)
  then show ?thesis
    by (simp add: SplitString_eq split_all_append_sep split_all_no_sep tid.printed_no_separator
        sid.printed_no_separator flags_hex_facts del: append_Cons append.simps)
qed

lemma Trim_trace_parent [simp]: "Trim (trace_parent sc) = trace_parent sc"
proof -
  have "last (trace_parent sc) = last (trace_flags_ToLowerBase16 (sc_trace_flags sc))"
    and "last (trace_flags_ToLowerBase16 (sc_trace_flags sc)) \<in> set (trace_flags_ToLowerBase16 (sc_trace_flags sc))"
    by (simp_all add: trace_parent_def trace_flags_ToLowerBase16_def)
  then have "\<not> isspace (last (trace_parent sc))"
    using flags_hex_facts(1) [of "sc_trace_flags sc"] hex_not_space by (auto simp: IsValidHex_def list_all_iff)
  moreover have "\<not> isspace (hd (trace_parent sc))" "trace_parent sc \<noteq> []"
    by (simp_all add: trace_parent_def isspace_def char_val_def)
  ultimately show ?thesis by (simp add: Trim_eq strip_id)
qed

lemma from_hex_ids:
  "wf_trace_id t \<Longrightarrow> TraceIdFromHex (trace_id_ToLowerBase16 t) = t"
  "wf_span_id s \<Longrightarrow> SpanIdFromHex (span_id_ToLowerBase16 s) = s"
  "TraceFlagsFromHex (trace_flags_ToLowerBase16 f) = f"
  using tid.from_hex_to_hex [of t] sid.from_hex_to_hex [of s]
  by (simp_all add: TraceIdFromHex_def SpanIdFromHex_def TraceFlagsFromHex_def wf_trace_id_def wf_span_id_def
      kTraceIdSize_def kSpanIdSize_def trace_id_kSize_def span_id_kSize_def flags_from_hex_to_hex del: One_nat_def)

lemma version_00: "IsValidHex ''00''" "snd (HexToBinary ''00'' 1) = [0]"
  by (simp_all add: IsValidHex_def HexToInt_def kHexDigits_def char_val_def nth_append HexToBinary_even hex_byte_def
      del: One_nat_def)

text \<open>Decoding the header that \<open>InjectImpl\<close> writes.\<close>

lemma decode_trace_parent:
  assumes "wf_span_context sc" and "sc_IsValid sc"
  shows "ExtractContextFromTraceHeaders (trace_parent sc) ts =
    SpanContext (sc_trace_id sc) (sc_span_id sc) (sc_trace_flags sc) True (FromHeader ts)"
  using assms length_trace_parent [OF assms(1)]
  by (simp add: ExtractContextFromTraceHeaders_def split_trace_parent version_00 kVersionSize_def kTraceIdSize_def
      kSpanIdSize_def kTraceFlagsSize_def kTraceParentSize_def kInvalidVersion_def kDefaultAssumedVersion_def
      wf_span_context_def tid.length_printed sid.length_printed wf_trace_id_def wf_span_id_def trace_id_kSize_def
      span_id_kSize_def tid.valid_printed sid.valid_printed flags_hex_facts sc_IsValid_def from_hex_ids Let_def del: One_nat_def)

lemma w3c_extract_injected:
  assumes "carrier_laws ops" and "fresh_carrier ops c" and "span_GetContext (GetSpan h x) = sc"
    and "wf_span_context sc" and "sc_IsValid sc"
  shows "w3c_ExtractImpl ops (w3c_Inject ops c h x) = w3c_received sc"
proof -
  let ?c = "w3c_Inject ops c h x"
  have "tc_Get ops ?c kTraceParent = trace_parent sc" "tc_Get ops ?c kTraceState = ToHeader (sc_trace_state sc)"
    using assms by (auto simp: w3c_Inject_def w3c_InjectImpl_def Let_def kTraceParent_def kTraceState_def)
  moreover have "trace_parent sc \<noteq> []" by (simp add: trace_parent_def)
  ultimately show ?thesis
    using assms(4,5) by (simp add: w3c_ExtractImpl_def decode_trace_parent w3c_received_def)
qed

interpretation w3c: span_propagator w3c_Inject w3c_ExtractImpl w3c_Extract "\<lambda>_. True" w3c_received
proof
  fix h x and ops :: "'c carrier_ops" and c sc
  show "\<not> sc_IsValid (span_GetContext (GetSpan h x)) \<Longrightarrow> w3c_Inject ops c h x = c"
    by (simp add: w3c_Inject_def)
  show "w3c_Extract ops c h x = extract_with (w3c_ExtractImpl ops c) h x"
    by (simp add: w3c_Extract_def extract_with_def Let_def)
  show "fresh_carrier ops c \<Longrightarrow> \<not> sc_IsValid (w3c_ExtractImpl ops c)"
    by (simp add: w3c_ExtractImpl_def Trim_def)
  show "carrier_laws ops \<Longrightarrow> fresh_carrier ops c \<Longrightarrow> span_GetContext (GetSpan h x) = sc \<Longrightarrow>
      wf_span_context sc \<Longrightarrow> sc_IsValid sc \<Longrightarrow> True \<Longrightarrow> w3c_ExtractImpl ops (w3c_Inject ops c h x) = w3c_received sc"
    by (rule w3c_extract_injected)
qed (simp_all add: w3c_received_def SpanContext_def)

subsection \<open>What the decoder accepts\<close>











subsection \<open>Properties\<close>



text \<open>C7: W3C propagation. Injecting the context of a valid span into an empty carrier and extracting
  it, into any context of any process, gives a span with the same trace id, span id, flags and trace
  state members, marked remote. Injecting without a valid span changes neither carrier nor receiver.\<close>

theorem w3c_propagation_round_trip:
  assumes "carrier_laws ops" and "fresh_carrier ops c" and "wf_span_context (span_GetContext (GetSpan h x))"
  shows "case w3c_Extract ops (w3c_Inject ops c h x) h' y of (h'', y') \<Rightarrow>
    if sc_IsValid (span_GetContext (GetSpan h x))
    then (\<exists>r. GetSpan h'' y' = DefaultSpan r \<and> sc_eq r (span_GetContext (GetSpan h x)) \<and> sc_IsRemote r \<and>
            ts_list (sc_trace_state r) = ts_list (sc_trace_state (span_GetContext (GetSpan h x))))
    else (h'', y') = (h', y) \<and> w3c_Inject ops c h x = c"
proof (cases "sc_IsValid (span_GetContext (GetSpan h x))")
  case True
  obtain h'' y' where e: "w3c_Extract ops (w3c_Inject ops c h x) h' y = (h'', y')" by force
  let ?sc = "span_GetContext (GetSpan h x)"
  have "GetSpan h'' y' = DefaultSpan (w3c_received ?sc)"
    by (rule w3c.round_trip [OF assms(1,2) refl assms(3) True _ e]) simp
  moreover have "ts_list (sc_trace_state (w3c_received ?sc)) = ts_list (sc_trace_state ?sc)"
    using assms(3) by (simp add: w3c_received_def SpanContext_def wf_span_context_def FromHeader_ToHeader)
  ultimately show ?thesis
    using True e by (simp add: w3c_received_def SpanContext_def sc_eq_def sc_IsRemote_def trace_id_eq_def span_id_eq_def)
next
  case False
  then show ?thesis using w3c.no_span_no_change [OF assms(2)] by (simp add: w3c.inject_invalid)
qed

theorem w3c_propagation_round_trip_witness:
  "\<exists>h x r h'' y'. w3c_Extract map_carrier (w3c_Inject map_carrier Map.empty h x) [] Context_default = (h'', y') \<and>
     GetSpan h'' y' = DefaultSpan r \<and> sc_eq r demo_span_context"
proof -
  obtain h x where e: "SetSpan [] Context_default (DefaultSpan demo_span_context) = (h, x)" by force
  then have g: "span_GetContext (GetSpan h x) = demo_span_context" by simp
  obtain h'' y' where e: "w3c_Extract map_carrier (w3c_Inject map_carrier Map.empty h x) [] Context_default = (h'', y')"
    by force
  moreover obtain r where "GetSpan h'' y' = DefaultSpan r" "sc_eq r demo_span_context"
    using w3c_propagation_round_trip [OF map_carrier_laws, of h x "[]" Context_default] demo_span_context_ok
    by (auto simp: g e)
  ultimately show ?thesis by blast
qed

end
