(* ===== verification/B3_Jaeger.thy ===== *)
theory B3_Jaeger
  imports Http_Trace_Context
begin

text \<open>
  The other span propagators: \<open>opentelemetry/trace/propagation/b3_propagator.h\<close> (single header and
  multiple headers, one extractor) and \<open>jaeger.h\<close>. Each interprets the contract
  \<open>span_propagator\<close>: the ids arrive, the sampling decision arrives, the trace state does not. The
  multi-header format only carries the flags 0 and 1 (it writes the low hexadecimal digit of the
  flags byte, and the extractor reads 1 and d).
\<close>

subsection \<open>B3\<close>

definition kB3CombinedHeader :: string where "kB3CombinedHeader = ''b3''"
definition kB3TraceIdHeader :: string where "kB3TraceIdHeader = ''X-B3-TraceId''"
definition kB3SpanIdHeader :: string where "kB3SpanIdHeader = ''X-B3-SpanId''"
definition kB3SampledHeader :: string where "kB3SampledHeader = ''X-B3-Sampled''"
definition kTraceIdHexStrLength :: nat where "kTraceIdHexStrLength = 32"
definition kSpanIdHexStrLength :: nat where "kSpanIdHexStrLength = 16"

definition b3_TraceIdFromHex :: "string \<Rightarrow> trace_id" where
  "b3_TraceIdFromHex hex = trace_id_of_bytes (snd (HexToBinary hex (kTraceIdHexStrLength div 2)))"

definition b3_SpanIdFromHex :: "string \<Rightarrow> span_id" where
  "b3_SpanIdFromHex hex = span_id_of_bytes (snd (HexToBinary hex (kSpanIdHexStrLength div 2)))"

definition b3_TraceFlagsFromHex :: "string \<Rightarrow> trace_flags" where
  "b3_TraceFlagsFromHex fl =
     (if length fl \<noteq> 1 \<or> (fl ! 0 \<noteq> CHR ''1'' \<and> fl ! 0 \<noteq> CHR ''d'') then TraceFlags 0
      else TraceFlags kIsSampled)"

definition b3_ids :: "string \<Rightarrow> string \<Rightarrow> string \<Rightarrow> span_context" where
  "b3_ids trace_id_hex span_id_hex trace_flags_hex =
     (if \<not> IsValidHex trace_id_hex \<or> \<not> IsValidHex span_id_hex then sc_GetInvalid
      else let tid = b3_TraceIdFromHex trace_id_hex;
               sid = b3_SpanIdFromHex span_id_hex
           in if \<not> trace_id_IsValid tid \<or> \<not> span_id_IsValid sid then sc_GetInvalid
              else SpanContext tid sid (b3_TraceFlagsFromHex trace_flags_hex) True ts_GetDefault)"

text \<open>The array of three fields starts out empty, so that a missing third field reads as \<open>""\<close>.\<close>

definition b3_ExtractImpl :: "'c carrier_ops \<Rightarrow> 'c \<Rightarrow> span_context" where
  "b3_ExtractImpl ops carrier =
     (let single = tc_Get ops carrier kB3CombinedHeader
      in if single \<noteq> []
         then let fields = SplitString single CHR ''-'' 3
              in if length fields < 2 then sc_GetInvalid
                 else b3_ids (fields ! 0) (fields ! 1) (if length fields < 3 then [] else fields ! 2)
         else b3_ids (tc_Get ops carrier kB3TraceIdHeader) (tc_Get ops carrier kB3SpanIdHeader)
                (tc_Get ops carrier kB3SampledHeader))"

definition b3_Extract :: "'c carrier_ops \<Rightarrow> 'c \<Rightarrow> ctx_heap \<Rightarrow> ctx \<Rightarrow> ctx_heap \<times> ctx" where
  "b3_Extract ops carrier h x =
     (let sc = b3_ExtractImpl ops carrier
      in if sc_IsValid sc then SetSpan h x (DefaultSpan sc) else (h, x))"

definition b3_trace_identity :: "span_context \<Rightarrow> string" where
  "b3_trace_identity sc =
     trace_id_ToLowerBase16 (sc_trace_id sc) @ ''-'' @ span_id_ToLowerBase16 (sc_span_id sc) @ ''-''
     @ (if trace_flags_IsSampled (sc_trace_flags sc) then ''1'' else ''0'')"

definition b3_Inject :: "'c carrier_ops \<Rightarrow> 'c \<Rightarrow> ctx_heap \<Rightarrow> ctx \<Rightarrow> 'c" where
  "b3_Inject ops carrier h x =
     (let sc = span_GetContext (GetSpan h x)
      in if \<not> sc_IsValid sc then carrier else tc_Set ops carrier kB3CombinedHeader (b3_trace_identity sc))"

definition b3_Fields :: "'s field_callback \<Rightarrow> 's \<Rightarrow> bool \<times> 's" where
  "b3_Fields cb s = cb kB3CombinedHeader s"

definition b3_multi_Inject :: "'c carrier_ops \<Rightarrow> 'c \<Rightarrow> ctx_heap \<Rightarrow> ctx \<Rightarrow> 'c" where
  "b3_multi_Inject ops carrier h x =
     (let sc = span_GetContext (GetSpan h x)
      in if \<not> sc_IsValid sc then carrier
         else let fl = trace_flags_ToLowerBase16 (sc_trace_flags sc);
                  c1 = tc_Set ops carrier kB3TraceIdHeader (trace_id_ToLowerBase16 (sc_trace_id sc));
                  c2 = tc_Set ops c1 kB3SpanIdHeader (span_id_ToLowerBase16 (sc_span_id sc))
              in tc_Set ops c2 kB3SampledHeader [fl ! 1])"

definition b3_multi_Fields :: "'s field_callback \<Rightarrow> 's \<Rightarrow> bool \<times> 's" where
  "b3_multi_Fields cb s = call_fields cb [kB3TraceIdHeader, kB3SpanIdHeader, kB3SampledHeader] s"

subsection \<open>Jaeger\<close>

definition kJaegerTraceHeader :: string where "kJaegerTraceHeader = ''uber-trace-id''"
definition jaeger_kIsSampled :: u8 where "jaeger_kIsSampled = 1"

definition GetTraceFlags :: "u8 \<Rightarrow> trace_flags" where
  "GetTraceFlags jaeger_flags = TraceFlags (jaeger_flags AND jaeger_kIsSampled)"

definition jaeger_trace_identity :: "span_context \<Rightarrow> string" where
  "jaeger_trace_identity sc =
     trace_id_ToLowerBase16 (sc_trace_id sc) @ '':'' @ span_id_ToLowerBase16 (sc_span_id sc)
     @ '':0:0'' @ (if sc_IsSampled sc then ''1'' else ''0'')"

definition jaeger_Inject :: "'c carrier_ops \<Rightarrow> 'c \<Rightarrow> ctx_heap \<Rightarrow> ctx \<Rightarrow> 'c" where
  "jaeger_Inject ops carrier h x =
     (let sc = span_GetContext (GetSpan h x)
      in if \<not> sc_IsValid sc then carrier else tc_Set ops carrier kJaegerTraceHeader (jaeger_trace_identity sc))"

definition jaeger_ExtractImpl :: "'c carrier_ops \<Rightarrow> 'c \<Rightarrow> span_context" where
  "jaeger_ExtractImpl ops carrier =
     (case SplitString (tc_Get ops carrier kJaegerTraceHeader) CHR '':'' 4 of
        [trace_id_hex, span_id_hex, _, flags_hex] \<Rightarrow>
          if \<not> IsValidHex trace_id_hex \<or> \<not> IsValidHex span_id_hex \<or> \<not> IsValidHex flags_hex then sc_GetInvalid
          else (case HexToBinary trace_id_hex 16 of (ok1, tid) \<Rightarrow>
                  if \<not> ok1 then sc_GetInvalid
                  else (case HexToBinary span_id_hex 8 of (ok2, sid) \<Rightarrow>
                          if \<not> ok2 then sc_GetInvalid
                          else (case HexToBinary flags_hex 1 of (ok3, flags) \<Rightarrow>
                                  if \<not> ok3 then sc_GetInvalid
                                  else SpanContext (trace_id_of_bytes tid) (span_id_of_bytes sid)
                                         (GetTraceFlags (flags ! 0)) True ts_GetDefault)))
      | _ \<Rightarrow> sc_GetInvalid)"

definition jaeger_Extract :: "'c carrier_ops \<Rightarrow> 'c \<Rightarrow> ctx_heap \<Rightarrow> ctx \<Rightarrow> ctx_heap \<times> ctx" where
  "jaeger_Extract ops carrier h x =
     (let sc = jaeger_ExtractImpl ops carrier
      in if sc_IsValid sc then SetSpan h x (DefaultSpan sc) else (h, x))"

definition jaeger_Fields :: "'s field_callback \<Rightarrow> 's \<Rightarrow> bool \<times> 's" where
  "jaeger_Fields cb s = cb kJaegerTraceHeader s"

subsection \<open>What arrives\<close>

definition sampled_received :: "span_context \<Rightarrow> span_context" where
  "sampled_received sc =
     SpanContext (sc_trace_id sc) (sc_span_id sc) (TraceFlags (tf_rep (sc_trace_flags sc) AND 1)) True ts_GetDefault"

definition plain_flags :: "span_context \<Rightarrow> bool" where
  "plain_flags sc \<longleftrightarrow> tf_rep (sc_trace_flags sc) = 0 \<or> tf_rep (sc_trace_flags sc) = 1"

lemma and_one_cases: "(b :: u8) AND 1 = (if b AND 1 \<noteq> 0 then 1 else 0)"
  by (simp add: and_one_eq odd_iff_mod_2_eq_one)

lemma sampled_flags:
  "TraceFlags (tf_rep f AND 1) = (if trace_flags_IsSampled f then TraceFlags kIsSampled else TraceFlags 0)"
  using and_one_cases [of "tf_rep f"] by (auto simp: trace_flags_IsSampled_def kIsSampled_def)

lemma b3_ids_printed:
  assumes "wf_span_context sc" and "sc_IsValid sc"
  shows "b3_ids (trace_id_ToLowerBase16 (sc_trace_id sc)) (span_id_ToLowerBase16 (sc_span_id sc)) fl =
    SpanContext (sc_trace_id sc) (sc_span_id sc) (b3_TraceFlagsFromHex fl) True ts_GetDefault"
proof -
  have "b3_TraceIdFromHex = TraceIdFromHex" "b3_SpanIdFromHex = SpanIdFromHex"
    by (simp_all add: fun_eq_iff b3_TraceIdFromHex_def b3_SpanIdFromHex_def TraceIdFromHex_def SpanIdFromHex_def
        kTraceIdHexStrLength_def kSpanIdHexStrLength_def kTraceIdSize_def kSpanIdSize_def)
  with assms show ?thesis
    by (simp add: b3_ids_def tid.valid_printed sid.valid_printed from_hex_ids wf_span_context_def sc_IsValid_def)
qed

lemma b3_absent: "fresh_carrier ops c \<Longrightarrow> \<not> sc_IsValid (b3_ExtractImpl ops c)"
proof -
  assume f: "fresh_carrier ops c"
  have "b3_TraceIdFromHex [] = trace_id_zero"
    by (simp add: b3_TraceIdFromHex_def kTraceIdHexStrLength_def HexToBinary_even trace_id_of_bytes_def
        trace_id_zero_def trace_id_kSize_def)
  with f show ?thesis
    using tid.zero_invalid by (simp add: b3_ExtractImpl_def b3_ids_def IsValidHex_def Let_def)
qed

lemma b3_split: "SplitString (b3_trace_identity sc) CHR ''-'' 3 =
    [trace_id_ToLowerBase16 (sc_trace_id sc), span_id_ToLowerBase16 (sc_span_id sc),
     if trace_flags_IsSampled (sc_trace_flags sc) then ''1'' else ''0'']"
proof -
  have "b3_trace_identity sc = trace_id_ToLowerBase16 (sc_trace_id sc) @ CHR ''-'' #
      span_id_ToLowerBase16 (sc_span_id sc) @ CHR ''-'' #
      (if trace_flags_IsSampled (sc_trace_flags sc) then ''1'' else ''0'')"
    by (simp add: b3_trace_identity_def)
  then show ?thesis
    by (simp add: SplitString_eq split_all_append_sep split_all_no_sep tid.printed_no_separator
        sid.printed_no_separator del: append_Cons append.simps)
qed

interpretation b3: span_propagator b3_Inject b3_ExtractImpl b3_Extract "\<lambda>_. True" sampled_received
proof
  fix h x and ops :: "'c carrier_ops" and c sc
  show "\<not> sc_IsValid (span_GetContext (GetSpan h x)) \<Longrightarrow> b3_Inject ops c h x = c"
    by (simp add: b3_Inject_def)
  show "b3_Extract ops c h x = extract_with (b3_ExtractImpl ops c) h x"
    by (simp add: b3_Extract_def extract_with_def Let_def)
  show "fresh_carrier ops c \<Longrightarrow> \<not> sc_IsValid (b3_ExtractImpl ops c)" by (rule b3_absent)
  show "carrier_laws ops \<Longrightarrow> fresh_carrier ops c \<Longrightarrow> span_GetContext (GetSpan h x) = sc \<Longrightarrow>
      wf_span_context sc \<Longrightarrow> sc_IsValid sc \<Longrightarrow> True \<Longrightarrow> b3_ExtractImpl ops (b3_Inject ops c h x) = sampled_received sc"
  proof -
    assume a: "carrier_laws ops" "span_GetContext (GetSpan h x) = sc" "wf_span_context sc" "sc_IsValid sc"
    have "b3_trace_identity sc \<noteq> []" by (simp add: b3_trace_identity_def)
    then have "b3_ExtractImpl ops (b3_Inject ops c h x) =
        b3_ids (trace_id_ToLowerBase16 (sc_trace_id sc)) (span_id_ToLowerBase16 (sc_span_id sc))
          (if trace_flags_IsSampled (sc_trace_flags sc) then ''1'' else ''0'')"
      using a by (simp add: b3_ExtractImpl_def b3_Inject_def b3_split Let_def)
    then show ?thesis
      using b3_ids_printed [OF a(3,4)]
      by (simp add: sampled_received_def sampled_flags b3_TraceFlagsFromHex_def)
  qed
qed (simp_all add: sampled_received_def SpanContext_def)

lemma plain_flags_digit:
  assumes "plain_flags sc"
  shows "b3_TraceFlagsFromHex [trace_flags_ToLowerBase16 (sc_trace_flags sc) ! 1] = sc_trace_flags sc"
  using assms by (cases "sc_trace_flags sc")
    (auto simp: plain_flags_def trace_flags_ToLowerBase16_def kHexUpper_def b3_TraceFlagsFromHex_def kIsSampled_def)

interpretation b3_multi: span_propagator b3_multi_Inject b3_ExtractImpl b3_Extract plain_flags sampled_received
proof
  fix h x and ops :: "'c carrier_ops" and c sc
  show "\<not> sc_IsValid (span_GetContext (GetSpan h x)) \<Longrightarrow> b3_multi_Inject ops c h x = c"
    by (simp add: b3_multi_Inject_def)
  show "b3_Extract ops c h x = extract_with (b3_ExtractImpl ops c) h x"
    by (simp add: b3_Extract_def extract_with_def Let_def)
  show "fresh_carrier ops c \<Longrightarrow> \<not> sc_IsValid (b3_ExtractImpl ops c)" by (rule b3_absent)
  show "carrier_laws ops \<Longrightarrow> fresh_carrier ops c \<Longrightarrow> span_GetContext (GetSpan h x) = sc \<Longrightarrow>
      wf_span_context sc \<Longrightarrow> sc_IsValid sc \<Longrightarrow> plain_flags sc \<Longrightarrow>
      b3_ExtractImpl ops (b3_multi_Inject ops c h x) = sampled_received sc"
  proof -
    assume a: "carrier_laws ops" "fresh_carrier ops c" "span_GetContext (GetSpan h x) = sc"
      "wf_span_context sc" "sc_IsValid sc" "plain_flags sc"
    then have "b3_ExtractImpl ops (b3_multi_Inject ops c h x) =
        b3_ids (trace_id_ToLowerBase16 (sc_trace_id sc)) (span_id_ToLowerBase16 (sc_span_id sc))
          [trace_flags_ToLowerBase16 (sc_trace_flags sc) ! 1]"
      by (simp add: b3_ExtractImpl_def b3_multi_Inject_def Let_def kB3CombinedHeader_def kB3TraceIdHeader_def
          kB3SpanIdHeader_def kB3SampledHeader_def)
    moreover have "TraceFlags (tf_rep (sc_trace_flags sc) AND 1) = sc_trace_flags sc"
      using a(6) by (cases "sc_trace_flags sc") (auto simp: plain_flags_def)
    ultimately show ?thesis
      using b3_ids_printed [OF a(4,5)] plain_flags_digit [OF a(6)] by (simp add: sampled_received_def)
  qed
qed (simp_all add: sampled_received_def SpanContext_def)

subsection \<open>Jaeger implements the contract\<close>

lemma jaeger_split: "SplitString (jaeger_trace_identity sc) CHR '':'' 4 =
    [trace_id_ToLowerBase16 (sc_trace_id sc), span_id_ToLowerBase16 (sc_span_id sc), ''0'',
     if sc_IsSampled sc then ''01'' else ''00'']"
proof -
  have "jaeger_trace_identity sc = trace_id_ToLowerBase16 (sc_trace_id sc) @ CHR '':'' #
      span_id_ToLowerBase16 (sc_span_id sc) @ CHR '':'' # ''0'' @ CHR '':'' #
      (if sc_IsSampled sc then ''01'' else ''00'')"
    by (simp add: jaeger_trace_identity_def)
  then show ?thesis
    by (simp add: SplitString_eq split_all_append_sep split_all_no_sep tid.printed_no_separator
        sid.printed_no_separator del: append_Cons append.simps)
qed

lemma jaeger_flag_bytes:
  "IsValidHex ''01''" "IsValidHex ''00''" "HexToBinary ''01'' 1 = (True, [1])" "HexToBinary ''00'' 1 = (True, [0])"
  by (simp_all add: IsValidHex_def HexToInt_def kHexDigits_def char_val_def nth_append HexToBinary_even hex_byte_def
      del: One_nat_def)

lemma jaeger_ids_printed:
  assumes "wf_span_context sc"
  shows "HexToBinary (trace_id_ToLowerBase16 (sc_trace_id sc)) 16 = (True, tid_rep (sc_trace_id sc))"
    and "HexToBinary (span_id_ToLowerBase16 (sc_span_id sc)) 8 = (True, sid_rep (sc_span_id sc))"
  using assms by (simp_all add: trace_id_ToLowerBase16_def span_id_ToLowerBase16_def wf_span_context_def
      wf_trace_id_def wf_span_id_def trace_id_kSize_def span_id_kSize_def)

interpretation jaeger: span_propagator jaeger_Inject jaeger_ExtractImpl jaeger_Extract "\<lambda>_. True" sampled_received
proof
  fix h x and ops :: "'c carrier_ops" and c sc
  show "\<not> sc_IsValid (span_GetContext (GetSpan h x)) \<Longrightarrow> jaeger_Inject ops c h x = c"
    by (simp add: jaeger_Inject_def)
  show "jaeger_Extract ops c h x = extract_with (jaeger_ExtractImpl ops c) h x"
    by (simp add: jaeger_Extract_def extract_with_def Let_def)
  show "fresh_carrier ops c \<Longrightarrow> \<not> sc_IsValid (jaeger_ExtractImpl ops c)"
    by (simp add: jaeger_ExtractImpl_def SplitString_eq)
  show "carrier_laws ops \<Longrightarrow> fresh_carrier ops c \<Longrightarrow> span_GetContext (GetSpan h x) = sc \<Longrightarrow>
      wf_span_context sc \<Longrightarrow> sc_IsValid sc \<Longrightarrow> True \<Longrightarrow>
      jaeger_ExtractImpl ops (jaeger_Inject ops c h x) = sampled_received sc"
  proof -
    assume a: "carrier_laws ops" "span_GetContext (GetSpan h x) = sc" "wf_span_context sc" "sc_IsValid sc"
    then have "tc_Get ops (jaeger_Inject ops c h x) kJaegerTraceHeader = jaeger_trace_identity sc"
      by (simp add: jaeger_Inject_def)
    moreover have "trace_id_of_bytes (tid_rep (sc_trace_id sc)) = sc_trace_id sc"
      "span_id_of_bytes (sid_rep (sc_span_id sc)) = sc_span_id sc"
      using a(3) tid.mk_rep sid.mk_rep by (simp_all add: wf_span_context_def wf_trace_id_def wf_span_id_def)
    ultimately show ?thesis
      using jaeger_ids_printed [OF a(3)] sampled_flags [of "sc_trace_flags sc"]
      by (auto simp: jaeger_ExtractImpl_def jaeger_split tid.valid_printed sid.valid_printed jaeger_flag_bytes
          sampled_received_def sc_IsSampled_def GetTraceFlags_def jaeger_kIsSampled_def kIsSampled_def
          simp del: One_nat_def)
  qed
qed (simp_all add: sampled_received_def SpanContext_def)

lemma sampled_received_facts:
  "sc_trace_id (sampled_received sc) = sc_trace_id sc" "sc_span_id (sampled_received sc) = sc_span_id sc"
  "sc_IsSampled (sampled_received sc) = sc_IsSampled sc" "sc_IsRemote (sampled_received sc)"
  by (simp_all add: sampled_received_def SpanContext_def sc_IsSampled_def sc_IsRemote_def trace_flags_IsSampled_def
      kIsSampled_def)

subsection \<open>Properties\<close>

text \<open>B3 single-header and Jaeger propagation. Whatever the flags and trace state of a valid span, the
  receiver gets its trace id, span id and sampling decision, marked remote (the other flags and the
  trace state are not carried).\<close>

theorem b3_and_jaeger_round_trip:
  assumes "carrier_laws ops" and "fresh_carrier ops c" and "span_GetContext (GetSpan h x) = sc"
    and "wf_span_context sc" and "sc_IsValid sc"
  shows "\<exists>r. GetSpan (fst (b3_Extract ops (b3_Inject ops c h x) h' y)) (snd (b3_Extract ops (b3_Inject ops c h x) h' y)) = DefaultSpan r \<and>
      GetSpan (fst (jaeger_Extract ops (jaeger_Inject ops c h x) h' y)) (snd (jaeger_Extract ops (jaeger_Inject ops c h x) h' y)) = DefaultSpan r \<and>
      sc_trace_id r = sc_trace_id sc \<and> sc_span_id r = sc_span_id sc \<and> sc_IsSampled r = sc_IsSampled sc \<and> sc_IsRemote r"
  using b3.round_trip [OF assms TrueI surjective_pairing] jaeger.round_trip [OF assms TrueI surjective_pairing]
  by (auto simp: sampled_received_facts)

theorem b3_and_jaeger_round_trip_witness:
  "\<exists>h x r. GetSpan h x = DefaultSpan demo_span_context \<and>
     GetSpan (fst (b3_Extract map_carrier (b3_Inject map_carrier Map.empty h x) [] Context_default))
       (snd (b3_Extract map_carrier (b3_Inject map_carrier Map.empty h x) [] Context_default)) = DefaultSpan r \<and>
     sc_IsSampled r = sc_IsSampled demo_span_context"
proof -
  obtain h x where "SetSpan [] Context_default (DefaultSpan demo_span_context) = (h, x)" by force
  then have g: "GetSpan h x = DefaultSpan demo_span_context" by simp
  then have "span_GetContext (GetSpan h x) = demo_span_context" by simp
  from b3_and_jaeger_round_trip [OF map_carrier_laws this demo_span_context_ok, of "[]" Context_default] g
  show ?thesis by blast
qed

text \<open>B3 multi-header propagation carries the sampling decision of contexts whose flags are 0 or 1, but
  not of others: a sampled span whose flags are 3 arrives as not sampled, since the injector writes the
  low digit of the flags where the extractor knows only \<open>1\<close> and \<open>d\<close>.\<close>

theorem b3_multi_header_sampling:
  assumes "carrier_laws ops" and "fresh_carrier ops c" and "span_GetContext (GetSpan h x) = sc"
    and "wf_span_context sc" and "sc_IsValid sc"
  shows "(plain_flags sc \<longrightarrow> b3_ExtractImpl ops (b3_multi_Inject ops c h x) = sampled_received sc) \<and>
    (sc_trace_flags sc = TraceFlags 3 \<longrightarrow> sc_IsSampled sc \<and>
       sc_IsValid (b3_ExtractImpl ops (b3_multi_Inject ops c h x)) \<and>
       \<not> sc_IsSampled (b3_ExtractImpl ops (b3_multi_Inject ops c h x)))"
proof (intro conjI impI)
  show "plain_flags sc \<Longrightarrow> b3_ExtractImpl ops (b3_multi_Inject ops c h x) = sampled_received sc"
    by (rule b3_multi.wire [OF assms])
  assume f: "sc_trace_flags sc = TraceFlags 3"
  have d: "trace_flags_ToLowerBase16 (TraceFlags 3) ! 1 = CHR ''3''" by code_simp
  have "b3_ExtractImpl ops (b3_multi_Inject ops c h x) =
      SpanContext (sc_trace_id sc) (sc_span_id sc) (b3_TraceFlagsFromHex [CHR ''3'']) True ts_GetDefault"
    using assms(1-3,5) b3_ids_printed [OF assms(4,5), of "[CHR ''3'']"]
    by (simp add: b3_ExtractImpl_def b3_multi_Inject_def Let_def kB3CombinedHeader_def kB3TraceIdHeader_def
        kB3SpanIdHeader_def kB3SampledHeader_def f d [simplified])
  then show "sc_IsValid (b3_ExtractImpl ops (b3_multi_Inject ops c h x))"
    and "\<not> sc_IsSampled (b3_ExtractImpl ops (b3_multi_Inject ops c h x))"
    using assms(5) by (simp_all add: sc_IsValid_def SpanContext_def sc_IsSampled_def b3_TraceFlagsFromHex_def
        trace_flags_IsSampled_def)
  show "sc_IsSampled sc" by (simp add: sc_IsSampled_def f trace_flags_IsSampled_def kIsSampled_def)
qed

theorem b3_multi_header_sampling_witness:
  "\<exists>h x. GetSpan h x = DefaultSpan (demo_span_context\<lparr>sc_trace_flags := TraceFlags 3\<rparr>) \<and>
     \<not> sc_IsSampled (b3_ExtractImpl map_carrier (b3_multi_Inject map_carrier Map.empty h x))"
proof -
  let ?sc = "demo_span_context\<lparr>sc_trace_flags := TraceFlags 3\<rparr>"
  obtain h x where "SetSpan [] Context_default (DefaultSpan ?sc) = (h, x)" by force
  then have g: "GetSpan h x = DefaultSpan ?sc" by simp
  then have "span_GetContext (GetSpan h x) = ?sc" by simp
  moreover have "wf_span_context ?sc" "sc_IsValid ?sc"
    using demo_span_context_ok by (simp_all add: wf_span_context_def sc_IsValid_def)
  ultimately show ?thesis using b3_multi_header_sampling [OF map_carrier_laws] g by fastforce
qed

end
