(* ===== verification/Baggage_Propagator.thy ===== *)
theory Baggage_Propagator
  imports Http_Trace_Context
begin

text \<open>
  \<open>opentelemetry/baggage/propagation/baggage_propagator.h\<close>, and the composite of the W3C
  propagators, the configuration that carries both the span and the baggage of a request.
\<close>

definition bag_Inject :: "'c carrier_ops \<Rightarrow> 'c \<Rightarrow> ctx_heap \<Rightarrow> ctx \<Rightarrow> 'c" where
  "bag_Inject ops carrier h x =
     (let header = bag_ToHeader (GetBaggage h x)
      in if length header \<noteq> 0 then tc_Set ops carrier kBaggageHeader header else carrier)"

definition bag_Extract :: "'c carrier_ops \<Rightarrow> 'c \<Rightarrow> ctx_heap \<Rightarrow> ctx \<Rightarrow> ctx_heap \<times> ctx" where
  "bag_Extract ops carrier h x =
     (let b = bag_FromHeader (tc_Get ops carrier kBaggageHeader)
      in if length (bag_ToHeader b) \<noteq> 0 then SetBaggage h x b else (h, x))"

definition bag_Fields :: "'s field_callback \<Rightarrow> 's \<Rightarrow> bool \<times> 's" where
  "bag_Fields cb s = cb kBaggageHeader s"

definition BaggagePropagator :: "'c carrier_ops \<Rightarrow> ('c, 's) text_map_propagator" where
  "BaggagePropagator ops =
     \<lparr>pr_Inject = bag_Inject ops, pr_Extract = bag_Extract ops, pr_Fields = bag_Fields\<rparr>"

text \<open>The baggages that survive the header.\<close>

definition portable_baggage :: "baggage \<Rightarrow> bool" where
  "portable_baggage b \<longleftrightarrow> wf_bag b \<and> list_all portable_entry (bag_list b) \<and> length (bag_list b) \<le> 180 \<and>
     length (bag_ToHeader b) \<le> 8192"

lemma bag_ToHeader_Nil: "wf_bag b \<Longrightarrow> bag_ToHeader b = [] \<longleftrightarrow> bag_list b = []"
  by (cases "bag_list b") (auto simp: bag_ToHeader_eq join_members_Cons)

lemma bag_extract_injected:
  assumes "carrier_laws ops" and "portable_baggage (GetBaggage h x)" and "bag_list (GetBaggage h x) \<noteq> []"
    and "bag_Extract ops (bag_Inject ops c h x) h' y = (h'', y')"
  shows "bag_list (GetBaggage h'' y') = bag_list (GetBaggage h x)"
proof -
  let ?b = "GetBaggage h x" and ?r = "bag_FromHeader (bag_ToHeader (GetBaggage h x))"
  have p: "wf_bag ?b" "list_all portable_entry (bag_list ?b)" "length (bag_list ?b) \<le> 180"
    "length (bag_ToHeader ?b) \<le> 8192" using assms(2) by (simp_all add: portable_baggage_def)
  have r: "bag_list ?r = bag_list ?b" by (rule bag_FromHeader_ToHeader [OF p])
  have "wf_bag ?r" using bag_FromHeader_spec by blast
  with r have "bag_ToHeader ?r \<noteq> []" using assms(3) by (simp add: bag_ToHeader_Nil)
  moreover have "bag_ToHeader ?b \<noteq> []" using assms(3) p(1) by (simp add: bag_ToHeader_Nil)
  ultimately have "SetBaggage h' y ?r = (h'', y')"
    using assms(1,4) by (simp add: bag_Extract_def bag_Inject_def Let_def)
  then show ?thesis using r by simp
qed

lemma SetBaggage_GetSpan:
  "ctx_rep h x l \<Longrightarrow> SetBaggage h x b = (h', x') \<Longrightarrow> GetSpan h' x' = GetSpan h x"
  unfolding SetBaggage_def GetSpan_def
  by (subst get_value_other [of h x l kBaggageHeader "CV_baggage b" h' x' kSpanKey])
    (simp_all add: kBaggageHeader_def kSpanKey_def)

lemma extract_with_rep:
  "ctx_rep h x l \<Longrightarrow> extract_with sc h x = (h', x') \<Longrightarrow> \<exists>l'. ctx_rep h' x' l'"
  using ctx_SetValue_rep(1) by (fastforce simp: extract_with_def SetSpan_def split: if_splits)

lemma other_headers [simp]:
  "carrier_laws ops \<Longrightarrow> tc_Get ops (bag_Inject ops c h x) kTraceParent = tc_Get ops c kTraceParent"
  "carrier_laws ops \<Longrightarrow> tc_Get ops (bag_Inject ops c h x) kTraceState = tc_Get ops c kTraceState"
  "carrier_laws ops \<Longrightarrow> tc_Get ops (w3c_Inject ops c h x) kBaggageHeader = tc_Get ops c kBaggageHeader"
  by (simp_all add: bag_Inject_def w3c_Inject_def w3c_InjectImpl_def Let_def kBaggageHeader_def kTraceParent_def
      kTraceState_def)

text \<open>The composite of the two W3C propagators carries the span and the baggage.\<close>

lemma composite_round_trip:
  assumes "carrier_laws ops" and "fresh_carrier ops c" and "span_GetContext (GetSpan h x) = sc"
    and "wf_span_context sc" and "sc_IsValid sc"
    and "portable_baggage (GetBaggage h x)" and "bag_list (GetBaggage h x) \<noteq> []"
    and "ctx_rep h' y l"
    and "composite_Extract [HttpTraceContext ops, BaggagePropagator ops]
           (composite_Inject [HttpTraceContext ops, BaggagePropagator ops] c h x) h' y = (h'', y')"
  shows "GetSpan h'' y' = DefaultSpan (w3c_received sc)"
    and "bag_list (GetBaggage h'' y') = bag_list (GetBaggage h x)"
proof -
  let ?c = "bag_Inject ops (w3c_Inject ops c h x) h x"
  obtain h1 y1 where e1: "w3c_Extract ops ?c h' y = (h1, y1)" by (cases "w3c_Extract ops ?c h' y")
  have e2: "bag_Extract ops ?c h1 y1 = (h'', y')"
    using assms(9) e1 by (simp add: composite_Extract_fold HttpTraceContext_def BaggagePropagator_def)
  have "w3c_ExtractImpl ops ?c = w3c_ExtractImpl ops (w3c_Inject ops c h x)"
    using assms(1) by (simp add: w3c_ExtractImpl_def)
  also have "\<dots> = w3c_received sc" by (rule w3c_extract_injected [OF assms(1-5)])
  finally have w: "extract_with (w3c_received sc) h' y = (h1, y1)"
    using e1 w3c.extract_step [of ops ?c h' y] by simp
  have s1: "GetSpan h1 y1 = DefaultSpan (w3c_received sc)"
    using extract_with_GetSpan [OF _ w] assms(5) w3c.received_valid by simp
  obtain l1 where l1: "ctx_rep h1 y1 l1" using extract_with_rep [OF assms(8) w] by blast
  have "GetSpan h'' y' = GetSpan h1 y1"
    using e2 SetBaggage_GetSpan [OF l1] by (auto simp: bag_Extract_def Let_def split: if_splits)
  then show "GetSpan h'' y' = DefaultSpan (w3c_received sc)" using s1 by simp
  show "bag_list (GetBaggage h'' y') = bag_list (GetBaggage h x)"
    by (rule bag_extract_injected [OF assms(1,6,7) e2])
qed

subsection \<open>Properties\<close>

text \<open>C8: The composite of the two W3C propagators, as an application installs it: the receiver, whatever
  its own context, gets the span context of a valid span and the entries of a portable, non-empty baggage,
  each untouched by the other.\<close>

theorem composite_propagation_round_trip:
  assumes "carrier_laws ops" and "fresh_carrier ops c" and "span_GetContext (GetSpan h x) = sc"
    and "wf_span_context sc" and "sc_IsValid sc"
    and "portable_baggage (GetBaggage h x)" and "bag_list (GetBaggage h x) \<noteq> []"
    and "ctx_rep h' y l"
  shows "let p = CompositePropagator [HttpTraceContext ops, BaggagePropagator ops]
     in \<exists>h'' y'. pr_Extract p (pr_Inject p c h x) h' y = (h'', y') \<and>
     GetSpan h'' y' = DefaultSpan (w3c_received sc) \<and> bag_list (GetBaggage h'' y') = bag_list (GetBaggage h x)"
    (is "Let (CompositePropagator ?ps) _")
proof -
  obtain h'' y' where "composite_Extract ?ps (composite_Inject ?ps c h x) h' y = (h'', y')" by (rule prod.exhaust)
  with composite_round_trip [OF assms this] show ?thesis
    unfolding CompositePropagator_def Let_def by (intro exI [of _ h''] exI [of _ y']) simp
qed

theorem composite_propagation_round_trip_witness:
  "let p = CompositePropagator [HttpTraceContext map_carrier, BaggagePropagator map_carrier]
   in \<exists>h x h'' y'. pr_Extract p (pr_Inject p Map.empty h x) [] Context_default = (h'', y') \<and>
     GetSpan h'' y' = DefaultSpan (w3c_received demo_span_context) \<and> bag_list (GetBaggage h'' y') = [(''user'', ''7'')]"
proof -
  let ?b = "bag_Set Baggage_default ''user'' ''7''"
  obtain h0 x0 where e0: "SetSpan [] Context_default (DefaultSpan demo_span_context) = (h0, x0)" by force
  obtain h x where e: "SetBaggage h0 x0 ?b = (h, x)" by force
  obtain l0 where "ctx_rep h0 x0 l0"
    using ctx_SetValue_rep(1) [OF ctx_rep_default] e0 unfolding SetSpan_def by blast
  then have s: "span_GetContext (GetSpan h x) = demo_span_context" using SetBaggage_GetSpan [OF _ e] e0 by simp
  have l: "bag_list ?b = [(''user'', ''7'')]" by code_simp
  have "wf_bag ?b" using bag_Set_spec [of Baggage_default] by (simp add: wf_bag_def Baggage_default_def)
  moreover have "portable_entry (''user'', ''7'')" by code_simp
  moreover have "length (bag_ToHeader ?b) \<le> 8192" by code_simp
  ultimately have p: "portable_baggage ?b" using l by (simp add: portable_baggage_def)
  have b: "GetBaggage h x = ?b" using e by simp
  from composite_propagation_round_trip [OF map_carrier_laws s demo_span_context_ok, of "[]" Context_default "[]"] p l
  show ?thesis unfolding b Let_def by (simp only: ctx_rep_default simp_thms list.distinct) blast
qed

end
