(* ===== verification/Otel_Api.thy ===== *)
theory Otel_Api
  imports Otel_Context
begin

text \<open>
  The calls that the demo's instrumentation makes on the tracing API, as a log. The receivers
  (\<open>Tracer\<close>, \<open>Span\<close>, \<open>TracerProvider\<close>) are SDK classes whose code is not part of the repository, so
  a call is recorded with its arguments, and a span is the number of the \<open>StartSpan\<close> call that made
  it. The value types are those of \<open>common/attribute_value.h\<close>, \<open>trace/span_metadata.h\<close> and
  \<open>trace/span_startoptions.h\<close>. \<open>proto\<close> is the protocol of the API: a span is started once, and
  nothing is called on it after \<open>End\<close>.
\<close>

datatype attribute_value =
    AV_bool bool
  | AV_int32 "32 word"
  | AV_int64 "64 word"
  | AV_uint32 "32 word"
  | AV_double "64 word"
  | AV_cstring string
  | AV_string string
  | AV_span_bool "bool list"
  | AV_span_int32 "32 word list"
  | AV_span_int64 "64 word list"
  | AV_span_uint32 "32 word list"
  | AV_span_double "64 word list"
  | AV_span_string "string list"
  | AV_uint64 "64 word"
  | AV_span_uint64 "64 word list"
  | AV_span_byte "8 word list"

datatype span_kind = kInternal | kServer | kClient | kProducer | kConsumer

datatype status_code = kUnset | kOk | kError

datatype span_parent = ParentSpanContext span_context | ParentContext ctx

record start_span_options =
  start_system_time :: int
  start_steady_time :: int
  so_parent :: span_parent
  so_kind :: span_kind

definition StartSpanOptions :: start_span_options where
  "StartSpanOptions =
     \<lparr>start_system_time = 0, start_steady_time = 0, so_parent = ParentSpanContext sc_GetInvalid, so_kind = kInternal\<rparr>"

datatype api_call =
    StartSpan nat string start_span_options
  | SetAttribute nat string attribute_value
  | AddEvent nat string
  | SetStatus nat status_code string
  | EndSpan nat
  | ForceFlush
  | Shutdown

text \<open>The span a call is about.\<close>

fun call_span :: "api_call \<Rightarrow> nat option" where
  "call_span (StartSpan i n opts) = Some i"
| "call_span (SetAttribute i k v) = Some i"
| "call_span (AddEvent i n) = Some i"
| "call_span (SetStatus i c d) = Some i"
| "call_span (EndSpan i) = Some i"
| "call_span ForceFlush = None"
| "call_span Shutdown = None"

text \<open>The protocol, as an automaton over (live spans, spans ever started).\<close>

type_synonym proto_state = "nat set \<times> nat set"

fun proto_step :: "api_call \<Rightarrow> proto_state \<Rightarrow> proto_state option" where
  "proto_step (StartSpan i n opts) (live, seen) =
     (if i \<in> seen then None else Some (insert i live, insert i seen))"
| "proto_step (EndSpan i) (live, seen) = (if i \<in> live then Some (live - {i}, seen) else None)"
| "proto_step ForceFlush (live, seen) = Some (live, seen)"
| "proto_step Shutdown (live, seen) = Some (live, seen)"
| "proto_step (SetAttribute i k v) (live, seen) = (if i \<in> live then Some (live, seen) else None)"
| "proto_step (AddEvent i n) (live, seen) = (if i \<in> live then Some (live, seen) else None)"
| "proto_step (SetStatus i c d) (live, seen) = (if i \<in> live then Some (live, seen) else None)"

fun proto :: "api_call list \<Rightarrow> proto_state \<Rightarrow> proto_state option" where
  "proto [] st = Some st"
| "proto (c # cs) st = Option.bind (proto_step c st) (proto cs)"

definition calls_on :: "nat \<Rightarrow> api_call list \<Rightarrow> api_call list" where
  "calls_on i log = filter (\<lambda>c. call_span c = Some i) log"

lemma proto_append: "proto (xs @ ys) st = Option.bind (proto xs st) (proto ys)"
  by (induction xs arbitrary: st) (auto split: Option.bind_splits)

lemma proto_mono: "proto cs (live, seen) = Some (live', seen') \<Longrightarrow> seen \<subseteq> seen' \<and> (live \<subseteq> seen \<longrightarrow> live' \<subseteq> seen')"
proof (induction cs arbitrary: live seen)
  case (Cons c cs)
  then show ?case by (cases c) (force split: if_splits)+
qed simp

text \<open>Under the protocol a span that is no longer live is never used again.\<close>

lemma proto_dead:
  "proto cs (live, seen) = Some st \<Longrightarrow> i \<in> seen \<Longrightarrow> i \<notin> live \<Longrightarrow> calls_on i cs = []"
proof (induction cs arbitrary: live seen)
  case (Cons c cs)
  then show ?case by (cases c) (auto simp: calls_on_def split: if_splits)
qed (simp add: calls_on_def)

text \<open>So \<open>End\<close> is the last call on its span, and it is called once.\<close>

lemma proto_end_last:
  assumes "proto (xs @ EndSpan i # ys) ({}, {}) = Some st"
  shows "calls_on i ys = []"
proof -
  obtain live seen where x: "proto xs ({}, {}) = Some (live, seen)" and "proto (EndSpan i # ys) (live, seen) = Some st"
    using assms by (auto simp: proto_append split: Option.bind_splits)
  then have "i \<in> live" and y: "proto ys (live - {i}, seen) = Some st" by (auto split: if_splits)
  moreover have "live \<subseteq> seen" using proto_mono [OF x] by simp
  ultimately show ?thesis using proto_dead [OF y, of i] by auto
qed

end
