(* ===== verification/Preload_Tracer.thy ===== *)
theory Preload_Tracer
  imports Otel_Api Http_Trace_Context
begin

text \<open>
  \<open>roll-dice/preload_tracer.cpp\<close>: the library that is preloaded into the dice server and hooks
  \<open>accept\<close>, \<open>read\<close>, \<open>write\<close> and \<open>close\<close>. The globals are the record \<open>preload_state\<close>; each hook is
  one function on it, that takes what the real system call returned (and, for \<open>read\<close>, what it left
  in the buffer) and gives the value the hook returns or the exception that leaves it. The
  environment (\<open>getenv\<close>) and the outcome of the SDK factories are arguments. A call into the SDK is
  an entry of the log \<open>ps_calls\<close>.

  Each hook is one step here; \<open>Preload_Threads\<close> takes the hooks apart into the steps of several threads.
\<close>

subsection \<open>State\<close>

record fd_span_context =
  fs_span :: nat
  fs_method :: string
  fs_path :: string

record preload_state =
  ps_real_accept :: bool
  ps_real_read :: bool
  ps_real_write :: bool
  ps_real_close :: bool
  ps_tracer :: bool
  ps_provider :: bool
  ps_initialized :: bool
  ps_fd_span_map :: "fd \<rightharpoonup> fd_span_context"
  ps_server_address :: "string option"
  ps_server_port :: "string option"
  ps_next_span :: nat
  ps_calls :: "api_call list"
  ps_heap :: ctx_heap
  ps_console :: "string list"
  ps_sigint :: bool
  ps_exit :: "int option"

definition preload_start :: preload_state where
  "preload_start =
     \<lparr>ps_real_accept = False, ps_real_read = False, ps_real_write = False, ps_real_close = False,
      ps_tracer = False, ps_provider = False, ps_initialized = False, ps_fd_span_map = Map.empty,
      ps_server_address = None, ps_server_port = None, ps_next_span = 0, ps_calls = [], ps_heap = [],
      ps_console = [], ps_sigint = False, ps_exit = None\<rparr>"

definition emit :: "api_call list \<Rightarrow> preload_state \<Rightarrow> preload_state" where
  "emit cs s = s\<lparr>ps_calls := ps_calls s @ cs\<rparr>"

text \<open>\<open>tracer->StartSpan(name, opts)\<close>: a span with a number of its own.\<close>

definition start_span :: "string \<Rightarrow> start_span_options \<Rightarrow> preload_state \<Rightarrow> nat \<times> preload_state" where
  "start_span name opts s =
     (ps_next_span s, emit [StartSpan (ps_next_span s) name opts] (s\<lparr>ps_next_span := ps_next_span s + 1\<rparr>))"

subsection \<open>parse_request_line\<close>

text \<open>\<open>iss >> word\<close>: skip white space, read up to white space.\<close>

definition next_word :: "string \<Rightarrow> string \<times> string" where
  "next_word s = (let r = dropWhile isspace s in (takeWhile (\<lambda>c. \<not> isspace c) r, dropWhile (\<lambda>c. \<not> isspace c) r))"

definition parse_request_line :: "string \<Rightarrow> string \<times> string" where
  "parse_request_line line =
     (let (meth, rest) = next_word line;
          (path, rest2) = next_word rest
      in if meth = [] \<or> path = [] then (meth, path)
         else case find_char CHR ''?'' path 0 of
                None \<Rightarrow> (meth, path)
              | Some q \<Rightarrow> (meth, take q path))"

subsection \<open>parse_request_headers\<close>

type_synonym header_map = "string \<rightharpoonup> string"

definition lower_key :: "string \<Rightarrow> string" where
  "lower_key key = map to_lower key"

definition add_header_line :: "string \<Rightarrow> header_map \<Rightarrow> header_map" where
  "add_header_line line out =
     (case find_char CHR '':'' line 0 of
        None \<Rightarrow> out
      | Some colon \<Rightarrow>
          let key = take colon line;
              val = (if colon + 1 < length line then drop (colon + 1) line else [])
          in out(lower_key key \<mapsto> dropWhile (\<lambda>c. c = CHR '' '') val))"

function headers_loop :: "string \<Rightarrow> nat \<Rightarrow> header_map \<Rightarrow> header_map" where
  "headers_loop data pos out =
     (if pos < length data
      then let line_end = find_str CRLF data pos;
               line = (case line_end of Some e \<Rightarrow> sub_at data pos (e - pos) | None \<Rightarrow> drop pos data)
           in if line = [] then out
              else headers_loop data (case line_end of Some e \<Rightarrow> e + 2 | None \<Rightarrow> length data) (add_header_line line out)
      else out)"
  by pat_completeness auto
termination
  by (relation "measure (\<lambda>(data, pos, out). length data - pos)")
    (auto split: option.splits dest: find_str_bounds)

declare headers_loop.simps [simp del]

definition parse_request_headers :: "string \<Rightarrow> header_map" where
  "parse_request_headers data =
     (case find_str CRLF data 0 of None \<Rightarrow> Map.empty | Some pos \<Rightarrow> headers_loop data (pos + 2) Map.empty)"

subsection \<open>HeaderCarrier\<close>

text \<open>The carrier over the parsed headers; \<open>headers\<close> may be null, and \<open>Set\<close> does nothing.\<close>

definition carrier_Get :: "header_map option \<Rightarrow> string \<Rightarrow> string" where
  "carrier_Get headers key =
     (case headers of
        None \<Rightarrow> []
      | Some hm \<Rightarrow> (case hm (lower_key key) of None \<Rightarrow> [] | Some v \<Rightarrow> v))"

definition carrier_Set :: "header_map option \<Rightarrow> string \<Rightarrow> string \<Rightarrow> header_map option" where
  "carrier_Set headers key val = headers"

definition HeaderCarrier :: "header_map option carrier_ops" where
  "HeaderCarrier = \<lparr>tc_Get = carrier_Get, tc_Set = carrier_Set\<rparr>"

subsection \<open>parse_response_status\<close>

text \<open>\<open>mem\<close> is the memory from \<open>buf\<close> on, which may be longer than \<open>len\<close>: \<open>strtol\<close> is not told
  where the data ends.\<close>

definition parse_response_status :: "string \<Rightarrow> nat \<Rightarrow> int option" where
  "parse_response_status mem len =
     (if len < 12 then None
      else if take 7 mem \<noteq> ''HTTP/1.'' then None
      else let p = 8 + length (takeWhile (\<lambda>c. c = CHR '' '') (sub_at mem 8 (len - 8)))
           in if p \<ge> len then None
              else let r = strtol10 (c_str (drop p mem))
                   in if st_used r = 0 \<or> st_num r < 0 \<or> st_num r > 999 then None else Some (st_num r))"

subsection \<open>Spans of file descriptors, and initialization\<close>

definition end_span_for_fd :: "fd \<Rightarrow> preload_state \<Rightarrow> preload_state" where
  "end_span_for_fd f s =
     (case ps_fd_span_map s f of
        None \<Rightarrow> s
      | Some c \<Rightarrow> (emit [EndSpan (fs_span c)] s)\<lparr>ps_fd_span_map := (ps_fd_span_map s)(f := None)\<rparr>)"

text \<open>What the exporter, processor, provider and tracer factories do with an endpoint and a header:
  return, or throw before or after the provider is stored.\<close>

datatype sdk_outcome = SdkOk | SdkThrowsBeforeProvider string | SdkThrowsAfterProvider string

type_synonym environment = "string \<Rightarrow> string option"
type_synonym sdk = "string \<Rightarrow> string \<Rightarrow> sdk_outcome"

definition console :: "string \<Rightarrow> preload_state \<Rightarrow> preload_state" where
  "console line s = s\<lparr>ps_console := ps_console s @ [line]\<rparr>"

text \<open>The last character of the success message, U+2705 in UTF-8.\<close>

definition check_mark :: string where
  "check_mark = [char_of (226::nat), char_of (156::nat), char_of (133::nat)]"

definition init_tracer_lazy :: "environment \<Rightarrow> sdk \<Rightarrow> preload_state \<Rightarrow> preload_state" where
  "init_tracer_lazy env sdk s =
     (if ps_initialized s then s
      else let s1 = s\<lparr>ps_initialized := True,
                      ps_server_address := (case env ''OTEL_SERVER_ADDRESS'' of None \<Rightarrow> Some ''localhost'' | Some a \<Rightarrow> Some a),
                      ps_server_port := (case env ''OTEL_SERVER_PORT'' of None \<Rightarrow> Some ''8080'' | Some p \<Rightarrow> Some p)\<rparr>;
               headers = (case env ''OTEL_EXPORTER_OTLP_HEADERS'' of None \<Rightarrow> [] | Some h \<Rightarrow> h)
           in case env ''OTEL_EXPORTER_OTLP_ENDPOINT'' of
                None \<Rightarrow> console ''[OTEL PRELOAD] OTEL_EXPORTER_OTLP_ENDPOINT not set; tracing disabled.'' s1
              | Some url \<Rightarrow>
                  if url = []
                  then console ''[OTEL PRELOAD] OTEL_EXPORTER_OTLP_ENDPOINT not set; tracing disabled.'' s1
                  else case sdk url headers of
                         SdkOk \<Rightarrow> console (''[OTEL PRELOAD] Tracing initialized '' @ check_mark) (s1\<lparr>ps_provider := True, ps_tracer := True\<rparr>)
                       | SdkThrowsBeforeProvider what \<Rightarrow>
                           console (''[OTEL PRELOAD] Failed to initialize tracing: '' @ what) s1
                       | SdkThrowsAfterProvider what \<Rightarrow>
                           console (''[OTEL PRELOAD] Failed to initialize tracing: '' @ what) (s1\<lparr>ps_provider := True\<rparr>))"

subsection \<open>The hooks\<close>

definition server_port_attr :: "preload_state \<Rightarrow> int res" where
  "server_port_attr s = (case ps_server_port s of Some p \<Rightarrow> stol p | None \<Rightarrow> Inl InvalidArgument)"

definition server_address_attr :: "preload_state \<Rightarrow> attribute_value" where
  "server_address_attr s = AV_cstring (case ps_server_address s of Some a \<Rightarrow> a | None \<Rightarrow> [])"

definition hook_accept :: "environment \<Rightarrow> sdk \<Rightarrow> int \<Rightarrow> preload_state \<Rightarrow> int res \<times> preload_state" where
  "hook_accept env sdk client_fd s0 =
     (let s = (init_tracer_lazy env sdk s0)\<lparr>ps_real_accept := True\<rparr>
      in if client_fd \<noteq> - 1 \<and> ps_tracer s
         then let (i, s1) = start_span ''HTTP accept'' (StartSpanOptions\<lparr>so_kind := kServer\<rparr>) s;
                  s2 = emit [SetAttribute i ''server.address'' (server_address_attr s)] s1
              in case server_port_attr s of
                   Inl e \<Rightarrow> (Inl e, s2)
                 | Inr port \<Rightarrow>
                     (Inr client_fd,
                      emit [SetAttribute i ''server.port'' (AV_int64 (word_of_int port)),
                            SetAttribute i ''net.sock.peer.fd'' (AV_int32 (word_of_int client_fd)),
                            AddEvent i (''Accepted client fd: '' @ to_string client_fd),
                            EndSpan i] s2)
         else (Inr client_fd, s))"

definition is_http_request :: "string \<Rightarrow> string \<Rightarrow> string \<Rightarrow> bool" where
  "is_http_request meth path data \<longleftrightarrow>
     meth \<noteq> [] \<and> length path \<ge> 1 \<and> path ! 0 = CHR ''/'' \<and>
     (find_str ''HTTP/1.'' data 0 \<noteq> None \<or> find_str ''HTTP/2'' data 0 \<noteq> None)"

definition optional_header :: "header_map \<Rightarrow> string \<Rightarrow> string \<Rightarrow> nat \<Rightarrow> api_call list" where
  "optional_header hm key attr i =
     (case hm key of
        None \<Rightarrow> []
      | Some v \<Rightarrow> if v \<noteq> [] then [SetAttribute i attr (AV_string v)] else [])"

text \<open>The part of \<open>read\<close> that runs for an HTTP request.\<close>

definition start_request_span :: "fd \<Rightarrow> string \<Rightarrow> int \<Rightarrow> string \<Rightarrow> string \<Rightarrow> preload_state \<Rightarrow> unit res \<times> preload_state" where
  "start_request_span f data bytes meth path s =
     (let hm = parse_request_headers data;
          (heap, ctx_out) = w3c_Extract HeaderCarrier (Some hm) (ps_heap s) Context_default;
          opts = StartSpanOptions\<lparr>so_kind := kServer, so_parent := ParentContext ctx_out\<rparr>;
          (i, s1) = start_span (meth @ '' '' @ path) opts (s\<lparr>ps_heap := heap\<rparr>);
          s2 = emit [SetAttribute i ''http.request.method'' (AV_string meth),
                     SetAttribute i ''url.path'' (AV_string path),
                     SetAttribute i ''http.request.body.size'' (AV_int64 (word_of_int bytes)),
                     SetAttribute i ''server.address'' (server_address_attr s)] s1
      in case server_port_attr s of
           Inl e \<Rightarrow> (Inl e, s2)
         | Inr port \<Rightarrow>
             (Inr (),
              (emit ([SetAttribute i ''server.port'' (AV_int64 (word_of_int port))]
                     @ optional_header hm ''user-agent'' ''http.request.header.user_agent'' i
                     @ optional_header hm ''x-request-id'' ''http.request.header.x_request_id'' i
                     @ [AddEvent i ''Request received'']) s2)
                \<lparr>ps_fd_span_map := (ps_fd_span_map s)(f \<mapsto> \<lparr>fs_span = i, fs_method = meth, fs_path = path\<rparr>)\<rparr>))"

text \<open>\<open>bytes\<close> is what the real \<open>read\<close> returned, \<open>buf\<close> what the buffer then holds.\<close>

definition hook_read :: "environment \<Rightarrow> sdk \<Rightarrow> fd \<Rightarrow> string \<Rightarrow> int \<Rightarrow> preload_state \<Rightarrow> int res \<times> preload_state" where
  "hook_read env sdk f buf bytes s0 =
     (let s = (init_tracer_lazy env sdk s0)\<lparr>ps_real_read := True\<rparr>
      in if bytes > 0 \<and> ps_tracer s
         then let data = take (nat bytes) buf;
                  first_line = (case find_str CRLF data 0 of Some e \<Rightarrow> take e data | None \<Rightarrow> data);
                  (meth, path) = parse_request_line first_line
              in if is_http_request meth path data
                 then (case start_request_span f data bytes meth path s of
                         (Inl e, s') \<Rightarrow> (Inl e, s')
                       | (Inr _, s') \<Rightarrow> (Inr bytes, s'))
                 else (Inr bytes, s)
         else (Inr bytes, s))"

definition status_calls :: "nat \<Rightarrow> int \<Rightarrow> int \<Rightarrow> api_call list" where
  "status_calls i code n =
     [SetAttribute i ''http.response.status_code'' (AV_int64 (word_of_int code)),
      SetAttribute i ''http.response.body.size'' (AV_int64 (word_of_int n)),
      if code \<ge> 400 then SetStatus i kError (''HTTP '' @ to_string code) else SetStatus i kOk []]"

text \<open>\<open>n\<close> is what the real \<open>write\<close> returned, \<open>mem\<close> the memory from \<open>buf\<close> on.\<close>

definition hook_write :: "environment \<Rightarrow> sdk \<Rightarrow> fd \<Rightarrow> string \<Rightarrow> int \<Rightarrow> preload_state \<Rightarrow> int \<times> preload_state" where
  "hook_write env sdk f mem n s0 =
     (let s = (init_tracer_lazy env sdk s0)\<lparr>ps_real_write := True\<rparr>
      in if n > 0 \<and> ps_tracer s
         then (case ps_fd_span_map s f of
                 None \<Rightarrow> (n, s)
               | Some c \<Rightarrow>
                   let s1 = (case parse_response_status mem (nat n) of
                               Some code \<Rightarrow> emit (status_calls (fs_span c) code n) s
                             | None \<Rightarrow> s)
                   in (n, (emit [EndSpan (fs_span c)] s1)
                            \<lparr>ps_fd_span_map := (ps_fd_span_map s1)(f := None)\<rparr>))
         else (n, s))"

definition hook_close :: "fd \<Rightarrow> int \<Rightarrow> preload_state \<Rightarrow> int \<times> preload_state" where
  "hook_close f result s = (result, end_span_for_fd f (s\<lparr>ps_real_close := True\<rparr>))"

subsection \<open>Logging, flushing, load and unload\<close>

text \<open>\<open>preload_log\<close> calls \<open>write\<close>, that is, the hook. \<open>os_write\<close> is the real system call.\<close>

type_synonym os_write = "fd \<Rightarrow> string \<Rightarrow> int"

definition STDERR_FILENO :: fd where "STDERR_FILENO = 2"

definition preload_log :: "environment \<Rightarrow> sdk \<Rightarrow> os_write \<Rightarrow> string \<Rightarrow> preload_state \<Rightarrow> preload_state" where
  "preload_log env sdk os_write msg s =
     (let m = c_str msg;
          s1 = snd (hook_write env sdk STDERR_FILENO (m @ [NUL]) (os_write STDERR_FILENO m) s)
      in snd (hook_write env sdk STDERR_FILENO [LF, NUL] (os_write STDERR_FILENO [LF]) s1))"

definition flush_spans :: "environment \<Rightarrow> sdk \<Rightarrow> os_write \<Rightarrow> preload_state \<Rightarrow> preload_state" where
  "flush_spans env sdk os_write s =
     (if \<not> ps_provider s then s
      else emit [ForceFlush] (preload_log env sdk os_write ''[OTEL PRELOAD] Flushing spans...'' s))"

definition preload_init :: "environment \<Rightarrow> sdk \<Rightarrow> os_write \<Rightarrow> preload_state \<Rightarrow> preload_state" where
  "preload_init env sdk os_write s = preload_log env sdk os_write ''[OTEL PRELOAD] Library loaded'' s"

definition preload_cleanup :: "environment \<Rightarrow> sdk \<Rightarrow> os_write \<Rightarrow> preload_state \<Rightarrow> preload_state" where
  "preload_cleanup env sdk os_write s =
     preload_log env sdk os_write ''[OTEL PRELOAD] Library unloaded'' (flush_spans env sdk os_write s)"

definition sigint_handler :: "environment \<Rightarrow> sdk \<Rightarrow> os_write \<Rightarrow> int \<Rightarrow> preload_state \<Rightarrow> preload_state" where
  "sigint_handler env sdk os_write signum s = (flush_spans env sdk os_write s)\<lparr>ps_exit := Some signum\<rparr>"

definition setup_signal_handler :: "preload_state \<Rightarrow> preload_state" where
  "setup_signal_handler s = s\<lparr>ps_sigint := True\<rparr>"

subsection \<open>The hooks as a state machine\<close>

datatype hook_event =
    Ev_accept int
  | Ev_read fd string int
  | Ev_write fd string int
  | Ev_close fd int
  | Ev_load
  | Ev_unload
  | Ev_sigint int
  | Ev_setup_sigint

text \<open>One rule per entry point. A hook that throws leaves the state it had reached.\<close>

inductive preload_step ::
    "environment \<Rightarrow> sdk \<Rightarrow> os_write \<Rightarrow> preload_state \<Rightarrow> hook_event \<Rightarrow> preload_state \<Rightarrow> bool"
  for env sdk os_write where
  step_accept: "hook_accept env sdk r s = (x, s') \<Longrightarrow> preload_step env sdk os_write s (Ev_accept r) s'"
| step_read: "hook_read env sdk f buf n s = (x, s') \<Longrightarrow> preload_step env sdk os_write s (Ev_read f buf n) s'"
| step_write: "hook_write env sdk f mem n s = (x, s') \<Longrightarrow> preload_step env sdk os_write s (Ev_write f mem n) s'"
| step_close: "hook_close f r s = (x, s') \<Longrightarrow> preload_step env sdk os_write s (Ev_close f r) s'"
| step_load: "preload_step env sdk os_write s Ev_load (preload_init env sdk os_write s)"
| step_unload: "preload_step env sdk os_write s Ev_unload (preload_cleanup env sdk os_write s)"
| step_sigint: "preload_step env sdk os_write s (Ev_sigint n) (sigint_handler env sdk os_write n s)"
| step_setup: "preload_step env sdk os_write s Ev_setup_sigint (setup_signal_handler s)"

inductive preload_reachable :: "environment \<Rightarrow> sdk \<Rightarrow> os_write \<Rightarrow> preload_state \<Rightarrow> bool"
  for env sdk os_write where
  reach_start: "preload_reachable env sdk os_write preload_start"
| reach_step: "preload_reachable env sdk os_write s \<Longrightarrow> preload_step env sdk os_write s ev s' \<Longrightarrow>
    preload_reachable env sdk os_write s'"

text \<open>The invariant: the log follows the span protocol, the spans of the map are live and belong to
  one descriptor each, and a tracer only exists once initialization has run to its end.\<close>

definition log_ok :: "preload_state \<Rightarrow> nat set \<Rightarrow> bool" where
  "log_ok s live \<longleftrightarrow> proto (ps_calls s) ({}, {}) = Some (live, {..<ps_next_span s})"

definition map_ok :: "preload_state \<Rightarrow> nat set \<Rightarrow> bool" where
  "map_ok s live \<longleftrightarrow>
     (\<forall>f c. ps_fd_span_map s f = Some c \<longrightarrow> fs_span c \<in> live \<and> fs_span c < ps_next_span s) \<and>
     (\<forall>f c g d. ps_fd_span_map s f = Some c \<longrightarrow> ps_fd_span_map s g = Some d \<longrightarrow> fs_span c = fs_span d \<longrightarrow> f = g)"

definition init_ok :: "preload_state \<Rightarrow> bool" where
  "init_ok s \<longleftrightarrow> (ps_tracer s \<longrightarrow> ps_initialized s \<and> ps_provider s) \<and>
     (ps_initialized s \<longrightarrow> ps_server_address s \<noteq> None \<and> ps_server_port s \<noteq> None)"

definition wf_preload :: "preload_state \<Rightarrow> bool" where
  "wf_preload s \<longleftrightarrow> (\<exists>live. log_ok s live \<and> map_ok s live) \<and> init_ok s"

text \<open>A request as a client writes it, and the header map it stands for (the last of equal keys
  counts).\<close>

definition header_line :: "string \<times> string \<Rightarrow> string" where
  "header_line kv = fst kv @ '': '' @ snd kv @ CRLF"

definition request_text :: "string \<Rightarrow> string \<Rightarrow> string \<Rightarrow> (string \<times> string) list \<Rightarrow> string \<Rightarrow> string" where
  "request_text meth target version hs body =
     meth @ '' '' @ target @ '' '' @ version @ CRLF @ concat (map header_line hs) @ CRLF @ body"

definition plain_header :: "string \<times> string \<Rightarrow> bool" where
  "plain_header kv \<longleftrightarrow> CR \<notin> set (fst kv) \<and> CR \<notin> set (snd kv) \<and> CHR '':'' \<notin> set (fst kv) \<and>
     (case snd kv of c # _ \<Rightarrow> c \<noteq> CHR '' '' | [] \<Rightarrow> True)"

definition good_request :: "string \<Rightarrow> string \<Rightarrow> string \<Rightarrow> (string \<times> string) list \<Rightarrow> bool" where
  "good_request meth target minor hs \<longleftrightarrow>
     meth \<noteq> [] \<and> target \<noteq> [] \<and> target ! 0 = CHR ''/'' \<and> list_all (\<lambda>c. \<not> isspace c) (meth @ target @ minor) \<and>
     list_all plain_header hs"

definition header_map_of :: "(string \<times> string) list \<Rightarrow> header_map" where
  "header_map_of hs = map_of (rev (map (\<lambda>(k, v). (lower_key k, v)) hs))"

fun put_headers :: "(string \<times> string) list \<Rightarrow> header_map \<Rightarrow> header_map" where
  "put_headers [] m = m"
| "put_headers ((k, v) # hs) m = put_headers hs (m(lower_key k \<mapsto> v))"

definition plain_word :: "string \<Rightarrow> bool" where
  "plain_word w \<longleftrightarrow> w \<noteq> [] \<and> list_all (\<lambda>c. \<not> isspace c) w"

text \<open>The calls that a request and its response cause.\<close>

definition request_calls ::
    "nat \<Rightarrow> start_span_options \<Rightarrow> string \<Rightarrow> string \<Rightarrow> int \<Rightarrow> header_map \<Rightarrow> attribute_value \<Rightarrow> int \<Rightarrow> api_call list" where
  "request_calls i opts meth path bytes hm address port =
     [StartSpan i (meth @ '' '' @ path) opts,
      SetAttribute i ''http.request.method'' (AV_string meth),
      SetAttribute i ''url.path'' (AV_string path),
      SetAttribute i ''http.request.body.size'' (AV_int64 (word_of_int bytes)),
      SetAttribute i ''server.address'' address,
      SetAttribute i ''server.port'' (AV_int64 (word_of_int port))]
     @ optional_header hm ''user-agent'' ''http.request.header.user_agent'' i
     @ optional_header hm ''x-request-id'' ''http.request.header.x_request_id'' i
     @ [AddEvent i ''Request received'']"

definition response_text :: "char \<Rightarrow> nat \<Rightarrow> string \<Rightarrow> string" where
  "response_text minor code rest = ''HTTP/1.'' @ [minor] @ '' '' @ nat_digits code @ rest"

definition endpoint_unset :: "environment \<Rightarrow> bool" where
  "endpoint_unset env \<longleftrightarrow> env ''OTEL_EXPORTER_OTLP_ENDPOINT'' = None \<or> env ''OTEL_EXPORTER_OTLP_ENDPOINT'' = Some []"

definition tracing_off :: "preload_state \<Rightarrow> bool" where
  "tracing_off s \<longleftrightarrow> \<not> ps_tracer s \<and> \<not> ps_provider s \<and> ps_calls s = [] \<and> ps_fd_span_map s = Map.empty"

text \<open>A concrete configuration for the witnesses: an endpoint is set, the SDK starts.\<close>

definition demo_env :: environment where
  "demo_env = [''OTEL_EXPORTER_OTLP_ENDPOINT'' \<mapsto> ''http://apm/v1/traces'', ''OTEL_SERVER_PORT'' \<mapsto> ''8080'']"

definition demo_sdk :: sdk where "demo_sdk url headers = SdkOk"

definition demo_write :: os_write where "demo_write f data = int (length data)"

definition demo_state :: preload_state where
  "demo_state = preload_start\<lparr>ps_initialized := True, ps_tracer := True, ps_provider := True,
     ps_server_address := Some ''localhost'', ps_server_port := Some ''8080''\<rparr>"

fun plain_call :: "nat set \<Rightarrow> api_call \<Rightarrow> bool" where
  "plain_call live (SetAttribute i k v) \<longleftrightarrow> i \<in> live"
| "plain_call live (AddEvent i n) \<longleftrightarrow> i \<in> live"
| "plain_call live (SetStatus i c d) \<longleftrightarrow> i \<in> live"
| "plain_call live ForceFlush \<longleftrightarrow> True"
| "plain_call live c \<longleftrightarrow> False"

inductive_cases preload_stepE: "preload_step env sdk os_write s ev s'"

subsection \<open>The invariant\<close>

lemma emit_simps [simp]:
  "ps_fd_span_map (emit cs s) = ps_fd_span_map s" "ps_next_span (emit cs s) = ps_next_span s"
  "ps_tracer (emit cs s) = ps_tracer s" "ps_initialized (emit cs s) = ps_initialized s"
  "ps_provider (emit cs s) = ps_provider s" "ps_server_address (emit cs s) = ps_server_address s"
  "ps_server_port (emit cs s) = ps_server_port s" "ps_calls (emit cs s) = ps_calls s @ cs"
  "ps_heap (emit cs s) = ps_heap s"
  by (simp_all add: emit_def)

lemma proto_plain: "list_all (plain_call live) cs \<Longrightarrow> proto cs (live, seen) = Some (live, seen)"
proof (induction cs)
  case (Cons c cs)
  then show ?case by (cases c) auto
qed simp

lemma log_ok_plain: "log_ok s live \<Longrightarrow> list_all (plain_call live) cs \<Longrightarrow> log_ok (emit cs s) live"
  by (simp add: log_ok_def proto_append proto_plain)

lemma log_ok_end: "log_ok s live \<Longrightarrow> i \<in> live \<Longrightarrow> log_ok (emit [EndSpan i] s) (live - {i})"
  by (simp add: log_ok_def proto_append)

lemma log_ok_start:
  "log_ok s live \<Longrightarrow> start_span name opts s = (i, s') \<Longrightarrow>
   i = ps_next_span s \<and> log_ok s' (insert i live) \<and> i \<notin> live"
proof -
  assume a: "log_ok s live" "start_span name opts s = (i, s')"
  have "live \<subseteq> {..<ps_next_span s}" using a(1) proto_mono unfolding log_ok_def by blast
  then show ?thesis
    using a by (auto simp: log_ok_def start_span_def proto_append emit_def lessThan_Suc)
qed

lemma start_span_simps:
  "start_span name opts s = (i, s') \<Longrightarrow>
   ps_fd_span_map s' = ps_fd_span_map s \<and> ps_tracer s' = ps_tracer s \<and> ps_initialized s' = ps_initialized s \<and>
   ps_provider s' = ps_provider s \<and> ps_server_address s' = ps_server_address s \<and>
   ps_server_port s' = ps_server_port s \<and> ps_next_span s' = Suc (ps_next_span s) \<and> ps_heap s' = ps_heap s"
  by (auto simp: start_span_def)

text \<open>What the later steps leave alone is said once: the fields that \<open>wf_preload\<close> does not read.\<close>

lemma wf_preload_cong:
  assumes "ps_calls s' = ps_calls s" "ps_next_span s' = ps_next_span s" "ps_fd_span_map s' = ps_fd_span_map s"
    "ps_tracer s' = ps_tracer s" "ps_initialized s' = ps_initialized s" "ps_provider s' = ps_provider s"
    "ps_server_address s' = ps_server_address s" "ps_server_port s' = ps_server_port s"
  shows "wf_preload s' = wf_preload s"
  using assms by (simp add: wf_preload_def log_ok_def map_ok_def init_ok_def)

lemma wf_init: "wf_preload s \<Longrightarrow> wf_preload (init_tracer_lazy env sdk s)"
  by (auto simp: wf_preload_def log_ok_def map_ok_def init_ok_def init_tracer_lazy_def Let_def console_def
      split: option.splits sdk_outcome.splits)

lemma wf_end_span:
  assumes "wf_preload s" and "ps_fd_span_map s f = Some c"
  shows "wf_preload ((emit [EndSpan (fs_span c)] s)\<lparr>ps_fd_span_map := (ps_fd_span_map s)(f := None)\<rparr>)"
proof -
  obtain live where l: "log_ok s live" "map_ok s live" using assms(1) by (auto simp: wf_preload_def)
  let ?s = "(emit [EndSpan (fs_span c)] s)\<lparr>ps_fd_span_map := (ps_fd_span_map s)(f := None)\<rparr>"
  have "fs_span c \<in> live" using l(2) assms(2) by (auto simp: map_ok_def)
  then have "log_ok ?s (live - {fs_span c})" using log_ok_end [OF l(1)] by (simp add: log_ok_def)
  moreover have "map_ok ?s (live - {fs_span c})"
    using l(2) assms(2) unfolding map_ok_def by (auto split: if_splits)
  ultimately show ?thesis using assms(1) by (auto simp: wf_preload_def init_ok_def)
qed

lemma wf_end_span_for_fd: "wf_preload s \<Longrightarrow> wf_preload (end_span_for_fd f s)"
  by (auto simp: end_span_for_fd_def wf_end_span split: option.splits)

lemma wf_hook_close: "wf_preload s \<Longrightarrow> hook_close f r s = (x, s') \<Longrightarrow> wf_preload s'"
  using wf_end_span_for_fd [of "s\<lparr>ps_real_close := True\<rparr>" f] wf_preload_cong [of "s\<lparr>ps_real_close := True\<rparr>" s]
  by (auto simp: hook_close_def)

lemma wf_emit_status:
  assumes "wf_preload s" and "ps_fd_span_map s f = Some c"
  shows "wf_preload (emit (status_calls (fs_span c) code n) s)"
proof -
  obtain live where l: "log_ok s live" "map_ok s live" using assms(1) by (auto simp: wf_preload_def)
  then have "fs_span c \<in> live" using assms(2) by (auto simp: map_ok_def)
  then have "log_ok (emit (status_calls (fs_span c) code n) s) live"
    by (intro log_ok_plain l(1)) (simp add: status_calls_def)
  then show ?thesis using assms(1) l(2) by (auto simp: wf_preload_def map_ok_def init_ok_def)
qed

lemma wf_hook_write:
  assumes "wf_preload s" and "hook_write env sdk f mem n s = (x, s')"
  shows "wf_preload s'"
proof -
  let ?t = "(init_tracer_lazy env sdk s)\<lparr>ps_real_write := True\<rparr>"
  have t: "wf_preload ?t"
    using wf_init [OF assms(1)] by (subst wf_preload_cong [where s = "init_tracer_lazy env sdk s"]) auto
  show ?thesis
  proof (cases "n > 0 \<and> ps_tracer ?t")
    case True
    show ?thesis
    proof (cases "ps_fd_span_map ?t f")
      case None
      with True assms(2) t show ?thesis by (simp add: hook_write_def Let_def)
    next
      case (Some c)
      let ?u = "case parse_response_status mem (nat n) of Some code \<Rightarrow> emit (status_calls (fs_span c) code n) ?t | None \<Rightarrow> ?t"
      have u: "wf_preload ?u" "ps_fd_span_map ?u f = Some c"
        using t wf_emit_status [OF t Some] Some by (simp_all split: option.splits)
      have "s' = (emit [EndSpan (fs_span c)] ?u)\<lparr>ps_fd_span_map := (ps_fd_span_map ?u)(f := None)\<rparr>"
        using True Some assms(2) by (auto simp: hook_write_def Let_def)
      then show ?thesis using wf_end_span [OF u] by simp
    qed
  next
    case False
    then show ?thesis using assms(2) t by (auto simp: hook_write_def Let_def)
  qed
qed

lemma wf_intro:
  "log_ok s live \<Longrightarrow> map_ok s live \<Longrightarrow> init_ok s \<Longrightarrow> wf_preload s"
  by (auto simp: wf_preload_def)

lemma wf_hook_accept:
  assumes "wf_preload s" and "hook_accept env sdk r s = (x, s')"
  shows "wf_preload s'"
proof -
  let ?t = "(init_tracer_lazy env sdk s)\<lparr>ps_real_accept := True\<rparr>"
  have t: "wf_preload ?t"
    using wf_init [OF assms(1)] by (subst wf_preload_cong [where s = "init_tracer_lazy env sdk s"]) auto
  show ?thesis
  proof (cases "r \<noteq> - 1 \<and> ps_tracer ?t")
    case True
    obtain live where l: "log_ok ?t live" "map_ok ?t live" "init_ok ?t" using t by (auto simp: wf_preload_def)
    obtain i s1 where st: "start_span ''HTTP accept'' (StartSpanOptions\<lparr>so_kind := kServer\<rparr>) ?t = (i, s1)"
      by (cases "start_span ''HTTP accept'' (StartSpanOptions\<lparr>so_kind := kServer\<rparr>) ?t")
    note i = log_ok_start [OF l(1) st]
    let ?a = "[SetAttribute i ''server.address'' (server_address_attr ?t)]"
    let ?b = "\<lambda>port. [SetAttribute i ''server.port'' (AV_int64 (word_of_int port)),
                SetAttribute i ''net.sock.peer.fd'' (AV_int32 (word_of_int r)),
                AddEvent i (''Accepted client fd: '' @ to_string r)]"
    have s2: "log_ok (emit ?a s1) (insert i live)" using i by (intro log_ok_plain) auto
    have "log_ok (emit (?b port) (emit ?a s1)) (insert i live)" for port by (rule log_ok_plain [OF s2]) simp
    then have "log_ok (emit [EndSpan i] (emit (?b port) (emit ?a s1))) live" for port
      using log_ok_end [of "emit (?b port) (emit ?a s1)" "insert i live" i] i by auto
    then have s3: "log_ok (emit (?b port @ [EndSpan i]) (emit ?a s1)) live" for port by (simp add: emit_def)
    have m: "map_ok u live'" if "ps_fd_span_map u = ps_fd_span_map ?t" "ps_next_span u = Suc (ps_next_span ?t)" "live \<subseteq> live'"
      for u live' using l(2) that by (auto simp: map_ok_def less_Suc_eq)
    note f = start_span_simps [OF st]
    show ?thesis
    proof (cases "server_port_attr ?t")
      case (Inl e)
      then have "s' = emit ?a s1" using True assms(2) st by (simp add: hook_accept_def Let_def split: prod.splits)
      then show ?thesis using s2 m [of s' "insert i live"] f l(3) by (intro wf_intro [of _ "insert i live"]) (auto simp: init_ok_def)
    next
      case (Inr port)
      then have "s' = emit (?b port @ [EndSpan i]) (emit ?a s1)"
        using True assms(2) st by (simp add: hook_accept_def Let_def split: prod.splits)
      then show ?thesis using s3 [of port] m [of s' live] f l(3) by (intro wf_intro [of _ live]) (auto simp: init_ok_def)
    qed
  next
    case False
    then show ?thesis using assms(2) t by (auto simp: hook_accept_def Let_def)
  qed
qed

lemma optional_header_plain [simp]: "i \<in> live \<Longrightarrow> list_all (plain_call live) (optional_header hm k a i)"
  by (simp add: optional_header_def split: option.splits)

lemma wf_start_request_span:
  assumes "wf_preload s" and "start_request_span f data bytes meth path s = (x, s')"
  shows "wf_preload s'"
proof -
  let ?hm = "parse_request_headers data"
  obtain heap c where hc: "w3c_Extract HeaderCarrier (Some ?hm) (ps_heap s) Context_default = (heap, c)"
    by (cases "w3c_Extract HeaderCarrier (Some ?hm) (ps_heap s) Context_default")
  let ?o = "StartSpanOptions\<lparr>so_kind := kServer, so_parent := ParentContext c\<rparr>" and ?s = "s\<lparr>ps_heap := heap\<rparr>"
  obtain i s1 where st: "start_span (meth @ '' '' @ path) ?o ?s = (i, s1)"
    by (cases "start_span (meth @ '' '' @ path) ?o ?s")
  obtain live where l: "log_ok s live" "map_ok s live" "init_ok s" using assms(1) by (auto simp: wf_preload_def)
  have "log_ok ?s live" using l(1) by (simp add: log_ok_def)
  note i = log_ok_start [OF this st] and f = start_span_simps [OF st]
  let ?a = "[SetAttribute i ''http.request.method'' (AV_string meth), SetAttribute i ''url.path'' (AV_string path),
      SetAttribute i ''http.request.body.size'' (AV_int64 (word_of_int bytes)),
      SetAttribute i ''server.address'' (server_address_attr s)]"
  let ?b = "\<lambda>port. [SetAttribute i ''server.port'' (AV_int64 (word_of_int port))]
      @ optional_header ?hm ''user-agent'' ''http.request.header.user_agent'' i
      @ optional_header ?hm ''x-request-id'' ''http.request.header.x_request_id'' i
      @ [AddEvent i ''Request received'']"
  have s2: "log_ok (emit ?a s1) (insert i live)" using i by (intro log_ok_plain) auto
  have s3: "log_ok (emit (?b port) (emit ?a s1)) (insert i live)" for port by (rule log_ok_plain [OF s2]) simp
  show ?thesis
  proof (cases "server_port_attr s")
    case (Inl e)
    then have e: "s' = emit ?a s1" using assms(2) hc st by (simp add: start_request_span_def Let_def)
    have "map_ok s' (insert i live)" using l(2) f by (auto simp: e map_ok_def less_Suc_eq)
    then show ?thesis using s2 f l(3) e by (intro wf_intro [of _ "insert i live"]) (auto simp: init_ok_def)
  next
    case (Inr port)
    let ?c = "\<lparr>fs_span = i, fs_method = meth, fs_path = path\<rparr>"
    have e: "s' = (emit (?b port) (emit ?a s1))\<lparr>ps_fd_span_map := (ps_fd_span_map s)(f \<mapsto> ?c)\<rparr>"
      using Inr assms(2) hc st by (simp add: start_request_span_def Let_def)
    have "ps_fd_span_map s g = Some d \<Longrightarrow> fs_span d \<noteq> i" for g d using l(2) i by (fastforce simp: map_ok_def)
    moreover have "ps_next_span s1 = Suc (ps_next_span s)" "i = ps_next_span s" using f i by simp_all
    ultimately have "map_ok s' (insert i live)"
      using l(2) by (auto simp: e map_ok_def less_Suc_eq split: if_splits) blast
    moreover have "log_ok s' (insert i live)" using s3 [of port] by (simp add: e log_ok_def)
    ultimately show ?thesis using f l(3) e by (intro wf_intro [of _ "insert i live"]) (auto simp: init_ok_def)
  qed
qed

lemma wf_hook_read:
  assumes "wf_preload s" and "hook_read env sdk f buf n s = (x, s')"
  shows "wf_preload s'"
proof -
  let ?t = "(init_tracer_lazy env sdk s)\<lparr>ps_real_read := True\<rparr>"
  have t: "wf_preload ?t"
    using wf_init [OF assms(1)] by (subst wf_preload_cong [where s = "init_tracer_lazy env sdk s"]) auto
  have "s' = ?t \<or> (\<exists>data bytes meth path y. start_request_span f data bytes meth path ?t = (y, s'))"
    using assms(2) by (auto simp: hook_read_def Let_def split: if_splits prod.splits sum.splits)
  then show ?thesis using t wf_start_request_span [OF t] by auto
qed

lemma wf_preload_log: "wf_preload s \<Longrightarrow> wf_preload (preload_log env sdk osw msg s)"
  unfolding preload_log_def Let_def by (metis wf_hook_write prod.collapse)

lemma wf_flush: "wf_preload s \<Longrightarrow> wf_preload (flush_spans env sdk osw s)"
proof -
  assume w: "wf_preload s"
  let ?t = "preload_log env sdk osw ''[OTEL PRELOAD] Flushing spans...'' s"
  have "wf_preload ?t" by (rule wf_preload_log [OF w])
  then obtain live where l: "log_ok ?t live" "map_ok ?t live" "init_ok ?t" by (auto simp: wf_preload_def)
  have "log_ok (emit [ForceFlush] ?t) live" by (rule log_ok_plain [OF l(1)]) simp
  then have "wf_preload (emit [ForceFlush] ?t)" using l(2,3) by (auto simp: wf_preload_def map_ok_def init_ok_def)
  with w show ?thesis by (simp add: flush_spans_def)
qed

lemma wf_preload_step: "preload_step env sdk osw s ev s' \<Longrightarrow> wf_preload s \<Longrightarrow> wf_preload s'"
proof (induction rule: preload_step.induct)
  case (step_sigint s n)
  have "wf_preload (flush_spans env sdk osw s)" using step_sigint by (rule wf_flush)
  then show ?case unfolding sigint_handler_def by (subst wf_preload_cong [where s = "flush_spans env sdk osw s"]) auto
next
  case (step_setup s)
  then show ?case unfolding setup_signal_handler_def by (subst wf_preload_cong [where s = s]) auto
qed (auto simp: preload_init_def preload_cleanup_def wf_preload_log wf_flush
    intro: wf_hook_accept wf_hook_read wf_hook_write wf_hook_close)

lemma wf_preload_start: "wf_preload preload_start"
  by (simp add: wf_preload_def preload_start_def log_ok_def map_ok_def init_ok_def)

lemma preload_reachable_wf: "preload_reachable env sdk osw s \<Longrightarrow> wf_preload s"
  by (induction rule: preload_reachable.induct) (auto intro: wf_preload_start wf_preload_step)

subsection \<open>Parsing requests\<close>

lemma find_sub_CRLF: "CR \<notin> set a \<Longrightarrow> find_sub CRLF (a @ CRLF @ b) = Some (length a)"
  by (induction a) auto

lemma find_str_CRLF:
  "CR \<notin> set a \<Longrightarrow> find_str CRLF (p @ a @ CRLF @ b) (length p) = Some (length p + length a)"
  using find_sub_CRLF [of a b] by (simp add: find_str_def)

lemma find_char_first: "c \<notin> set a \<Longrightarrow> find_char c (a @ c # b) 0 = Some (length a)"
  unfolding find_char_def by (subst drop_0, subst index_of_append) auto

lemma add_header_line_eq:
  assumes "plain_header (k, v)"
  shows "add_header_line (k @ '': '' @ v) out = out(lower_key k \<mapsto> v)"
proof -
  have "find_char CHR '':'' (k @ '': '' @ v) 0 = Some (length k)"
    using assms find_char_first [of "CHR '':''" k] by (simp add: plain_header_def)
  moreover have "dropWhile (\<lambda>c. c = CHR '' '') v = v"
    using assms by (cases v) (auto simp: plain_header_def)
  ultimately show ?thesis by (simp add: add_header_line_def)
qed

lemma put_headers_eq: "put_headers hs m = m ++ header_map_of hs"
proof (induction hs arbitrary: m)
  case (Cons kv hs)
  then show ?case
    by (cases kv) (auto simp: header_map_of_def fun_eq_iff map_add_def split: option.splits)
qed (simp add: header_map_of_def)

lemma headers_loop_eq:
  "list_all plain_header hs \<Longrightarrow>
   headers_loop (p @ concat (map header_line hs) @ CRLF @ body) (length p) out =
     put_headers hs out"
proof (induction hs arbitrary: p out)
  case Nil
  have "find_str CRLF (p @ [] @ CRLF @ body) (length p) = Some (length p + 0)"
    using find_str_CRLF [of "[]" p body] by simp
  then show ?case by (subst headers_loop.simps) simp
next
  case (Cons kv hs)
  obtain k v where kv: "kv = (k, v)" by (cases kv)
  let ?l = "k @ '': '' @ v" and ?r = "concat (map header_line hs) @ CRLF @ body"
  let ?d = "p @ ?l @ CRLF @ ?r"
  have d: "p @ concat (map header_line (kv # hs)) @ CRLF @ body = ?d" by (simp add: kv header_line_def)
  have "CR \<notin> set ?l" using Cons.prems by (auto simp: kv plain_header_def char_of_eq_iff)
  note f = find_str_CRLF [OF this, of p ?r]
  have "headers_loop ?d (length p) out = headers_loop ?d (length p + length ?l + 2) (add_header_line ?l out)"
    unfolding headers_loop.simps [of ?d "length p"] f by (simp add: sub_at_def)
  also have "\<dots> = headers_loop ((p @ ?l @ CRLF) @ ?r) (length (p @ ?l @ CRLF)) (out(lower_key k \<mapsto> v))"
    using Cons.prems add_header_line_eq [of k v out] by (simp add: kv)
  also have "\<dots> = put_headers hs (out(lower_key k \<mapsto> v))"
    by (rule Cons.IH) (use Cons.prems in simp)
  finally show ?case unfolding d by (simp add: kv)
qed

lemma parse_request_headers_eq:
  assumes "CR \<notin> set line" and "list_all plain_header hs"
  shows "parse_request_headers (line @ CRLF @ concat (map header_line hs) @ CRLF @ body) = header_map_of hs"
proof -
  have "find_str CRLF (line @ CRLF @ concat (map header_line hs) @ CRLF @ body) 0 = Some (length line)"
    using find_str_CRLF [OF assms(1), of "[]"] by simp
  moreover have "headers_loop (line @ CRLF @ concat (map header_line hs) @ CRLF @ body) (length line + 2) Map.empty =
      header_map_of hs"
    using headers_loop_eq [OF assms(2), of "line @ CRLF" body Map.empty] by (simp add: put_headers_eq)
  ultimately show ?thesis by (simp add: parse_request_headers_def)
qed

lemma next_word_eq:
  "plain_word w \<Longrightarrow> next_word (w @ '' '' @ r) = (w, '' '' @ r)"
  "plain_word w \<Longrightarrow> next_word ('' '' @ w @ '' '' @ r) = (w, '' '' @ r)"
proof -
  assume w: "plain_word w"
  have sp: "isspace CHR '' ''" by (simp add: isspace_def char_val_def)
  have "dropWhile isspace (w @ '' '' @ r) = w @ '' '' @ r"
    using w by (cases w) (auto simp: plain_word_def)
  moreover have "takeWhile (\<lambda>c. \<not> isspace c) (w @ '' '' @ r) = w" "dropWhile (\<lambda>c. \<not> isspace c) (w @ '' '' @ r) = '' '' @ r"
    using w sp by (auto simp: plain_word_def list_all_iff takeWhile_append2 dropWhile_append2)
  ultimately show "next_word (w @ '' '' @ r) = (w, '' '' @ r)" "next_word ('' '' @ w @ '' '' @ r) = (w, '' '' @ r)"
    using sp by (simp_all add: next_word_def Let_def)
qed

lemma parse_request_line_eq:
  assumes "plain_word meth" and "plain_word target"
  shows "parse_request_line (meth @ '' '' @ target @ '' '' @ r) = (meth, takeWhile (\<lambda>c. c \<noteq> CHR ''?'') target)"
proof -
  have w: "next_word (meth @ '' '' @ target @ '' '' @ r) = (meth, '' '' @ target @ '' '' @ r)"
    "next_word ('' '' @ target @ '' '' @ r) = (target, '' '' @ r)"
    using next_word_eq(1) [OF assms(1)] next_word_eq(2) [OF assms(2)] by blast+
  have ne: "meth \<noteq> []" "target \<noteq> []" using assms by (auto simp: plain_word_def)
  have "(case find_char CHR ''?'' target 0 of None \<Rightarrow> target | Some q \<Rightarrow> take q target) =
      takeWhile (\<lambda>c. c \<noteq> CHR ''?'') target"
  proof (cases "index_of (\<lambda>x. x = CHR ''?'') target")
    case None
    then have tw: "takeWhile (\<lambda>c. c \<noteq> CHR ''?'') target = target" by (simp only: index_of_None takeWhile_eq_all_conv)
    have "find_char CHR ''?'' target 0 = None" by (simp add: find_char_def None del: index_of_None)
    then show ?thesis by (simp only: tw option.case)
  next
    case (Some i)
    then show ?thesis using index_of_take [OF Some] by (simp add: find_char_def)
  qed
  then show ?thesis
    unfolding parse_request_line_def w Let_def prod.case using ne by (auto split: option.splits)
qed

subsection \<open>A request and its response\<close>

lemma find_sub_append: "find_sub pat (a @ pat @ b) \<noteq> None"
proof (induction a)
  case Nil
  have "is_prefix pat (pat @ b)" by simp
  then show ?case by (cases "pat @ b") auto
qed auto

lemma find_str_append: "find_str pat (a @ pat @ b) 0 \<noteq> None"
  using find_sub_append [of pat a b] by (simp add: find_str_def)

lemma init_done [simp]: "ps_initialized s \<Longrightarrow> init_tracer_lazy env sdk s = s"
  by (simp add: init_tracer_lazy_def)

lemma request_text_first_line:
  assumes "CR \<notin> set (meth @ target @ version)"
  shows "find_str CRLF (request_text meth target version hs body) 0 = Some (length (meth @ '' '' @ target @ '' '' @ version))"
    and "take (length (meth @ '' '' @ target @ '' '' @ version)) (request_text meth target version hs body) =
      meth @ '' '' @ target @ '' '' @ version"
proof -
  let ?l = "meth @ '' '' @ target @ '' '' @ version"
  have t: "request_text meth target version hs body = ?l @ CRLF @ concat (map header_line hs) @ CRLF @ body"
    by (simp add: request_text_def)
  have "CR \<notin> set ?l" using assms by (auto simp: char_of_eq_iff)
  from find_str_CRLF [OF this, of "[]"] show "find_str CRLF (request_text meth target version hs body) 0 = Some (length ?l)"
    unfolding t by simp
  show "take (length ?l) (request_text meth target version hs body) = ?l" unfolding t by simp
qed

lemma CR_space [simp]: "isspace CR"
  by (simp add: isspace_def)

lemma good_request_facts:
  assumes "good_request meth target minor hs"
  shows "plain_word meth" and "plain_word target" and "CR \<notin> set (meth @ target @ ''HTTP/1.'' @ minor)"
    and "list_all plain_header hs"
proof -
  have sp: "c \<noteq> CR" if "c \<in> set meth \<union> set target \<union> set minor" for c
  proof -
    have "\<not> isspace c" using assms that by (auto simp: good_request_def list_all_iff)
    then show ?thesis using CR_space by blast
  qed
  then show "CR \<notin> set (meth @ target @ ''HTTP/1.'' @ minor)" by (auto simp: char_of_eq_iff)
qed (use assms in \<open>auto simp: good_request_def plain_word_def\<close>)

text \<open>Whatever a request looks like in detail, \<open>read\<close> ends up starting its span.\<close>

lemma hook_read_dispatch:
  assumes "ps_initialized s" and "ps_tracer s" and "good_request meth target minor hs"
    and "data = request_text meth target (''HTTP/1.'' @ minor) hs body" and "bytes = int (length data)"
    and "path = takeWhile (\<lambda>c. c \<noteq> CHR ''?'') target"
  shows "hook_read env sdk f (data @ rest) bytes s =
      (case start_request_span f data bytes meth path (s\<lparr>ps_real_read := True\<rparr>) of
         (Inl e, s') \<Rightarrow> (Inl e, s') | (Inr _, s') \<Rightarrow> (Inr bytes, s'))"
    and "parse_request_headers data = header_map_of hs"
proof -
  note g = good_request_facts [OF assms(3)]
  let ?l = "meth @ '' '' @ target @ '' '' @ ''HTTP/1.'' @ minor"
  have d: "take (nat bytes) (data @ rest) = data" by (simp add: assms(5))
  have pos: "bytes > 0" by (simp add: assms(4,5) request_text_def)
  have fl: "(case find_str CRLF data 0 of Some e \<Rightarrow> take e data | None \<Rightarrow> data) = ?l"
    using request_text_first_line [OF g(3), of hs body] by (simp add: assms(4))
  have rl: "parse_request_line ?l = (meth, path)"
    using parse_request_line_eq [OF g(1,2), of "''HTTP/1.'' @ minor"] by (simp add: assms(6))
  have "path \<noteq> [] \<and> path ! 0 = CHR ''/''"
    using assms(3) by (cases target) (auto simp: assms(6) good_request_def)
  moreover have "find_str ''HTTP/1.'' data 0 \<noteq> None"
    using find_str_append [of "''HTTP/1.''" "meth @ '' '' @ target @ '' ''"] by (simp add: assms(4) request_text_def)
  ultimately have req: "is_http_request meth path data"
    using assms(3) by (cases path) (auto simp: is_http_request_def good_request_def)
  show "hook_read env sdk f (data @ rest) bytes s =
      (case start_request_span f data bytes meth path (s\<lparr>ps_real_read := True\<rparr>) of
         (Inl e, s') \<Rightarrow> (Inl e, s') | (Inr _, s') \<Rightarrow> (Inr bytes, s'))"
    unfolding hook_read_def Let_def init_done [OF assms(1)] d fl rl prod.case using pos assms(2) req by simp
  have "CR \<notin> set ?l" using g(3) by (auto simp: char_of_eq_iff)
  from parse_request_headers_eq [OF this g(4), of body]
  show "parse_request_headers data = header_map_of hs" by (simp add: assms(4) request_text_def)
qed

lemma hook_read_request:
  assumes "ps_initialized s" and "ps_tracer s" and "good_request meth target minor hs"
    and "data = request_text meth target (''HTTP/1.'' @ minor) hs body" and "bytes = int (length data)"
    and "path = takeWhile (\<lambda>c. c \<noteq> CHR ''?'') target"
    and "server_port_attr s = Inr port" and "i = ps_next_span s"
    and "w3c_Extract HeaderCarrier (Some (header_map_of hs)) (ps_heap s) Context_default = (heap, c)"
  shows "\<exists>s'. hook_read env sdk f (data @ rest) bytes s = (Inr bytes, s') \<and>
    ps_calls s' = ps_calls s @ request_calls i (StartSpanOptions\<lparr>so_kind := kServer, so_parent := ParentContext c\<rparr>)
      meth path bytes (header_map_of hs) (server_address_attr s) port \<and>
    ps_heap s' = heap \<and> ps_initialized s' \<and> ps_tracer s' \<and> ps_next_span s' = Suc i \<and>
    ps_fd_span_map s' = (ps_fd_span_map s)(f \<mapsto> \<lparr>fs_span = i, fs_method = meth, fs_path = path\<rparr>)"
proof -
  let ?s = "s\<lparr>ps_real_read := True\<rparr>"
  have attr: "server_port_attr ?s = Inr port" "server_address_attr ?s = server_address_attr s"
    using assms(7) by (simp_all add: server_port_attr_def server_address_attr_def)
  show ?thesis
    unfolding hook_read_dispatch(1) [OF assms(1-6)]
    using assms(2,9) by (simp add: hook_read_dispatch(2) [OF assms(1-6)] attr start_request_span_def start_span_def
        assms(1,8) request_calls_def emit_def Let_def)
qed

lemma hook_read_bad_port:
  assumes "ps_initialized s" and "ps_tracer s" and "good_request meth target minor hs"
    and "data = request_text meth target (''HTTP/1.'' @ minor) hs body" and "bytes = int (length data)"
    and "server_port_attr s = Inl e"
  shows "\<exists>s' opts as. hook_read env sdk f (data @ rest) bytes s = (Inl e, s') \<and>
    ps_fd_span_map s' = ps_fd_span_map s \<and>
    ps_calls s' = ps_calls s @ StartSpan (ps_next_span s) (meth @ '' '' @ takeWhile (\<lambda>c. c \<noteq> CHR ''?'') target) opts # as \<and>
    EndSpan (ps_next_span s) \<notin> set as"
proof -
  let ?s = "s\<lparr>ps_real_read := True\<rparr>"
  have attr: "server_port_attr ?s = Inl e" using assms(6) by (simp add: server_port_attr_def)
  show ?thesis
    unfolding hook_read_dispatch(1) [OF assms(1-5) refl]
    by (auto simp: attr start_request_span_def start_span_def emit_def Let_def split: prod.splits)
qed

subsection \<open>The parent of a request span\<close>

lemma lower_w3c_keys [simp]: "lower_key kTraceParent = kTraceParent" "lower_key kTraceState = kTraceState"
  by (simp_all add: lower_key_def to_lower_def isupper_def char_val_def kTraceParent_def kTraceState_def)

lemma extract_from_headers:
  assumes "hm kTraceParent = Some (trace_parent sc)"
    and "carrier_Get (Some hm) kTraceState = ToHeader (sc_trace_state sc)"
    and "wf_span_context sc" and "sc_IsValid sc"
  shows "w3c_ExtractImpl HeaderCarrier (Some hm) = w3c_received sc"
proof -
  have "carrier_Get (Some hm) kTraceParent = trace_parent sc" using assms(1) by (simp add: carrier_Get_def)
  moreover have "trace_parent sc \<noteq> []" by (simp add: trace_parent_def)
  ultimately show ?thesis
    using assms(2-4) by (simp add: w3c_ExtractImpl_def HeaderCarrier_def decode_trace_parent w3c_received_def)
qed

lemma c_str_append: "NUL \<notin> set a \<Longrightarrow> c_str (a @ b) = a @ c_str b"
  unfolding c_str_def by (rule takeWhile_append2) auto

lemma nat_digits_no_nul: "NUL \<notin> set (nat_digits n)"
  using nat_digits_isdigit [of NUL n] by (auto simp: isdigit_def)

lemma parse_response_status_eq:
  assumes "code \<le> 999" and "\<not> isdigit c" and "12 \<le> len"
  shows "parse_response_status (response_text minor code (c # rest)) len = Some (int code)"
proof -
  let ?m = "response_text minor code (c # rest)"
  obtain k where k: "len - 8 = Suc (Suc k)" using assms(3) by (cases "len - 8"; cases "len - 8 - 1") auto
  have m8: "drop 8 ?m = '' '' @ nat_digits code @ c # rest" by (simp add: response_text_def)
  obtain d ds where dd: "nat_digits code = d # ds" "isdigit d" using nat_digits_hd by blast
  have ns: "d \<noteq> CHR '' ''" using dd(2) by (auto simp: isdigit_def char_val_def)
  have p: "length (takeWhile (\<lambda>c. c = CHR '' '') (sub_at ?m 8 (len - 8))) = 1"
    unfolding sub_at_def m8 k using dd(1) ns by simp
  have "drop 9 ?m = nat_digits code @ c # rest" by (simp add: response_text_def)
  then have "c_str (drop 9 ?m) = nat_digits code @ c_str (c # rest)"
    using c_str_append [OF nat_digits_no_nul] by simp
  moreover have "case c_str (c # rest) of c # _ \<Rightarrow> \<not> isdigit c | [] \<Rightarrow> True"
    using assms(2) by (simp add: c_str_def)
  ultimately have st: "strtol10 (c_str (drop 9 ?m)) =
      \<lparr>st_num = int code, st_used = length (nat_digits code), st_erange = False\<rparr>"
    using strtol10_nat_digits [of "c_str (c # rest)" code] assms(1) by (simp add: LONG_MAX_def)
  have "take 7 ?m = ''HTTP/1.''" by (simp add: response_text_def)
  then show ?thesis using assms(1,3) p st by (simp add: parse_response_status_def Let_def)
qed

lemma hook_write_response:
  assumes "ps_initialized s" and "ps_tracer s" and "ps_fd_span_map s f = Some x" and "n > 0"
  shows "\<exists>s'. hook_write env sdk f mem n s = (n, s') \<and>
    ps_calls s' = ps_calls s @
      (case parse_response_status mem (nat n) of Some code \<Rightarrow> status_calls (fs_span x) code n | None \<Rightarrow> [])
      @ [EndSpan (fs_span x)] \<and>
    ps_fd_span_map s' = (ps_fd_span_map s)(f := None) \<and> ps_initialized s' \<and> ps_tracer s' \<and>
    ps_heap s' = ps_heap s \<and> ps_next_span s' = ps_next_span s"
  using assms by (simp add: hook_write_def Let_def split: option.splits)

subsection \<open>Transparency, and tracing that is switched off\<close>


lemma off_init:
  assumes "endpoint_unset env" and "tracing_off s"
  shows "tracing_off (init_tracer_lazy env sdk s)"
  using assms by (auto simp: endpoint_unset_def tracing_off_def init_tracer_lazy_def Let_def console_def)

lemma off_write:
  assumes "endpoint_unset env" and "tracing_off s"
  shows "tracing_off (snd (hook_write env sdk f mem n s))"
  using off_init [OF assms] by (auto simp: hook_write_def Let_def tracing_off_def)

lemma off_step:
  assumes "endpoint_unset env"
  shows "preload_step env sdk osw s ev s' \<Longrightarrow> tracing_off s \<Longrightarrow> tracing_off s'"
proof (induction rule: preload_step.induct)
  case (step_accept r s x s')
  then show ?case using off_init [OF assms step_accept(2)] by (auto simp: hook_accept_def Let_def tracing_off_def)
next
  case (step_read f buf n s x s')
  then show ?case using off_init [OF assms step_read(2)] by (auto simp: hook_read_def Let_def tracing_off_def)
next
  case (step_write f mem n s x s')
  then show ?case using off_write [OF assms step_write(2)] by (metis snd_conv)
next
  case (step_close f r s x s')
  then show ?case by (auto simp: hook_close_def end_span_for_fd_def tracing_off_def)
qed (use off_write [OF assms] in \<open>auto simp: preload_init_def preload_cleanup_def flush_spans_def preload_log_def
    sigint_handler_def setup_signal_handler_def Let_def\<close>, (simp add: tracing_off_def)+)

subsection \<open>Properties\<close>

text \<open>C1: In every state that the hooks can reach, the log of API calls follows the span protocol
  (each span is started once, nothing is called on a span before it is started or after \<open>End\<close>), the
  spans of \<open>fd_span_map\<close> are live, and no span belongs to two descriptors.\<close>

theorem hooks_follow_span_protocol:
  assumes "preload_reachable env sdk os_write s"
  shows "\<exists>live. proto (ps_calls s) ({}, {}) = Some (live, {..<ps_next_span s}) \<and>
      fs_span ` ran (ps_fd_span_map s) \<subseteq> live \<and>
      inj_on (\<lambda>f. fs_span (the (ps_fd_span_map s f))) (dom (ps_fd_span_map s))"
proof -
  obtain live where l: "log_ok s live" "map_ok s live"
    using preload_reachable_wf [OF assms] by (auto simp: wf_preload_def)
  have "fs_span ` ran (ps_fd_span_map s) \<subseteq> live" using l(2) by (auto simp: map_ok_def ran_def)
  moreover have "inj_on (\<lambda>f. fs_span (the (ps_fd_span_map s f))) (dom (ps_fd_span_map s))"
    using l(2) by (force simp: map_ok_def inj_on_def)
  ultimately show ?thesis using l(1) by (auto simp: log_ok_def)
qed

lemma hooks_follow_span_protocol_witness:
  "\<exists>s. preload_reachable demo_env demo_sdk demo_write s \<and> ps_calls s \<noteq> [] \<and>
    (\<exists>live. proto (ps_calls s) ({}, {}) = Some (live, {..<ps_next_span s}) \<and> fs_span ` ran (ps_fd_span_map s) \<subseteq> live)"
proof -
  obtain x s where s: "hook_accept demo_env demo_sdk 5 preload_start = (x, s)"
    by (cases "hook_accept demo_env demo_sdk 5 preload_start")
  have r: "preload_reachable demo_env demo_sdk demo_write s"
    by (rule reach_step [OF reach_start step_accept [OF s]])
  moreover have "ps_calls s \<noteq> []"
    using s by (auto simp: hook_accept_def init_tracer_lazy_def demo_env_def demo_sdk_def preload_start_def
        console_def start_span_def Let_def split: sum.splits)
  ultimately show ?thesis using hooks_follow_span_protocol [OF r] by blast
qed

text \<open>A span that a hook has ended is never used again: no call of any later hook names it, in
  particular no second \<open>End\<close>.\<close>

theorem ended_span_is_final:
  assumes "preload_reachable env sdk os_write s" and "ps_calls s = xs @ EndSpan i # ys"
  shows "calls_on i ys = []"
proof -
  obtain live where "log_ok s live" using preload_reachable_wf [OF assms(1)] by (auto simp: wf_preload_def)
  then show ?thesis using proto_end_last [of xs i ys] assms(2) by (simp add: log_ok_def)
qed

lemma ended_span_is_final_witness:
  "\<exists>s xs. preload_reachable demo_env demo_sdk demo_write s \<and> ps_calls s = xs @ EndSpan 0 # [] \<and> calls_on 0 [] = []"
proof -
  obtain x s where s: "hook_accept demo_env demo_sdk 5 preload_start = (x, s)"
    by (cases "hook_accept demo_env demo_sdk 5 preload_start")
  have r: "preload_reachable demo_env demo_sdk demo_write s"
    by (rule reach_step [OF reach_start step_accept [OF s]])
  have "stol ''8080'' = Inr 8080" by code_simp
  then have c: "ps_calls s = butlast (ps_calls s) @ EndSpan 0 # []"
    using s by (auto simp: hook_accept_def init_tracer_lazy_def demo_env_def demo_sdk_def preload_start_def
        console_def start_span_def Let_def server_port_attr_def)
  then show ?thesis using r ended_span_is_final [OF r c] by blast
qed

text \<open>With tracing switched off (no \<open>OTEL_EXPORTER_OTLP_ENDPOINT\<close>, or an empty one) the library
  never calls the SDK and never keeps a span, whatever the hooked program does.\<close>

theorem disabled_tracing_makes_no_calls:
  assumes "endpoint_unset env" and "preload_reachable env sdk os_write s"
  shows "ps_calls s = [] \<and> ps_fd_span_map s = Map.empty \<and> \<not> ps_tracer s"
proof -
  have "tracing_off s"
    using assms(2)
  proof (induction rule: preload_reachable.induct)
    case reach_start
    show ?case by (simp add: tracing_off_def preload_start_def)
  next
    case (reach_step s ev s')
    show ?case by (rule off_step [OF assms(1) reach_step(2,3)])
  qed
  then show ?thesis by (simp add: tracing_off_def)
qed

lemma disabled_tracing_makes_no_calls_witness:
  "ps_calls (preload_init Map.empty demo_sdk demo_write preload_start) = []"
proof -
  have u: "endpoint_unset Map.empty" by (simp add: endpoint_unset_def)
  have "preload_reachable Map.empty demo_sdk demo_write (preload_init Map.empty demo_sdk demo_write preload_start)"
    by (rule reach_step [OF reach_start step_load])
  from disabled_tracing_makes_no_calls [OF u this] show ?thesis by simp
qed


text \<open>C2: The life of a request span. An HTTP request read on a descriptor starts a server span named
  after method and path (query removed) with the request's attributes; the response then written on
  the same descriptor records its status code, marks the span as an error exactly from 400 on, ends
  it and forgets it. Nothing else is called.\<close>

theorem request_then_response:
  assumes "ps_initialized s" and "ps_tracer s" and "good_request meth target minor hs"
    and "data = request_text meth target (''HTTP/1.'' @ minor) hs body" and "bytes = int (length data)"
    and "path = takeWhile (\<lambda>c. c \<noteq> CHR ''?'') target"
    and "server_port_attr s = Inr port" and "i = ps_next_span s"
    and "w3c_Extract HeaderCarrier (Some (header_map_of hs)) (ps_heap s) Context_default = (heap, c)"
    and "code \<le> 999" and "\<not> isdigit d" and "12 \<le> n"
  shows "\<exists>s' s''. hook_read env sdk f (data @ rest) bytes s = (Inr bytes, s') \<and>
    hook_write env sdk f (response_text m code (d # reply)) n s' = (n, s'') \<and>
    ps_calls s'' = ps_calls s
      @ request_calls i (StartSpanOptions\<lparr>so_kind := kServer, so_parent := ParentContext c\<rparr>)
          meth path bytes (header_map_of hs) (server_address_attr s) port
      @ status_calls i (int code) n @ [EndSpan i] \<and>
    ps_fd_span_map s'' f = None"
proof -
  obtain s' where r: "hook_read env sdk f (data @ rest) bytes s = (Inr bytes, s')"
    and c: "ps_calls s' = ps_calls s @ request_calls i (StartSpanOptions\<lparr>so_kind := kServer, so_parent := ParentContext c\<rparr>)
          meth path bytes (header_map_of hs) (server_address_attr s) port"
    and i: "ps_initialized s'" "ps_tracer s'"
    and m: "ps_fd_span_map s' f = Some \<lparr>fs_span = i, fs_method = meth, fs_path = path\<rparr>"
    using hook_read_request [OF assms(1-9), of env sdk f rest] by auto
  have p: "parse_response_status (response_text m code (d # reply)) (nat n) = Some (int code)"
    using assms(10-12) by (intro parse_response_status_eq) auto
  obtain s'' where "hook_write env sdk f (response_text m code (d # reply)) n s' = (n, s'')"
    "ps_calls s'' = ps_calls s' @ status_calls i (int code) n @ [EndSpan i]" "ps_fd_span_map s'' f = None"
    using hook_write_response [OF i m, of n env sdk "response_text m code (d # reply)"] assms(12) p by auto
  with r c show ?thesis by auto
qed

lemma stol_8080: "stol ''8080'' = Inr 8080"
  by code_simp

lemma demo_state_port: "server_port_attr demo_state = Inr 8080"
  by (simp add: server_port_attr_def demo_state_def stol_8080)

lemma demo_request: "good_request ''GET'' ''/rolldice?sides=20'' ''1'' [(''Host'', ''localhost'')]"
  by (simp add: good_request_def plain_header_def isspace_def char_val_def char_of_eq_iff)

lemma demo_no_parent:
  "w3c_Extract HeaderCarrier (Some (header_map_of [(''Host'', ''localhost'')])) [] Context_default = ([], Context_default)"
proof -
  have "carrier_Get (Some (header_map_of [(''Host'', ''localhost'')])) kTraceParent = []"
    by (simp add: carrier_Get_def header_map_of_def lower_key_def to_lower_def isupper_def char_val_def kTraceParent_def)
  then show ?thesis by (simp add: w3c_Extract_def w3c_ExtractImpl_def HeaderCarrier_def Trim_def)
qed

lemma request_then_response_witness:
  "\<exists>bytes s' s''. hook_read demo_env demo_sdk 7
      (request_text ''GET'' ''/rolldice?sides=20'' ''HTTP/1.1'' [(''Host'', ''localhost'')] [] @ []) bytes demo_state = (Inr bytes, s') \<and>
    hook_write demo_env demo_sdk 7 (response_text CHR ''1'' 500 '' Internal Server Error'') 34 s' = (34, s'') \<and>
    ps_calls s'' = request_calls 0 (StartSpanOptions\<lparr>so_kind := kServer, so_parent := ParentContext Context_default\<rparr>)
      ''GET'' ''/rolldice'' bytes (header_map_of [(''Host'', ''localhost'')]) (AV_cstring ''localhost'') 8080
      @ [SetAttribute 0 ''http.response.status_code'' (AV_int64 500), SetAttribute 0 ''http.response.body.size'' (AV_int64 34),
         SetStatus 0 kError ''HTTP 500'', EndSpan 0]"
proof -
  define hs where "hs = [(''Host'', ''localhost'')]"
  define data where "data = request_text ''GET'' ''/rolldice?sides=20'' (''HTTP/1.'' @ ''1'') hs []"
  have e: "ps_initialized demo_state" "ps_tracer demo_state" "ps_calls demo_state = []" "ps_heap demo_state = []"
    "ps_next_span demo_state = 0" "server_address_attr demo_state = AV_cstring ''localhost''"
    by (simp_all add: demo_state_def preload_start_def server_address_attr_def)
  have x: "w3c_Extract HeaderCarrier (Some (header_map_of hs)) (ps_heap demo_state) Context_default = ([], Context_default)"
    using demo_no_parent by (simp add: hs_def e)
  have p: "''/rolldice'' = takeWhile (\<lambda>c. c \<noteq> CHR ''?'') ''/rolldice?sides=20''" by simp
  have nd: "\<not> isdigit CHR '' ''" by (simp add: isdigit_def char_val_def)
  have digits: "to_string 500 = ''500''" by code_simp
  show ?thesis
    using request_then_response [OF e(1,2) demo_request [folded hs_def] data_def refl p demo_state_port e(5) [symmetric] x
        _ nd, of 500 34 demo_env demo_sdk 7 "[]" "CHR ''1''" "''Internal Server Error''"]
    by (auto simp: e data_def hs_def status_calls_def digits)
qed

text \<open>C3: Distributed tracing. When a request carries the \<open>traceparent\<close> and \<open>tracestate\<close> that
  \<open>HttpTraceContext::Inject\<close> writes for a span context, the span started by \<open>read\<close> has as parent a
  context whose span is that span context, marked remote.\<close>

theorem request_span_continues_remote_trace:
  assumes "ps_initialized s" and "ps_tracer s" and "good_request meth target minor hs"
    and "data = request_text meth target (''HTTP/1.'' @ minor) hs body" and "bytes = int (length data)"
    and "server_port_attr s = Inr port"
    and "header_map_of hs kTraceParent = Some (trace_parent sc)"
    and "carrier_Get (Some (header_map_of hs)) kTraceState = ToHeader (sc_trace_state sc)"
    and "wf_span_context sc" and "sc_IsValid sc"
  shows "\<exists>s' name opts x. hook_read env sdk f (data @ rest) bytes s = (Inr bytes, s') \<and>
    StartSpan (ps_next_span s) name opts \<in> set (ps_calls s') \<and> so_parent opts = ParentContext x \<and>
    GetSpan (ps_heap s') x = DefaultSpan (w3c_received sc) \<and>
    ts_list (sc_trace_state (w3c_received sc)) = ts_list (sc_trace_state sc)"
proof -
  obtain heap x where h: "w3c_Extract HeaderCarrier (Some (header_map_of hs)) (ps_heap s) Context_default = (heap, x)"
    by (cases "w3c_Extract HeaderCarrier (Some (header_map_of hs)) (ps_heap s) Context_default")
  have "GetSpan heap x = DefaultSpan (w3c_received sc)"
    using h extract_from_headers [OF assms(7-10)] assms(10) w3c.received_valid [of sc]
    by (simp add: w3c_Extract_def)
  moreover have "ts_list (sc_trace_state (w3c_received sc)) = ts_list (sc_trace_state sc)"
    using assms(9) FromHeader_ToHeader by (simp add: w3c_received_def SpanContext_def wf_span_context_def)
  ultimately show ?thesis
    using hook_read_request [OF assms(1-5) refl assms(6) refl h, of env sdk f rest]
    by (fastforce simp: request_calls_def)
qed

lemma request_span_continues_remote_trace_witness:
  "\<exists>s' bytes name opts x. hook_read demo_env demo_sdk 7
      (request_text ''GET'' ''/rolldice'' ''HTTP/1.1'' [(''Traceparent'', trace_parent demo_span_context)] [] @ []) bytes demo_state
      = (Inr bytes, s') \<and>
    StartSpan 0 name opts \<in> set (ps_calls s') \<and> so_parent opts = ParentContext x \<and>
    GetSpan (ps_heap s') x = DefaultSpan (w3c_received demo_span_context)"
proof -
  define hs where "hs = [(''Traceparent'', trace_parent demo_span_context)]"
  define data where "data = request_text ''GET'' ''/rolldice'' (''HTTP/1.'' @ ''1'') hs []"
  have e: "ps_initialized demo_state" "ps_tracer demo_state" "ps_next_span demo_state = 0"
    by (simp_all add: demo_state_def preload_start_def)
  have nosp: "c \<noteq> CR" if "c \<in> set (trace_parent demo_span_context)" for c
  proof -
    have "HexToInt c \<noteq> - 1 \<or> c = CHR ''-''"
      using that tid.valid_printed [of "sc_trace_id demo_span_context"] sid.valid_printed [of "sc_span_id demo_span_context"]
        flags_hex_facts(1) [of "sc_trace_flags demo_span_context"] version_00(1)
      by (auto simp: trace_parent_def IsValidHex_def list_all_iff)
    then have "\<not> isspace c" using hex_not_space by (auto simp: isspace_def char_val_def)
    then show ?thesis using CR_space by blast
  qed
  have g: "good_request ''GET'' ''/rolldice'' ''1'' hs"
    using nosp by (auto simp: good_request_def plain_header_def isspace_def char_val_def char_of_eq_iff hs_def)
      (simp add: trace_parent_def)
  have k: "header_map_of hs kTraceParent = Some (trace_parent demo_span_context)"
  proof -
    have "lower_key ''Traceparent'' = kTraceParent" unfolding kTraceParent_def by code_simp
    then show ?thesis by (simp add: header_map_of_def hs_def)
  qed
  have t: "carrier_Get (Some (header_map_of hs)) kTraceState = ToHeader (sc_trace_state demo_span_context)"
    by (simp add: carrier_Get_def header_map_of_def hs_def lower_key_def to_lower_def isupper_def char_val_def kTraceState_def
        demo_span_context_def SpanContext_def ToHeader_eq ts_GetDefault_def TraceState_default_def ts_list_def)
  show ?thesis
    using request_span_continues_remote_trace [OF e(1,2) g data_def refl demo_state_port k t demo_span_context_ok,
        of demo_env demo_sdk 7 "[]"]
    by (auto simp: e(3) data_def hs_def)
qed

text \<open>C36: A server port that is not a number (\<open>OTEL_SERVER_PORT\<close>) makes \<open>read\<close> throw out of the hook
  after the span was started: the bytes already read are lost to the caller, and the span is neither
  ended by the library nor remembered for the descriptor.\<close>

theorem bad_server_port_throws_from_read:
  assumes "ps_initialized s" and "ps_tracer s" and "good_request meth target minor hs"
    and "data = request_text meth target (''HTTP/1.'' @ minor) hs body" and "bytes = int (length data)"
    and "ps_server_port s = Some port" and "stol port = Inl e"
  shows "\<exists>s' name opts as. hook_read env sdk f (data @ rest) bytes s = (Inl e, s') \<and>
    ps_fd_span_map s' = ps_fd_span_map s \<and>
    ps_calls s' = ps_calls s @ StartSpan (ps_next_span s) name opts # as \<and>
    EndSpan (ps_next_span s) \<notin> set as"
proof -
  have "server_port_attr s = Inl e" using assms(6,7) by (simp add: server_port_attr_def)
  from hook_read_bad_port [OF assms(1-5) this, of env sdk f rest] show ?thesis by blast
qed

lemma bad_server_port_throws_from_read_witness:
  "\<exists>s' bytes name opts as. hook_read demo_env demo_sdk 7
      (request_text ''GET'' ''/rolldice?sides=20'' ''HTTP/1.1'' [(''Host'', ''localhost'')] [] @ []) bytes
      (demo_state\<lparr>ps_server_port := Some ''http''\<rparr>) = (Inl InvalidArgument, s') \<and>
    ps_calls s' = StartSpan 0 name opts # as \<and> EndSpan 0 \<notin> set as"
proof -
  let ?s = "demo_state\<lparr>ps_server_port := Some ''http''\<rparr>"
  have e: "ps_initialized ?s" "ps_tracer ?s" "ps_server_port ?s = Some ''http''" "ps_calls ?s = []" "ps_next_span ?s = 0"
    by (simp_all add: demo_state_def preload_start_def)
  have p: "stol ''http'' = Inl InvalidArgument" by code_simp
  show ?thesis
    using bad_server_port_throws_from_read [OF e(1,2) demo_request refl refl e(3) p, of demo_env demo_sdk 7 "[]" "[]"]
    by (auto simp: e(4,5))
qed

text \<open>Header parsing is right on every well-formed request: whatever the request line and the body,
  the map holds exactly the headers, with keys in lower case, leading blanks of the value removed and
  the last of equal keys winning.\<close>

theorem parse_request_headers_correct:
  assumes "CR \<notin> set line" and "list_all plain_header hs"
  shows "parse_request_headers (line @ CRLF @ concat (map header_line hs) @ CRLF @ body) =
    map_of (rev (map (\<lambda>(k, v). (lower_key k, v)) hs))"
  using parse_request_headers_eq [OF assms] by (simp add: header_map_of_def)

lemma parse_request_headers_correct_witness:
  "parse_request_headers (''GET / HTTP/1.1'' @ CRLF @ concat (map header_line [(''Host'', ''a''), (''HOST'', ''b'')]) @ CRLF @ ''x: y'') ''host''
    = Some ''b''"
proof -
  have "CR \<notin> set ''GET / HTTP/1.1''" "list_all plain_header [(''Host'', ''a''), (''HOST'', ''b'')]"
    by (simp_all add: plain_header_def char_of_eq_iff)
  note p = parse_request_headers_correct [OF this, of "''x: y''"]
  have "lower_key ''HOST'' = ''host''" "lower_key ''Host'' = ''host''" by code_simp+
  then show ?thesis unfolding p by simp
qed

text \<open>\<open>parse_response_status\<close> can look past the bytes that were written: \<open>strtol\<close> goes on to the
  next non-digit, so the status of the same 12 written bytes depends on what follows them in
  memory.\<close>

theorem response_status_reads_past_the_data:
  "take 12 (''HTTP/1.1   2'' @ ''04'') = ''HTTP/1.1   2'' \<and>
   parse_response_status ''HTTP/1.1   2'' 12 = Some 2 \<and>
   parse_response_status (''HTTP/1.1   2'' @ ''04'') 12 = Some 204"
  by code_simp

end
