(* ===== verification/Preload_Threads.thy ===== *)
theory Preload_Threads
  imports Preload_Tracer
begin

text \<open>
  The hooks of \<open>roll-dice/preload_tracer.cpp\<close> run by several threads. A hook is broken into the steps that other threads can see:
  each call on a span, and each use of \<open>fd_span_map\<close> under \<open>fd_span_mutex\<close>. \<open>read\<close> starts and fills its span without the mutex
  and stores it under the mutex; \<open>write\<close> and \<open>close\<close> hold the mutex from the lookup to the erasure. Loading the library runs
  the initialisation before any other thread exists (\<open>preload_init\<close> logs through the hook of \<open>write\<close>), so the threads find the
  library initialised. Starting a span is one step: it is one call of the SDK.
\<close>

subsection \<open>The hooks in steps\<close>

text \<open>The calls that \<open>accept\<close> and \<open>read\<close> make on the span they started; after an exception of \<open>stol\<close> there are no more.\<close>

definition accept_pending :: "nat \<Rightarrow> int \<Rightarrow> preload_state \<Rightarrow> api_call list" where
  "accept_pending i client_fd s =
     SetAttribute i ''server.address'' (server_address_attr s) #
     (case server_port_attr s of
        Inl e \<Rightarrow> []
      | Inr port \<Rightarrow>
          [SetAttribute i ''server.port'' (AV_int64 (word_of_int port)),
           SetAttribute i ''net.sock.peer.fd'' (AV_int32 (word_of_int client_fd)),
           AddEvent i (''Accepted client fd: '' @ to_string client_fd),
           EndSpan i])"

definition request_pending :: "nat \<Rightarrow> string \<Rightarrow> string \<Rightarrow> string \<Rightarrow> int \<Rightarrow> preload_state \<Rightarrow> api_call list" where
  "request_pending i data meth path bytes s =
     [SetAttribute i ''http.request.method'' (AV_string meth),
      SetAttribute i ''url.path'' (AV_string path),
      SetAttribute i ''http.request.body.size'' (AV_int64 (word_of_int bytes)),
      SetAttribute i ''server.address'' (server_address_attr s)] @
     (case server_port_attr s of
        Inl e \<Rightarrow> []
      | Inr port \<Rightarrow>
          [SetAttribute i ''server.port'' (AV_int64 (word_of_int port))]
          @ optional_header (parse_request_headers data) ''user-agent'' ''http.request.header.user_agent'' i
          @ optional_header (parse_request_headers data) ''x-request-id'' ''http.request.header.x_request_id'' i
          @ [AddEvent i ''Request received''])"

definition request_entry :: "nat \<Rightarrow> fd \<Rightarrow> string \<Rightarrow> string \<Rightarrow> preload_state \<Rightarrow> (fd \<times> fd_span_context) option" where
  "request_entry i f meth path s =
     (case server_port_attr s of
        Inl e \<Rightarrow> None
      | Inr port \<Rightarrow> Some (f, \<lparr>fs_span = i, fs_method = meth, fs_path = path\<rparr>))"

definition response_pending :: "fd_span_context \<Rightarrow> string \<Rightarrow> int \<Rightarrow> api_call list" where
  "response_pending c mem n =
     (case parse_response_status mem (nat n) of Some code \<Rightarrow> status_calls (fs_span c) code n | None \<Rightarrow> [])
     @ [EndSpan (fs_span c)]"

text \<open>A thread: outside the hooks; filling its own span, with the entry it will store; inside the mutex with the entry it found.\<close>

datatype hook_thread =
    T_idle
  | T_own nat "api_call list" "(fd \<times> fd_span_context) option"
  | T_locked fd fd_span_context "api_call list"

record hooks_state =
  hs_shared :: preload_state
  hs_lock :: "nat option"
  hs_threads :: "nat \<Rightarrow> hook_thread"

definition hooks_start :: "preload_state \<Rightarrow> hooks_state" where
  "hooks_start s = \<lparr>hs_shared = s, hs_lock = None, hs_threads = (\<lambda>_. T_idle)\<rparr>"

definition move :: "nat \<Rightarrow> hook_thread \<Rightarrow> preload_state \<Rightarrow> hooks_state \<Rightarrow> hooks_state" where
  "move j t s h = h\<lparr>hs_shared := s, hs_threads := (hs_threads h)(j := t)\<rparr>"

inductive hooks_step :: "hooks_state \<Rightarrow> hooks_state \<Rightarrow> bool" where
  h_accept: "hs_threads h j = T_idle \<Longrightarrow> ps_tracer (hs_shared h) \<Longrightarrow> r \<noteq> - 1 \<Longrightarrow>
    start_span ''HTTP accept'' (StartSpanOptions\<lparr>so_kind := kServer\<rparr>) (hs_shared h) = (i, s) \<Longrightarrow>
    hooks_step h (move j (T_own i (accept_pending i r (hs_shared h)) None) s h)"
| h_read: "hs_threads h j = T_idle \<Longrightarrow> ps_tracer (hs_shared h) \<Longrightarrow> n > 0 \<Longrightarrow> data = take (nat n) buf \<Longrightarrow>
    first_line = (case find_str CRLF data 0 of Some e \<Rightarrow> take e data | None \<Rightarrow> data) \<Longrightarrow>
    parse_request_line first_line = (meth, path) \<Longrightarrow> is_http_request meth path data \<Longrightarrow>
    w3c_Extract HeaderCarrier (Some (parse_request_headers data)) (ps_heap (hs_shared h)) Context_default = (heap, ctx_out) \<Longrightarrow>
    start_span (meth @ '' '' @ path) (StartSpanOptions\<lparr>so_kind := kServer, so_parent := ParentContext ctx_out\<rparr>)
      ((hs_shared h)\<lparr>ps_heap := heap\<rparr>) = (i, s) \<Longrightarrow>
    hooks_step h (move j (T_own i (request_pending i data meth path n (hs_shared h)) (request_entry i f meth path (hs_shared h))) s h)"
| h_own_call: "hs_threads h j = T_own i (c # cs) e \<Longrightarrow>
    hooks_step h (move j (T_own i cs e) (emit [c] (hs_shared h)) h)"
| h_own_return: "hs_threads h j = T_own i [] None \<Longrightarrow> hooks_step h (move j T_idle (hs_shared h) h)"
| h_own_store: "hs_threads h j = T_own i [] (Some (f, c)) \<Longrightarrow> hs_lock h = None \<Longrightarrow>
    hooks_step h (move j T_idle ((hs_shared h)\<lparr>ps_fd_span_map := (ps_fd_span_map (hs_shared h))(f \<mapsto> c)\<rparr>) h)"
| h_write: "hs_threads h j = T_idle \<Longrightarrow> ps_tracer (hs_shared h) \<Longrightarrow> n > 0 \<Longrightarrow> hs_lock h = None \<Longrightarrow>
    ps_fd_span_map (hs_shared h) f = Some c \<Longrightarrow>
    hooks_step h (move j (T_locked f c (response_pending c mem n)) (hs_shared h) (h\<lparr>hs_lock := Some j\<rparr>))"
| h_close: "hs_threads h j = T_idle \<Longrightarrow> hs_lock h = None \<Longrightarrow> ps_fd_span_map (hs_shared h) f = Some c \<Longrightarrow>
    hooks_step h (move j (T_locked f c [EndSpan (fs_span c)]) (hs_shared h) (h\<lparr>hs_lock := Some j\<rparr>))"
| h_locked_call: "hs_threads h j = T_locked f c (x # xs) \<Longrightarrow>
    hooks_step h (move j (T_locked f c xs) (emit [x] (hs_shared h)) h)"
| h_unlock: "hs_threads h j = T_locked f c [] \<Longrightarrow>
    hooks_step h (move j T_idle ((hs_shared h)\<lparr>ps_fd_span_map := (ps_fd_span_map (hs_shared h))(f := None)\<rparr>) (h\<lparr>hs_lock := None\<rparr>))"

inductive hooks_reach :: "preload_state \<Rightarrow> hooks_state \<Rightarrow> bool" for s0 where
  start: "hooks_reach s0 (hooks_start s0)"
| step: "hooks_reach s0 h \<Longrightarrow> hooks_step h h' \<Longrightarrow> hooks_reach s0 h'"

subsection \<open>The invariant\<close>

text \<open>Calls that keep a span alive, or that end it with the last one.\<close>

definition keeps :: "nat \<Rightarrow> api_call list \<Rightarrow> bool" where
  "keeps i cs \<longleftrightarrow> list_all (plain_call {i}) cs"

definition ends :: "nat \<Rightarrow> api_call list \<Rightarrow> bool" where
  "ends i cs \<longleftrightarrow> (\<exists>ps. cs = ps @ [EndSpan i] \<and> keeps i ps)"

text \<open>What a thread may still do, given the live spans and the entries of the map.\<close>

fun thread_ok :: "nat set \<Rightarrow> (fd \<rightharpoonup> fd_span_context) \<Rightarrow> hook_thread \<Rightarrow> bool" where
  "thread_ok live m T_idle \<longleftrightarrow> True"
| "thread_ok live m (T_own i cs e) \<longleftrightarrow>
     (case e of
        Some (f, c) \<Rightarrow> fs_span c = i \<and> keeps i cs \<and> i \<in> live
      | None \<Rightarrow> cs = [] \<or> i \<in> live \<and> (keeps i cs \<or> ends i cs))"
| "thread_ok live m (T_locked f c cs) \<longleftrightarrow> m f = Some c \<and> (cs = [] \<and> fs_span c \<notin> live \<or> ends (fs_span c) cs \<and> fs_span c \<in> live)"

fun owns :: "hook_thread \<Rightarrow> nat option" where
  "owns (T_own i cs e) = Some i"
| "owns _ = None"

fun span_of :: "hook_thread \<Rightarrow> nat option" where
  "span_of T_idle = None"
| "span_of (T_own i cs e) = Some i"
| "span_of (T_locked f c cs) = Some (fs_span c)"

definition map_spans_ok :: "hooks_state \<Rightarrow> nat set \<Rightarrow> bool" where
  "map_spans_ok h live \<longleftrightarrow>
     (\<forall>f c. ps_fd_span_map (hs_shared h) f = Some c \<longrightarrow>
        fs_span c < ps_next_span (hs_shared h) \<and> (fs_span c \<in> live \<or> (\<exists>j. hs_threads h j = T_locked f c []))) \<and>
     (\<forall>f c g d. ps_fd_span_map (hs_shared h) f = Some c \<longrightarrow> ps_fd_span_map (hs_shared h) g = Some d \<longrightarrow>
        fs_span c = fs_span d \<longrightarrow> f = g)"

text \<open>No span is used by two threads, nor by a thread that fills it while it is in the map.\<close>

definition apart :: "hooks_state \<Rightarrow> bool" where
  "apart h \<longleftrightarrow>
     (\<forall>j i. owns (hs_threads h j) = Some i \<longrightarrow> i < ps_next_span (hs_shared h)) \<and>
     (\<forall>j k i. owns (hs_threads h j) = Some i \<longrightarrow> owns (hs_threads h k) = Some i \<longrightarrow> j = k) \<and>
     (\<forall>j i f c. owns (hs_threads h j) = Some i \<longrightarrow> ps_fd_span_map (hs_shared h) f = Some c \<longrightarrow> fs_span c \<noteq> i)"

definition lock_ok :: "hooks_state \<Rightarrow> bool" where
  "lock_ok h \<longleftrightarrow> (\<forall>j. (\<exists>f c cs. hs_threads h j = T_locked f c cs) \<longleftrightarrow> hs_lock h = Some j)"

definition hooks_inv :: "nat set \<Rightarrow> hooks_state \<Rightarrow> bool" where
  "hooks_inv live h \<longleftrightarrow> log_ok (hs_shared h) live \<and>
     (\<forall>j. thread_ok live (ps_fd_span_map (hs_shared h)) (hs_threads h j)) \<and>
     lock_ok h \<and> map_spans_ok h live \<and> apart h"

lemmas hooks_inv_defs = hooks_inv_def lock_ok_def map_spans_ok_def apart_def

subsection \<open>Lemmas\<close>

lemma move_simps [simp]:
  "hs_shared (move j t s h) = s" "hs_threads (move j t s h) = (hs_threads h)(j := t)" "hs_lock (move j t s h) = hs_lock h"
  by (simp_all add: move_def)

lemma span_of_owns: "owns t = Some i \<Longrightarrow> span_of t = Some i"
  by (cases t) auto

lemma thread_ok_cong:
  assumes "thread_ok live m t" and "\<And>i. span_of t = Some i \<Longrightarrow> i \<in> live' \<longleftrightarrow> i \<in> live"
    and "\<And>f c cs. t = T_locked f c cs \<Longrightarrow> m' f = m f"
  shows "thread_ok live' m' t"
  using assms by (cases t) (auto split: option.splits)

lemma apart_own: "apart h \<Longrightarrow> owns (hs_threads h j) = Some i \<Longrightarrow> owns (hs_threads h k) = Some i \<Longrightarrow> j = k"
  unfolding apart_def by blast

lemma apart_map: "apart h \<Longrightarrow> owns (hs_threads h j) = Some i \<Longrightarrow> ps_fd_span_map (hs_shared h) f = Some c \<Longrightarrow> fs_span c \<noteq> i"
  unfolding apart_def by blast

lemma apart_shrink:
  assumes "apart h" and "\<And>k a. owns (hs_threads h' k) = Some a \<Longrightarrow> owns (hs_threads h k) = Some a"
    and "ps_next_span (hs_shared h') = ps_next_span (hs_shared h)"
    and "\<And>f c k. ps_fd_span_map (hs_shared h') f = Some c \<Longrightarrow>
      ps_fd_span_map (hs_shared h) f = Some c \<or> owns (hs_threads h' k) \<noteq> Some (fs_span c)"
  shows "apart h'"
  unfolding apart_def
proof (intro conjI allI impI)
  fix j i assume "owns (hs_threads h' j) = Some i"
  then show "i < ps_next_span (hs_shared h')" using assms(1,3) assms(2) [of j i] unfolding apart_def by simp
next
  fix j k i assume "owns (hs_threads h' j) = Some i" "owns (hs_threads h' k) = Some i"
  then show "j = k" by (intro apart_own [OF assms(1)] assms(2))
next
  fix j i f c assume o: "owns (hs_threads h' j) = Some i" and f: "ps_fd_span_map (hs_shared h') f = Some c"
  show "fs_span c \<noteq> i" using assms(4) [OF f, of j] apart_map [OF assms(1) assms(2) [OF o]] o by auto
qed

lemma thread_okD: "hooks_inv live h \<Longrightarrow> thread_ok live (ps_fd_span_map (hs_shared h)) (hs_threads h k)"
  by (simp add: hooks_inv_def)

lemma locked_entry: "hooks_inv live h \<Longrightarrow> hs_threads h j = T_locked f c cs \<Longrightarrow> ps_fd_span_map (hs_shared h) f = Some c"
  unfolding hooks_inv_def by (metis thread_ok.simps(3))

lemma locked_unique: "lock_ok h \<Longrightarrow> hs_threads h j = T_locked f c cs \<Longrightarrow> hs_threads h k = T_locked g d ds \<Longrightarrow> j = k"
  unfolding lock_ok_def by (metis option.inject)

text \<open>The span of a thread is the span of no other thread.\<close>

lemma spans_apart:
  assumes "hooks_inv live h" and "span_of (hs_threads h j) = Some i" and "span_of (hs_threads h k) = Some i"
  shows "j = k"
proof -
  have ap: "apart h" "lock_ok h" using assms(1) by (simp_all add: hooks_inv_def)
  have own_locked: "False" if "owns (hs_threads h l) = Some i" "hs_threads h l' = T_locked f c cs" "fs_span c = i" for l l' f c cs
    using apart_map [OF ap(1) that(1) locked_entry [OF assms(1) that(2)]] that(3) by simp
  show ?thesis
  proof (cases "hs_threads h j")
    case j: (T_own a cs e)
    then show ?thesis using assms(2,3) own_locked [of j k] apart_own [OF ap(1), of j i k]
      by (cases "hs_threads h k") auto
  next
    case j: (T_locked f c cs)
    then show ?thesis using assms(2,3) own_locked [of k j] locked_unique [OF ap(2) j, of k]
      by (cases "hs_threads h k") auto
  qed (use assms(2) in simp)
qed

lemma keeps_Cons: "keeps i (c # cs) \<longleftrightarrow> plain_call {i} c \<and> keeps i cs"
  by (simp add: keeps_def)

lemma ends_cases: "ends i (c # cs) \<Longrightarrow> plain_call {i} c \<and> ends i cs \<or> c = EndSpan i \<and> cs = []"
  by (auto simp: ends_def keeps_def Cons_eq_append_conv)

lemma ends_Nil [simp]: "\<not> ends i []" by (simp add: ends_def)

lemma plain_call_mono: "plain_call {i} c \<Longrightarrow> i \<in> live \<Longrightarrow> plain_call live c"
  by (cases c) auto

lemma log_ok_one: "log_ok s live \<Longrightarrow> plain_call {i} c \<Longrightarrow> i \<in> live \<Longrightarrow> log_ok (emit [c] s) live"
  using log_ok_plain [of s live "[c]"] plain_call_mono by simp

text \<open>A step of a thread that changes neither the lock nor the map.\<close>

lemma inv_thread:
  assumes inv: "hooks_inv live h" and shared: "ps_fd_span_map s = ps_fd_span_map (hs_shared h)"
      "ps_next_span (hs_shared h) \<le> ps_next_span s" "log_ok s live'"
    and live: "\<And>k. k \<noteq> i \<Longrightarrow> k \<in> live' \<longleftrightarrow> k \<in> live"
    and t: "thread_ok live' (ps_fd_span_map (hs_shared h)) t" "owns t = None \<or> owns t = Some i"
    and locked: "\<And>f c cs. t \<noteq> T_locked f c cs" "\<And>f c cs. hs_threads h j \<noteq> T_locked f c cs"
    and i: "i < ps_next_span s" "\<And>k. span_of (hs_threads h k) = Some i \<Longrightarrow> k = j"
      "\<And>f c. ps_fd_span_map (hs_shared h) f = Some c \<Longrightarrow> fs_span c \<noteq> i"
  shows "hooks_inv live' (move j t s h)"
proof -
  have "hs_lock h \<noteq> Some j" using inv locked(2) unfolding hooks_inv_def lock_ok_def by blast
  then have lk: "lock_ok (move j t s h)" using inv locked unfolding hooks_inv_def lock_ok_def by simp
  have "thread_ok live' (ps_fd_span_map (hs_shared h)) (hs_threads h k)" if "k \<noteq> j" for k
  proof (rule thread_ok_cong [OF thread_okD [OF inv]])
    fix a assume "span_of (hs_threads h k) = Some a"
    then have "a \<noteq> i" using i(2) [of k] that by blast
    then show "a \<in> live' \<longleftrightarrow> a \<in> live" by (rule live)
  qed (rule refl)
  then have th: "thread_ok live' (ps_fd_span_map s) (hs_threads (move j t s h) k)" for k using t(1) shared(1) by simp
  have mp: "map_spans_ok (move j t s h) live'"
    unfolding map_spans_ok_def
  proof (intro conjI allI impI)
    fix f c assume f: "ps_fd_span_map (hs_shared (move j t s h)) f = Some c"
    then have f': "ps_fd_span_map (hs_shared h) f = Some c" using shared(1) by simp
    from inv f' have o: "fs_span c < ps_next_span (hs_shared h)" "fs_span c \<in> live \<or> (\<exists>k. hs_threads h k = T_locked f c [])"
      unfolding hooks_inv_def map_spans_ok_def by blast+
    show "fs_span c < ps_next_span (hs_shared (move j t s h))" using o(1) shared(2) by simp
    show "fs_span c \<in> live' \<or> (\<exists>k. hs_threads (move j t s h) k = T_locked f c [])"
    proof (cases "fs_span c \<in> live")
      case True
      then show ?thesis using live [OF i(3) [OF f']] by simp
    next
      case False
      then obtain k where k: "hs_threads h k = T_locked f c []" using o(2) by blast
      then have "k \<noteq> j" using locked(2) by blast
      then show ?thesis using k by (intro disjI2 exI [of _ k]) simp
    qed
  next
    fix f c g d
    assume "ps_fd_span_map (hs_shared (move j t s h)) f = Some c" "ps_fd_span_map (hs_shared (move j t s h)) g = Some d" "fs_span c = fs_span d"
    then show "f = g" using inv shared(1) unfolding hooks_inv_def map_spans_ok_def by simp
  qed
  have old: "owns (hs_threads h k) = Some a \<Longrightarrow> a < ps_next_span (hs_shared h)" for k a
    using inv unfolding hooks_inv_def apart_def by blast
  have "apart (move j t s h)"
    unfolding apart_def
  proof (intro conjI allI impI)
    fix k a assume o: "owns (hs_threads (move j t s h) k) = Some a"
    then show "a < ps_next_span (hs_shared (move j t s h))"
      using t(2) i(1) old [of k a] shared(2) by (cases "k = j") auto
  next
    fix k l a assume "owns (hs_threads (move j t s h) k) = Some a" "owns (hs_threads (move j t s h) l) = Some a"
    then show "k = l"
      using t(2) i(2) span_of_owns inv by (auto simp: hooks_inv_def dest: apart_own split: if_splits)
  next
    fix k a f c assume "owns (hs_threads (move j t s h) k) = Some a" "ps_fd_span_map (hs_shared (move j t s h)) f = Some c"
    then show "fs_span c \<noteq> a"
      using t(2) i(3) [of f c] shared(1) inv by (auto simp: hooks_inv_def dest: apart_map split: if_splits)
  qed
  then show ?thesis using shared(3) th lk mp by (simp add: hooks_inv_def)
qed

text \<open>A step of a thread that enters the mutex or is inside, and leaves the map alone.\<close>

lemma inv_locked:
  assumes inv: "hooks_inv live h" and f: "ps_fd_span_map (hs_shared h) f = Some c"
    and j: "hs_threads h j = T_idle \<and> hs_lock h = None \<or> (\<exists>cs. hs_threads h j = T_locked f c cs) \<and> hs_lock h = Some j"
    and shared: "ps_fd_span_map s = ps_fd_span_map (hs_shared h)" "ps_next_span s = ps_next_span (hs_shared h)" "log_ok s live'"
    and live: "\<And>k. k \<noteq> fs_span c \<Longrightarrow> k \<in> live' \<longleftrightarrow> k \<in> live"
    and t: "cs = [] \<and> fs_span c \<notin> live' \<or> ends (fs_span c) cs \<and> fs_span c \<in> live'"
  shows "hooks_inv live' (move j (T_locked f c cs) s (h\<lparr>hs_lock := Some j\<rparr>))" (is "hooks_inv live' ?h")
proof -
  have free: "hs_threads h k \<noteq> T_locked g d ds" if "k \<noteq> j" for k g d ds
    using inv j that unfolding hooks_inv_def lock_ok_def by (metis option.distinct(1) option.inject)
  have ap: "apart h" using inv by (simp add: hooks_inv_def)
  have lk: "lock_ok ?h" using free unfolding lock_ok_def by auto
  have own: "span_of (hs_threads h k) \<noteq> Some (fs_span c)" if "k \<noteq> j" for k
    using free [OF that] apart_map [OF ap _ f, of k] by (cases "hs_threads h k") auto
  have "thread_ok live' (ps_fd_span_map (hs_shared h)) (hs_threads h k)" if "k \<noteq> j" for k
  proof (rule thread_ok_cong [OF thread_okD [OF inv]])
    fix a assume "span_of (hs_threads h k) = Some a"
    then have "a \<noteq> fs_span c" using own [OF that] by auto
    then show "a \<in> live' \<longleftrightarrow> a \<in> live" by (rule live)
  qed (rule refl)
  then have th: "thread_ok live' (ps_fd_span_map s) (hs_threads ?h k)" for k using t f shared(1) by simp
  have one: "g = f" if "ps_fd_span_map (hs_shared h) g = Some d" "fs_span d = fs_span c" for g d
    using inv f that unfolding hooks_inv_def map_spans_ok_def by blast
  have mp: "map_spans_ok ?h live'"
    unfolding map_spans_ok_def
  proof (intro conjI allI impI)
    fix g d assume "ps_fd_span_map (hs_shared ?h) g = Some d"
    then have g: "ps_fd_span_map (hs_shared h) g = Some d" using shared(1) by simp
    from inv g have o: "fs_span d < ps_next_span (hs_shared h)" "fs_span d \<in> live \<or> (\<exists>k. hs_threads h k = T_locked g d [])"
      unfolding hooks_inv_def map_spans_ok_def by blast+
    show "fs_span d < ps_next_span (hs_shared ?h)" using o(1) shared(2) by simp
    show "fs_span d \<in> live' \<or> (\<exists>k. hs_threads ?h k = T_locked g d [])"
    proof (cases "g = f")
      case True
      then have "d = c" using f g by simp
      then show ?thesis using t True by auto
    next
      case False
      then have "fs_span d \<noteq> fs_span c" using one [OF g] by blast
      moreover have "hs_threads h k \<noteq> T_locked g d []" for k using free [of k] j False by (cases "k = j") auto
      ultimately show ?thesis using o(2) live by auto
    qed
  next
    fix g d g' d'
    assume "ps_fd_span_map (hs_shared ?h) g = Some d" "ps_fd_span_map (hs_shared ?h) g' = Some d'" "fs_span d = fs_span d'"
    then show "g = g'" using inv shared(1) unfolding hooks_inv_def map_spans_ok_def by simp
  qed
  have "owns (hs_threads ?h k) = Some a \<Longrightarrow> owns (hs_threads h k) = Some a" for k a by (cases "k = j") auto
  then have "apart ?h" by (rule apart_shrink [OF ap]) (simp_all add: shared)
  then show ?thesis using shared(3) th lk mp by (simp add: hooks_inv_def)
qed

text \<open>The two steps that change the map.\<close>

lemma inv_store:
  assumes inv: "hooks_inv live h" and j: "hs_threads h j = T_own i [] (Some (f, c))" and free: "hs_lock h = None"
  shows "hooks_inv live (move j T_idle ((hs_shared h)\<lparr>ps_fd_span_map := (ps_fd_span_map (hs_shared h))(f \<mapsto> c)\<rparr>) h)"
    (is "hooks_inv live ?h")
proof -
  have "thread_ok live (ps_fd_span_map (hs_shared h)) (hs_threads h j)" using inv by (simp add: hooks_inv_def)
  then have c: "fs_span c = i" "i \<in> live" using j by simp_all
  have nl: "hs_threads h k \<noteq> T_locked g d ds" for k g d ds
    using inv free unfolding hooks_inv_def lock_ok_def by (metis option.distinct(1))
  have own: "owns (hs_threads h j) = Some i" using j by simp
  have ap: "apart h" using inv by (simp add: hooks_inv_def)
  have new: "fs_span d \<noteq> i" if "ps_fd_span_map (hs_shared h) g = Some d" for g d by (rule apart_map [OF ap own that])
  have "thread_ok live (ps_fd_span_map (hs_shared ?h)) (hs_threads ?h k)" for k
  proof (cases "k = j")
    case False
    then have "thread_ok live (ps_fd_span_map (hs_shared ?h)) (hs_threads h k)"
      by (intro thread_ok_cong [OF thread_okD [OF inv, of k]]) (use nl in \<open>blast+\<close>)
    then show ?thesis using False by simp
  qed simp
  moreover have "lock_ok ?h" using free nl unfolding lock_ok_def by simp
  moreover have "map_spans_ok ?h live"
  proof -
    have lt: "i < ps_next_span (hs_shared h)" using ap own unfolding apart_def by blast
    have old: "fs_span d < ps_next_span (hs_shared h) \<and> fs_span d \<in> live" if "ps_fd_span_map (hs_shared h) g = Some d" for g d
      using inv that nl unfolding hooks_inv_def map_spans_ok_def by blast
    have inj: "g = g'" if "ps_fd_span_map (hs_shared h) g = Some d" "ps_fd_span_map (hs_shared h) g' = Some d'" "fs_span d = fs_span d'" for g g' d d'
      using inv that unfolding hooks_inv_def map_spans_ok_def by blast
    let ?m = "(ps_fd_span_map (hs_shared h))(f \<mapsto> c)"
    have all: "fs_span d < ps_next_span (hs_shared h) \<and> fs_span d \<in> live" if "?m g = Some d" for g d
      using that lt old [of g d] c by (cases "g = f") auto
    have one: "g = g'" if m: "?m g = Some d" "?m g' = Some d'" "fs_span d = fs_span d'" for g g' d d'
    proof (rule ccontr)
      assume ne: "g \<noteq> g'"
      consider "g = f" "g' \<noteq> f" | "g \<noteq> f" "g' = f" | "g \<noteq> f" "g' \<noteq> f" using ne by blast
      then show False
      proof cases
        case 1 then show ?thesis using m c(1) new [of g' d'] by simp
      next
        case 2 then show ?thesis using m c(1) new [of g d] by simp
      next
        case 3 then show ?thesis using m ne inj [of g d g' d'] by simp
      qed
    qed
    show ?thesis unfolding map_spans_ok_def
    proof (intro conjI allI impI)
      fix g d g' d'
      assume "ps_fd_span_map (hs_shared ?h) g = Some d" "ps_fd_span_map (hs_shared ?h) g' = Some d'" "fs_span d = fs_span d'"
      then show "g = g'" using one [of g d g' d'] by simp
    qed (use all in simp_all)
  qed
  moreover have "apart ?h"
  proof -
    have "owns (hs_threads h k) = Some a \<and> a \<noteq> i" if "owns (hs_threads ?h k) = Some a" for k a
    proof (cases "k = j")
      case False
      then have "owns (hs_threads h k) = Some a" using that by simp
      then show ?thesis using apart_own [OF ap own, of k] False by blast
    qed (use that in simp)
    note o = this
    show ?thesis
    proof (rule apart_shrink [OF ap])
      fix g d k assume "ps_fd_span_map (hs_shared ?h) g = Some d"
      then show "ps_fd_span_map (hs_shared h) g = Some d \<or> owns (hs_threads ?h k) \<noteq> Some (fs_span d)"
      proof (cases "g = f")
        case True
        then have "fs_span d = i" using \<open>ps_fd_span_map (hs_shared ?h) g = Some d\<close> c(1) by simp
        then show ?thesis using o [of k i] by blast
      qed simp
    qed (use o in \<open>blast | simp\<close>)+
  qed
  moreover have "log_ok (hs_shared ?h) live" using inv by (simp add: hooks_inv_def log_ok_def)
  ultimately show ?thesis by (simp add: hooks_inv_def)
qed

lemma inv_unlock:
  assumes inv: "hooks_inv live h" and j: "hs_threads h j = T_locked f c []"
  shows "hooks_inv live (move j T_idle ((hs_shared h)\<lparr>ps_fd_span_map := (ps_fd_span_map (hs_shared h))(f := None)\<rparr>) (h\<lparr>hs_lock := None\<rparr>))"
    (is "hooks_inv live ?h")
proof -
  have nl: "hs_threads h k \<noteq> T_locked g d ds" if "k \<noteq> j" for k g d ds
    using inv j that locked_unique [of h j f c "[]" k] unfolding hooks_inv_def by blast
  have "thread_ok live (ps_fd_span_map (hs_shared ?h)) (hs_threads ?h k)" for k
  proof (cases "k = j")
    case False
    then have "thread_ok live (ps_fd_span_map (hs_shared ?h)) (hs_threads h k)"
      by (intro thread_ok_cong [OF thread_okD [OF inv, of k]]) (use nl [OF False] in \<open>blast+\<close>)
    then show ?thesis using False by simp
  qed simp
  moreover have "lock_ok ?h" using nl unfolding lock_ok_def by simp
  moreover have "map_spans_ok ?h live"
  proof -
    have "fs_span d < ps_next_span (hs_shared h) \<and> fs_span d \<in> live"
      if g: "ps_fd_span_map (hs_shared h) g = Some d" "g \<noteq> f" for g d
    proof -
      have "hs_threads h k \<noteq> T_locked g d []" for k using nl [of k] j g(2) by (cases "k = j") auto
      then show ?thesis using inv g(1) unfolding hooks_inv_def map_spans_ok_def by blast
    qed
    moreover have "g = g'" if "ps_fd_span_map (hs_shared h) g = Some d" "ps_fd_span_map (hs_shared h) g' = Some d'" "fs_span d = fs_span d'" for g g' d d'
      using inv that unfolding hooks_inv_def map_spans_ok_def by blast
    ultimately show ?thesis unfolding map_spans_ok_def by (auto split: if_splits)
  qed
  moreover have "apart ?h"
  proof -
    have "owns (hs_threads ?h k) = Some a \<Longrightarrow> owns (hs_threads h k) = Some a" for k a by (cases "k = j") auto
    note o = this
    have ap: "apart h" using inv by (simp add: hooks_inv_def)
    show ?thesis
    proof (rule apart_shrink [OF ap])
      fix g d k assume "ps_fd_span_map (hs_shared ?h) g = Some d"
      then show "ps_fd_span_map (hs_shared h) g = Some d \<or> owns (hs_threads ?h k) \<noteq> Some (fs_span d)"
        by (cases "g = f") auto
    qed (use o in simp_all)
  qed
  moreover have "log_ok (hs_shared ?h) live" using inv by (simp add: hooks_inv_def log_ok_def)
  ultimately show ?thesis by (simp add: hooks_inv_def)
qed


subsection \<open>Every step keeps the invariant\<close>

lemma inv_log: "hooks_inv live h \<Longrightarrow> log_ok (hs_shared h) live"
  by (simp add: hooks_inv_def)

text \<open>A new span: its number is above every span of the state.\<close>

lemma inv_start:
  assumes inv: "hooks_inv live h" and idle: "hs_threads h j = T_idle"
    and st: "start_span name opts ((hs_shared h)\<lparr>ps_heap := hp\<rparr>) = (i, s)"
    and t: "thread_ok (insert i live) (ps_fd_span_map (hs_shared h)) (T_own i cs e)"
  shows "hooks_inv (insert i live) (move j (T_own i cs e) s h)"
proof (rule inv_thread [OF inv, where i = i])
  have l: "log_ok ((hs_shared h)\<lparr>ps_heap := hp\<rparr>) live" using inv_log [OF inv] by (simp add: log_ok_def)
  show "log_ok s (insert i live)" using log_ok_start [OF l st] by blast
  have i: "i = ps_next_span (hs_shared h)" using log_ok_start [OF l st] by simp
  show "ps_fd_span_map s = ps_fd_span_map (hs_shared h)" "ps_next_span (hs_shared h) \<le> ps_next_span s" "i < ps_next_span s"
    using st by (auto simp: start_span_def)
  show map: "fs_span c \<noteq> i" if "ps_fd_span_map (hs_shared h) f = Some c" for f c
  proof -
    have "fs_span c < ps_next_span (hs_shared h)" using inv that unfolding hooks_inv_def map_spans_ok_def by blast
    then show ?thesis using i by simp
  qed
  show "k = j" if "span_of (hs_threads h k) = Some i" for k
  proof (cases "hs_threads h k")
    case (T_own a as e')
    then have "owns (hs_threads h k) = Some i" using that by simp
    then have "i < ps_next_span (hs_shared h)" using inv unfolding hooks_inv_def apart_def by blast
    then show ?thesis using i by simp
  next
    case (T_locked f c as)
    then show ?thesis using that map [OF locked_entry [OF inv T_locked]] by simp
  qed (use that in simp)
qed (use t idle in auto)

text \<open>A call of a thread on the span it fills.\<close>

lemma inv_own_call:
  assumes inv: "hooks_inv live h" and j: "hs_threads h j = T_own i (c # cs) e"
  shows "\<exists>live'. hooks_inv live' (move j (T_own i cs e) (emit [c] (hs_shared h)) h)"
proof -
  have ok: "thread_ok live (ps_fd_span_map (hs_shared h)) (T_own i (c # cs) e)" using thread_okD [OF inv, of j] j by simp
  then have i: "i \<in> live" by (auto split: option.splits)
  have ap: "apart h" using inv by (simp add: hooks_inv_def)
  have lt: "i < ps_next_span (hs_shared h)" using ap j unfolding apart_def by (metis owns.simps(1))
  have step: "hooks_inv live' (move j (T_own i cs e) (emit [c] (hs_shared h)) h)"
    if "log_ok (emit [c] (hs_shared h)) live'" "\<And>k. k \<noteq> i \<Longrightarrow> k \<in> live' \<longleftrightarrow> k \<in> live"
      "thread_ok live' (ps_fd_span_map (hs_shared h)) (T_own i cs e)" for live'
  proof (rule inv_thread [OF inv _ _ that(1), where i = i])
    show "k = j" if "span_of (hs_threads h k) = Some i" for k using spans_apart [OF inv that, of j] j by simp
    show "fs_span d \<noteq> i" if "ps_fd_span_map (hs_shared h) g = Some d" for g d
      using apart_map [OF ap _ that, of j] j by simp
  qed (use that lt j in auto)
  show ?thesis
  proof (cases "c = EndSpan i")
    case True
    then have "e = None" "cs = []" using ok by (auto simp: keeps_Cons dest: ends_cases split: option.splits)
    then show ?thesis using step [of "live - {i}"] log_ok_end [OF inv_log [OF inv] i] True by auto
  next
    case False
    then have "plain_call {i} c" "thread_ok live (ps_fd_span_map (hs_shared h)) (T_own i cs e)"
      using ok by (auto simp: keeps_Cons dest: ends_cases split: option.splits)
    then show ?thesis using step [of live] log_ok_one [OF inv_log [OF inv] _ i] by blast
  qed
qed

text \<open>A call of a thread inside the mutex.\<close>

lemma inv_locked_call:
  assumes inv: "hooks_inv live h" and j: "hs_threads h j = T_locked f c (x # xs)"
  shows "\<exists>live'. hooks_inv live' (move j (T_locked f c xs) (emit [x] (hs_shared h)) h)"
proof -
  have ok: "ends (fs_span c) (x # xs)" "fs_span c \<in> live" using thread_okD [OF inv, of j] j by auto
  have lk: "hs_lock h = Some j" using inv j unfolding hooks_inv_def lock_ok_def by blast
  then have same: "h\<lparr>hs_lock := Some j\<rparr> = h" by simp
  have step: "hooks_inv live' (move j (T_locked f c xs) (emit [x] (hs_shared h)) h)"
    if "log_ok (emit [x] (hs_shared h)) live'" "\<And>k. k \<noteq> fs_span c \<Longrightarrow> k \<in> live' \<longleftrightarrow> k \<in> live"
      "xs = [] \<and> fs_span c \<notin> live' \<or> ends (fs_span c) xs \<and> fs_span c \<in> live'" for live'
    using inv_locked [OF inv locked_entry [OF inv j] _ _ _ that, of j] j lk by (simp add: same)
  from ends_cases [OF ok(1)] show ?thesis
  proof
    assume "plain_call {fs_span c} x \<and> ends (fs_span c) xs"
    then show ?thesis using step [of live] log_ok_one [OF inv_log [OF inv] _ ok(2)] ok(2) by blast
  next
    assume "x = EndSpan (fs_span c) \<and> xs = []"
    then show ?thesis using step [of "live - {fs_span c}"] log_ok_end [OF inv_log [OF inv] ok(2)] by auto
  qed
qed

text \<open>Taking the mutex and finding an entry.\<close>

lemma hooks_inv_enter:
  assumes inv: "hooks_inv live h" and "hs_threads h j = T_idle" and free: "hs_lock h = None"
    and f: "ps_fd_span_map (hs_shared h) f = Some c" and cs: "ends (fs_span c) cs"
  shows "hooks_inv live (move j (T_locked f c cs) (hs_shared h) (h\<lparr>hs_lock := Some j\<rparr>))"
proof -
  have "hs_threads h k \<noteq> T_locked f c []" for k
    using inv free unfolding hooks_inv_def lock_ok_def by (metis option.distinct(1))
  then have "fs_span c \<in> live" using inv f unfolding hooks_inv_def map_spans_ok_def by blast
  then show ?thesis using assms by (intro inv_locked [OF inv f]) (auto simp: inv_log)
qed

lemma keeps_optional [simp]: "keeps i (optional_header hm k a i)"
  by (simp add: keeps_def)

lemma pending_ok:
  "thread_ok (insert i live) m (T_own i (accept_pending i r s) None)"
  "thread_ok (insert i live) m (T_own i (request_pending i data meth path n s) (request_entry i f meth path s))"
  "ends (fs_span c) (response_pending c mem n)" "ends k [EndSpan k]"
proof -
  show "thread_ok (insert i live) m (T_own i (accept_pending i r s) None)"
  proof (cases "server_port_attr s")
    case (Inr port)
    then have "accept_pending i r s = butlast (accept_pending i r s) @ [EndSpan i]" "keeps i (butlast (accept_pending i r s))"
      by (simp_all add: accept_pending_def keeps_def)
    then have "ends i (accept_pending i r s)" unfolding ends_def by blast
    then show ?thesis by simp
  qed (simp add: accept_pending_def keeps_def)
  show "thread_ok (insert i live) m (T_own i (request_pending i data meth path n s) (request_entry i f meth path s))"
    by (cases "server_port_attr s") (simp_all add: request_pending_def request_entry_def keeps_def)
  show "ends (fs_span c) (response_pending c mem n)"
    by (auto simp: response_pending_def ends_def keeps_def status_calls_def split: option.splits)
  show "ends k [EndSpan k]" by (simp add: ends_def keeps_def)
qed

lemma hooks_step_inv: "hooks_step h h' \<Longrightarrow> hooks_inv live h \<Longrightarrow> \<exists>live'. hooks_inv live' h'"
proof (induction rule: hooks_step.induct)
  case (h_accept h j r i s)
  have "start_span ''HTTP accept'' (StartSpanOptions\<lparr>so_kind := kServer\<rparr>) ((hs_shared h)\<lparr>ps_heap := ps_heap (hs_shared h)\<rparr>) = (i, s)"
    using h_accept(4) by simp
  from inv_start [OF h_accept.prems h_accept(1) this pending_ok(1)] show ?case by blast
next
  case (h_read h j n data buf first_line meth path heap ctx_out i s f)
  show ?case by (rule exI, rule inv_start [OF h_read.prems h_read(1) h_read(9) pending_ok(2)])
next
  case (h_own_call h j i c cs e)
  then show ?case by (intro inv_own_call)
next
  case (h_own_return h j i)
  have ap: "apart h" and j: "owns (hs_threads h j) = Some i" using h_own_return by (simp_all add: hooks_inv_def)
  have "hooks_inv live (move j T_idle (hs_shared h) h)"
  proof (rule inv_thread [OF h_own_return.prems, where i = i])
    show "i < ps_next_span (hs_shared h)" using ap j unfolding apart_def by blast
    show "k = j" if "span_of (hs_threads h k) = Some i" for k
      using spans_apart [OF h_own_return.prems that span_of_owns [OF j]] .
    show "fs_span c \<noteq> i" if "ps_fd_span_map (hs_shared h) f = Some c" for f c by (rule apart_map [OF ap j that])
  qed (use h_own_return in \<open>simp_all add: inv_log\<close>)
  then show ?case by blast
next
  case (h_own_store h j i f c)
  then show ?case by (intro exI inv_store)
next
  case (h_write h j n f c mem)
  then show ?case by (intro exI hooks_inv_enter pending_ok(3))
next
  case (h_close h j f c)
  then show ?case by (intro exI hooks_inv_enter pending_ok(4))
next
  case (h_locked_call h j f c x xs)
  then show ?case by (intro inv_locked_call)
next
  case (h_unlock h j f c)
  then show ?case by (intro exI inv_unlock)
qed

lemma hooks_start_inv: "wf_preload s \<Longrightarrow> \<exists>live. hooks_inv live (hooks_start s)"
  by (auto simp: wf_preload_def map_ok_def hooks_inv_defs hooks_start_def)

lemma hooks_reach_inv: "hooks_reach s h \<Longrightarrow> wf_preload s \<Longrightarrow> \<exists>live. hooks_inv live h"
  by (induction rule: hooks_reach.induct) (auto intro: hooks_start_inv dest: hooks_step_inv)

subsection \<open>A hook that runs alone\<close>

lemma move_move [simp]: "move j t s (move j t' s' h) = move j t s h"
  by (simp add: move_def)


lemma emit_Nil [simp]: "emit [] s = s"
  by (simp add: emit_def)

lemma emit_emit [simp]: "emit ds (emit cs s) = emit (cs @ ds) s"
  by (simp add: emit_def)










lemma hook_write_init:
  "ps_tracer (snd (hook_write env sdk f m n s)) = ps_tracer (init_tracer_lazy env sdk s)"
  "ps_initialized (snd (hook_write env sdk f m n s)) = ps_initialized (init_tracer_lazy env sdk s)"
  by (simp_all add: hook_write_def Let_def split: option.split)

lemma demo_init: "ps_tracer (preload_init demo_env demo_sdk demo_write preload_start)"
proof -
  have i: "ps_tracer (init_tracer_lazy demo_env demo_sdk preload_start) \<and> ps_initialized (init_tracer_lazy demo_env demo_sdk preload_start)"
    by (simp add: init_tracer_lazy_def preload_start_def Let_def demo_env_def demo_sdk_def console_def)
  have again: "ps_initialized s \<Longrightarrow> init_tracer_lazy demo_env demo_sdk s = s" for s by (simp add: init_tracer_lazy_def)
  show ?thesis unfolding preload_init_def preload_log_def Let_def using i by (simp add: hook_write_init again)
qed

text \<open>C5: Several threads run the hooks at the same time, their calls on the SDK interleaved in every possible way from the
  moment the library was loaded. The calls still follow the life of a span: every call is on a span that was started and has not
  ended. At most one thread is inside the mutex, no two threads work on the same span, a descriptor of the map has a
  span of its own, and the span is live unless the thread inside the mutex has just ended it and is about to erase the entry.\<close>

theorem concurrent_hooks_follow_protocol:
  assumes "hooks_reach (preload_init env sdk osw preload_start) h"
  shows "\<exists>live. proto (ps_calls (hs_shared h)) ({}, {}) = Some (live, {..<ps_next_span (hs_shared h)}) \<and>
    (\<forall>j k f c cs g d ds. hs_threads h j = T_locked f c cs \<longrightarrow> hs_threads h k = T_locked g d ds \<longrightarrow> j = k) \<and>
    (\<forall>j k i. span_of (hs_threads h j) = Some i \<longrightarrow> span_of (hs_threads h k) = Some i \<longrightarrow> j = k) \<and>
    (\<forall>f c g d. ps_fd_span_map (hs_shared h) f = Some c \<longrightarrow> ps_fd_span_map (hs_shared h) g = Some d \<longrightarrow>
       fs_span c = fs_span d \<longrightarrow> f = g) \<and>
    (\<forall>f c. ps_fd_span_map (hs_shared h) f = Some c \<longrightarrow> fs_span c \<in> live \<or> (\<exists>j. hs_threads h j = T_locked f c []))"
proof -
  have "wf_preload (preload_init env sdk osw preload_start)"
    unfolding preload_init_def by (rule wf_preload_log [OF wf_preload_start])
  then obtain live where inv: "hooks_inv live h" using hooks_reach_inv [OF assms] by blast
  then have l: "lock_ok h" and m: "map_spans_ok h live" by (simp_all add: hooks_inv_def)
  show ?thesis
  proof (intro exI [of _ live] conjI allI impI)
    show "proto (ps_calls (hs_shared h)) ({}, {}) = Some (live, {..<ps_next_span (hs_shared h)})"
      using inv_log [OF inv] by (simp add: log_ok_def)
  qed (use locked_unique [OF l] spans_apart [OF inv] m in \<open>unfold map_spans_ok_def, blast+\<close>)
qed

lemma concurrent_hooks_follow_protocol_witness:
  "\<exists>h :: hooks_state. hs_threads h 0 \<noteq> T_idle \<and> hs_threads h 1 \<noteq> T_idle \<and>
     (\<exists>live. proto (ps_calls (hs_shared h)) ({}, {}) = Some (live, {..<ps_next_span (hs_shared h)}))"
proof -
  let ?s = "preload_init demo_env demo_sdk demo_write preload_start"
  have t: "ps_tracer ?s" by (rule demo_init)
  obtain i s1 where 1: "start_span ''HTTP accept'' (StartSpanOptions\<lparr>so_kind := kServer\<rparr>) ?s = (i, s1)" by fastforce
  let ?h = "move 0 (T_own i (accept_pending i 5 ?s) None) s1 (hooks_start ?s)"
  have h: "hooks_step (hooks_start ?s) ?h" using h_accept [of "hooks_start ?s" 0 5 i s1] 1 t by (simp add: hooks_start_def)
  have t1: "ps_tracer s1" using 1 t by (auto simp: start_span_def)
  obtain k s2 where 2: "start_span ''HTTP accept'' (StartSpanOptions\<lparr>so_kind := kServer\<rparr>) s1 = (k, s2)" by fastforce
  let ?g = "move 1 (T_own k (accept_pending k 6 s1) None) s2 ?h"
  have g: "hooks_step ?h ?g" using h_accept [of ?h 1 6 k s2] 2 t1 by (simp add: hooks_start_def)
  have "hooks_reach ?s ?g" by (rule hooks_reach.step [OF hooks_reach.step [OF hooks_reach.start h] g])
  from concurrent_hooks_follow_protocol [OF this] show ?thesis by (intro exI [of _ ?g]) auto
qed



end
