(* ===== verification/Roll_Dice.thy ===== *)
theory Roll_Dice
  imports Cpp_Prelude
begin

text \<open>
  \<open>roll-dice/main.cpp\<close>: the handlers of the dice server and its route table. The web framework is
  not part of the repository: \<open>request->getQueryParameter\<close> is a function from names to optional
  strings, and the responses are records. \<open>rand()\<close> is a sequence of values (its documented range is
  \<open>0..RAND_MAX\<close>) read at a position that the handlers advance.
\<close>

subsection \<open>Requests, responses and the random sequence\<close>

type_synonym query = "string \<Rightarrow> string option"
type_synonym rand_seq = "nat \<Rightarrow> int"

datatype http_status = CODE_200 | CODE_500

record outgoing_response =
  r_status :: http_status
  r_body :: string

definition rand_ok :: "rand_seq \<Rightarrow> bool" where
  "rand_ok rand \<longleftrightarrow> (\<forall>k. 0 \<le> rand k \<and> rand k \<le> INT_MAX)"

text \<open>The JSON texts are written with a backquote for the double quote and a hat for the backslash.\<close>

definition json :: "string \<Rightarrow> string" where
  "json s = map (\<lambda>c. if c = CHR ''`'' then char_of (34::nat) else if c = CHR ''^'' then char_of (92::nat) else c) s"

text \<open>The idiom of every handler: a parameter is used when it is a number in range, and ignored
  when it is missing, empty, not a number or out of range.\<close>

definition int_param :: "query \<Rightarrow> string \<Rightarrow> int \<Rightarrow> int \<Rightarrow> int \<Rightarrow> int" where
  "int_param q name lo hi dflt =
     (case q name of
        None \<Rightarrow> dflt
      | Some p \<Rightarrow>
          if length p > 0
          then (case stoi (c_str p) of
                  Inl e \<Rightarrow> dflt
                | Inr n \<Rightarrow> if n \<ge> lo \<and> n \<le> hi then n else dflt)
          else dflt)"

definition roll_of :: "int \<Rightarrow> int \<Rightarrow> int" where
  "roll_of r sides = r mod sides + 1"

subsection \<open>Handlers\<close>

definition RootHandler :: outgoing_response where
  "RootHandler =
     \<lparr>r_status = CODE_200,
      r_body = json (''{`service`:`dice-server`,`endpoints`:{`GET /rolldice`:`roll 1-6`,`GET /rolldice?sides=N`:`roll 1..N`,''
        @ ''`GET /rolldice/slow?delay=2`:`sleep then roll`,`GET /rolldice/error`:`returns 500`,''
        @ ''`GET /rolldice/big?sides=100`:`large JSON`,`POST /rolldice`:`body optional {^`sides^`:6}`}}'')\<rparr>"

definition RolldiceHandler :: "query \<Rightarrow> rand_seq \<Rightarrow> nat \<Rightarrow> outgoing_response \<times> nat" where
  "RolldiceHandler q rand k =
     (let sides = int_param q ''sides'' 1 1000 6
      in (\<lparr>r_status = CODE_200, r_body = to_string (roll_of (rand k) sides)\<rparr>, k + 1))"

text \<open>The slow handler also says how many seconds it slept.\<close>

definition RolldiceSlowHandler :: "query \<Rightarrow> rand_seq \<Rightarrow> nat \<Rightarrow> outgoing_response \<times> int \<times> nat" where
  "RolldiceSlowHandler q rand k =
     (let sides = int_param q ''sides'' 1 1000 6;
          delaySec = int_param q ''delay'' 0 60 1;
          roll = roll_of (rand k) sides
      in (\<lparr>r_status = CODE_200,
           r_body = json ''{`roll`:`'' @ to_string roll @ json ''`,`sides`:`'' @ to_string sides
                    @ json ''`,`delay_sec`:`'' @ to_string delaySec @ json ''`}''\<rparr>, delaySec, k + 1))"

definition RolldiceErrorHandler :: outgoing_response where
  "RolldiceErrorHandler = \<lparr>r_status = CODE_500, r_body = json ''{`error`:`dice exploded`}''\<rparr>"

text \<open>The loop \<open>for (int i = 0; i < 200; ++i)\<close> that writes the history.\<close>

function history_loop :: "rand_seq \<Rightarrow> int \<Rightarrow> nat \<Rightarrow> nat \<Rightarrow> string \<Rightarrow> string \<times> nat" where
  "history_loop rand sides i k oss =
     (if i < 200
      then history_loop rand sides (i + 1) (k + 1)
             ((if i \<noteq> 0 then oss @ '','' else oss) @ to_string (roll_of (rand k) sides))
      else (oss, k))"
  by pat_completeness auto
termination
  by (relation "measure (\<lambda>(rand, sides, i, k, oss). 200 - i)") auto

declare history_loop.simps [simp del]

definition RolldiceBigHandler :: "query \<Rightarrow> rand_seq \<Rightarrow> nat \<Rightarrow> outgoing_response \<times> nat" where
  "RolldiceBigHandler q rand k =
     (let sides = int_param q ''sides'' 1 500 100;
          roll = roll_of (rand k) sides;
          oss = json ''{`roll`:'' @ to_string roll @ json '',`sides`:'' @ to_string sides @ json '',`history`:['';
          (oss2, k2) = history_loop rand sides 0 (k + 1) oss
      in (\<lparr>r_status = CODE_200, r_body = oss2 @ '']}''\<rparr>, k2))"

text \<open>The request body is not looked at.\<close>

definition RolldicePostHandler :: "string \<Rightarrow> rand_seq \<Rightarrow> nat \<Rightarrow> outgoing_response \<times> nat" where
  "RolldicePostHandler request_body rand k =
     (let sides = 6;
          roll = roll_of (rand k) sides
      in (\<lparr>r_status = CODE_200,
           r_body = json ''{`roll`:`'' @ to_string roll @ json ''`,`sides`:`'' @ to_string sides @ json ''`}''\<rparr>, k + 1))"

subsection \<open>Routes and main\<close>

datatype handler = H_root | H_rolldice | H_slow | H_error | H_big | H_post

definition routes :: "((string \<times> string) \<times> handler) list" where
  "routes =
     [((''GET'', ''/''), H_root), ((''GET'', ''/rolldice''), H_rolldice), ((''GET'', ''/rolldice/''), H_rolldice),
      ((''GET'', ''/rolldice/slow''), H_slow), ((''GET'', ''/rolldice/error''), H_error), ((''GET'', ''/rolldice/big''), H_big),
      ((''POST'', ''/rolldice''), H_post), ((''POST'', ''/rolldice/''), H_post)]"

fun handle :: "handler \<Rightarrow> query \<Rightarrow> string \<Rightarrow> rand_seq \<Rightarrow> nat \<Rightarrow> outgoing_response \<times> nat" where
  "handle H_root q body rand k = (RootHandler, k)"
| "handle H_rolldice q body rand k = RolldiceHandler q rand k"
| "handle H_slow q body rand k = (case RolldiceSlowHandler q rand k of (r, d, k') \<Rightarrow> (r, k'))"
| "handle H_error q body rand k = (RolldiceErrorHandler, k)"
| "handle H_big q body rand k = RolldiceBigHandler q rand k"
| "handle H_post q body rand k = RolldicePostHandler body rand k"

text \<open>What \<open>main\<close> and \<open>run\<close> ask of the framework, in order; \<open>now\<close> is the result of \<open>time\<close>.\<close>

datatype server_action =
    EnvironmentInit
  | Srand "32 word"
  | AddRoute string string handler
  | ServeOn string nat
  | EnvironmentDestroy

definition run_actions :: "server_action list" where
  "run_actions = map (\<lambda>((m, p), h). AddRoute m p h) routes @ [ServeOn ''0.0.0.0'' 8080]"

definition main_actions :: "int \<Rightarrow> server_action list" where
  "main_actions now = [EnvironmentInit, Srand (word_of_int now)] @ run_actions @ [EnvironmentDestroy]"

subsection \<open>Reference definitions\<close>

fun commas :: "string list \<Rightarrow> string" where
  "commas [] = []"
| "commas [x] = x"
| "commas (x # xs) = x @ '','' @ commas xs"

definition history :: "rand_seq \<Rightarrow> int \<Rightarrow> nat \<Rightarrow> int list" where
  "history rand sides k = map (\<lambda>j. roll_of (rand (k + j)) sides) [0..<200]"

definition big_body :: "int \<Rightarrow> int \<Rightarrow> int list \<Rightarrow> string" where
  "big_body roll sides hist =
     json ''{`roll`:'' @ to_string roll @ json '',`sides`:'' @ to_string sides @ json '',`history`:[''
     @ commas (map to_string hist) @ '']}''"

subsection \<open>Lemmas\<close>

lemma int_param_range: "lo \<le> dflt \<Longrightarrow> dflt \<le> hi \<Longrightarrow> lo \<le> int_param q name lo hi dflt \<and> int_param q name lo hi dflt \<le> hi"
  by (simp add: int_param_def split: option.splits sum.splits)

lemma stoi_c_str [simp]: "stoi (c_str p) = stoi p"
  by (simp add: stoi_def stol_def c_str_def takeWhile_idem)

lemma roll_of_range: "0 \<le> r \<Longrightarrow> 1 \<le> sides \<Longrightarrow> 1 \<le> roll_of r sides \<and> roll_of r sides \<le> sides"
proof -
  assume "0 \<le> r" "1 \<le> sides"
  then have "0 \<le> r mod sides" "r mod sides < sides" by (simp_all add: pos_mod_sign pos_mod_bound)
  then show ?thesis by (simp add: roll_of_def)
qed

lemma nat_digits_c_str: "c_str (nat_digits n) = nat_digits n"
  using nat_digits_isdigit [of NUL n] by (intro c_str_no_nul) (auto simp: isdigit_def)

lemma stoi_to_string:
  assumes "0 \<le> i" and "i \<le> INT_MAX"
  shows "stoi (to_string i) = Inr i"
proof -
  have "strtol10 (nat_digits (nat i) @ []) = \<lparr>st_num = int (nat i), st_used = length (nat_digits (nat i)), st_erange = False\<rparr>"
    using assms by (intro strtol10_nat_digits) (auto simp: INT_MAX_def LONG_MAX_def)
  then show ?thesis
    using assms by (simp add: stoi_def stol_def to_string_def nat_digits_c_str INT_MIN_def)
qed

lemma commas_snoc: "xs \<noteq> [] \<Longrightarrow> commas (xs @ [y]) = commas xs @ '','' @ y"
  by (induction xs rule: commas.induct) auto

lemma history_loop_eq:
  "i \<le> 200 \<Longrightarrow>
   history_loop rand sides i (k + i) (pre @ commas (map to_string (map (\<lambda>j. roll_of (rand (k + j)) sides) [0..<i]))) =
     (pre @ commas (map to_string (history rand sides k)), k + 200)"
proof (induction "200 - i" arbitrary: i)
  case 0
  then show ?case by (subst history_loop.simps) (simp add: history_def)
next
  case (Suc d)
  let ?h = "\<lambda>i. map to_string (map (\<lambda>j. roll_of (rand (k + j)) sides) [0..<i])"
  have lt: "i < 200" using Suc.hyps(2) by simp
  have "commas (?h (Suc i)) = (if i \<noteq> 0 then commas (?h i) @ '','' else []) @ to_string (roll_of (rand (k + i)) sides)"
    using commas_snoc [of "?h i"] by simp
  then have "history_loop rand sides i (k + i) (pre @ commas (?h i)) = history_loop rand sides (Suc i) (k + Suc i) (pre @ commas (?h (Suc i)))"
    using lt by (subst history_loop.simps) simp
  also have "\<dots> = (pre @ commas (map to_string (history rand sides k)), k + 200)"
    using Suc.hyps(2) lt by (intro Suc.hyps(1)) auto
  finally show ?case .
qed

subsection \<open>Properties\<close>

text \<open>C37: \<open>GET /rolldice\<close> answers 200 with a number between 1 and the number of sides, which is the
  \<open>sides\<close> parameter when that is a number from 1 to 1000 and 6 otherwise, whatever the parameter
  holds; the body reads back as that number.\<close>

theorem rolldice_rolls_in_range:
  assumes "rand_ok rand"
  shows "\<exists>roll sides. RolldiceHandler q rand k = (\<lparr>r_status = CODE_200, r_body = to_string roll\<rparr>, k + 1) \<and>
    stoi (to_string roll) = Inr roll \<and> 1 \<le> roll \<and> roll \<le> sides \<and> 1 \<le> sides \<and> sides \<le> 1000 \<and>
    (case q ''sides'' of
       Some p \<Rightarrow> (case stoi p of Inr n \<Rightarrow> if p \<noteq> [] \<and> 1 \<le> n \<and> n \<le> 1000 then sides = n else sides = 6 | Inl _ \<Rightarrow> sides = 6)
     | None \<Rightarrow> sides = 6)"
proof -
  let ?sides = "int_param q ''sides'' 1 1000 6"
  let ?roll = "roll_of (rand k) ?sides"
  have s: "1 \<le> ?sides" "?sides \<le> 1000" using int_param_range [of 1 6 1000 q "''sides''"] by auto
  have r: "1 \<le> ?roll" "?roll \<le> ?sides" using assms s roll_of_range [of "rand k" ?sides] by (auto simp: rand_ok_def)
  have "stoi (to_string ?roll) = Inr ?roll" using r s by (intro stoi_to_string) (auto simp: INT_MAX_def)
  then show ?thesis
    using r s by (intro exI [of _ ?roll] exI [of _ ?sides])
      (auto simp: RolldiceHandler_def int_param_def split: option.splits sum.splits)
qed

lemma rolldice_rolls_in_range_witness:
  "\<exists>roll sides. RolldiceHandler [''sides'' \<mapsto> ''20''] (\<lambda>_. 45) 0 = (\<lparr>r_status = CODE_200, r_body = to_string roll\<rparr>, 0 + 1) \<and>
    1 \<le> roll \<and> roll \<le> sides \<and> sides = 20"
proof -
  have r: "rand_ok (\<lambda>_. 45)" by (simp add: rand_ok_def INT_MAX_def)
  have p: "stoi ''20'' = Inr 20" by code_simp
  show ?thesis
    using rolldice_rolls_in_range [OF r, of "[''sides'' \<mapsto> ''20'']" 0] by (auto simp: p)
qed

text \<open>\<open>GET /rolldice/big\<close> builds a JSON object with the roll, the sides and a history of exactly
  200 rolls, all of them from 1 to the number of sides (at most 500).\<close>

theorem big_handler_history:
  assumes "rand_ok rand"
  shows "\<exists>roll sides hist. RolldiceBigHandler q rand k =
      (\<lparr>r_status = CODE_200, r_body = big_body roll sides hist\<rparr>, k + 201) \<and>
    length hist = 200 \<and> list_all (\<lambda>h. 1 \<le> h \<and> h \<le> sides) (roll # hist) \<and> sides \<le> 500"
proof -
  let ?sides = "int_param q ''sides'' 1 500 100"
  have s: "1 \<le> ?sides" "?sides \<le> 500" using int_param_range [of 1 100 500 q "''sides''"] by auto
  have r: "1 \<le> roll_of (rand j) ?sides \<and> roll_of (rand j) ?sides \<le> ?sides" for j
    using assms s roll_of_range [of "rand j" ?sides] by (auto simp: rand_ok_def)
  have h: "history_loop rand ?sides 0 (Suc k) pre = (pre @ commas (map to_string (history rand ?sides (Suc k))), Suc k + 200)" for pre
    using history_loop_eq [of 0 rand ?sides "Suc k" pre] by simp
  show ?thesis
    using r s by (intro exI [of _ "roll_of (rand k) ?sides"] exI [of _ ?sides] exI [of _ "history rand ?sides (Suc k)"])
      (auto simp: RolldiceBigHandler_def Let_def h history_def list_all_iff big_body_def)
qed

lemma big_handler_history_witness:
  "\<exists>roll sides hist. RolldiceBigHandler Map.empty (\<lambda>_. 0) 0 =
      (\<lparr>r_status = CODE_200, r_body = big_body roll sides hist\<rparr>, 201) \<and> length hist = 200 \<and> sides \<le> 500"
proof -
  have r: "rand_ok (\<lambda>_. 0)" by (simp add: rand_ok_def INT_MAX_def)
  show ?thesis using big_handler_history [OF r, of Map.empty 0] by auto
qed

text \<open>The handlers of all routes are total and answer 200, except \<open>GET /rolldice/error\<close>, which
  answers 500; no route is registered twice.\<close>

theorem route_table_statuses:
  "distinct (map fst routes) \<and>
   r_status (fst (handle h q body rand k)) = (if h = H_error then CODE_500 else CODE_200) \<and>
   map_of routes (''GET'', ''/rolldice/error'') = Some H_error"
  by (cases h) (simp_all add: routes_def RootHandler_def RolldiceHandler_def RolldiceSlowHandler_def
      RolldiceErrorHandler_def RolldiceBigHandler_def RolldicePostHandler_def Let_def split: prod.splits)

end
