(* ===== verification/Ads_Demo.thy ===== *)
theory Ads_Demo
  imports Cpp_Prelude
begin

text \<open>
  The ADS demo programs: \<open>ads_server.cpp\<close> (the copy under \<open>docker/src\<close> is the same file),
  \<open>ads_client.cpp\<close> and \<open>docker/src/ads_client/ads_client.cpp\<close>. Each program is the sequence of
  system calls and outputs it makes; what the system calls return is an argument. A thread of the
  server runs \<open>handle_client\<close>; the threads interleave freely.
\<close>

subsection \<open>Actions\<close>

datatype io_action =
    Socket
  | Bind int nat
  | Listen int nat
  | Print string
  | PrintErr string
  | Accept int
  | Spawn int
  | Resolve string
  | Connect int string nat
  | Read int nat
  | Send int string
  | Close int
  | Exit nat


subsection \<open>The server\<close>

text \<open>\<open>bytes\<close> is what \<open>read\<close> returned and \<open>buffer\<close> what the 1024-byte buffer then holds.\<close>

definition greeting :: string where "greeting = ''Hello from ADS! You sent: ''"

definition handle_client :: "int \<Rightarrow> int \<Rightarrow> string \<Rightarrow> io_action list" where
  "handle_client client_socket bytes buffer =
     [Read client_socket 1024]
     @ (if bytes > 0
        then let request = take (nat bytes) buffer
             in [Print (''Received: '' @ request), Send client_socket (greeting @ request)]
        else [])
     @ [Close client_socket]"

text \<open>The main thread: setup, then one thread per \<open>accept\<close>, whatever \<open>accept\<close> returned. The loop
  never ends; \<open>accepted\<close> is the results of its first rounds.\<close>

fun accept_loop :: "int \<Rightarrow> int list \<Rightarrow> io_action list" where
  "accept_loop server_fd [] = []"
| "accept_loop server_fd (c # cs) = Accept server_fd # Spawn c # accept_loop server_fd cs"

definition ads_server_main :: "int \<Rightarrow> int list \<Rightarrow> io_action list" where
  "ads_server_main server_fd accepted =
     [Socket, Bind server_fd 5000, Listen server_fd 5, Print ''ADS Hello World Server listening on port 5000...'']
     @ accept_loop server_fd accepted"

subsection \<open>The clients\<close>

definition hello :: string where "hello = ''Hello ADS Server!''"

text \<open>\<open>std::cout << buffer\<close> prints up to the first NUL; \<open>mem\<close> is the 1024 bytes of the buffer and
  what lies after it.\<close>

definition print_buffer :: "string \<Rightarrow> io_action" where
  "print_buffer mem = Print (''Server responded: '' @ c_str mem)"

definition ads_client_main :: "int \<Rightarrow> string \<Rightarrow> io_action list" where
  "ads_client_main sock mem =
     [Socket, Connect sock ''127.0.0.1'' 5000, Send sock hello, Read sock 1024, print_buffer mem, Close sock, Exit 0]"

text \<open>The client of the container setup checks what it is told.\<close>

definition docker_client_main :: "int \<Rightarrow> string option \<Rightarrow> int \<Rightarrow> string \<Rightarrow> io_action list" where
  "docker_client_main sock host connected mem =
     Socket #
     (if sock < 0 then [PrintErr ''socket'', Exit 1]
      else Resolve ''ads_server'' #
        (case host of
           None \<Rightarrow> [PrintErr ''Error: could not resolve host'', Exit 1]
         | Some addr \<Rightarrow>
             Connect sock addr 5000 #
             (if connected < 0 then [PrintErr ''connect'', Exit 1]
              else [Send sock hello, Read sock 1024, print_buffer mem, Close sock, Exit 0])))"

text \<open>The buffer after \<open>read\<close> delivered \<open>data\<close>: the rest is still zero.\<close>

definition buffer_after :: "string \<Rightarrow> string" where
  "buffer_after data = take 1024 data @ replicate (1024 - length data) NUL"



subsection \<open>Lemmas\<close>





lemma take_buffer_after: "length data \<le> 1024 \<Longrightarrow> take (length data) (buffer_after data) = data"
  by (simp add: buffer_after_def)

lemma c_str_buffer_after: "length data < 1024 \<Longrightarrow> NUL \<notin> set data \<Longrightarrow> c_str (buffer_after data @ beyond) = data"
proof -
  assume a: "length data < 1024" "NUL \<notin> set data"
  then obtain k where k: "1024 - length data = Suc k" by (cases "1024 - length data") auto
  have "takeWhile (\<lambda>c. c \<noteq> NUL) (data @ NUL # x) = data" for x
    using a(2) by (subst takeWhile_append2) auto
  then show ?thesis using a(1) k by (simp add: c_str_def buffer_after_def)
qed

subsection \<open>Properties\<close>



text \<open>The demo conversation. When the server reads the client's message and the client reads the
  reply, the client prints the greeting with its own message and exits with 0, whatever lies behind
  its buffer.\<close>

theorem client_prints_the_echo:
  "\<exists>reply. Send c reply \<in> set (handle_client c (int (length hello)) (buffer_after hello)) \<and>
     Print ''Server responded: Hello from ADS! You sent: Hello ADS Server!'' \<in> set (ads_client_main s (buffer_after reply @ beyond)) \<and>
     last (ads_client_main s (buffer_after reply @ beyond)) = Exit 0"
proof -
  let ?r = "greeting @ hello"
  have "Send c ?r \<in> set (handle_client c (int (length hello)) (buffer_after hello))"
    using take_buffer_after [of hello] by (simp add: handle_client_def Let_def) (simp add: hello_def)
  moreover have "c_str (buffer_after ?r @ beyond) = ?r"
    by (rule c_str_buffer_after) (simp_all add: greeting_def hello_def char_of_eq_iff)
  ultimately show ?thesis
    by (intro exI [of _ ?r]) (simp add: ads_client_main_def print_buffer_def greeting_def hello_def)
qed

text \<open>The container client never sends on a connection it does not have: it sends exactly when
  the socket, the name and the connection are all there, and then exits with 0; otherwise it reports
  an error and exits with 1.\<close>

theorem docker_client_checks_errors:
  "let as = docker_client_main sock host connected mem; ok = (sock \<ge> 0 \<and> host \<noteq> None \<and> connected \<ge> 0)
   in (Send sock hello \<in> set as) = ok \<and> last as = Exit (if ok then 0 else 1) \<and>
      (\<exists>m. PrintErr m \<in> set as) = (\<not> ok)"
  by (auto simp: docker_client_main_def print_buffer_def split: option.splits)

end
