(* ===== verification/Preload_Ads.thy ===== *)
theory Preload_Ads
  imports Complex_Main Otel_Api
begin

text \<open>
  The two preload libraries of the ADS demo: \<open>libotel_preload.cpp\<close>, which hooks \<open>accept\<close> and \<open>read\<close>
  and reports each call as a finished span, and \<open>docker/src/ads_server/libotel_preload.cpp\<close>, which
  sets up the SDK at load time and keeps a table of connections. The SDK's constructors, \<open>dlsym\<close>,
  the environment and the results of the real system calls are arguments.
\<close>

subsection \<open>libotel_preload.cpp\<close>

record lib_state =
  lib_real_accept :: bool
  lib_real_read :: bool
  lib_tracer :: bool
  lib_initialized :: bool
  lib_next_span :: nat
  lib_calls :: "api_call list"
  lib_console :: "string list"

definition lib_start :: lib_state where
  "lib_start =
     \<lparr>lib_real_accept = False, lib_real_read = False, lib_tracer = False, lib_initialized = False,
      lib_next_span = 0, lib_calls = [], lib_console = []\<rparr>"

text \<open>The SDK setup returns, or throws with a message.\<close>

definition init_tracing_lazy :: "string option \<Rightarrow> lib_state \<Rightarrow> lib_state" where
  "init_tracing_lazy sdk_error s =
     (if lib_initialized s then s
      else let s1 = s\<lparr>lib_initialized := True\<rparr>
           in case sdk_error of
                None \<Rightarrow> s1\<lparr>lib_tracer := True, lib_console := lib_console s @ [''[OTEL PRELOAD] Tracing initialized (lazy)'']\<rparr>
              | Some what \<Rightarrow>
                  s1\<lparr>lib_console := lib_console s @ [''[OTEL PRELOAD] Failed to initialize tracing: '' @ what]\<rparr>)"

definition lib_span :: "string \<Rightarrow> string \<Rightarrow> lib_state \<Rightarrow> lib_state" where
  "lib_span name event s =
     s\<lparr>lib_next_span := lib_next_span s + 1,
       lib_calls := lib_calls s @ [StartSpan (lib_next_span s) name StartSpanOptions, AddEvent (lib_next_span s) event,
                                   EndSpan (lib_next_span s)]\<rparr>"

definition lib_accept :: "string option \<Rightarrow> int \<Rightarrow> lib_state \<Rightarrow> int \<times> lib_state" where
  "lib_accept sdk_error client s0 =
     (let s = (init_tracing_lazy sdk_error s0)\<lparr>lib_real_accept := True\<rparr>
      in if client \<noteq> - 1 \<and> lib_tracer s
         then (client, lib_span ''accept_connection'' (''Accepted client socket: '' @ to_string client) s)
         else (client, s))"

definition lib_read :: "string option \<Rightarrow> fd \<Rightarrow> int \<Rightarrow> lib_state \<Rightarrow> int \<times> lib_state" where
  "lib_read sdk_error f bytes s0 =
     (let s = (init_tracing_lazy sdk_error s0)\<lparr>lib_real_read := True\<rparr>
      in if bytes > 0 \<and> lib_tracer s
         then (bytes, lib_span ''read_from_socket'' (''Read '' @ to_string bytes @ '' bytes from fd: '' @ to_string f) s)
         else (bytes, s))"

datatype lib_event = Lib_accept int | Lib_read fd int

fun lib_run :: "string option \<Rightarrow> lib_event list \<Rightarrow> lib_state \<Rightarrow> lib_state" where
  "lib_run e [] s = s"
| "lib_run e (Lib_accept r # evs) s = lib_run e evs (snd (lib_accept e r s))"
| "lib_run e (Lib_read f n # evs) s = lib_run e evs (snd (lib_read e f n s))"

subsection \<open>docker libotel_preload.cpp: environment helpers\<close>

type_synonym env_vars = "string \<Rightarrow> string option"

definition getenv_str :: "env_vars \<Rightarrow> string \<Rightarrow> string \<Rightarrow> string" where
  "getenv_str env k defv = (case env k of Some v \<Rightarrow> if v \<noteq> [] then v else defv | None \<Rightarrow> defv)"

text \<open>\<open>fgets\<close> of a 256-byte buffer: up to 255 bytes, up to and including a newline, \<^term>\<open>None\<close> at
  the end of the file. \<open>comm\<close> is the contents of \<open>/proc/self/comm\<close>, \<^term>\<open>None\<close> if it cannot be
  opened.\<close>

definition fgets256 :: "string \<Rightarrow> string option" where
  "fgets256 file =
     (if file = [] then None
      else let line = (case index_of (\<lambda>c. c = LF) file of Some i \<Rightarrow> take (i + 1) file | None \<Rightarrow> file)
           in Some (take 255 line))"

definition get_service_name :: "env_vars \<Rightarrow> string option \<Rightarrow> string" where
  "get_service_name env comm =
     (let s = (case env ''OTEL_SERVICE_NAME'' of Some s \<Rightarrow> s | None \<Rightarrow> [])
      in if s \<noteq> [] then s
         else case comm of
                None \<Rightarrow> ''unknown-cpp-process''
              | Some file \<Rightarrow>
                  (case fgets256 file of
                     None \<Rightarrow> ''unknown-cpp-process''
                   | Some buf \<Rightarrow> let b = c_str buf in if b \<noteq> [] \<and> last b = LF then butlast b else b))"

subsection \<open>Sampler\<close>

text \<open>A \<open>double\<close>: not a number, or a value of an ordered field; \<open>atof\<close> is an argument.\<close>

datatype 'd dbl = NaN | Num 'd

fun dbl_less :: "'d::linordered_field dbl \<Rightarrow> 'd \<Rightarrow> bool" where
  "dbl_less NaN x = False"
| "dbl_less (Num y) x = (y < x)"

fun dbl_greater :: "'d::linordered_field dbl \<Rightarrow> 'd \<Rightarrow> bool" where
  "dbl_greater NaN x = False"
| "dbl_greater (Num y) x = (y > x)"

datatype 'd sampler = AlwaysOnSampler | TraceIdRatioBasedSampler "'d dbl"

definition choose_sampler :: "(string \<Rightarrow> 'd::linordered_field dbl) \<Rightarrow> env_vars \<Rightarrow> 'd sampler" where
  "choose_sampler atof env =
     (case env ''OTEL_TRACES_SAMPLER'' of
        Some smp \<Rightarrow>
          if smp = ''ratio''
          then let ratio = (case env ''OTEL_TRACES_SAMPLER_ARG'' of
                              None \<Rightarrow> Num 1
                            | Some arg \<Rightarrow>
                                let r = atof arg;
                                    r1 = (if dbl_less r 0 then Num 0 else r)
                                in if dbl_greater r1 1 then Num 1 else r1)
               in TraceIdRatioBasedSampler ratio
          else AlwaysOnSampler
      | None \<Rightarrow> AlwaysOnSampler)"

subsection \<open>State\<close>

record conn_span =
  cs_span :: "nat option"
  cs_peer_ip :: string
  cs_peer_port :: int
  cs_is_client :: bool

record 'd docker_state =
  dk_inited :: bool
  dk_tracer :: bool
  dk_provider :: bool
  dk_sampler :: "'d sampler option"
  dk_resource :: "(string \<times> string) list"
  dk_fd_spans :: "fd \<rightharpoonup> conn_span"
  dk_real :: "string \<Rightarrow> bool"
  dk_stderr :: string
  dk_calls :: "api_call list"

definition docker_start :: "'d docker_state" where
  "docker_start =
     \<lparr>dk_inited = False, dk_tracer = False, dk_provider = False, dk_sampler = None, dk_resource = [],
      dk_fd_spans = Map.empty, dk_real = (\<lambda>_. False), dk_stderr = [], dk_calls = []\<rparr>"

text \<open>\<open>write(STDERR_FILENO, msg, n)\<close>: the first \<open>n\<close> bytes of \<open>msg\<close> and its NUL.\<close>

definition write_err :: "string \<Rightarrow> nat \<Rightarrow> 'd docker_state \<Rightarrow> 'd docker_state" where
  "write_err msg n s = s\<lparr>dk_stderr := dk_stderr s @ take n (msg @ [NUL])\<rparr>"

text \<open>\<open>get_tracer\<close>: the global provider always has a tracer.\<close>

definition get_tracer :: "'d docker_state \<Rightarrow> 'd docker_state" where
  "get_tracer s = (if \<not> dk_tracer s then s\<lparr>dk_tracer := True\<rparr> else s)"

definition set_common_net_attrs :: "nat \<Rightarrow> fd \<Rightarrow> string \<Rightarrow> 'd docker_state \<Rightarrow> 'd docker_state" where
  "set_common_net_attrs i f op s =
     s\<lparr>dk_calls := dk_calls s @ [SetAttribute i ''syscall'' (AV_cstring op),
                                 SetAttribute i ''net.sock.fd'' (AV_int32 (word_of_int f))]\<rparr>"

text \<open>\<open>getnameinfo\<close> gives host and service, or fails; a null address is not asked about.\<close>

definition addr_to_ip_port :: "(string \<times> string) option \<Rightarrow> string \<times> int \<Rightarrow> string \<times> int" where
  "addr_to_ip_port nameinfo ip_port =
     (case nameinfo of None \<Rightarrow> ip_port | Some (host, serv) \<Rightarrow> (host, atoi serv))"

definition capture_peer_from_fd :: "(string \<times> string) option option \<Rightarrow> string \<times> int \<Rightarrow> string \<times> int" where
  "capture_peer_from_fd peer ip_port =
     (case peer of None \<Rightarrow> ip_port | Some nameinfo \<Rightarrow> addr_to_ip_port nameinfo ip_port)"

definition dlsym_message :: string where "dlsym_message = ''[otel-preload] dlsym failed for ''"

definition resolve :: "(string \<Rightarrow> bool) \<Rightarrow> string \<Rightarrow> 'd docker_state \<Rightarrow> 'd docker_state" where
  "resolve dlsym name s =
     (let s1 = (if \<not> dlsym name then write_err [LF] 1 (write_err name (length name) (write_err dlsym_message 31 s)) else s)
      in s1\<lparr>dk_real := (dk_real s1)(name := dlsym name)\<rparr>)"

definition hooked_calls :: "string list" where
  "hooked_calls = [''accept'', ''read'', ''write'', ''recv'', ''send'', ''close'', ''connect'', ''pthread_create'']"

text \<open>What the SDK's code does when it is set up: it returns, one of the constructors before
  \<open>SetTracerProvider\<close> throws, or \<open>GetTracer\<close> after it throws.\<close>

datatype sdk_outcome = Sdk_returns | Sdk_constructor_throws | Sdk_get_tracer_throws

definition init_failed_message :: string where "init_failed_message = ''[otel-preload] OTEL init failed'' @ [LF]"

definition init_done_message :: string where
  "init_done_message = ''[otel-preload] OpenTelemetry initialized'' @ [LF]"

definition service_resource :: "env_vars \<Rightarrow> string option \<Rightarrow> (string \<times> string) list" where
  "service_resource env comm =
     [(''service.name'', get_service_name env comm), (''telemetry.sdk.language'', ''cpp''),
      (''telemetry.instrumentation_library'', ''otel-preload'')]"

definition init_tracing_once ::
    "(string \<Rightarrow> 'd::linordered_field dbl) \<Rightarrow> env_vars \<Rightarrow> string option \<Rightarrow> (string \<Rightarrow> bool) \<Rightarrow> sdk_outcome \<Rightarrow>
     'd docker_state \<Rightarrow> 'd docker_state" where
  "init_tracing_once atof env comm dlsym sdk s =
     (if dk_inited s then s
      else let s1 = s\<lparr>dk_inited := True\<rparr>
           in if sdk = Sdk_constructor_throws then write_err init_failed_message 32 s1
              else let s2 = s1\<lparr>dk_resource := service_resource env comm,
                               dk_sampler := Some (choose_sampler atof env), dk_provider := True\<rparr>
                   in if sdk = Sdk_get_tracer_throws then write_err init_failed_message 32 s2
                      else let s3 = fold (resolve dlsym) hooked_calls (s2\<lparr>dk_tracer := True\<rparr>)
                           in write_err init_done_message 41 s3)"

text \<open>\<open>shutdown_tracing\<close> acts when the global provider is the SDK's.\<close>

definition shutdown_tracing :: "'d docker_state \<Rightarrow> 'd docker_state" where
  "shutdown_tracing s = (if dk_provider s then s\<lparr>dk_calls := dk_calls s @ [ForceFlush, Shutdown]\<rparr> else s)"

definition start_fd_span_if_needed :: "fd \<Rightarrow> bool \<Rightarrow> string \<Rightarrow> int \<Rightarrow> string \<Rightarrow> 'd docker_state \<Rightarrow> 'd docker_state" where
  "start_fd_span_if_needed f is_client ip port func_name s =
     s\<lparr>dk_fd_spans := (dk_fd_spans s)(f \<mapsto> \<lparr>cs_span = None, cs_peer_ip = ip, cs_peer_port = port, cs_is_client = is_client\<rparr>)\<rparr>"

definition annotate_bytes :: "fd \<Rightarrow> string \<Rightarrow> int \<Rightarrow> 'd docker_state \<Rightarrow> 'd docker_state" where
  "annotate_bytes f direction n s = s"

definition end_fd_span :: "fd \<Rightarrow> string \<Rightarrow> 'd docker_state \<Rightarrow> 'd docker_state" where
  "end_fd_span f func_name s = s\<lparr>dk_fd_spans := (dk_fd_spans s)(f := None)\<rparr>"

definition ctor_init ::
    "(string \<Rightarrow> 'd::linordered_field dbl) \<Rightarrow> env_vars \<Rightarrow> string option \<Rightarrow> (string \<Rightarrow> bool) \<Rightarrow> sdk_outcome \<Rightarrow> 'd docker_state \<Rightarrow> 'd docker_state" where
  "ctor_init atof env comm dlsym sdk s = init_tracing_once atof env comm dlsym sdk s"

definition dtor_shutdown :: "'d docker_state \<Rightarrow> 'd docker_state" where
  "dtor_shutdown s = shutdown_tracing s"

text \<open>The library as the dynamic linker leaves it.\<close>

definition docker_loaded ::
    "(string \<Rightarrow> 'd::linordered_field dbl) \<Rightarrow> env_vars \<Rightarrow> string option \<Rightarrow> (string \<Rightarrow> bool) \<Rightarrow> sdk_outcome \<Rightarrow> 'd docker_state" where
  "docker_loaded atof env comm dlsym sdk = ctor_init atof env comm dlsym sdk docker_start"

text \<open>What the event text of a successful call reports.\<close>

fun reported :: "lib_event \<Rightarrow> bool" where
  "reported (Lib_accept r) \<longleftrightarrow> r \<noteq> - 1"
| "reported (Lib_read f n) \<longleftrightarrow> n > 0"

text \<open>The log of calls is a run of the span protocol with no live span left, whose ended spans are
  the identifiers handed out so far.\<close>

definition lib_ok :: "lib_state \<Rightarrow> bool" where
  "lib_ok s \<longleftrightarrow> proto (lib_calls s) ({}, {}) = Some ({}, {..<lib_next_span s})"

definition tracer_matches :: "string option \<Rightarrow> lib_state \<Rightarrow> bool" where
  "tracer_matches e s \<longleftrightarrow> lib_tracer s = (lib_initialized s \<and> e = None)"

subsection \<open>Lemmas\<close>

lemma init_tracing_lazy_simps [simp]:
  "lib_calls (init_tracing_lazy e s) = lib_calls s" "lib_next_span (init_tracing_lazy e s) = lib_next_span s"
  "lib_initialized (init_tracing_lazy e s)"
  by (auto simp: init_tracing_lazy_def Let_def split: option.splits)

lemma init_tracing_lazy_idem [simp]: "init_tracing_lazy e (init_tracing_lazy e s) = init_tracing_lazy e s"
  by (simp add: init_tracing_lazy_def [of e "init_tracing_lazy e s"])

lemma lib_accept_calls:
  "lib_calls (snd (lib_accept e r s)) = lib_calls s @
     (if r \<noteq> - 1 \<and> lib_tracer (init_tracing_lazy e s)
      then [StartSpan (lib_next_span s) ''accept_connection'' StartSpanOptions,
            AddEvent (lib_next_span s) (''Accepted client socket: '' @ to_string r), EndSpan (lib_next_span s)] else [])"
  by (simp add: lib_accept_def lib_span_def Let_def)

lemma lib_read_calls:
  "lib_calls (snd (lib_read e f n s)) = lib_calls s @
     (if n > 0 \<and> lib_tracer (init_tracing_lazy e s)
      then [StartSpan (lib_next_span s) ''read_from_socket'' StartSpanOptions,
            AddEvent (lib_next_span s) (''Read '' @ to_string n @ '' bytes from fd: '' @ to_string f), EndSpan (lib_next_span s)] else [])"
  by (simp add: lib_read_def lib_span_def Let_def)

lemma lib_next_span_step:
  "lib_next_span (snd (lib_accept e r s)) = lib_next_span s + (if r \<noteq> - 1 \<and> lib_tracer (init_tracing_lazy e s) then 1 else 0)"
  "lib_next_span (snd (lib_read e f n s)) = lib_next_span s + (if n > 0 \<and> lib_tracer (init_tracing_lazy e s) then 1 else 0)"
  by (simp_all add: lib_accept_def lib_read_def lib_span_def Let_def)

lemma lib_ok_span:
  assumes "lib_ok s" and "lib_calls s' = lib_calls s @ [StartSpan (lib_next_span s) nm opts, AddEvent (lib_next_span s) ev, EndSpan (lib_next_span s)]"
    and "lib_next_span s' = Suc (lib_next_span s)"
  shows "lib_ok s'"
  using assms by (auto simp: lib_ok_def proto_append lessThan_Suc)

lemma lib_ok_run: "lib_ok s \<Longrightarrow> lib_ok (lib_run e evs s)"
proof (induction e evs s rule: lib_run.induct)
  case (2 e r evs s)
  have "lib_ok (snd (lib_accept e r s))"
  proof (cases "r \<noteq> - 1 \<and> lib_tracer (init_tracing_lazy e s)")
    case True
    then show ?thesis
      by (intro lib_ok_span [OF "2.prems"]) (auto simp: lib_accept_calls lib_next_span_step)
  next
    case False
    then show ?thesis using "2.prems" by (auto simp: lib_ok_def lib_accept_calls lib_next_span_step)
  qed
  with "2.IH" show ?case by simp
next
  case (3 e f n evs s)
  have "lib_ok (snd (lib_read e f n s))"
  proof (cases "n > 0 \<and> lib_tracer (init_tracing_lazy e s)")
    case True
    then show ?thesis
      by (intro lib_ok_span [OF "3.prems"]) (auto simp: lib_read_calls lib_next_span_step)
  next
    case False
    then show ?thesis using "3.prems" by (auto simp: lib_ok_def lib_read_calls lib_next_span_step)
  qed
  with "3.IH" show ?case by simp
qed simp

lemma resolve_real [simp]: "dk_real (resolve dlsym nm s) = (dk_real s)(nm := dlsym nm)"
  by (simp add: resolve_def write_err_def Let_def)

lemma resolve_frame [simp]:
  "dk_fd_spans (resolve dlsym nm s) = dk_fd_spans s" "dk_calls (resolve dlsym nm s) = dk_calls s"
  "dk_tracer (resolve dlsym nm s) = dk_tracer s" "dk_provider (resolve dlsym nm s) = dk_provider s"
  "dk_sampler (resolve dlsym nm s) = dk_sampler s" "dk_inited (resolve dlsym nm s) = dk_inited s"
  by (simp_all add: resolve_def write_err_def Let_def)

lemma fold_resolve_frame [simp]:
  "dk_tracer (fold (resolve dlsym) nms s) = dk_tracer s" "dk_provider (fold (resolve dlsym) nms s) = dk_provider s"
  "dk_sampler (fold (resolve dlsym) nms s) = dk_sampler s" "dk_inited (fold (resolve dlsym) nms s) = dk_inited s"
  "dk_calls (fold (resolve dlsym) nms s) = dk_calls s"
  by (induction nms arbitrary: s) simp_all

lemma fold_resolve_real: "dk_real (fold (resolve dlsym) nms s) nm = (if nm \<in> set nms then dlsym nm else dk_real s nm)"
  by (induction nms arbitrary: s) auto

lemma resolve_stderr:
  "dk_stderr (resolve dlsym nm s) =
     dk_stderr s @ (if dlsym nm then [] else ''[otel-preload] dlsym failed for'' @ nm @ [LF])"
  by (simp add: resolve_def write_err_def dlsym_message_def Let_def)

lemma fold_resolve_stderr:
  "dk_stderr (fold (resolve dlsym) nms s) =
     dk_stderr s @ concat (map (\<lambda>nm. ''[otel-preload] dlsym failed for'' @ nm @ [LF]) (filter (\<lambda>nm. \<not> dlsym nm) nms))"
  by (induction nms arbitrary: s) (simp_all add: resolve_stderr)

lemma write_err_frame [simp]:
  "dk_inited (write_err m n s) = dk_inited s" "dk_tracer (write_err m n s) = dk_tracer s"
  "dk_provider (write_err m n s) = dk_provider s" "dk_sampler (write_err m n s) = dk_sampler s"
  "dk_real (write_err m n s) = dk_real s" "dk_calls (write_err m n s) = dk_calls s"
  "dk_stderr (write_err m n s) = dk_stderr s @ take n (m @ [NUL])"
  by (simp_all add: write_err_def)

lemma message_lengths [simp]: "length init_done_message = 41" "length init_failed_message = 32"
  by (simp_all add: init_done_message_def init_failed_message_def)

lemma tracer_after_init: "tracer_matches e s \<Longrightarrow> lib_tracer (init_tracing_lazy e s) = (e = None)"
  by (cases e) (auto simp: init_tracing_lazy_def tracer_matches_def Let_def)

lemma tracer_matches_step:
  assumes "tracer_matches e s"
  shows "tracer_matches e (snd (lib_accept e r s))" "tracer_matches e (snd (lib_read e f n s))"
  using tracer_after_init [OF assms] by (auto simp: tracer_matches_def lib_accept_def lib_read_def lib_span_def Let_def)

lemma lib_run_count:
  "tracer_matches e s \<Longrightarrow>
     lib_next_span (lib_run e evs s) = lib_next_span s + (if e = None then length (filter reported evs) else 0)"
  by (induction e evs s rule: lib_run.induct)
    (auto simp: tracer_after_init tracer_matches_step lib_next_span_step)

lemma lib_run_start:
  "lib_ok (lib_run e evs lib_start)"
  "lib_next_span (lib_run e evs lib_start) = (if e = None then length (filter reported evs) else 0)"
proof -
  have "lib_ok lib_start" and "tracer_matches e lib_start" and "lib_next_span lib_start = 0"
    by (simp_all add: lib_ok_def lib_start_def tracer_matches_def)
  then show "lib_ok (lib_run e evs lib_start)"
    and "lib_next_span (lib_run e evs lib_start) = (if e = None then length (filter reported evs) else 0)"
    by (simp_all add: lib_ok_run lib_run_count)
qed

lemma choose_sampler_ratio:
  fixes atof :: "string \<Rightarrow> 'd::linordered_field dbl"
  assumes "choose_sampler atof env = TraceIdRatioBasedSampler r"
  shows "case r of NaN \<Rightarrow> True | Num x \<Rightarrow> 0 \<le> x \<and> x \<le> 1"
proof (cases "env ''OTEL_TRACES_SAMPLER_ARG''")
  case None
  with assms show ?thesis by (auto simp: choose_sampler_def split: option.splits if_splits)
next
  case (Some arg)
  have "case (let r1 = (if dbl_less v 0 then Num 0 else v) in if dbl_greater r1 1 then Num 1 else r1) of
          NaN \<Rightarrow> True | Num x \<Rightarrow> 0 \<le> x \<and> x \<le> 1" for v :: "'d dbl"
    by (cases v) auto
  from this [of "atof arg"] Some assms show ?thesis
    by (auto simp: choose_sampler_def Let_def simp del: dbl_less.simps dbl_greater.simps split: option.splits if_splits)
qed

lemma init_tracing_once_inited: "dk_inited (init_tracing_once atof env comm dlsym sdk s)"
  by (auto simp: init_tracing_once_def Let_def)

subsection \<open>Properties\<close>

text \<open>C39: The preload library of the ADS server reports each successful \<open>accept\<close> and \<open>read\<close> as a
  span that is started and ended within the hook: after any sequence of hooked calls the log of API
  calls is a run of the span protocol with no span left open, every identifier handed out is
  ended, and their number is the number of successful calls if tracing came up and 0 if it did not.\<close>

theorem ads_spans_end_in_their_hook:
  "proto (lib_calls (lib_run sdk_error evs lib_start)) ({}, {}) =
     Some ({}, {..<if sdk_error = None then length (filter reported evs) else 0})"
  using lib_run_start [of sdk_error evs] by (simp add: lib_ok_def)

text \<open>C40: The constructor of the docker preload library. Whatever the SDK does, the setup runs once (a
  second call changes nothing), and the shutdown flushes exactly when a provider was installed. A sampling
  ratio it installs is in the unit interval unless \<open>atof\<close> gave a NaN. When the SDK returns, every
  hooked call is resolved exactly if \<open>dlsym\<close> finds it, and each failure is reported on the
  standard error with its name run together with the preceding word, since 31 of the 32 bytes of the
  message are written.\<close>

theorem docker_init_once:
  fixes atof :: "string \<Rightarrow> 'd::linordered_field dbl"
  shows "ctor_init atof env comm dlsym sdk' (docker_loaded atof env comm dlsym sdk) = docker_loaded atof env comm dlsym sdk \<and>
     dk_calls (dtor_shutdown (docker_loaded atof env comm dlsym sdk)) = (if sdk = Sdk_constructor_throws then [] else [ForceFlush, Shutdown]) \<and>
     (\<forall>x. dk_sampler (docker_loaded atof env comm dlsym sdk) = Some (TraceIdRatioBasedSampler (Num x)) \<longrightarrow> 0 \<le> x \<and> x \<le> 1) \<and>
     (\<forall>nm. dk_real (docker_loaded atof env comm dlsym Sdk_returns) nm = (nm \<in> set hooked_calls \<and> dlsym nm)) \<and>
     dk_stderr (docker_loaded atof env comm dlsym Sdk_returns) =
       concat (map (\<lambda>nm. ''[otel-preload] dlsym failed for'' @ nm @ [LF]) (filter (\<lambda>nm. \<not> dlsym nm) hooked_calls)) @
       init_done_message"
proof -
  have sampler: "\<forall>x. dk_sampler (docker_loaded atof env comm dlsym sdk) = Some (TraceIdRatioBasedSampler (Num x)) \<longrightarrow> 0 \<le> x \<and> x \<le> 1"
    by (auto simp: docker_loaded_def ctor_init_def init_tracing_once_def docker_start_def Let_def split: if_splits dest!: choose_sampler_ratio)
  have calls: "dk_calls (dtor_shutdown (docker_loaded atof env comm dlsym sdk)) = (if sdk = Sdk_constructor_throws then [] else [ForceFlush, Shutdown])"
    by (simp add: docker_loaded_def ctor_init_def init_tracing_once_def docker_start_def dtor_shutdown_def shutdown_tracing_def Let_def)
  have once: "ctor_init atof env comm dlsym sdk' (docker_loaded atof env comm dlsym sdk) = docker_loaded atof env comm dlsym sdk"
    using init_tracing_once_inited [of atof env comm dlsym sdk docker_start]
    by (simp add: docker_loaded_def ctor_init_def init_tracing_once_def [of _ _ _ _ sdk'])
  have real: "\<forall>nm. dk_real (docker_loaded atof env comm dlsym Sdk_returns) nm = (nm \<in> set hooked_calls \<and> dlsym nm)"
    by (simp add: docker_loaded_def ctor_init_def init_tracing_once_def fold_resolve_real docker_start_def Let_def)
  have err: "dk_stderr (docker_loaded atof env comm dlsym Sdk_returns) =
       concat (map (\<lambda>nm. ''[otel-preload] dlsym failed for'' @ nm @ [LF]) (filter (\<lambda>nm. \<not> dlsym nm) hooked_calls)) @
       init_done_message"
    by (simp add: docker_loaded_def ctor_init_def init_tracing_once_def fold_resolve_stderr docker_start_def Let_def)
  show ?thesis using once calls sampler real err by blast
qed

theorem docker_init_once_witness:
  "dk_stderr (docker_loaded (\<lambda>_. NaN :: rat dbl) (\<lambda>_. None) None (\<lambda>nm. nm \<noteq> ''send'') Sdk_returns) =
     ''[otel-preload] dlsym failed forsend'' @ [LF] @ init_done_message"
  using docker_init_once [of "\<lambda>_. NaN :: rat dbl" "\<lambda>_. None" None "\<lambda>nm. nm \<noteq> ''send''" Sdk_returns Sdk_returns]
  by (simp add: hooked_calls_def)

end
