(* ===== verification/Attribute_Map.thy ===== *)
theory Attribute_Map
  imports Otel_Api "HOL-Library.AList" "HOL-Library.Multiset"
begin

unbundle bit_operations_syntax

text \<open>
  \<open>opentelemetry/sdk/common/attribute_utils.h\<close>: owned attribute values, the conversion from and the
  comparison with the API's values, and the two attribute maps; \<open>sdk/common/attributemap_hash.h\<close>: the hash of
  an ordered map. A \<open>KeyValueIterable\<close> is the list of the pairs it visits. The unordered map is an association
  list with distinct keys (its order is not used), the ordered one an association list sorted by
  \<open>std::string\<close>'s order. The functions \<open>std::hash\<close> are arguments.
\<close>

subsection \<open>Values\<close>

datatype owned_value =
    OV_bool bool
  | OV_int32 "32 word"
  | OV_uint32 "32 word"
  | OV_int64 "64 word"
  | OV_double "64 word"
  | OV_string string
  | OV_vec_bool "bool list"
  | OV_vec_int32 "32 word list"
  | OV_vec_uint32 "32 word list"
  | OV_vec_int64 "64 word list"
  | OV_vec_double "64 word list"
  | OV_vec_string "string list"
  | OV_uint64 "64 word"
  | OV_vec_uint64 "64 word list"
  | OV_vec_uint8 "8 word list"

text \<open>A \<open>const char*\<close> is the bytes in memory from there on; \<open>std::string(v)\<close> copies up to the first NUL.\<close>

fun AttributeConverter :: "attribute_value \<Rightarrow> owned_value" where
  "AttributeConverter (AV_bool v) = OV_bool v"
| "AttributeConverter (AV_int32 v) = OV_int32 v"
| "AttributeConverter (AV_uint32 v) = OV_uint32 v"
| "AttributeConverter (AV_int64 v) = OV_int64 v"
| "AttributeConverter (AV_uint64 v) = OV_uint64 v"
| "AttributeConverter (AV_double v) = OV_double v"
| "AttributeConverter (AV_string v) = OV_string v"
| "AttributeConverter (AV_cstring v) = OV_string (c_str v)"
| "AttributeConverter (AV_span_byte v) = OV_vec_uint8 v"
| "AttributeConverter (AV_span_bool v) = OV_vec_bool v"
| "AttributeConverter (AV_span_int32 v) = OV_vec_int32 v"
| "AttributeConverter (AV_span_uint32 v) = OV_vec_uint32 v"
| "AttributeConverter (AV_span_int64 v) = OV_vec_int64 v"
| "AttributeConverter (AV_span_uint64 v) = OV_vec_uint64 v"
| "AttributeConverter (AV_span_double v) = OV_vec_double v"
| "AttributeConverter (AV_span_string v) = OV_vec_string v"

text \<open>A double is its bits; \<open>==\<close> on doubles is not equality of bits: a NaN is not equal to
  itself, and the two zeros are equal.\<close>

definition dbl_magnitude :: "64 word \<Rightarrow> 64 word" where
  "dbl_magnitude d = d AND 0x7FFFFFFFFFFFFFFF"

definition dbl_isnan :: "64 word \<Rightarrow> bool" where
  "dbl_isnan d \<longleftrightarrow> dbl_magnitude d > 0x7FF0000000000000"

definition dbl_eq :: "64 word \<Rightarrow> 64 word \<Rightarrow> bool" where
  "dbl_eq a b \<longleftrightarrow> \<not> dbl_isnan a \<and> \<not> dbl_isnan b \<and> (a = b \<or> dbl_magnitude a = 0 \<and> dbl_magnitude b = 0)"

definition AttributeEqualToVisitor :: "owned_value \<Rightarrow> attribute_value \<Rightarrow> bool" where
  "AttributeEqualToVisitor owned v =
     (case owned of
        OV_bool a \<Rightarrow> (case v of AV_bool b \<Rightarrow> a = b | _ \<Rightarrow> False)
      | OV_int32 a \<Rightarrow> (case v of AV_int32 b \<Rightarrow> a = b | _ \<Rightarrow> False)
      | OV_uint32 a \<Rightarrow> (case v of AV_uint32 b \<Rightarrow> a = b | _ \<Rightarrow> False)
      | OV_int64 a \<Rightarrow> (case v of AV_int64 b \<Rightarrow> a = b | _ \<Rightarrow> False)
      | OV_uint64 a \<Rightarrow> (case v of AV_uint64 b \<Rightarrow> a = b | _ \<Rightarrow> False)
      | OV_double a \<Rightarrow> (case v of AV_double b \<Rightarrow> dbl_eq a b | _ \<Rightarrow> False)
      | OV_string a \<Rightarrow> (case v of AV_cstring b \<Rightarrow> a = c_str b | AV_string b \<Rightarrow> a = b | _ \<Rightarrow> False)
      | OV_vec_string a \<Rightarrow> (case v of AV_span_string b \<Rightarrow> length a = length b \<and> list_all2 (=) a b | _ \<Rightarrow> False)
      | OV_vec_bool a \<Rightarrow> (case v of AV_span_bool b \<Rightarrow> length a = length b \<and> list_all2 (=) a b | _ \<Rightarrow> False)
      | OV_vec_int32 a \<Rightarrow> (case v of AV_span_int32 b \<Rightarrow> length a = length b \<and> list_all2 (=) a b | _ \<Rightarrow> False)
      | OV_vec_uint32 a \<Rightarrow> (case v of AV_span_uint32 b \<Rightarrow> length a = length b \<and> list_all2 (=) a b | _ \<Rightarrow> False)
      | OV_vec_int64 a \<Rightarrow> (case v of AV_span_int64 b \<Rightarrow> length a = length b \<and> list_all2 (=) a b | _ \<Rightarrow> False)
      | OV_vec_uint64 a \<Rightarrow> (case v of AV_span_uint64 b \<Rightarrow> length a = length b \<and> list_all2 (=) a b | _ \<Rightarrow> False)
      | OV_vec_double a \<Rightarrow> (case v of AV_span_double b \<Rightarrow> length a = length b \<and> list_all2 dbl_eq a b | _ \<Rightarrow> False)
      | OV_vec_uint8 a \<Rightarrow> (case v of AV_span_byte b \<Rightarrow> length a = length b \<and> list_all2 (=) a b | _ \<Rightarrow> False))"

subsection \<open>AttributeMap\<close>

type_synonym key_values = "(string \<times> attribute_value) list"
type_synonym attribute_map = "(string \<times> owned_value) list"

fun ForEachKeyValue :: "key_values \<Rightarrow> (string \<Rightarrow> attribute_value \<Rightarrow> 's \<Rightarrow> bool \<times> 's) \<Rightarrow> 's \<Rightarrow> bool \<times> 's" where
  "ForEachKeyValue [] callback s = (True, s)"
| "ForEachKeyValue ((k, v) # kvs) callback s =
     (case callback k v s of (go, s') \<Rightarrow> if \<not> go then (False, s') else ForEachKeyValue kvs callback s')"

definition AttributeMap_empty :: attribute_map where
  "AttributeMap_empty = []"

definition am_SetAttribute :: "attribute_map \<Rightarrow> string \<Rightarrow> attribute_value \<Rightarrow> attribute_map" where
  "am_SetAttribute m key v = AList.update key (AttributeConverter v) m"

definition AttributeMap :: "key_values \<Rightarrow> attribute_map" where
  "AttributeMap attributes =
     snd (ForEachKeyValue attributes (\<lambda>key v m. (True, am_SetAttribute m key v)) AttributeMap_empty)"

definition AttributeMap_optional :: "key_values option \<Rightarrow> attribute_map" where
  "AttributeMap_optional attributes =
     (case attributes of None \<Rightarrow> AttributeMap_empty | Some kvs \<Rightarrow> AttributeMap kvs)"

fun AttributeMap_init :: "key_values \<Rightarrow> attribute_map \<Rightarrow> attribute_map" where
  "AttributeMap_init [] m = m"
| "AttributeMap_init ((k, v) # kvs) m = AttributeMap_init kvs (am_SetAttribute m k v)"

definition am_GetAttributes :: "attribute_map \<Rightarrow> attribute_map" where
  "am_GetAttributes m = m"

fun find_equal :: "attribute_map \<Rightarrow> string \<Rightarrow> attribute_value \<Rightarrow> bool" where
  "find_equal [] key v = False"
| "find_equal ((k, o_v) # m) key v = (if k = key then AttributeEqualToVisitor o_v v else find_equal m key v)"

definition am_EqualTo :: "attribute_map \<Rightarrow> key_values \<Rightarrow> bool" where
  "am_EqualTo m attributes =
     (if length attributes \<noteq> length m then False
      else fst (ForEachKeyValue attributes (\<lambda>key v s. (find_equal m key v, s)) ()))"

subsection \<open>OrderedAttributeMap\<close>

text \<open>\<open>operator[]\<close> of a \<open>std::map\<close>: the entry of the key, made in its place when there is none.\<close>

fun map_assign :: "string \<Rightarrow> 'v \<Rightarrow> (string \<times> 'v) list \<Rightarrow> (string \<times> 'v) list" where
  "map_assign k v [] = [(k, v)]"
| "map_assign k v ((k', v') # m) =
     (if sv_less k k' then (k, v) # (k', v') # m
      else if sv_less k' k then (k', v') # map_assign k v m else (k', v) # m)"

definition oam_SetAttribute :: "attribute_map \<Rightarrow> string \<Rightarrow> attribute_value \<Rightarrow> attribute_map" where
  "oam_SetAttribute m key v = map_assign key (AttributeConverter v) m"

definition OrderedAttributeMap :: "key_values \<Rightarrow> attribute_map" where
  "OrderedAttributeMap attributes =
     snd (ForEachKeyValue attributes (\<lambda>key v m. (True, oam_SetAttribute m key v)) [])"

fun OrderedAttributeMap_init :: "key_values \<Rightarrow> attribute_map \<Rightarrow> attribute_map" where
  "OrderedAttributeMap_init [] m = m"
| "OrderedAttributeMap_init ((k, v) # kvs) m = OrderedAttributeMap_init kvs (oam_SetAttribute m k v)"

subsection \<open>Hash\<close>

record hash_ops =
  h_bool :: "bool \<Rightarrow> u64"
  h_int32 :: "32 word \<Rightarrow> u64"
  h_uint32 :: "32 word \<Rightarrow> u64"
  h_int64 :: "64 word \<Rightarrow> u64"
  h_uint64 :: "64 word \<Rightarrow> u64"
  h_double :: "64 word \<Rightarrow> u64"
  h_string :: "string \<Rightarrow> u64"
  h_uint8 :: "8 word \<Rightarrow> u64"

definition GetHash :: "('t \<Rightarrow> u64) \<Rightarrow> u64 \<Rightarrow> 't \<Rightarrow> u64" where
  "GetHash hasher seed arg = seed XOR (hasher arg + 0x9e3779b9 + push_bit 6 seed + drop_bit 2 seed)"

fun GetHash_vector :: "('t \<Rightarrow> u64) \<Rightarrow> u64 \<Rightarrow> 't list \<Rightarrow> u64" where
  "GetHash_vector hasher seed [] = seed"
| "GetHash_vector hasher seed (v # vs) = GetHash_vector hasher (GetHash hasher seed v) vs"

definition GetHash_cstr :: "hash_ops \<Rightarrow> u64 \<Rightarrow> string \<Rightarrow> u64" where
  "GetHash_cstr h seed arg = seed XOR (h_string h (c_str arg) + 0x9e3779b9 + push_bit 6 seed + drop_bit 2 seed)"

fun GetHashForAttributeValueVisitor :: "hash_ops \<Rightarrow> u64 \<Rightarrow> owned_value \<Rightarrow> u64" where
  "GetHashForAttributeValueVisitor h seed (OV_bool v) = GetHash (h_bool h) seed v"
| "GetHashForAttributeValueVisitor h seed (OV_int32 v) = GetHash (h_int32 h) seed v"
| "GetHashForAttributeValueVisitor h seed (OV_uint32 v) = GetHash (h_uint32 h) seed v"
| "GetHashForAttributeValueVisitor h seed (OV_int64 v) = GetHash (h_int64 h) seed v"
| "GetHashForAttributeValueVisitor h seed (OV_double v) = GetHash (h_double h) seed v"
| "GetHashForAttributeValueVisitor h seed (OV_string v) = GetHash (h_string h) seed v"
| "GetHashForAttributeValueVisitor h seed (OV_vec_bool v) = GetHash_vector (h_bool h) seed v"
| "GetHashForAttributeValueVisitor h seed (OV_vec_int32 v) = GetHash_vector (h_int32 h) seed v"
| "GetHashForAttributeValueVisitor h seed (OV_vec_uint32 v) = GetHash_vector (h_uint32 h) seed v"
| "GetHashForAttributeValueVisitor h seed (OV_vec_int64 v) = GetHash_vector (h_int64 h) seed v"
| "GetHashForAttributeValueVisitor h seed (OV_vec_double v) = GetHash_vector (h_double h) seed v"
| "GetHashForAttributeValueVisitor h seed (OV_vec_string v) = GetHash_vector (h_string h) seed v"
| "GetHashForAttributeValueVisitor h seed (OV_uint64 v) = GetHash (h_uint64 h) seed v"
| "GetHashForAttributeValueVisitor h seed (OV_vec_uint64 v) = GetHash_vector (h_uint64 h) seed v"
| "GetHashForAttributeValueVisitor h seed (OV_vec_uint8 v) = GetHash_vector (h_uint8 h) seed v"

fun hash_loop :: "hash_ops \<Rightarrow> u64 \<Rightarrow> attribute_map \<Rightarrow> u64" where
  "hash_loop h seed [] = seed"
| "hash_loop h seed ((k, v) # m) = hash_loop h (GetHashForAttributeValueVisitor h (GetHash (h_string h) seed k) v) m"

definition GetHashForAttributeMap :: "hash_ops \<Rightarrow> attribute_map \<Rightarrow> u64" where
  "GetHashForAttributeMap h attribute_map = hash_loop h 0 attribute_map"

subsection \<open>Reference definitions\<close>

text \<open>No NaN in a value: the condition under which a value is equal to its own copy.\<close>

fun nan_free :: "attribute_value \<Rightarrow> bool" where
  "nan_free (AV_double d) \<longleftrightarrow> \<not> dbl_isnan d"
| "nan_free (AV_span_double ds) \<longleftrightarrow> list_all (\<lambda>d. \<not> dbl_isnan d) ds"
| "nan_free _ \<longleftrightarrow> True"

definition last_wins :: "key_values \<Rightarrow> string \<rightharpoonup> owned_value" where
  "last_wins kvs = map_option AttributeConverter \<circ> map_of (rev kvs)"

definition strictly_sorted :: "(string \<times> 'v) list \<Rightarrow> bool" where
  "strictly_sorted m \<longleftrightarrow> sorted_wrt sv_less (map fst m)"

subsection \<open>Lemmas\<close>

lemma ForEach_update:
  "ForEachKeyValue kvs (\<lambda>k v m. (True, f m k v)) m = (True, fold (\<lambda>(k, v) m. f m k v) kvs m)"
  by (induction kvs arbitrary: m) auto

lemma ForEach_all: "fst (ForEachKeyValue kvs (\<lambda>k v s. (P k v, s)) ()) \<longleftrightarrow> list_all (\<lambda>(k, v). P k v) kvs"
  by (induction kvs) (auto split: if_splits)

lemma AttributeMap_init_fold: "AttributeMap_init kvs m = fold (\<lambda>(k, v) m. am_SetAttribute m k v) kvs m"
  by (induction kvs arbitrary: m) auto

lemma OrderedAttributeMap_init_fold: "OrderedAttributeMap_init kvs m = fold (\<lambda>(k, v) m. oam_SetAttribute m k v) kvs m"
  by (induction kvs arbitrary: m) auto

lemma fold_assign_map_of:
  assumes "\<And>m k v. P m \<Longrightarrow> P (f m k v) \<and> map_of (f m k v) = (map_of m)(k \<mapsto> AttributeConverter v)" and "P m"
  shows "P (fold (\<lambda>(k, v) m. f m k v) kvs m) \<and>
    map_of (fold (\<lambda>(k, v) m. f m k v) kvs m) = map_of m ++ last_wins kvs"
  using assms(2)
proof (induction kvs arbitrary: m)
  case (Cons kv kvs)
  obtain k v where kv: "kv = (k, v)" by (cases kv)
  have "map_of m ++ last_wins (kv # kvs) = (map_of m)(k \<mapsto> AttributeConverter v) ++ last_wins kvs"
    by (auto simp: fun_eq_iff last_wins_def map_add_def kv map_of_append split: option.splits)
  moreover have e: "map_of (f m k v) = (map_of m)(k \<mapsto> AttributeConverter v)" and "P (f m k v)"
    using assms(1) [OF Cons.prems] by blast+
  ultimately show ?case using Cons.IH [of "f m k v"] unfolding e by (simp add: kv del: fun_upd_apply)
qed (auto simp: last_wins_def)

lemma find_equal_map_of:
  "find_equal m key v = (case map_of m key of None \<Rightarrow> False | Some o_v \<Rightarrow> AttributeEqualToVisitor o_v v)"
  by (induction m) auto

lemma dbl_eq_refl: "dbl_eq d d \<longleftrightarrow> \<not> dbl_isnan d"
  by (auto simp: dbl_eq_def)

lemma converted_equal: "AttributeEqualToVisitor (AttributeConverter v) v \<longleftrightarrow> nan_free v"
  by (cases v) (auto simp: AttributeEqualToVisitor_def dbl_eq_refl list_all2_same list_all_iff list_all2_eq [symmetric])

lemma AttributeMap_spec: "distinct (map fst (AttributeMap kvs))" "map_of (AttributeMap kvs) = last_wins kvs"
proof -
  have "distinct (map fst m) \<Longrightarrow> distinct (map fst (am_SetAttribute m k v)) \<and>
      map_of (am_SetAttribute m k v) = (map_of m)(k \<mapsto> AttributeConverter v)" for m k v
    by (simp add: am_SetAttribute_def distinct_update update_conv')
  from fold_assign_map_of [of "\<lambda>m. distinct (map fst m)" am_SetAttribute "[]" kvs, OF this]
  show "distinct (map fst (AttributeMap kvs))" "map_of (AttributeMap kvs) = last_wins kvs"
    by (simp_all add: AttributeMap_def ForEach_update AttributeMap_empty_def)
qed

lemma map_assign_keys: "set (map fst (map_assign k v m)) = insert k (set (map fst m))"
  by (induction k v m rule: map_assign.induct) (auto dest: sv.antisym_conv3)

lemma map_assign_facts:
  assumes "strictly_sorted m"
  shows "strictly_sorted (map_assign k v m)"
    and "map_of (map_assign k v m) = (map_of m)(k \<mapsto> v)"
proof -
  show "strictly_sorted (map_assign k v m)"
    using assms
  proof (induction k v m rule: map_assign.induct)
    case (2 k v k' v' m)
    show ?case
    proof (cases "sv_less k k'")
      case True
      with "2.prems" show ?thesis by (auto simp: strictly_sorted_def intro: sv.less_trans)
    next
      case False
      show ?thesis
      proof (cases "sv_less k' k")
        case True
        have "\<forall>y \<in> set (map fst (map_assign k v m)). sv_less k' y"
          unfolding map_assign_keys using "2.prems" True by (auto simp: strictly_sorted_def)
        moreover have "sorted_wrt sv_less (map fst (map_assign k v m))"
          using "2.IH" [OF False True] "2.prems" by (simp add: strictly_sorted_def)
        ultimately show ?thesis using False True by (simp add: strictly_sorted_def)
      qed (use False "2.prems" in \<open>simp add: strictly_sorted_def\<close>)
    qed
  qed (simp add: strictly_sorted_def)
  show "map_of (map_assign k v m) = (map_of m)(k \<mapsto> v)"
    using assms
  proof (induction k v m rule: map_assign.induct)
    case (2 k v k' v' m)
    have m: "strictly_sorted m" using "2.prems" by (simp add: strictly_sorted_def)
    show ?case
    proof (cases "sv_less k k'")
      case False
      show ?thesis
      proof (cases "sv_less k' k")
        case True
        have "k' \<noteq> k" by (rule sv.less_imp_neq [OF True])
        have "map_of (map_assign k v ((k', v') # m)) = (map_of (map_assign k v m))(k' \<mapsto> v')"
          using False True by (simp only: map_assign.simps if_False if_True map_of.simps fst_conv snd_conv)
        also have "\<dots> = ((map_of m)(k \<mapsto> v))(k' \<mapsto> v')" using "2.IH" [OF False True m] by (rule arg_cong)
        also have "\<dots> = (map_of ((k', v') # m))(k \<mapsto> v)" using fun_upd_twist [OF \<open>k' \<noteq> k\<close> [symmetric]] by simp
        finally show ?thesis .
      next
        case eq: False
        then have "k = k'" using False sv.antisym_conv3 by blast
        then show ?thesis using False eq by (auto simp: fun_eq_iff)
      qed
    qed (auto simp: fun_eq_iff)
  qed simp
qed

lemma OrderedAttributeMap_spec:
  "strictly_sorted (OrderedAttributeMap kvs)" "map_of (OrderedAttributeMap kvs) = last_wins kvs"
proof -
  have "strictly_sorted m \<Longrightarrow> strictly_sorted (oam_SetAttribute m k v) \<and>
      map_of (oam_SetAttribute m k v) = (map_of m)(k \<mapsto> AttributeConverter v)" for m k v
    using map_assign_facts [of m k "AttributeConverter v"] by (simp add: oam_SetAttribute_def)
  from fold_assign_map_of [of strictly_sorted oam_SetAttribute "[]" kvs, OF this]
  show "strictly_sorted (OrderedAttributeMap kvs)" "map_of (OrderedAttributeMap kvs) = last_wins kvs"
    by (simp_all add: OrderedAttributeMap_def ForEach_update strictly_sorted_def)
qed

lemma strictly_sorted_unique:
  assumes "strictly_sorted a" and "strictly_sorted b" and "map_of a = map_of b"
  shows "a = b"
proof -
  have "set (map fst a) = set (map fst b)" using assms(3) by (metis dom_map_of_conv_image_fst set_map)
  then have k: "map fst a = map fst b"
    using assms(1,2) unfolding strictly_sorted_def by (metis sv.strict_sorted_equal)
  have "distinct (map fst a)" "distinct (map fst b)"
    using assms(1,2) by (auto simp: strictly_sorted_def sv.strict_sorted_iff)
  then have m: "map_of a (fst (a ! i)) = Some (snd (a ! i))" "map_of b (fst (b ! i)) = Some (snd (b ! i))" if "i < length a" for i
    using that map_eq_imp_length_eq [OF k] by (auto intro: map_of_is_SomeI)
  show ?thesis
  proof (rule nth_equalityI)
    show "length a = length b" by (rule map_eq_imp_length_eq [OF k])
    fix i assume i: "i < length a"
    then have "fst (a ! i) = fst (b ! i)" using k map_eq_imp_length_eq [OF k] by (metis nth_map)
    then show "a ! i = b ! i" using m [OF i] assms(3) by (simp add: prod_eq_iff)
  qed
qed

lemma EqualTo_iff:
  assumes "distinct (map fst m)" and "distinct (map fst kvs)"
  shows "am_EqualTo m kvs \<longleftrightarrow> set (map fst m) = set (map fst kvs) \<and>
    list_all (\<lambda>(k, v). \<exists>o_v. map_of m k = Some o_v \<and> AttributeEqualToVisitor o_v v) kvs"
proof -
  have f: "am_EqualTo m kvs \<longleftrightarrow> length kvs = length m \<and>
      list_all (\<lambda>(k, v). \<exists>o_v. map_of m k = Some o_v \<and> AttributeEqualToVisitor o_v v) kvs"
    by (auto simp: am_EqualTo_def ForEach_all find_equal_map_of list_all_iff split: option.splits; fastforce)
  have "set (map fst kvs) \<subseteq> set (map fst m)"
    if "list_all (\<lambda>(k, v). \<exists>o_v. map_of m k = Some o_v \<and> AttributeEqualToVisitor o_v v) kvs"
    using that by (force simp: list_all_iff dest: map_of_SomeD)
  moreover have "card (set (map fst m)) = length m" "card (set (map fst kvs)) = length kvs"
    using distinct_card [OF assms(1)] distinct_card [OF assms(2)] by simp_all
  ultimately show ?thesis
    unfolding f using card_subset_eq [of "set (map fst m)" "set (map fst kvs)"] by auto
qed

lemma last_wins_perm:
  assumes "distinct (map fst kvs)" and "mset kvs = mset kvs'"
  shows "last_wins kvs = last_wins kvs'"
proof -
  have s: "set kvs = set kvs'" using assms(2) by (metis set_mset_mset)
  have d: "distinct (map fst kvs')" using assms by (metis mset_map mset_eq_imp_distinct_iff)
  have "map_of (rev kvs) = map_of (rev kvs')"
    using assms(1) d s by (intro map_of_inject_set [THEN iffD2]) (auto simp: rev_map [symmetric])
  then show ?thesis by (simp add: last_wins_def)
qed

subsection \<open>Properties\<close>

text \<open>Comparing an attribute map with attributes given by pairs. When no key occurs twice, \<open>EqualTo\<close> holds
  exactly if both have the same keys and every value is equal; a map built from attributes is equal to them exactly
  if no value is or holds a NaN. With a key given twice the comparison can hold although a key is missing.\<close>

theorem attribute_map_equal_to:
  assumes "distinct (map fst m)" and "distinct (map fst kvs)"
  shows "(am_EqualTo m kvs \<longleftrightarrow> set (map fst m) = set (map fst kvs) \<and>
      list_all (\<lambda>(k, v). \<exists>o_v. map_of m k = Some o_v \<and> AttributeEqualToVisitor o_v v) kvs) \<and>
    (am_EqualTo (AttributeMap kvs) kvs \<longleftrightarrow> list_all (\<lambda>(k, v). nan_free v) kvs) \<and>
    am_EqualTo (AttributeMap [(''a'', AV_bool True), (''b'', AV_bool True)]) [(''a'', AV_bool True), (''a'', AV_bool True)]"
proof -
  have "map_of (rev kvs) = map_of kvs"
    using assms(2) by (intro map_of_inject_set [THEN iffD2]) (auto simp: rev_map [symmetric])
  then have v: "(k, v) \<in> set kvs \<Longrightarrow> map_of (AttributeMap kvs) k = Some (AttributeConverter v)" for k v
    using assms(2) by (simp add: AttributeMap_spec last_wins_def)
  moreover have "set (map fst (AttributeMap kvs)) = set (map fst kvs)"
  proof -
    have "dom (map_of (AttributeMap kvs)) = fst ` set kvs"
      by (auto simp: AttributeMap_spec(2) last_wins_def dom_map_of_conv_image_fst [of "rev kvs", simplified] dom_def [symmetric])
    then show ?thesis by (simp add: dom_map_of_conv_image_fst)
  qed
  moreover have "list_all (\<lambda>(k, v). \<exists>o_v. map_of (AttributeMap kvs) k = Some o_v \<and> AttributeEqualToVisitor o_v v) kvs \<longleftrightarrow>
      list_all (\<lambda>(k, v). nan_free v) kvs"
    using v by (intro list_all_cong) (auto simp: converted_equal)
  ultimately have "am_EqualTo (AttributeMap kvs) kvs \<longleftrightarrow> list_all (\<lambda>(k, v). nan_free v) kvs"
    using EqualTo_iff [OF AttributeMap_spec(1) assms(2)] by simp
  moreover have "am_EqualTo (AttributeMap [(''a'', AV_bool True), (''b'', AV_bool True)]) [(''a'', AV_bool True), (''a'', AV_bool True)]"
    by code_simp
  ultimately show ?thesis using EqualTo_iff [OF assms] by blast
qed

theorem attribute_map_equal_to_witness:
  "am_EqualTo (AttributeMap [(''k'', AV_int32 7)]) [(''k'', AV_int32 7)] \<and>
   \<not> am_EqualTo (AttributeMap [(''k'', AV_double 0x7FF8000000000000)]) [(''k'', AV_double 0x7FF8000000000000)]"
proof -
  have "dbl_isnan 0x7FF8000000000000" by (simp add: dbl_isnan_def dbl_magnitude_def)
  then show ?thesis
    using attribute_map_equal_to [of "[]" "[(''k'', AV_int32 7)]"]
      attribute_map_equal_to [of "[]" "[(''k'', AV_double 0x7FF8000000000000)]"] by simp
qed

text \<open>The ordered attribute map is canonical: its keys are strictly increasing, the last value given for a
  key wins, and attributes given in another order make the same map, hence the same hash.\<close>

theorem ordered_map_canonical:
  assumes "distinct (map fst kvs)" and "mset kvs = mset kvs'"
  shows "strictly_sorted (OrderedAttributeMap kvs) \<and> map_of (OrderedAttributeMap kvs) = last_wins kvs \<and>
     OrderedAttributeMap kvs = OrderedAttributeMap kvs' \<and>
     GetHashForAttributeMap h (OrderedAttributeMap kvs) = GetHashForAttributeMap h (OrderedAttributeMap kvs')"
proof -
  have "OrderedAttributeMap kvs = OrderedAttributeMap kvs'"
    using last_wins_perm [OF assms] by (intro strictly_sorted_unique) (simp_all add: OrderedAttributeMap_spec)
  then show ?thesis using OrderedAttributeMap_spec [of kvs] by simp
qed

theorem ordered_map_canonical_witness:
  "OrderedAttributeMap [(''b'', AV_bool True), (''a'', AV_uint32 1)] = OrderedAttributeMap [(''a'', AV_uint32 1), (''b'', AV_bool True)]"
  using ordered_map_canonical [of "[(''b'', AV_bool True), (''a'', AV_uint32 1)]" "[(''a'', AV_uint32 1), (''b'', AV_bool True)]"]
  by simp

end
