(* ===== verification/Span_Data.thy ===== *)
theory Span_Data
  imports Attribute_Map
begin

text \<open>
  \<open>opentelemetry/sdk/trace/span_data.h\<close>: the recordable that keeps everything a span reports, and
  \<open>sdk/trace/multi_recordable.h\<close>: the recordable that forwards to one recordable per processor. The methods of the
  interface \<open>Recordable\<close> are the constructors of \<open>rec_op\<close>; times are nanoseconds; resources and
  instrumentation scopes are opaque.
\<close>

subsection \<open>SpanData\<close>

record span_data_event =
  ev_name :: string
  ev_timestamp :: int
  ev_attributes :: attribute_map

definition SpanDataEvent :: "string \<Rightarrow> int \<Rightarrow> key_values \<Rightarrow> span_data_event" where
  "SpanDataEvent name timestamp attributes =
     \<lparr>ev_name = name, ev_timestamp = timestamp, ev_attributes = AttributeMap attributes\<rparr>"

record span_data_link =
  ln_span_context :: span_context
  ln_attributes :: attribute_map

definition SpanDataLink :: "span_context \<Rightarrow> key_values \<Rightarrow> span_data_link" where
  "SpanDataLink sc attributes = \<lparr>ln_span_context = sc, ln_attributes = AttributeMap attributes\<rparr>"

record ('r, 'i) span_data =
  sd_span_context :: span_context
  sd_parent_span_id :: span_id
  sd_start_time :: int
  sd_duration :: int
  sd_name :: string
  sd_status_code :: status_code
  sd_status_desc :: string
  sd_attribute_map :: attribute_map
  sd_events :: "span_data_event list"
  sd_links :: "span_data_link list"
  sd_flags :: trace_flags
  sd_span_kind :: span_kind
  sd_resource :: "'r option"
  sd_instrumentation_scope :: "'i option"

definition SpanData :: "('r, 'i) span_data" where
  "SpanData =
     \<lparr>sd_span_context = SpanContext_flagged False False, sd_parent_span_id = span_id_zero, sd_start_time = 0,
      sd_duration = 0, sd_name = [], sd_status_code = kUnset, sd_status_desc = [], sd_attribute_map = AttributeMap_empty,
      sd_events = [], sd_links = [], sd_flags = TraceFlags 0, sd_span_kind = kInternal, sd_resource = None,
      sd_instrumentation_scope = None\<rparr>"

definition sd_GetTraceId :: "('r, 'i) span_data \<Rightarrow> trace_id" where
  "sd_GetTraceId d = sc_trace_id (sd_span_context d)"

definition sd_GetSpanId :: "('r, 'i) span_data \<Rightarrow> span_id" where
  "sd_GetSpanId d = sc_span_id (sd_span_context d)"

text \<open>The getters of pointers fall back to a default: \<open>Resource::GetEmpty()\<close> and a scope made for
  \<open>unknown_service\<close>.\<close>

definition sd_GetResource :: "'r \<Rightarrow> ('r, 'i) span_data \<Rightarrow> 'r" where
  "sd_GetResource empty_resource d = (case sd_resource d of None \<Rightarrow> empty_resource | Some r \<Rightarrow> r)"

definition sd_GetInstrumentationScope :: "(string \<Rightarrow> 'i) \<Rightarrow> ('r, 'i) span_data \<Rightarrow> 'i" where
  "sd_GetInstrumentationScope create d =
     (case sd_instrumentation_scope d of None \<Rightarrow> create ''unknown_service'' | Some i \<Rightarrow> i)"

definition sd_SetIdentity :: "span_context \<Rightarrow> span_id \<Rightarrow> ('r, 'i) span_data \<Rightarrow> ('r, 'i) span_data" where
  "sd_SetIdentity sc parent d = d\<lparr>sd_span_context := sc, sd_parent_span_id := parent\<rparr>"

definition sd_SetAttribute :: "string \<Rightarrow> attribute_value \<Rightarrow> ('r, 'i) span_data \<Rightarrow> ('r, 'i) span_data" where
  "sd_SetAttribute key v d = d\<lparr>sd_attribute_map := am_SetAttribute (sd_attribute_map d) key v\<rparr>"

definition sd_AddEvent :: "string \<Rightarrow> int \<Rightarrow> key_values \<Rightarrow> ('r, 'i) span_data \<Rightarrow> ('r, 'i) span_data" where
  "sd_AddEvent name timestamp attributes d = d\<lparr>sd_events := sd_events d @ [SpanDataEvent name timestamp attributes]\<rparr>"

definition sd_AddLink :: "span_context \<Rightarrow> key_values \<Rightarrow> ('r, 'i) span_data \<Rightarrow> ('r, 'i) span_data" where
  "sd_AddLink sc attributes d = d\<lparr>sd_links := sd_links d @ [SpanDataLink sc attributes]\<rparr>"

definition sd_SetStatus :: "status_code \<Rightarrow> string \<Rightarrow> ('r, 'i) span_data \<Rightarrow> ('r, 'i) span_data" where
  "sd_SetStatus code description d = d\<lparr>sd_status_code := code, sd_status_desc := description\<rparr>"

definition sd_SetName :: "string \<Rightarrow> ('r, 'i) span_data \<Rightarrow> ('r, 'i) span_data" where
  "sd_SetName name d = d\<lparr>sd_name := name\<rparr>"

definition sd_SetTraceFlags :: "trace_flags \<Rightarrow> ('r, 'i) span_data \<Rightarrow> ('r, 'i) span_data" where
  "sd_SetTraceFlags fl d = d\<lparr>sd_flags := fl\<rparr>"

definition sd_SetSpanKind :: "span_kind \<Rightarrow> ('r, 'i) span_data \<Rightarrow> ('r, 'i) span_data" where
  "sd_SetSpanKind kind d = d\<lparr>sd_span_kind := kind\<rparr>"

definition sd_SetResource :: "'r \<Rightarrow> ('r, 'i) span_data \<Rightarrow> ('r, 'i) span_data" where
  "sd_SetResource resource d = d\<lparr>sd_resource := Some resource\<rparr>"

definition sd_SetStartTime :: "int \<Rightarrow> ('r, 'i) span_data \<Rightarrow> ('r, 'i) span_data" where
  "sd_SetStartTime start d = d\<lparr>sd_start_time := start\<rparr>"

definition sd_SetDuration :: "int \<Rightarrow> ('r, 'i) span_data \<Rightarrow> ('r, 'i) span_data" where
  "sd_SetDuration duration d = d\<lparr>sd_duration := duration\<rparr>"

definition sd_SetInstrumentationScope :: "'i \<Rightarrow> ('r, 'i) span_data \<Rightarrow> ('r, 'i) span_data" where
  "sd_SetInstrumentationScope scope d = d\<lparr>sd_instrumentation_scope := Some scope\<rparr>"

subsection \<open>The interface Recordable\<close>

datatype ('r, 'i) rec_op =
    R_SetIdentity span_context span_id
  | R_SetAttribute string attribute_value
  | R_AddEvent string int key_values
  | R_AddLink span_context key_values
  | R_SetStatus status_code string
  | R_SetName string
  | R_SetTraceFlags trace_flags
  | R_SetSpanKind span_kind
  | R_SetResource 'r
  | R_SetStartTime int
  | R_SetDuration int
  | R_SetInstrumentationScope 'i

fun sd_apply :: "('r, 'i) rec_op \<Rightarrow> ('r, 'i) span_data \<Rightarrow> ('r, 'i) span_data" where
  "sd_apply (R_SetIdentity sc p) d = sd_SetIdentity sc p d"
| "sd_apply (R_SetAttribute k v) d = sd_SetAttribute k v d"
| "sd_apply (R_AddEvent n t kvs) d = sd_AddEvent n t kvs d"
| "sd_apply (R_AddLink sc kvs) d = sd_AddLink sc kvs d"
| "sd_apply (R_SetStatus c s) d = sd_SetStatus c s d"
| "sd_apply (R_SetName n) d = sd_SetName n d"
| "sd_apply (R_SetTraceFlags f) d = sd_SetTraceFlags f d"
| "sd_apply (R_SetSpanKind k) d = sd_SetSpanKind k d"
| "sd_apply (R_SetResource r) d = sd_SetResource r d"
| "sd_apply (R_SetStartTime t) d = sd_SetStartTime t d"
| "sd_apply (R_SetDuration t) d = sd_SetDuration t d"
| "sd_apply (R_SetInstrumentationScope i) d = sd_SetInstrumentationScope i d"

subsection \<open>MultiRecordable\<close>

text \<open>Recordables by the address of their processor; a recordable may be null. Calling a method of a null recordable is
  undefined: \<^term>\<open>None\<close>.\<close>

type_synonym 'd multi_recordable = "(nat \<times> 'd option) list"

definition mr_AddRecordable :: "nat \<Rightarrow> 'd option \<Rightarrow> 'd multi_recordable \<Rightarrow> 'd multi_recordable" where
  "mr_AddRecordable key recordable m = AList.update key recordable m"

definition mr_GetRecordable :: "nat \<Rightarrow> 'd multi_recordable \<Rightarrow> 'd option" where
  "mr_GetRecordable key m = (case map_of m key of Some d \<Rightarrow> d | None \<Rightarrow> None)"

definition mr_ReleaseRecordable :: "nat \<Rightarrow> 'd multi_recordable \<Rightarrow> 'd option \<times> 'd multi_recordable" where
  "mr_ReleaseRecordable key m =
     (case map_of m key of Some d \<Rightarrow> (d, AList.delete key m) | None \<Rightarrow> (None, m))"

fun mr_each :: "('d \<Rightarrow> 'd) \<Rightarrow> 'd multi_recordable \<Rightarrow> 'd multi_recordable option" where
  "mr_each f [] = Some []"
| "mr_each f ((k, Some d) # m) = map_option ((#) (k, Some (f d))) (mr_each f m)"
| "mr_each f ((k, None) # m) = None"

definition mr_apply :: "('o \<Rightarrow> 'd \<Rightarrow> 'd) \<Rightarrow> 'o \<Rightarrow> 'd multi_recordable \<Rightarrow> 'd multi_recordable option" where
  "mr_apply app op m = mr_each (app op) m"

fun mr_apply_all :: "('o \<Rightarrow> 'd \<Rightarrow> 'd) \<Rightarrow> 'o list \<Rightarrow> 'd multi_recordable \<Rightarrow> 'd multi_recordable option" where
  "mr_apply_all app [] m = Some m"
| "mr_apply_all app (op # ops) m = Option.bind (mr_apply app op m) (mr_apply_all app ops)"

subsection \<open>Lemmas\<close>

lemma mr_each_eq:
  "mr_each f m = (if list_all (\<lambda>(k, d). d \<noteq> None) m then Some (map (\<lambda>(k, d). (k, map_option f d)) m) else None)"
  by (induction f m rule: mr_each.induct) auto

lemma mr_each_keeps: "list_all (\<lambda>(k, d). d \<noteq> None) m \<Longrightarrow> list_all (\<lambda>(k, d). d \<noteq> None) (map (\<lambda>(k, d). (k, map_option f d)) m)"
  by (auto simp: list_all_iff)

lemma mr_apply_all_eq:
  assumes "list_all (\<lambda>(k, d). d \<noteq> None) m"
  shows "mr_apply_all app ops m = Some (map (\<lambda>(k, d). (k, map_option (fold app ops) d)) m)"
  using assms
proof (induction ops arbitrary: m)
  case Nil
  have "map (\<lambda>(k, d). (k, map_option (fold app []) d)) m = m" by (rule map_idI) (auto simp: option.map_id)
  then show ?case by (simp only: mr_apply_all.simps)
next
  case (Cons op ops)
  then show ?case
    using Cons.IH [OF mr_each_keeps [OF Cons.prems]]
    by (simp add: mr_apply_def mr_each_eq option.map_comp comp_def split_def)
qed

lemma map_of_map_option:
  "map_of (map (\<lambda>(k, d). (k, map_option f d)) m) key = map_option (map_option f) (map_of m key)"
  by (induction m) auto

text \<open>Each recordable sees exactly the operations on the whole.\<close>

lemma mr_apply_all_get:
  assumes "list_all (\<lambda>(k, d). d \<noteq> None) m" and "mr_apply_all app ops m = Some m'"
  shows "mr_GetRecordable key m' = map_option (fold app ops) (mr_GetRecordable key m)" and "map fst m' = map fst m"
  using assms(2) unfolding mr_apply_all_eq [OF assms(1)]
  by (auto simp: mr_GetRecordable_def map_of_map_option split: option.splits)

end
