(* ===== verification/Circular_Buffer.thy ===== *)
theory Circular_Buffer
  imports Cpp_Prelude
begin

text \<open>
  \<open>opentelemetry/sdk/common\<close>: the owning atomic pointer (\<open>atomic_unique_ptr.h\<close>), the view of a range
  of slots (\<open>circular_buffer_range.h\<close>) and the lock-free circular buffer of many producers and one
  consumer (\<open>circular_buffer.h\<close>), with its client \<open>InMemoryData\<close> (\<open>exporters/memory/in_memory_data.h\<close>).
  The operations are given twice: as functions, for one thread, and as a step relation whose steps are
  the atomic accesses of the code, for any number of producers beside the consumer. A pointer is an
  optional element, \<^term>\<open>None\<close> the null pointer. The counters are natural numbers: the model is exact as long as
  fewer than \<open>2^64\<close> elements have been added.
\<close>

subsection \<open>AtomicUniquePtr\<close>

text \<open>The result: success, the new pointer, the new owner. A weak exchange may fail for no reason;
  \<open>spurious\<close> says that it does.\<close>

definition aup_IsNull :: "'a option \<Rightarrow> bool" where
  "aup_IsNull ptr \<longleftrightarrow> ptr = None"

definition SwapIfNull :: "bool \<Rightarrow> 'a option \<Rightarrow> 'a option \<Rightarrow> bool \<times> 'a option \<times> 'a option" where
  "SwapIfNull spurious ptr owner =
     (if \<not> spurious \<and> aup_IsNull ptr then (owner \<noteq> None, owner, None) else (False, ptr, owner))"

definition aup_Swap :: "'a option \<Rightarrow> 'a option \<Rightarrow> 'a option \<times> 'a option" where
  "aup_Swap ptr other = (other, ptr)"

definition aup_Reset :: "'a option \<Rightarrow> 'a option \<Rightarrow> 'a option" where
  "aup_Reset ptr new = new"

subsection \<open>CircularBufferRange\<close>

text \<open>A range names slots: the two pieces of the array.\<close>

record cb_range =
  rng_first :: "nat list"
  rng_second :: "nat list"

fun each_loop :: "('b \<Rightarrow> 's \<Rightarrow> bool \<times> 's) \<Rightarrow> 'b list \<Rightarrow> 's \<Rightarrow> bool \<times> 's" where
  "each_loop callback [] s = (True, s)"
| "each_loop callback (v # vs) s =
     (case callback v s of (go, s') \<Rightarrow> if \<not> go then (False, s') else each_loop callback vs s')"

definition rng_ForEach :: "(nat \<Rightarrow> 's \<Rightarrow> bool \<times> 's) \<Rightarrow> cb_range \<Rightarrow> 's \<Rightarrow> bool \<times> 's" where
  "rng_ForEach callback r s =
     (case each_loop callback (rng_first r) s of (go, s') \<Rightarrow>
        if \<not> go then (False, s') else each_loop callback (rng_second r) s')"

definition rng_size :: "cb_range \<Rightarrow> nat" where
  "rng_size r = length (rng_first r) + length (rng_second r)"

definition rng_empty :: "cb_range \<Rightarrow> bool" where
  "rng_empty r \<longleftrightarrow> rng_first r = []"

definition rng_Take :: "cb_range \<Rightarrow> nat \<Rightarrow> cb_range" where
  "rng_Take r n =
     (if length (rng_first r) \<ge> n then \<lparr>rng_first = take n (rng_first r), rng_second = []\<rparr>
      else \<lparr>rng_first = rng_first r, rng_second = take (n - length (rng_first r)) (rng_second r)\<rparr>)"

definition rng_list :: "cb_range \<Rightarrow> nat list" where
  "rng_list r = rng_first r @ rng_second r"

subsection \<open>CircularBuffer, one thread\<close>

record 'a cbuf =
  cb_data :: "'a option list"
  cb_capacity :: nat
  cb_head :: nat
  cb_tail :: nat

definition CircularBuffer :: "nat \<Rightarrow> 'a cbuf" where
  "CircularBuffer max_size =
     \<lparr>cb_data = replicate (max_size + 1) None, cb_capacity = max_size + 1, cb_head = 0, cb_tail = 0\<rparr>"

definition PeekImpl :: "'a cbuf \<Rightarrow> cb_range" where
  "PeekImpl b =
     (let tail_index = cb_tail b mod cb_capacity b;
          head_index = cb_head b mod cb_capacity b
      in if head_index = tail_index then \<lparr>rng_first = [], rng_second = []\<rparr>
         else if tail_index < head_index then \<lparr>rng_first = [tail_index..<head_index], rng_second = []\<rparr>
         else \<lparr>rng_first = [tail_index..<cb_capacity b], rng_second = [0..<head_index]\<rparr>)"

text \<open>\<open>Consume\<close> with a callback on the range; \<^term>\<open>None\<close> when the assertion fails.\<close>

definition Consume_with :: "nat \<Rightarrow> (cb_range \<Rightarrow> 'a cbuf \<times> 's \<Rightarrow> 'a cbuf \<times> 's) \<Rightarrow> 'a cbuf \<Rightarrow> 's \<Rightarrow> ('a cbuf \<times> 's) option" where
  "Consume_with n callback b s =
     (if n \<le> cb_head b - cb_tail b
      then let range = rng_Take (PeekImpl b) n
           in Some (callback range (b\<lparr>cb_tail := cb_tail b + n\<rparr>, s))
      else None)"

definition reset_slot :: "nat \<Rightarrow> 'a cbuf \<times> 's \<Rightarrow> bool \<times> ('a cbuf \<times> 's)" where
  "reset_slot i = (\<lambda>(b, s). (True, (b\<lparr>cb_data := (cb_data b)[i := aup_Reset (cb_data b ! i) None]\<rparr>, s)))"

definition Consume :: "nat \<Rightarrow> 'a cbuf \<Rightarrow> 'a cbuf option" where
  "Consume n b = map_option fst (Consume_with n (\<lambda>range st. snd (rng_ForEach reset_slot range st)) b ())"

definition cb_size :: "'a cbuf \<Rightarrow> nat" where
  "cb_size b = cb_head b - cb_tail b"

definition cb_max_size :: "'a cbuf \<Rightarrow> nat" where
  "cb_max_size b = cb_capacity b - 1"

definition cb_empty :: "'a cbuf \<Rightarrow> bool" where
  "cb_empty b \<longleftrightarrow> cb_head b = cb_tail b"

definition cb_Clear :: "'a cbuf \<Rightarrow> 'a cbuf option" where
  "cb_Clear b = Consume (cb_size b) b"

text \<open>One round of the loop of \<open>Add\<close>; \<open>swap_fails\<close> and \<open>cas_fails\<close> are the spurious failures of the
  two weak exchanges. \<^term>\<open>Inl r\<close>: it returned; \<^term>\<open>Inr ()\<close>: it goes round again.\<close>

definition add_round :: "bool \<Rightarrow> bool \<Rightarrow> 'a cbuf \<Rightarrow> 'a option \<Rightarrow> (bool + unit) \<times> 'a cbuf \<times> 'a option" where
  "add_round swap_fails cas_fails b ptr =
     (let tail = cb_tail b; head = cb_head b
      in if head - tail \<ge> cb_capacity b - 1 then (Inl False, b, ptr)
         else let head_index = head mod cb_capacity b
              in case SwapIfNull swap_fails (cb_data b ! head_index) ptr of (ok, cell, ptr1) \<Rightarrow>
                   let b1 = b\<lparr>cb_data := (cb_data b)[head_index := cell]\<rparr>
                   in if ok
                      then (if \<not> cas_fails then (Inl True, b1\<lparr>cb_head := head + 1\<rparr>, None)
                            else case aup_Swap (cb_data b1 ! head_index) ptr1 of (cell2, ptr2) \<Rightarrow>
                                   (Inr (), b1\<lparr>cb_data := (cb_data b1)[head_index := cell2]\<rparr>, ptr2))
                      else (Inr (), b1, ptr1))"

text \<open>The loop, along the failures that happen; \<^term>\<open>None\<close> while it has not returned.\<close>

fun cb_Add :: "(bool \<times> bool) list \<Rightarrow> 'a cbuf \<Rightarrow> 'a option \<Rightarrow> (bool \<times> 'a cbuf \<times> 'a option) option" where
  "cb_Add [] b ptr = None"
| "cb_Add ((sf, cf) # fails) b ptr =
     (case add_round sf cf b ptr of
        (Inl r, b', ptr') \<Rightarrow> Some (r, b', ptr')
      | (Inr _, b', ptr') \<Rightarrow> cb_Add fails b' ptr')"

subsection \<open>InMemoryData\<close>

definition InMemoryData :: "nat \<Rightarrow> 'a cbuf" where
  "InMemoryData buffer_size = CircularBuffer buffer_size"

definition imd_Add :: "(bool \<times> bool) list \<Rightarrow> 'a cbuf \<Rightarrow> 'a option \<Rightarrow> 'a cbuf option" where
  "imd_Add fails b data = map_option (\<lambda>(r, b', p). b') (cb_Add fails b data)"

definition take_slot :: "nat \<Rightarrow> 'a cbuf \<times> 'a option list \<Rightarrow> bool \<times> ('a cbuf \<times> 'a option list)" where
  "take_slot i =
     (\<lambda>(b, res). case aup_Swap (cb_data b ! i) None of (cell, swap_ptr) \<Rightarrow>
        (True, (b\<lparr>cb_data := (cb_data b)[i := cell]\<rparr>, res @ [swap_ptr])))"

definition imd_Get :: "'a cbuf \<Rightarrow> ('a cbuf \<times> 'a option list) option" where
  "imd_Get b = Consume_with (cb_size b) (\<lambda>range st. snd (rng_ForEach take_slot range st)) b []"

subsection \<open>CircularBuffer, many producers\<close>

text \<open>Where a thread stands in \<open>Add\<close>: at the head of the loop with its pointer; after reading \<open>tail_\<close>; after
  reading \<open>head_\<close>; after \<open>SwapIfNull\<close> moved its element into the slot of \<open>head\<close>; after the exchange of
  \<open>head_\<close> failed; returned.\<close>

datatype 'a producer =
    P_loop "'a option"
  | P_tail "'a option" nat
  | P_head "'a option" nat nat
  | P_swapped 'a nat nat
  | P_undo 'a nat
  | P_done bool

text \<open>Where the consumer stands: outside; knowing a number of elements there are; with the range of
  slots; after \<open>tail_\<close> was advanced, with the slots still to be emptied.\<close>

datatype consumer = C_idle | C_sized nat | C_range nat "nat list" | C_drain "nat list"

text \<open>\<open>st_log\<close> and \<open>st_out\<close> record the elements in the order in which the exchanges of \<open>head_\<close>
  succeeded, and those the consumer received.\<close>

record 'a cb_state =
  st_buf :: "'a cbuf"
  st_prods :: "nat \<Rightarrow> 'a producer"
  st_cons :: consumer
  st_log :: "'a list"
  st_out :: "'a list"

definition cb_init :: "nat \<Rightarrow> 'a cb_state" where
  "cb_init n =
     \<lparr>st_buf = CircularBuffer n, st_prods = (\<lambda>_. P_done False), st_cons = C_idle, st_log = [], st_out = []\<rparr>"

definition set_prod :: "nat \<Rightarrow> 'a producer \<Rightarrow> 'a cb_state \<Rightarrow> 'a cb_state" where
  "set_prod i p s = s\<lparr>st_prods := (st_prods s)(i := p)\<rparr>"

definition set_slot :: "nat \<Rightarrow> 'a option \<Rightarrow> 'a cb_state \<Rightarrow> 'a cb_state" where
  "set_slot k cell s = s\<lparr>st_buf := (st_buf s)\<lparr>cb_data := (cb_data (st_buf s))[k := cell]\<rparr>\<rparr>"

inductive cb_step :: "'a cb_state \<Rightarrow> 'a cb_state \<Rightarrow> bool" where
  call: "st_prods s i = P_done r \<Longrightarrow> cb_step s (set_prod i (P_loop ptr) s)"
| read_tail: "st_prods s i = P_loop ptr \<Longrightarrow> cb_step s (set_prod i (P_tail ptr (cb_tail (st_buf s))) s)"
| read_head: "st_prods s i = P_tail ptr t \<Longrightarrow> cb_step s (set_prod i (P_head ptr t (cb_head (st_buf s))) s)"
| full: "st_prods s i = P_head ptr t h \<Longrightarrow> h - t \<ge> cb_capacity (st_buf s) - 1 \<Longrightarrow>
    cb_step s (set_prod i (P_done False) s)"
| swap: "st_prods s i = P_head ptr t h \<Longrightarrow> \<not> h - t \<ge> cb_capacity (st_buf s) - 1 \<Longrightarrow>
    k = h mod cb_capacity (st_buf s) \<Longrightarrow> SwapIfNull spurious (cb_data (st_buf s) ! k) ptr = (ok, cell, ptr') \<Longrightarrow>
    cb_step s (set_prod i (if ok then P_swapped (the ptr) t h else P_loop ptr') (set_slot k cell s))"
| cas: "st_prods s i = P_swapped x t h \<Longrightarrow> cb_head (st_buf s) = h \<Longrightarrow>
    cb_step s (set_prod i (P_done True)
      (s\<lparr>st_buf := (st_buf s)\<lparr>cb_head := h + 1\<rparr>, st_log := st_log s @ [x]\<rparr>))"
| cas_fails: "st_prods s i = P_swapped x t h \<Longrightarrow> cb_step s (set_prod i (P_undo x h) s)"
| undo: "st_prods s i = P_undo x h \<Longrightarrow> k = h mod cb_capacity (st_buf s) \<Longrightarrow>
    aup_Swap (cb_data (st_buf s) ! k) None = (cell, ptr) \<Longrightarrow>
    cb_step s (set_prod i (P_loop ptr) (set_slot k cell s))"
| sized: "st_cons s = C_idle \<Longrightarrow> n \<le> cb_size (st_buf s) \<Longrightarrow> cb_step s (s\<lparr>st_cons := C_sized n\<rparr>)"
| peek: "st_cons s = C_sized n \<Longrightarrow>
    cb_step s (s\<lparr>st_cons := C_range n (rng_list (rng_Take (PeekImpl (st_buf s)) n))\<rparr>)"
| advance: "st_cons s = C_range n slots \<Longrightarrow>
    cb_step s (s\<lparr>st_cons := C_drain slots, st_buf := (st_buf s)\<lparr>cb_tail := cb_tail (st_buf s) + n\<rparr>\<rparr>)"
| drain: "st_cons s = C_drain (k # slots) \<Longrightarrow> aup_Swap (cb_data (st_buf s) ! k) None = (cell, ptr) \<Longrightarrow>
    cb_step s ((set_slot k cell s)\<lparr>st_cons := C_drain slots,
      st_out := st_out s @ (case ptr of Some x \<Rightarrow> [x] | None \<Rightarrow> [])\<rparr>)"
| drained: "st_cons s = C_drain [] \<Longrightarrow> cb_step s (s\<lparr>st_cons := C_idle\<rparr>)"

inductive cb_reach :: "nat \<Rightarrow> 'a cb_state \<Rightarrow> bool" for n where
  init: "cb_reach n (cb_init n)"
| step: "cb_reach n s \<Longrightarrow> cb_step s s' \<Longrightarrow> cb_reach n s'"

subsection \<open>Reference definitions\<close>

definition slots_of :: "nat \<Rightarrow> nat \<Rightarrow> nat \<Rightarrow> nat list" where
  "slots_of cap lo hi = map (\<lambda>p. p mod cap) [lo..<hi]"

definition cb_contents :: "'a cbuf \<Rightarrow> 'a list" where
  "cb_contents b = map (\<lambda>k. the (cb_data b ! k)) (slots_of (cb_capacity b) (cb_tail b) (cb_head b))"

text \<open>At rest: the slots from tail to head are filled, the others empty.\<close>

definition wf_cb :: "'a cbuf \<Rightarrow> bool" where
  "wf_cb b \<longleftrightarrow> 0 < cb_capacity b \<and> length (cb_data b) = cb_capacity b \<and> cb_tail b \<le> cb_head b \<and>
     cb_head b - cb_tail b < cb_capacity b \<and>
     (\<forall>k < cb_capacity b. cb_data b ! k \<noteq> None \<longleftrightarrow> k \<in> set (slots_of (cb_capacity b) (cb_tail b) (cb_head b)))"

text \<open>What a successful \<open>Add\<close> does.\<close>

definition cb_push :: "'a cbuf \<Rightarrow> 'a \<Rightarrow> 'a cbuf" where
  "cb_push b x = b\<lparr>cb_data := (cb_data b)[cb_head b mod cb_capacity b := Some x], cb_head := cb_head b + 1\<rparr>"

text \<open>The first position whose slot the consumer has not emptied.\<close>

fun drain_left :: "consumer \<Rightarrow> nat" where
  "drain_left (C_drain slots) = length slots"
| "drain_left _ = 0"

definition st_base :: "'a cb_state \<Rightarrow> nat" where
  "st_base s = cb_tail (st_buf s) - drain_left (st_cons s)"

text \<open>The element and position of a producer whose element is in a slot but not yet counted.\<close>

fun holding :: "'a producer \<Rightarrow> ('a \<times> nat) option" where
  "holding (P_swapped x t h) = Some (x, h)"
| "holding (P_undo x h) = Some (x, h)"
| "holding _ = None"

fun prod_ok :: "nat \<Rightarrow> nat \<Rightarrow> nat \<Rightarrow> 'a producer \<Rightarrow> bool" where
  "prod_ok cap tp hp (P_tail ptr t) \<longleftrightarrow> t \<le> tp"
| "prod_ok cap tp hp (P_head ptr t h) \<longleftrightarrow> t \<le> tp \<and> t \<le> h \<and> h \<le> hp"
| "prod_ok cap tp hp (P_swapped x t h) \<longleftrightarrow> t \<le> tp \<and> t \<le> h \<and> h \<le> hp \<and> h - t < cap - 1"
| "prod_ok cap tp hp _ \<longleftrightarrow> True"

fun cons_ok :: "nat \<Rightarrow> nat \<Rightarrow> nat \<Rightarrow> consumer \<Rightarrow> bool" where
  "cons_ok cap tp hp C_idle \<longleftrightarrow> True"
| "cons_ok cap tp hp (C_sized n) \<longleftrightarrow> tp + n \<le> hp"
| "cons_ok cap tp hp (C_range n slots) \<longleftrightarrow> tp + n \<le> hp \<and> slots = slots_of cap tp (tp + n)"
| "cons_ok cap tp hp (C_drain slots) \<longleftrightarrow> length slots \<le> tp \<and> slots = slots_of cap (tp - length slots) tp"

text \<open>The invariant: of the buffer, the consumer and the records; and of the producers, of which none
  holds a slot that is counted, and no two the same.\<close>

definition buf_inv :: "'a cb_state \<Rightarrow> bool" where
  "buf_inv s \<longleftrightarrow>
     (let b = st_buf s; cap = cb_capacity b
      in 0 < cap \<and> length (cb_data b) = cap \<and> length (st_log s) = cb_head b \<and> cb_tail b \<le> cb_head b \<and>
         cb_head b < cb_tail b + cap \<and> cb_head b \<le> st_base s + cap \<and> cons_ok cap (cb_tail b) (cb_head b) (st_cons s) \<and>
         (\<forall>p. st_base s \<le> p \<and> p < cb_head b \<longrightarrow> cb_data b ! (p mod cap) = Some (st_log s ! p)) \<and>
         st_out s = take (st_base s) (st_log s))"

definition holds_slot :: "'a cb_state \<Rightarrow> nat \<Rightarrow> 'a \<Rightarrow> nat \<Rightarrow> bool" where
  "holds_slot s i x k \<longleftrightarrow> (\<exists>h. holding (st_prods s i) = Some (x, h) \<and> k = h mod cb_capacity (st_buf s))"

definition prods_inv :: "'a cb_state \<Rightarrow> bool" where
  "prods_inv s \<longleftrightarrow>
     (\<forall>i. prod_ok (cb_capacity (st_buf s)) (cb_tail (st_buf s)) (cb_head (st_buf s)) (st_prods s i)) \<and>
     (\<forall>i x k. holds_slot s i x k \<longrightarrow> cb_data (st_buf s) ! k = Some x \<and>
        k \<notin> set (slots_of (cb_capacity (st_buf s)) (st_base s) (cb_head (st_buf s)))) \<and>
     (\<forall>i j x y k. holds_slot s i x k \<and> holds_slot s j y k \<longrightarrow> i = j)"

definition cb_inv :: "'a cb_state \<Rightarrow> bool" where
  "cb_inv s \<longleftrightarrow> buf_inv s \<and> prods_inv s"

subsection \<open>Slots\<close>

lemma residues_distinct: "p < q \<Longrightarrow> q < p + cap \<Longrightarrow> p mod cap \<noteq> q mod (cap :: nat)"
proof
  assume a: "p < q" "q < p + cap" "p mod cap = q mod cap"
  then have "cap dvd q - p" by (metis mod_eq_dvd_iff_nat less_imp_le)
  then show False using a(1,2) by (auto dest: dvd_imp_le)
qed

lemma set_slots_of: "k \<in> set (slots_of cap lo hi) \<longleftrightarrow> (\<exists>p. lo \<le> p \<and> p < hi \<and> k = p mod cap)"
  by (auto simp: slots_of_def)

lemma length_slots_of [simp]: "length (slots_of cap lo hi) = hi - lo"
  by (simp add: slots_of_def)

lemma slots_of_Nil [simp]: "hi \<le> lo \<Longrightarrow> slots_of cap lo hi = []"
  by (simp add: slots_of_def)

lemma slots_of_Cons: "lo < hi \<Longrightarrow> slots_of cap lo hi = lo mod cap # slots_of cap (Suc lo) hi"
  by (simp add: slots_of_def upt_conv_Cons)

lemma slots_of_snoc: "lo \<le> hi \<Longrightarrow> slots_of cap lo (Suc hi) = slots_of cap lo hi @ [hi mod cap]"
  by (simp add: slots_of_def)

lemma slots_of_append:
  assumes "lo \<le> mid" and "mid \<le> hi"
  shows "slots_of cap lo hi = slots_of cap lo mid @ slots_of cap mid hi"
proof -
  have "[lo..<hi] = [lo..<mid] @ [mid..<hi]"
    using assms upt_add_eq_append [of lo mid "hi - mid"] by simp
  then show ?thesis by (simp add: slots_of_def)
qed

lemma distinct_slots_of:
  assumes "hi \<le> lo + cap"
  shows "distinct (slots_of cap lo hi)"
proof -
  have "p mod cap \<noteq> q mod cap" if "lo \<le> p" "q < hi" "p < q" for p q
    using that assms by (intro residues_distinct) auto
  then have "inj_on (\<lambda>p. p mod cap) {lo..<hi}"
    by (intro linorder_inj_onI') auto
  then show ?thesis by (simp add: slots_of_def distinct_map)
qed

lemma mod_add_once: "a < cap \<Longrightarrow> k < cap \<Longrightarrow> (a + k) mod cap = (if a + k < cap then a + k else a + k - (cap :: nat))"
  by (cases "a + k < cap") (simp_all add: le_mod_geq)

lemma slots_of_split:
  assumes "0 < cap" and "k < cap"
  shows "slots_of cap lo (lo + k) =
    (if lo mod cap + k \<le> cap then [lo mod cap..<lo mod cap + k] else [lo mod cap..<cap] @ [0..<lo mod cap + k - cap])"
proof (rule nth_equalityI)
  fix i assume "i < length (slots_of cap lo (lo + k))"
  then have i: "i < k" by simp
  have lt: "lo mod cap < cap" using assms(1) by simp
  have "(lo + i) mod cap = (lo mod cap + i) mod cap" by (simp add: mod_add_left_eq)
  also have "\<dots> = (if lo mod cap + i < cap then lo mod cap + i else lo mod cap + i - cap)"
    using lt i assms(2) by (intro mod_add_once) simp_all
  finally show "slots_of cap lo (lo + k) ! i =
      (if lo mod cap + k \<le> cap then [lo mod cap..<lo mod cap + k] else [lo mod cap..<cap] @ [0..<lo mod cap + k - cap]) ! i"
    using i lt assms(2) by (auto simp: slots_of_def nth_append)
qed (use assms in \<open>auto simp: not_le intro: less_imp_le\<close>)

lemma PeekImpl_slots:
  assumes "0 < cb_capacity b" and "cb_tail b \<le> cb_head b" and "cb_head b - cb_tail b < cb_capacity b"
  shows "rng_list (PeekImpl b) = slots_of (cb_capacity b) (cb_tail b) (cb_head b)"
proof -
  define cap t k where d: "cap = cb_capacity b" "t = cb_tail b" "k = cb_head b - cb_tail b"
  have h: "cb_head b = t + k" using assms(2) by (simp add: d)
  have a: "0 < cap" "k < cap" using assms by (simp_all add: d)
  have lt: "t mod cap < cap" using a(1) by simp
  have hm: "(t + k) mod cap = (if t mod cap + k < cap then t mod cap + k else t mod cap + k - cap)"
    using mod_add_once [OF lt a(2)] mod_add_left_eq [of t cap k] by simp
  show ?thesis
    using slots_of_split [OF a, of t] a lt
    by (auto simp: PeekImpl_def rng_list_def Let_def h d(1,2) [symmetric] hm)
qed

lemma rng_list_Take: "rng_list (rng_Take r n) = take n (rng_list r)"
  by (simp add: rng_list_def rng_Take_def)

lemma take_slots_of: "take n (slots_of cap lo hi) = slots_of cap lo (min (lo + n) hi)"
  by (cases "lo \<le> hi") (auto simp: slots_of_def take_map take_upt min_def)

subsection \<open>The invariant\<close>

lemma state_simps [simp]:
  "st_buf (set_prod i p s) = st_buf s" "st_cons (set_prod i p s) = st_cons s" "st_log (set_prod i p s) = st_log s"
  "st_out (set_prod i p s) = st_out s" "st_prods (set_prod i p s) = (st_prods s)(i := p)"
  "st_base (set_prod i p s) = st_base s"
  "st_prods (set_slot k c s) = st_prods s" "st_cons (set_slot k c s) = st_cons s" "st_log (set_slot k c s) = st_log s"
  "st_out (set_slot k c s) = st_out s" "st_base (set_slot k c s) = st_base s"
  "cb_data (st_buf (set_slot k c s)) = (cb_data (st_buf s))[k := c]" "cb_capacity (st_buf (set_slot k c s)) = cb_capacity (st_buf s)"
  "cb_head (st_buf (set_slot k c s)) = cb_head (st_buf s)" "cb_tail (st_buf (set_slot k c s)) = cb_tail (st_buf s)"
  by (simp_all add: set_prod_def set_slot_def st_base_def)

lemma holds_set_prod:
  "holds_slot (set_prod i p s) j x k \<longleftrightarrow>
     (if j = i then (\<exists>h. holding p = Some (x, h) \<and> k = h mod cb_capacity (st_buf s)) else holds_slot s j x k)"
  "holds_slot (set_slot n c s) j x k \<longleftrightarrow> holds_slot s j x k"
  by (auto simp: holds_slot_def)

lemma buf_inv_set_prod [simp]: "buf_inv (set_prod i p s) = buf_inv s"
  by (simp add: buf_inv_def)

lemma buf_inv_slot_less: "buf_inv s \<Longrightarrow> h mod cb_capacity (st_buf s) < length (cb_data (st_buf s))"
  by (simp add: buf_inv_def Let_def)

lemma buf_inv_set_slot:
  assumes "buf_inv s" and "k \<notin> set (slots_of (cb_capacity (st_buf s)) (st_base s) (cb_head (st_buf s)))"
  shows "buf_inv (set_slot k c s)"
  using assms by (auto simp: buf_inv_def Let_def set_slots_of nth_list_update)

lemma prods_invI:
  assumes "\<And>i. prod_ok (cb_capacity (st_buf s)) (cb_tail (st_buf s)) (cb_head (st_buf s)) (st_prods s i)"
    and "\<And>i x k. holds_slot s i x k \<Longrightarrow> cb_data (st_buf s) ! k = Some x"
    and "\<And>i x k. holds_slot s i x k \<Longrightarrow> k \<notin> set (slots_of (cb_capacity (st_buf s)) (st_base s) (cb_head (st_buf s)))"
    and "\<And>i j x y k. holds_slot s i x k \<Longrightarrow> holds_slot s j y k \<Longrightarrow> i = j"
  shows "prods_inv s"
  using assms unfolding prods_inv_def by blast

lemma prods_invD:
  assumes "prods_inv s"
  shows "prod_ok (cb_capacity (st_buf s)) (cb_tail (st_buf s)) (cb_head (st_buf s)) (st_prods s i)"
    and "holds_slot s i x k \<Longrightarrow> cb_data (st_buf s) ! k = Some x"
    and "holds_slot s i x k \<Longrightarrow> k \<notin> set (slots_of (cb_capacity (st_buf s)) (st_base s) (cb_head (st_buf s)))"
    and "holds_slot s i x k \<Longrightarrow> holds_slot s j y k \<Longrightarrow> i = j"
  using assms unfolding prods_inv_def by blast+

text \<open>An empty slot is neither counted nor held.\<close>

lemma empty_slot_free:
  assumes "cb_inv s" and "cb_data (st_buf s) ! k = None"
  shows "k \<notin> set (slots_of (cb_capacity (st_buf s)) (st_base s) (cb_head (st_buf s)))" and "\<not> holds_slot s j x k"
  using assms by (auto simp: cb_inv_def buf_inv_def prods_inv_def Let_def set_slots_of)

lemma inv_set_prod:
  assumes "cb_inv s" and "prod_ok (cb_capacity (st_buf s)) (cb_tail (st_buf s)) (cb_head (st_buf s)) p"
    and "holding p = None \<or> holding p = holding (st_prods s i)"
  shows "cb_inv (set_prod i p s)"
proof -
  have h: "holds_slot (set_prod i p s) j x k \<Longrightarrow> holds_slot s j x k" for j x k
    using assms(3) by (auto simp: holds_set_prod holds_slot_def split: if_splits)
  have "prods_inv s" "buf_inv s" using assms(1) by (simp_all add: cb_inv_def)
  then show ?thesis using assms(2) h unfolding cb_inv_def prods_inv_def by (auto; blast)
qed

lemma inv_swap_ok:
  assumes v: "cb_inv s" and i: "st_prods s i = P_head ptr t h" and r: "\<not> h - t \<ge> cb_capacity (st_buf s) - 1"
    and k: "k = h mod cb_capacity (st_buf s)" and n: "cb_data (st_buf s) ! k = None"
  shows "cb_inv (set_prod i (P_swapped x t h) (set_slot k (Some x) s))"
proof -
  let ?s = "set_prod i (P_swapped x t h) (set_slot k (Some x) s)"
  note free = empty_slot_free [OF v n]
  have b: "buf_inv s" and p: "prods_inv s" using v by (simp_all add: cb_inv_def)
  have kl: "k < length (cb_data (st_buf s))" using buf_inv_slot_less [OF b] k by simp
  have h: "holds_slot ?s j y m \<longleftrightarrow> (if j = i then y = x \<and> m = k else holds_slot s j y m)" for j y m
    by (auto simp: holds_set_prod k)
  have "prods_inv ?s"
    unfolding prods_inv_def h
  proof (intro conjI allI impI)
    show "prod_ok (cb_capacity (st_buf ?s)) (cb_tail (st_buf ?s)) (cb_head (st_buf ?s)) (st_prods ?s j)" for j
      using p i r by (auto simp: prods_inv_def dest: spec [of _ i])
    show "cb_data (st_buf ?s) ! m = Some y" if "if j = i then y = x \<and> m = k else holds_slot s j y m" for j y m
      using that p kl free(2) by (cases "m = k") (auto simp: prods_inv_def split: if_splits)
    show "m \<notin> set (slots_of (cb_capacity (st_buf ?s)) (st_base ?s) (cb_head (st_buf ?s)))"
      if "if j = i then y = x \<and> m = k else holds_slot s j y m" for j y m
      using that p free(1) by (auto simp: prods_inv_def split: if_splits)
    show "j = l" if "(if j = i then y = x \<and> m = k else holds_slot s j y m) \<and> (if l = i then z = x \<and> m = k else holds_slot s l z m)"
      for j l y z m
      using that p free(2) unfolding prods_inv_def by (metis (full_types))
  qed
  then show ?thesis using buf_inv_set_slot [OF b free(1)] by (simp add: cb_inv_def)
qed

lemma inv_undo:
  assumes v: "cb_inv s" and i: "st_prods s i = P_undo x h" and k: "k = h mod cb_capacity (st_buf s)"
  shows "cb_inv (set_prod i (P_loop ptr) (set_slot k None s))"
proof -
  let ?s = "set_prod i (P_loop ptr) (set_slot k None s)"
  have b: "buf_inv s" and p: "prods_inv s" using v by (simp_all add: cb_inv_def)
  have me: "holds_slot s i x k" using i k by (simp add: holds_slot_def)
  have h: "holds_slot ?s j y m \<longleftrightarrow> j \<noteq> i \<and> holds_slot s j y m" for j y m
    by (simp add: holds_set_prod)
  have ne: "m \<noteq> k" if "j \<noteq> i" "holds_slot s j y m" for j y m
    using that me prods_invD(4) [OF p] by blast
  have "prods_inv ?s"
  proof (rule prods_invI, unfold h)
    show "cb_data (st_buf ?s) ! m = Some y" if "j \<noteq> i \<and> holds_slot s j y m" for j y m
      using that prods_invD(2) [OF p, of j y m] ne [of j y m] by simp
  qed (use prods_invD [OF p] in auto)
  moreover have "k \<notin> set (slots_of (cb_capacity (st_buf s)) (st_base s) (cb_head (st_buf s)))"
    using p me unfolding prods_inv_def by blast
  ultimately show ?thesis using buf_inv_set_slot [OF b] by (simp add: cb_inv_def)
qed

lemma prod_ok_mono: "prod_ok cap t h p \<Longrightarrow> t \<le> t' \<Longrightarrow> h \<le> h' \<Longrightarrow> prod_ok cap t' h' p"
  by (cases p) auto

lemma cons_ok_head: "cons_ok cap t h c \<Longrightarrow> h \<le> h' \<Longrightarrow> cons_ok cap t h' c"
  by (cases c) auto

lemma inv_cas:
  assumes v: "cb_inv s" and i: "st_prods s i = P_swapped x t h" and hd: "cb_head (st_buf s) = h"
  shows "cb_inv (set_prod i (P_done True) (s\<lparr>st_buf := (st_buf s)\<lparr>cb_head := h + 1\<rparr>, st_log := st_log s @ [x]\<rparr>))"
    (is "cb_inv ?s")
proof -
  let ?b = "st_buf s" and ?cap = "cb_capacity (st_buf s)"
  have b: "buf_inv s" and p: "prods_inv s" using v by (simp_all add: cb_inv_def)
  have me: "holds_slot s i x (h mod ?cap)" using i by (simp add: holds_slot_def)
  have mine: "cb_data ?b ! (h mod ?cap) = Some x" and out: "h mod ?cap \<notin> set (slots_of ?cap (st_base s) h)"
    using p me hd unfolding prods_inv_def by blast+
  have ok: "t \<le> cb_tail ?b" "t \<le> h" "h - t < ?cap - 1" using p i unfolding prods_inv_def by (metis prod_ok.simps(3))+
  have bt: "st_base s \<le> cb_tail ?b" by (simp add: st_base_def)
  have facts: "0 < ?cap" "length (st_log s) = h" "cb_tail ?b \<le> h" "h \<le> st_base s + ?cap"
    using b hd by (simp_all add: buf_inv_def Let_def)
  have room: "h < st_base s + ?cap"
  proof (rule ccontr)
    assume "\<not> ?thesis"
    then have "h = st_base s + ?cap" using facts(4) by simp
    then have "h mod ?cap \<in> set (slots_of ?cap (st_base s) h)" using facts(1) by (force simp: set_slots_of)
    with out show False by simp
  qed
  have base: "st_base ?s = st_base s" by (simp add: st_base_def)
  have "buf_inv ?s"
    using b hd facts room ok mine bt unfolding buf_inv_def Let_def base
    by (auto simp: nth_append less_Suc_eq intro: cons_ok_head)
  moreover have h': "holds_slot ?s j y m \<longleftrightarrow> j \<noteq> i \<and> holds_slot s j y m" for j y m
    by (simp add: holds_slot_def)
  have ne: "m \<noteq> h mod ?cap" if "j \<noteq> i" "holds_slot s j y m" for j y m
    using that me prods_invD(4) [OF p] by blast
  have "prods_inv ?s"
  proof (rule prods_invI, unfold h' base)
    show "prod_ok (cb_capacity (st_buf ?s)) (cb_tail (st_buf ?s)) (cb_head (st_buf ?s)) (st_prods ?s j)" for j
      using prods_invD(1) [OF p, of j] hd by (auto intro: prod_ok_mono)
    show "m \<notin> set (slots_of (cb_capacity (st_buf ?s)) (st_base s) (cb_head (st_buf ?s)))"
      if "j \<noteq> i \<and> holds_slot s j y m" for j y m
      using that prods_invD(3) [OF p, of j y m] ne [of j y m] hd bt facts(3) by (simp add: slots_of_snoc)
  qed (use prods_invD(2,4) [OF p] in auto)
  ultimately show ?thesis by (simp add: cb_inv_def)
qed

lemma inv_cons:
  assumes "cb_inv s" and "cons_ok (cb_capacity (st_buf s)) (cb_tail (st_buf s)) (cb_head (st_buf s)) c"
    and "drain_left c = drain_left (st_cons s)"
  shows "cb_inv (s\<lparr>st_cons := c\<rparr>)"
proof -
  have base: "st_base (s\<lparr>st_cons := c\<rparr>) = st_base s" using assms(3) by (simp add: st_base_def)
  have h: "holds_slot (s\<lparr>st_cons := c\<rparr>) = holds_slot s" by (simp add: fun_eq_iff holds_slot_def)
  show ?thesis using assms(1,2) by (simp add: cb_inv_def buf_inv_def prods_inv_def Let_def base h)
qed

lemma inv_peek:
  assumes "cb_inv s" and "st_cons s = C_sized n"
  shows "cb_inv (s\<lparr>st_cons := C_range n (rng_list (rng_Take (PeekImpl (st_buf s)) n))\<rparr>)"
proof (rule inv_cons [OF assms(1)])
  have b: "buf_inv s" using assms(1) by (simp add: cb_inv_def)
  then have "cb_tail (st_buf s) + n \<le> cb_head (st_buf s)" using assms(2) by (simp add: buf_inv_def Let_def)
  moreover have "rng_list (PeekImpl (st_buf s)) = slots_of (cb_capacity (st_buf s)) (cb_tail (st_buf s)) (cb_head (st_buf s))"
    using b by (intro PeekImpl_slots) (auto simp: buf_inv_def Let_def)
  ultimately show "cons_ok (cb_capacity (st_buf s)) (cb_tail (st_buf s)) (cb_head (st_buf s))
      (C_range n (rng_list (rng_Take (PeekImpl (st_buf s)) n)))"
    by (simp add: rng_list_Take take_slots_of min_def)
qed (simp add: assms(2))

lemma inv_advance:
  assumes "cb_inv s" and c: "st_cons s = C_range n slots"
  shows "cb_inv (s\<lparr>st_cons := C_drain slots, st_buf := (st_buf s)\<lparr>cb_tail := cb_tail (st_buf s) + n\<rparr>\<rparr>)" (is "cb_inv ?s")
proof -
  have b: "buf_inv s" and p: "prods_inv s" using assms(1) by (simp_all add: cb_inv_def)
  have s: "slots = slots_of (cb_capacity (st_buf s)) (cb_tail (st_buf s)) (cb_tail (st_buf s) + n)"
    "cb_tail (st_buf s) + n \<le> cb_head (st_buf s)"
    using b c by (simp_all add: buf_inv_def Let_def)
  then have base: "st_base ?s = st_base s" using c by (simp add: st_base_def)
  have h: "holds_slot ?s = holds_slot s" by (simp add: fun_eq_iff holds_slot_def)
  have "buf_inv ?s" using b s unfolding buf_inv_def Let_def base by auto
  moreover have "prods_inv ?s"
    using p unfolding prods_inv_def base h by (auto intro: prod_ok_mono)
  ultimately show ?thesis by (simp add: cb_inv_def)
qed

lemma inv_drain:
  assumes v: "cb_inv s" and c: "st_cons s = C_drain (k # slots)"
    and ptr: "ptr = cb_data (st_buf s) ! k"
  shows "cb_inv ((set_slot k None s)\<lparr>st_cons := C_drain slots,
      st_out := st_out s @ (case ptr of Some x \<Rightarrow> [x] | None \<Rightarrow> [])\<rparr>)" (is "cb_inv ?s")
proof -
  let ?cap = "cb_capacity (st_buf s)" and ?t = "cb_tail (st_buf s)" and ?h = "cb_head (st_buf s)"
  have b: "buf_inv s" and p: "prods_inv s" using v by (simp_all add: cb_inv_def)
  have sl: "Suc (length slots) \<le> ?t" "k # slots = slots_of ?cap (?t - Suc (length slots)) ?t"
    using b c by (simp_all add: buf_inv_def Let_def)
  define base where "base = st_base s"
  have base: "base = ?t - Suc (length slots)" "st_base ?s = Suc base"
    using sl(1) c by (simp_all add: base_def st_base_def)
  have lt: "base < ?t" using base(1) sl(1) by simp
  have k: "k = base mod ?cap" "slots = slots_of ?cap (Suc base) ?t"
    using sl(2) slots_of_Cons [OF lt, of ?cap] by (simp_all add: base(1) [symmetric])
  have facts: "0 < ?cap" "?t \<le> ?h" "?h \<le> base + ?cap" "length (st_log s) = ?h" "?h < ?t + ?cap"
    "length (cb_data (st_buf s)) = ?cap" "st_out s = take base (st_log s)"
    using b by (simp_all add: buf_inv_def Let_def base_def)
  have slot: "base \<le> q \<Longrightarrow> q < ?h \<Longrightarrow> cb_data (st_buf s) ! (q mod ?cap) = Some (st_log s ! q)" for q
    using b by (simp add: buf_inv_def Let_def base_def)
  have "ptr = Some (st_log s ! base)" using slot [of base] lt facts(2) ptr k(1) by simp
  then have out: "st_out ?s = take (Suc base) (st_log s)"
    using lt facts(2,4,7) by (simp add: take_Suc_conv_app_nth)
  have other: "k \<noteq> q mod ?cap" if "Suc base \<le> q" "q < ?h" for q
    unfolding k(1) using that facts(3) by (intro residues_distinct) auto
  have "buf_inv ?s"
    unfolding buf_inv_def Let_def out base(2)
    using facts lt k(2) slot other by auto
  moreover have h: "holds_slot ?s = holds_slot s" by (simp add: fun_eq_iff holds_slot_def)
  have cnt: "k \<in> set (slots_of ?cap base ?h)" using lt facts(2) k(1) by (auto simp: set_slots_of)
  have sub: "set (slots_of ?cap (Suc base) ?h) \<subseteq> set (slots_of ?cap base ?h)" by (auto simp: slots_of_def)
  have ne: "m \<noteq> k" if "holds_slot s j y m" for j y m
    using prods_invD(3) [OF p that] cnt by (auto simp: base_def)
  have "prods_inv ?s"
  proof (rule prods_invI, unfold h base(2))
    show "cb_data (st_buf ?s) ! m = Some y" if "holds_slot s j y m" for j y m
      using prods_invD(2) [OF p that] ne [OF that] by simp
    show "m \<notin> set (slots_of (cb_capacity (st_buf ?s)) (Suc base) (cb_head (st_buf ?s)))" if "holds_slot s j y m" for j y m
      using prods_invD(3) [OF p that] sub by (auto simp: base_def)
  qed (use prods_invD(1,4) [OF p] in auto)
  ultimately show ?thesis by (simp add: cb_inv_def)
qed

lemma inv_step: "cb_step s s' \<Longrightarrow> cb_inv s \<Longrightarrow> cb_inv s'"
proof (induction rule: cb_step.induct)
  case (swap s i ptr t h k spurious ok cell ptr')
  show ?case
  proof (cases ok)
    case True
    then obtain x where "ptr = Some x" "cell = Some x" "cb_data (st_buf s) ! k = None"
      using swap.hyps(4) by (auto simp: SwapIfNull_def aup_IsNull_def split: if_splits)
    then show ?thesis using inv_swap_ok [OF swap.prems swap.hyps(1,2,3)] True by simp
  next
    case False
    then have "cell = cb_data (st_buf s) ! k"
      using swap.hyps(4) by (auto simp: SwapIfNull_def aup_IsNull_def split: if_splits)
    then have "set_slot k cell s = s" by (simp add: set_slot_def)
    then show ?thesis using inv_set_prod [OF swap.prems, of "P_loop ptr'" i] False by simp
  qed
next
  case (read_head s i ptr t)
  then have "prod_ok (cb_capacity (st_buf s)) (cb_tail (st_buf s)) (cb_head (st_buf s)) (P_tail ptr t)"
    unfolding cb_inv_def prods_inv_def by metis
  moreover have "cb_tail (st_buf s) \<le> cb_head (st_buf s)" using read_head.prems by (simp add: cb_inv_def buf_inv_def Let_def)
  ultimately show ?case using read_head.prems by (intro inv_set_prod) auto
next
  case (sized s n)
  then have "cb_tail (st_buf s) \<le> cb_head (st_buf s)" by (simp add: cb_inv_def buf_inv_def Let_def)
  with sized show ?case by (intro inv_cons) (auto simp: cb_size_def)
next
  case (undo s i x h k cell ptr)
  then show ?case using inv_undo [of s i x h k ptr] by (simp add: aup_Swap_def)
next
  case (drain s k slots cell ptr)
  then show ?case using inv_drain [of s k slots ptr] by (simp add: aup_Swap_def)
next
  case (cas s i x t h)
  then show ?case by (intro inv_cas)
qed (auto intro: inv_set_prod inv_cons inv_peek inv_advance)

lemma inv_reach: "cb_reach n s \<Longrightarrow> cb_inv s \<and> cb_capacity (st_buf s) = Suc n"
proof (induction rule: cb_reach.induct)
  case init
  show ?case
    by (simp add: cb_inv_def buf_inv_def prods_inv_def holds_slot_def cb_init_def CircularBuffer_def st_base_def Let_def)
next
  case (step s s')
  have "cb_capacity (st_buf s') = cb_capacity (st_buf s)" using step.hyps(2) by cases simp_all
  then show ?case using step inv_step by auto
qed

subsection \<open>One thread\<close>

lemma each_loop_fold:
  "(\<And>i s. fst (cb i s)) \<Longrightarrow> each_loop cb is s = (True, fold (\<lambda>i s. snd (cb i s)) is s)"
proof (induction "is" arbitrary: s)
  case (Cons i "is")
  have "fst (cb i s)" by (rule Cons.prems)
  then show ?case using Cons.IH [OF Cons.prems] by (cases "cb i s") simp
qed simp

lemma rng_ForEach_fold:
  "(\<And>i s. fst (cb i s)) \<Longrightarrow> rng_ForEach cb r s = (True, fold (\<lambda>i s. snd (cb i s)) (rng_list r) s)"
  by (simp add: rng_ForEach_def each_loop_fold rng_list_def)

lemma fold_clear:
  "length (fold (\<lambda>i d. d[i := None]) is d) = length d"
  "k < length d \<Longrightarrow> fold (\<lambda>i d. d[i := None]) is d ! k = (if k \<in> set is then None else d ! k)"
  by (induction "is" arbitrary: d) (auto simp: nth_list_update)

lemma fold_reset_slot:
  "fold (\<lambda>i st. snd (reset_slot i st)) is (b, s) = (b\<lparr>cb_data := fold (\<lambda>i d. d[i := None]) is (cb_data b)\<rparr>, s)"
  by (induction "is" arbitrary: b) (simp_all add: reset_slot_def aup_Reset_def)

lemma fold_take_slot:
  assumes "distinct is" and "\<forall>i \<in> set is. i < length (cb_data b)"
  shows "fold (\<lambda>i st. snd (take_slot i st)) is (b, res) =
    (b\<lparr>cb_data := fold (\<lambda>i d. d[i := None]) is (cb_data b)\<rparr>, res @ map (\<lambda>i. cb_data b ! i) is)"
  using assms
proof (induction "is" arbitrary: b res)
  case (Cons i "is")
  have "map (\<lambda>j. (cb_data b)[i := None] ! j) is = map (\<lambda>j. cb_data b ! j) is"
    using Cons.prems(1) by (intro map_cong refl nth_list_update_neq) auto
  with Cons show ?case by (simp add: take_slot_def aup_Swap_def)
qed simp

lemma ForEach_slots:
  "rng_ForEach reset_slot r (b, s) = (True, (b\<lparr>cb_data := fold (\<lambda>i d. d[i := None]) (rng_list r) (cb_data b)\<rparr>, s))"
  "distinct (rng_list r) \<Longrightarrow> \<forall>i \<in> set (rng_list r). i < length (cb_data b) \<Longrightarrow>
   rng_ForEach take_slot r (b, res) =
     (True, (b\<lparr>cb_data := fold (\<lambda>i d. d[i := None]) (rng_list r) (cb_data b)\<rparr>, res @ map (\<lambda>i. cb_data b ! i) (rng_list r)))"
proof -
  have t: "fst (reset_slot i st)" "fst (take_slot i st')" for i st st'
    by (simp_all add: reset_slot_def take_slot_def aup_Swap_def split_beta)
  show "rng_ForEach reset_slot r (b, s) = (True, (b\<lparr>cb_data := fold (\<lambda>i d. d[i := None]) (rng_list r) (cb_data b)\<rparr>, s))"
    by (simp add: rng_ForEach_fold [OF t(1)] fold_reset_slot)
  show "distinct (rng_list r) \<Longrightarrow> \<forall>i \<in> set (rng_list r). i < length (cb_data b) \<Longrightarrow>
   rng_ForEach take_slot r (b, res) =
     (True, (b\<lparr>cb_data := fold (\<lambda>i d. d[i := None]) (rng_list r) (cb_data b)\<rparr>, res @ map (\<lambda>i. cb_data b ! i) (rng_list r)))"
    by (simp add: rng_ForEach_fold [OF t(2)] fold_take_slot)
qed

lemma wf_cb_slots:
  assumes "wf_cb b"
  shows "distinct (slots_of (cb_capacity b) (cb_tail b) (cb_head b))"
    and "k \<in> set (slots_of (cb_capacity b) lo hi) \<Longrightarrow> k < cb_capacity b"
    and "rng_list (PeekImpl b) = slots_of (cb_capacity b) (cb_tail b) (cb_head b)"
  using assms by (auto simp: wf_cb_def set_slots_of intro!: distinct_slots_of PeekImpl_slots)

lemma length_cb_contents [simp]: "length (cb_contents b) = cb_size b"
  by (simp add: cb_contents_def cb_size_def)

lemma wf_CircularBuffer [simp]: "wf_cb (CircularBuffer n)" "cb_contents (CircularBuffer n) = []"
  by (simp_all add: wf_cb_def CircularBuffer_def cb_contents_def del: replicate_Suc)

lemma free_head_slot:
  assumes "wf_cb b" and "cb_size b < cb_max_size b"
  shows "cb_data b ! (cb_head b mod cb_capacity b) = None"
    and "cb_head b mod cb_capacity b \<notin> set (slots_of (cb_capacity b) (cb_tail b) (cb_head b))"
proof -
  have lt: "cb_head b < cb_tail b + cb_capacity b" "cb_tail b \<le> cb_head b" "0 < cb_capacity b"
    using assms by (auto simp: wf_cb_def)
  have "p mod cb_capacity b \<noteq> cb_head b mod cb_capacity b" if "cb_tail b \<le> p" "p < cb_head b" for p
    using that lt by (intro residues_distinct) auto
  then show n: "cb_head b mod cb_capacity b \<notin> set (slots_of (cb_capacity b) (cb_tail b) (cb_head b))"
    unfolding set_slots_of by metis
  then show "cb_data b ! (cb_head b mod cb_capacity b) = None"
    using assms(1) lt(3) n mod_less_divisor [OF lt(3), of "cb_head b"] unfolding wf_cb_def by blast
qed

lemma cb_push_facts:
  assumes "wf_cb b" and "cb_size b < cb_max_size b"
  shows "wf_cb (cb_push b x)" and "cb_contents (cb_push b x) = cb_contents b @ [x]"
proof -
  note free = free_head_slot [OF assms]
  have a: "cb_tail b \<le> cb_head b" "0 < cb_capacity b" "length (cb_data b) = cb_capacity b"
    using assms(1) by (auto simp: wf_cb_def)
  have sz: "Suc (cb_head b) - cb_tail b < cb_capacity b"
    using assms(2) a(1) by (simp add: cb_size_def cb_max_size_def Suc_diff_le)
  show "wf_cb (cb_push b x)"
    using assms(1) a sz free by (auto simp: wf_cb_def cb_push_def slots_of_snoc nth_list_update)
  show "cb_contents (cb_push b x) = cb_contents b @ [x]"
    using a free(2) by (auto simp: cb_contents_def cb_push_def slots_of_snoc nth_list_update)
qed

lemma add_round_full:
  "cb_max_size b \<le> cb_size b \<Longrightarrow> add_round sf cf b ptr = (Inl False, b, ptr)"
  by (simp add: add_round_def cb_size_def cb_max_size_def)

lemma add_round_room:
  assumes "wf_cb b" and "cb_size b < cb_max_size b"
  shows "add_round sf cf b (Some x) = (if sf \<or> cf then (Inr (), b, Some x) else (Inl True, cb_push b x, None))"
    and "add_round sf cf b None = (Inr (), b, None)"
proof -
  note free = free_head_slot(1) [OF assms]
  have r: "\<not> cb_head b - cb_tail b \<ge> cb_capacity b - 1" using assms(2) by (simp add: cb_size_def cb_max_size_def)
  have l: "cb_head b mod cb_capacity b < length (cb_data b)" using assms(1) by (simp add: wf_cb_def)
  have "b\<lparr>cb_data := (cb_data b)[cb_head b mod cb_capacity b := None]\<rparr> = b"
    using list_update_id [of "cb_data b" "cb_head b mod cb_capacity b"] free by simp
  then show "add_round sf cf b (Some x) = (if sf \<or> cf then (Inr (), b, Some x) else (Inl True, cb_push b x, None))"
    and "add_round sf cf b None = (Inr (), b, None)"
    using r free l by (auto simp: add_round_def SwapIfNull_def aup_IsNull_def aup_Swap_def cb_push_def Let_def)
qed

lemma cb_Add_eq:
  assumes "wf_cb b"
  shows "cb_Add fails b (Some x) =
    (if cb_size b < cb_max_size b
     then (if (False, False) \<in> set fails then Some (True, cb_push b x, None) else None)
     else (if fails = [] then None else Some (False, b, Some x)))"
proof (induction fails)
  case (Cons f fails)
  obtain sf cf where f: "f = (sf, cf)" by (cases f)
  show ?case
    using Cons add_round_full [of b sf cf "Some x"] add_round_room(1) [OF assms, of sf cf x] by (auto simp: f)
qed simp

text \<open>A null pointer is never added: unless the buffer is full the loop does not end.\<close>

lemma cb_Add_null:
  assumes "wf_cb b"
  shows "cb_Add fails b None = (if cb_size b < cb_max_size b \<or> fails = [] then None else Some (False, b, None))"
proof (induction fails)
  case (Cons f fails)
  obtain sf cf where f: "f = (sf, cf)" by (cases f)
  show ?case
    using Cons add_round_full [of b sf cf None] add_round_room(2) [OF assms, of sf cf] by (auto simp: f)
qed simp

lemma consumed_wf:
  assumes "wf_cb b" and "n \<le> cb_size b"
  defines "c \<equiv> b\<lparr>cb_tail := cb_tail b + n,
      cb_data := fold (\<lambda>i d. d[i := None]) (slots_of (cb_capacity b) (cb_tail b) (cb_tail b + n)) (cb_data b)\<rparr>"
  shows "wf_cb c" and "cb_contents c = drop n (cb_contents b)"
proof -
  let ?cap = "cb_capacity b" and ?t = "cb_tail b" and ?h = "cb_head b"
  have a: "?t \<le> ?h" "0 < ?cap" "length (cb_data b) = ?cap" "?h - ?t < ?cap" "?t + n \<le> ?h"
    using assms(1,2) by (auto simp: wf_cb_def cb_size_def)
  have split: "slots_of ?cap ?t ?h = slots_of ?cap ?t (?t + n) @ slots_of ?cap (?t + n) ?h"
    using a(5) by (rule slots_of_append [OF le_add1])
  then have dis: "set (slots_of ?cap ?t (?t + n)) \<inter> set (slots_of ?cap (?t + n) ?h) = {}"
    using wf_cb_slots(1) [OF assms(1)] by simp
  have nth: "k < ?cap \<Longrightarrow> cb_data c ! k = (if k \<in> set (slots_of ?cap ?t (?t + n)) then None else cb_data b ! k)" for k
    by (simp add: c_def fold_clear(2) a(3))
  have filled: "k < ?cap \<Longrightarrow> cb_data b ! k \<noteq> None \<longleftrightarrow> k \<in> set (slots_of ?cap ?t (?t + n)) \<union> set (slots_of ?cap (?t + n) ?h)" for k
    using assms(1) split by (auto simp: wf_cb_def)
  have "cb_data c ! k \<noteq> None \<longleftrightarrow> k \<in> set (slots_of ?cap (?t + n) ?h)" if "k < ?cap" for k
    using nth [OF that] filled [OF that] dis by auto
  then show "wf_cb c" using a by (auto simp: wf_cb_def c_def fold_clear(1))
  have "map (\<lambda>k. the (cb_data c ! k)) (slots_of ?cap (?t + n) ?h) = map (\<lambda>k. the (cb_data b ! k)) (slots_of ?cap (?t + n) ?h)"
    using nth dis wf_cb_slots(2) [OF assms(1)] by (auto intro!: map_cong)
  then show "cb_contents c = drop n (cb_contents b)"
    using a(5) by (simp add: cb_contents_def split c_def)
qed

lemma take_peek:
  assumes "wf_cb b" and "n \<le> cb_size b"
  shows "rng_list (rng_Take (PeekImpl b) n) = slots_of (cb_capacity b) (cb_tail b) (cb_tail b + n)"
proof -
  have "cb_tail b + n \<le> cb_head b" using assms by (auto simp: cb_size_def wf_cb_def)
  then show ?thesis using wf_cb_slots(3) [OF assms(1)] by (simp add: rng_list_Take take_slots_of min_def)
qed

lemma Consume_facts:
  assumes "wf_cb b" and "n \<le> cb_size b"
  shows "\<exists>c. Consume n b = Some c \<and> wf_cb c \<and> cb_contents c = drop n (cb_contents b) \<and> cb_max_size c = cb_max_size b"
proof -
  have "Consume n b = Some (b\<lparr>cb_tail := cb_tail b + n,
      cb_data := fold (\<lambda>i d. d[i := None]) (slots_of (cb_capacity b) (cb_tail b) (cb_tail b + n)) (cb_data b)\<rparr>)"
    using assms(2) by (simp add: Consume_def Consume_with_def ForEach_slots(1) take_peek [OF assms]) (simp add: cb_size_def)
  then show ?thesis using consumed_wf [OF assms] by (auto simp: cb_max_size_def)
qed

lemma imd_Get_facts:
  assumes "wf_cb b"
  shows "\<exists>c. imd_Get b = Some (c, map Some (cb_contents b)) \<and> wf_cb c \<and> cb_contents c = [] \<and> cb_max_size c = cb_max_size b"
proof -
  let ?sl = "slots_of (cb_capacity b) (cb_tail b) (cb_head b)"
  let ?c = "b\<lparr>cb_tail := cb_tail b + cb_size b, cb_data := fold (\<lambda>i d. d[i := None]) ?sl (cb_data b)\<rparr>"
  have h: "cb_tail b + cb_size b = cb_head b" using assms by (simp add: wf_cb_def cb_size_def)
  have len: "length (cb_data b) = cb_capacity b" using assms by (simp add: wf_cb_def)
  have lt: "\<forall>i \<in> set ?sl. i < length (cb_data (b\<lparr>cb_tail := cb_head b\<rparr>))" using wf_cb_slots(2) [OF assms] len by auto
  have "map (\<lambda>i. cb_data b ! i) ?sl = map Some (cb_contents b)"
    using assms wf_cb_slots(2) [OF assms] by (auto simp: cb_contents_def wf_cb_def intro!: option.collapse [symmetric])
  moreover have "imd_Get b = Some (?c, map (\<lambda>i. cb_data b ! i) ?sl)"
    using wf_cb_slots(1) [OF assms] lt take_peek [OF assms order_refl]
    by (simp add: imd_Get_def Consume_with_def ForEach_slots(2) h) (simp add: cb_size_def)
  ultimately show ?thesis using consumed_wf [OF assms order_refl] by (simp add: h cb_max_size_def)
qed

subsection \<open>The contract of a bounded store\<close>

text \<open>What the exporter relies on: elements are kept in order up to a limit, further ones are dropped, and
  draining returns what is kept. Adding and draining are relations: the results that a call can have.\<close>

locale bounded_store =
  fixes inv :: "'q \<Rightarrow> bool" and contents :: "'q \<Rightarrow> 'a list" and limit :: "'q \<Rightarrow> nat"
    and add :: "'q \<Rightarrow> 'a \<Rightarrow> 'q \<Rightarrow> bool" and drain :: "'q \<Rightarrow> 'a list \<Rightarrow> 'q \<Rightarrow> bool"
  assumes bounded: "inv q \<Longrightarrow> length (contents q) \<le> limit q"
    and add_some: "inv q \<Longrightarrow> \<exists>q'. add q x q'"
    and add_result: "inv q \<Longrightarrow> add q x q' \<Longrightarrow> inv q' \<and> limit q' = limit q \<and>
      contents q' = (if length (contents q) < limit q then contents q @ [x] else contents q)"
    and drain_some: "inv q \<Longrightarrow> \<exists>xs q'. drain q xs q'"
    and drain_result: "inv q \<Longrightarrow> drain q xs q' \<Longrightarrow> inv q' \<and> limit q' = limit q \<and> xs = contents q \<and> contents q' = []"
begin

fun add_all :: "'q \<Rightarrow> 'a list \<Rightarrow> 'q \<Rightarrow> bool" where
  "add_all q [] q' \<longleftrightarrow> q' = q"
| "add_all q (x # xs) q' \<longleftrightarrow> (\<exists>q1. add q x q1 \<and> add_all q1 xs q')"

lemma add_all_result:
  "inv q \<Longrightarrow> add_all q xs q' \<Longrightarrow> inv q' \<and> limit q' = limit q \<and> contents q' = take (limit q) (contents q @ xs)"
proof (induction xs arbitrary: q)
  case Nil
  then show ?case using bounded [of q] by simp
next
  case (Cons x xs)
  then obtain q1 where q1: "add q x q1" "add_all q1 xs q'" by auto
  have r: "inv q1" "limit q1 = limit q"
    "contents q1 = (if length (contents q) < limit q then contents q @ [x] else contents q)"
    using add_result [OF Cons.prems(1) q1(1)] by simp_all
  show ?case using Cons.IH [OF r(1) q1(2)] r bounded [OF Cons.prems(1)] by (auto simp: take_Cons')
qed

lemma add_all_some: "inv q \<Longrightarrow> \<exists>q'. add_all q xs q'"
proof (induction xs arbitrary: q)
  case (Cons x xs)
  obtain q1 where "add q x q1" using add_some [OF Cons.prems] by blast
  then show ?case using Cons.IH [of q1] add_result [OF Cons.prems] by auto
qed (auto intro: exI)

text \<open>What comes out is the first elements put in, in their order.\<close>

lemma drain_add_all:
  assumes "inv q" and "contents q = []" and "add_all q xs q'" and "drain q' ys q''"
  shows "ys = take (limit q) xs \<and> inv q'' \<and> contents q'' = []"
  using add_all_result [OF assms(1,3)] drain_result [of q' ys q''] assms(2,4) by simp

end

interpretation imd: bounded_store wf_cb cb_contents cb_max_size
  "\<lambda>b x b'. \<exists>fails. imd_Add fails b (Some x) = Some b'" "\<lambda>b xs b'. imd_Get b = Some (b', map Some xs)"
proof
  fix q q' :: "'a cbuf" and x :: 'a and xs :: "'a list"
  assume w: "wf_cb q"
  show "length (cb_contents q) \<le> cb_max_size q" using w by (auto simp: wf_cb_def cb_size_def cb_max_size_def)
  show "\<exists>q' fails. imd_Add fails q (Some x) = Some q'"
    by (intro exI [of _ "if cb_size q < cb_max_size q then cb_push q x else q"] exI [of _ "[(False, False)]"])
      (auto simp: imd_Add_def cb_Add_eq [OF w] simp del: cb_Add.simps)
  show "\<exists>xs q'. imd_Get q = Some (q', map Some xs)" using imd_Get_facts [OF w] by blast
  have m: "inj (Some :: 'a \<Rightarrow> 'a option)" by (simp add: inj_def)
  show "imd_Get q = Some (q', map Some xs) \<Longrightarrow>
      wf_cb q' \<and> cb_max_size q' = cb_max_size q \<and> xs = cb_contents q \<and> cb_contents q' = []"
    using imd_Get_facts [OF w] by (auto dest: map_injective [OF _ m])
  assume "\<exists>fails. imd_Add fails q (Some x) = Some q'"
  then obtain fails where "imd_Add fails q (Some x) = Some q'" ..
  then have "q' = (if cb_size q < cb_max_size q then cb_push q x else q)"
    by (auto simp: imd_Add_def cb_Add_eq [OF w] split: if_splits)
  then show "wf_cb q' \<and> cb_max_size q' = cb_max_size q \<and>
      cb_contents q' = (if length (cb_contents q) < cb_max_size q then cb_contents q @ [x] else cb_contents q)"
    using w cb_push_facts [OF w, of x] by (auto simp: cb_push_def cb_max_size_def)
qed

lemma lone_producer:
  assumes "cb_reach n s" and "st_prods s i = P_done r" and "cb_size (st_buf s) < n"
    and "cb_data (st_buf s) ! (cb_head (st_buf s) mod (n + 1)) = None"
  shows "\<exists>s'. cb_reach n s' \<and> st_prods s' i = P_done True \<and> st_log s' = st_log s @ [x] \<and> st_out s' = st_out s"
proof -
  let ?b = "st_buf s" and ?k = "cb_head (st_buf s) mod (n + 1)"
  have c: "cb_capacity ?b = n + 1" and t: "cb_tail ?b \<le> cb_head ?b"
    using inv_reach [OF assms(1)] by (simp_all add: cb_inv_def buf_inv_def Let_def)
  define s1 where "s1 = set_prod i (P_loop (Some x)) s"
  define s2 where "s2 = set_prod i (P_tail (Some x) (cb_tail ?b)) s1"
  define s3 where "s3 = set_prod i (P_head (Some x) (cb_tail ?b) (cb_head ?b)) s2"
  define s4 where "s4 = set_prod i (P_swapped x (cb_tail ?b) (cb_head ?b)) (set_slot ?k (Some x) s3)"
  have r1: "cb_reach n s1" unfolding s1_def by (rule cb_reach.step [OF assms(1) cb_step.call [OF assms(2)]])
  have "cb_step s1 s2" using cb_step.read_tail [of s1 i "Some x"] by (simp add: s1_def s2_def)
  then have r2: "cb_reach n s2" by (rule cb_reach.step [OF r1])
  have "cb_step s2 s3" using cb_step.read_head [of s2 i "Some x" "cb_tail ?b"] by (simp add: s1_def s2_def s3_def)
  then have r3: "cb_reach n s3" by (rule cb_reach.step [OF r2])
  have "cb_step s3 s4"
    using cb_step.swap [of s3 i "Some x" "cb_tail ?b" "cb_head ?b" ?k False True "Some x" None] assms(3,4) c
    by (simp add: s1_def s2_def s3_def s4_def SwapIfNull_def aup_IsNull_def cb_size_def)
  then have r4: "cb_reach n s4" by (rule cb_reach.step [OF r3])
  have "st_prods s4 i = P_swapped x (cb_tail ?b) (cb_head ?b)" "cb_head (st_buf s4) = cb_head ?b"
    by (simp_all add: s1_def s2_def s3_def s4_def)
  from cb_reach.step [OF r4 cb_step.cas [OF this]] show ?thesis
    by (intro exI [of _ "set_prod i (P_done True) (s4\<lparr>st_buf := (st_buf s4)\<lparr>cb_head := cb_head ?b + 1\<rparr>, st_log := st_log s4 @ [x]\<rparr>)"])
      (simp add: s1_def s2_def s3_def s4_def)
qed

lemma first_add: "\<exists>s. cb_reach 2 s \<and> st_log s = [x] \<and> st_out s = []"
  using lone_producer [OF cb_reach.init, of 2 0 False x] by (auto simp: cb_init_def CircularBuffer_def cb_size_def)

subsection \<open>Properties\<close>

text \<open>C12: The lock-free buffer with any number of producers and one consumer, under every interleaving of their
  atomic accesses and every spurious failure of the weak exchanges. What the consumer has received, followed by
  what the slots from there to \<open>head_\<close> hold, is exactly the elements whose \<open>Add\<close> succeeded, in the order of
  their success: none is lost, none duplicated, none overtakes another. Never more than \<open>max_size\<close>
  elements are counted, so that the unsigned difference of \<open>head_\<close> and \<open>tail_\<close> does not wrap.\<close>

theorem circular_buffer_fifo:
  assumes "cb_reach n s"
  shows "st_out s @ map (\<lambda>p. the (cb_data (st_buf s) ! (p mod (n + 1)))) [length (st_out s)..<cb_head (st_buf s)] = st_log s \<and>
    cb_tail (st_buf s) \<le> cb_head (st_buf s) \<and> cb_size (st_buf s) \<le> n \<and> length (st_out s) \<le> cb_tail (st_buf s) \<and>
    (st_cons s = C_idle \<longrightarrow> st_out s @ cb_contents (st_buf s) = st_log s)"
proof -
  have c: "cb_capacity (st_buf s) = n + 1" and i: "buf_inv s"
    using inv_reach [OF assms] by (simp_all add: cb_inv_def)
  have f: "length (st_log s) = cb_head (st_buf s)" "cb_tail (st_buf s) \<le> cb_head (st_buf s)"
    "cb_head (st_buf s) < cb_tail (st_buf s) + (n + 1)" "st_out s = take (st_base s) (st_log s)"
    using i by (simp_all add: buf_inv_def Let_def c)
  have slot: "st_base s \<le> p \<Longrightarrow> p < cb_head (st_buf s) \<Longrightarrow> cb_data (st_buf s) ! (p mod (n + 1)) = Some (st_log s ! p)" for p
    using i by (simp add: buf_inv_def Let_def c)
  have b: "st_base s \<le> cb_tail (st_buf s)" by (simp add: st_base_def)
  then have len: "length (st_out s) = st_base s" using f by simp
  have "map (\<lambda>p. the (cb_data (st_buf s) ! (p mod (n + 1)))) [st_base s..<cb_head (st_buf s)] = drop (st_base s) (st_log s)"
    using slot f(1) by (intro nth_equalityI) auto
  then have "st_out s @ map (\<lambda>p. the (cb_data (st_buf s) ! (p mod (n + 1)))) [length (st_out s)..<cb_head (st_buf s)] = st_log s"
    unfolding len by (simp add: f(4))
  then show ?thesis
    using f b len by (auto simp: cb_size_def cb_contents_def slots_of_def c comp_def st_base_def)
qed

theorem circular_buffer_fifo_witness:
  "\<exists>s. cb_reach 2 s \<and> st_log s = [7 :: nat] \<and> cb_size (st_buf s) \<le> 2 \<and>
     map (\<lambda>p. the (cb_data (st_buf s) ! (p mod 3))) [0..<cb_head (st_buf s)] = [7]"
proof -
  obtain s where r: "cb_reach 2 s" and l: "st_log s = [7 :: nat]" and out: "st_out s = []"
    using first_add [of "7 :: nat"] by (elim exE conjE)
  note f = circular_buffer_fifo [OF r]
  have "map (\<lambda>p. the (cb_data (st_buf s) ! (p mod 3))) [0..<cb_head (st_buf s)] = [7]"
    using f [THEN conjunct1] unfolding l out by simp
  moreover have "cb_size (st_buf s) \<le> 2" using f by blast
  ultimately show ?thesis using r l by (intro exI [of _ s] conjI)
qed

text \<open>C13: The buffer used by one thread refines a bounded list. \<open>Add\<close> returns as soon as one round meets no
  spurious failure; it appends when there is room and otherwise refuses, giving the pointer back; a null pointer
  is never added, and the call then returns only if the buffer is full. \<open>Consume\<close> of no more than there is
  removes the oldest elements and is refused otherwise.\<close>

theorem circular_buffer_sequential:
  assumes "wf_cb b"
  shows "((False, False) \<in> set fails \<longrightarrow>
      (\<exists>b' ptr. cb_Add fails b (Some x) = Some (cb_size b < cb_max_size b, b', ptr) \<and> wf_cb b' \<and>
         (if cb_size b < cb_max_size b then cb_contents b' = cb_contents b @ [x] \<and> ptr = None else b' = b \<and> ptr = Some x))) \<and>
    (cb_Add fails b None = None \<longleftrightarrow> cb_size b < cb_max_size b \<or> fails = []) \<and>
    (if n \<le> cb_size b then \<exists>c. Consume n b = Some c \<and> wf_cb c \<and> cb_contents c = drop n (cb_contents b) else Consume n b = None)"
proof -
  have "\<exists>c. Consume n b = Some c \<and> wf_cb c \<and> cb_contents c = drop n (cb_contents b)" if "n \<le> cb_size b"
    using Consume_facts [OF assms that] by blast
  moreover have "Consume n b = None" if "\<not> n \<le> cb_size b"
    using that by (simp add: Consume_def Consume_with_def cb_size_def)
  moreover have "(False, False) \<in> set fails \<Longrightarrow> fails \<noteq> []" by auto
  ultimately show ?thesis
    using cb_Add_eq [OF assms, of fails x] cb_Add_null [OF assms, of fails] cb_push_facts [OF assms, of x] assms
    by auto
qed

theorem circular_buffer_sequential_witness:
  "\<exists>b'. cb_Add [(True, False), (False, True), (False, False)] (CircularBuffer 1) (Some (7 :: nat)) = Some (True, b', None) \<and>
     cb_contents b' = [7]"
  using circular_buffer_sequential [OF wf_CircularBuffer(1) [of 1], of "[(True, False), (False, True), (False, False)]" "7 :: nat" 0]
  by (auto simp: CircularBuffer_def cb_size_def cb_max_size_def cb_contents_def simp del: cb_Add.simps)

end
