(* ===== verification/Span_Processors.thy ===== *)
theory Span_Processors
  imports Span_Data Circular_Buffer
begin

text \<open>
  What happens to a finished span. \<open>sdk/trace/simple_processor.h\<close>: the processor that exports each span as it
  ends; \<open>exporters/memory/in_memory_span_exporter.h\<close>: the exporter that keeps spans in memory, with
  \<open>in_memory_span_data.h\<close>; \<open>sdk/trace/multi_span_processor.h\<close>: the processor that fans out to a
  doubly linked list of processors. The virtual functions of an exporter and of a processor are records of operations;
  an operation returns \<^term>\<open>None\<close> when the call does not return or its behaviour is undefined. The list lives on an
  explicit heap, so that a dangling pointer or a second \<open>delete\<close> is visible as \<^term>\<open>None\<close>.
\<close>

subsection \<open>Exporters\<close>

datatype export_result = kSuccess | kFailure | kFailureFull | kFailureInvalidArgument

record ('e, 'd) exporter_ops =
  e_MakeRecordable :: "'e \<Rightarrow> ('d option \<times> 'e) option"
  e_Export :: "'d option list \<Rightarrow> 'e \<Rightarrow> (export_result \<times> 'e) option"
  e_ForceFlush :: "int \<Rightarrow> 'e \<Rightarrow> (bool \<times> 'e) option"
  e_Shutdown :: "int \<Rightarrow> 'e \<Rightarrow> (bool \<times> 'e) option"

subsection \<open>InMemorySpanExporter\<close>

record 'd ime =
  ime_data :: "'d cbuf"
  ime_is_shutdown :: bool

definition MAX_BUFFER_SIZE :: nat where
  "MAX_BUFFER_SIZE = 100"

definition InMemorySpanExporter :: "nat \<Rightarrow> 'd ime" where
  "InMemorySpanExporter buffer_size = \<lparr>ime_data = InMemoryData buffer_size, ime_is_shutdown = False\<rparr>"

definition GetSpans :: "'d cbuf \<Rightarrow> ('d cbuf \<times> 'd option list) option" where
  "GetSpans b = imd_Get b"

definition ime_MakeRecordable :: "('r, 'i) span_data ime \<Rightarrow> (('r, 'i) span_data option \<times> ('r, 'i) span_data ime) option" where
  "ime_MakeRecordable e = Some (Some SpanData, e)"

text \<open>\<open>fails\<close>: the spurious failures that each \<open>Add\<close> of the call meets.\<close>

fun export_loop :: "(bool \<times> bool) list \<Rightarrow> 'd option list \<Rightarrow> 'd cbuf \<Rightarrow> 'd cbuf option" where
  "export_loop fails [] b = Some b"
| "export_loop fails (recordable # rest) b =
     (if recordable \<noteq> None
      then case imd_Add fails b recordable of None \<Rightarrow> None | Some b' \<Rightarrow> export_loop fails rest b'
      else export_loop fails rest b)"

definition ime_Export :: "(bool \<times> bool) list \<Rightarrow> 'd option list \<Rightarrow> 'd ime \<Rightarrow> (export_result \<times> 'd ime) option" where
  "ime_Export fails recordables e =
     (if ime_is_shutdown e then Some (kFailure, e)
      else case export_loop fails recordables (ime_data e) of
             None \<Rightarrow> None
           | Some b \<Rightarrow> Some (kSuccess, e\<lparr>ime_data := b\<rparr>))"

definition ime_ForceFlush :: "int \<Rightarrow> 'd ime \<Rightarrow> (bool \<times> 'd ime) option" where
  "ime_ForceFlush timeout e = Some (True, e)"

definition ime_Shutdown :: "int \<Rightarrow> 'd ime \<Rightarrow> (bool \<times> 'd ime) option" where
  "ime_Shutdown timeout e = Some (True, e\<lparr>ime_is_shutdown := True\<rparr>)"

definition ime_ops :: "(bool \<times> bool) list \<Rightarrow> (('r, 'i) span_data ime, ('r, 'i) span_data) exporter_ops" where
  "ime_ops fails = \<lparr>e_MakeRecordable = ime_MakeRecordable, e_Export = ime_Export fails,
     e_ForceFlush = ime_ForceFlush, e_Shutdown = ime_Shutdown\<rparr>"

subsection \<open>SpanProcessor and SimpleSpanProcessor\<close>

record ('s, 'd) processor_ops =
  p_MakeRecordable :: "'s \<Rightarrow> ('d option \<times> 's) option"
  p_OnStart :: "'d \<Rightarrow> span_context \<Rightarrow> 's \<Rightarrow> ('d \<times> 's) option"
  p_OnEnd :: "'d option \<Rightarrow> 's \<Rightarrow> 's option"
  p_ForceFlush :: "int \<Rightarrow> 's \<Rightarrow> (bool \<times> 's) option"
  p_Shutdown :: "int \<Rightarrow> 's \<Rightarrow> (bool \<times> 's) option"
  p_Destroy :: "'s \<Rightarrow> 's option"

record 'e ssp =
  ssp_exporter :: "'e option"
  ssp_shutdown_latch :: bool

definition SimpleSpanProcessor :: "'e option \<Rightarrow> 'e ssp" where
  "SimpleSpanProcessor exporter = \<lparr>ssp_exporter = exporter, ssp_shutdown_latch = False\<rparr>"

definition ssp_MakeRecordable :: "('e, 'd) exporter_ops \<Rightarrow> 'e ssp \<Rightarrow> ('d option \<times> 'e ssp) option" where
  "ssp_MakeRecordable ops p =
     (case ssp_exporter p of
        None \<Rightarrow> None
      | Some e \<Rightarrow> map_option (\<lambda>(d, e'). (d, p\<lparr>ssp_exporter := Some e'\<rparr>)) (e_MakeRecordable ops e))"

definition ssp_OnStart :: "'d \<Rightarrow> span_context \<Rightarrow> 'e ssp \<Rightarrow> ('d \<times> 'e ssp) option" where
  "ssp_OnStart span parent_context p = Some (span, p)"

definition ssp_OnEnd :: "('e, 'd) exporter_ops \<Rightarrow> 'd option \<Rightarrow> 'e ssp \<Rightarrow> 'e ssp option" where
  "ssp_OnEnd ops span p =
     (case ssp_exporter p of
        None \<Rightarrow> None
      | Some e \<Rightarrow> (case e_Export ops [span] e of
                     None \<Rightarrow> None
                   | Some (result, e') \<Rightarrow> Some (p\<lparr>ssp_exporter := Some e'\<rparr>)))"

definition ssp_ForceFlush :: "('e, 'd) exporter_ops \<Rightarrow> int \<Rightarrow> 'e ssp \<Rightarrow> (bool \<times> 'e ssp) option" where
  "ssp_ForceFlush ops timeout p =
     (case ssp_exporter p of
        Some e \<Rightarrow> map_option (\<lambda>(r, e'). (r, p\<lparr>ssp_exporter := Some e'\<rparr>)) (e_ForceFlush ops timeout e)
      | None \<Rightarrow> Some (True, p))"

definition ssp_Shutdown :: "('e, 'd) exporter_ops \<Rightarrow> int \<Rightarrow> 'e ssp \<Rightarrow> (bool \<times> 'e ssp) option" where
  "ssp_Shutdown ops timeout p =
     (case ssp_exporter p of
        Some e \<Rightarrow>
          if \<not> ssp_shutdown_latch p
          then map_option (\<lambda>(r, e'). (r, p\<lparr>ssp_exporter := Some e', ssp_shutdown_latch := True\<rparr>)) (e_Shutdown ops timeout e)
          else Some (True, p)
      | None \<Rightarrow> Some (True, p))"

definition timeout_max :: int where
  "timeout_max = 2 ^ 63 - 1"

definition ssp_Destroy :: "('e, 'd) exporter_ops \<Rightarrow> 'e ssp \<Rightarrow> 'e ssp option" where
  "ssp_Destroy ops p = map_option snd (ssp_Shutdown ops timeout_max p)"

definition ssp_ops :: "('e, 'd) exporter_ops \<Rightarrow> ('e ssp, 'd) processor_ops" where
  "ssp_ops ops = \<lparr>p_MakeRecordable = ssp_MakeRecordable ops, p_OnStart = ssp_OnStart, p_OnEnd = ssp_OnEnd ops,
     p_ForceFlush = ssp_ForceFlush ops, p_Shutdown = ssp_Shutdown ops, p_Destroy = ssp_Destroy ops\<rparr>"

subsection \<open>MultiSpanProcessor\<close>

text \<open>A processor is known by its address; \<open>'s world\<close> has the live processors. Nodes have addresses of their own.\<close>

type_synonym 's world = "nat \<Rightarrow> 's option"

record processor_node =
  pn_value :: nat
  pn_next :: "nat option"
  pn_prev :: "nat option"

type_synonym node_heap = "nat \<Rightarrow> processor_node option"

record msp =
  msp_heap :: node_heap
  msp_fresh :: nat
  msp_head :: "nat option"
  msp_tail :: "nat option"
  msp_count :: nat

definition msp_empty :: msp where
  "msp_empty = \<lparr>msp_heap = (\<lambda>_. None), msp_fresh = 0, msp_head = None, msp_tail = None, msp_count = 0\<rparr>"

definition AddProcessor :: "nat option \<Rightarrow> msp \<Rightarrow> msp option" where
  "AddProcessor processor m =
     (case processor of
        None \<Rightarrow> Some m
      | Some v \<Rightarrow>
          let pNode = msp_fresh m;
              heap = (msp_heap m)(pNode \<mapsto> \<lparr>pn_value = v, pn_next = None, pn_prev = msp_tail m\<rparr>);
              m1 = m\<lparr>msp_heap := heap, msp_fresh := pNode + 1\<rparr>
          in if msp_count m > 0
             then case msp_tail m of
                    None \<Rightarrow> None
                  | Some t \<Rightarrow>
                      (case heap t of
                         None \<Rightarrow> None
                       | Some n \<Rightarrow> Some (m1\<lparr>msp_heap := heap(t \<mapsto> n\<lparr>pn_next := Some pNode\<rparr>),
                                          msp_tail := Some pNode, msp_count := msp_count m + 1\<rparr>))
             else Some (m1\<lparr>msp_head := Some pNode, msp_tail := Some pNode, msp_count := msp_count m + 1\<rparr>))"

fun add_processors :: "nat option list \<Rightarrow> msp \<Rightarrow> msp option" where
  "add_processors [] m = Some m"
| "add_processors (p # ps) m = (case AddProcessor p m of None \<Rightarrow> None | Some m' \<Rightarrow> add_processors ps m')"

definition MultiSpanProcessor :: "nat option list \<Rightarrow> msp option" where
  "MultiSpanProcessor processors = add_processors processors msp_empty"

text \<open>The loop of the operations: \<open>f\<close> is its body, given the processor of the node.\<close>

partial_function (option) msp_walk :: "(nat \<Rightarrow> 'a \<Rightarrow> 'a option) \<Rightarrow> node_heap \<Rightarrow> nat option \<Rightarrow> 'a \<Rightarrow> 'a option" where
  "msp_walk f heap node a =
     (case node of
        None \<Rightarrow> Some a
      | Some x \<Rightarrow>
          (case heap x of
             None \<Rightarrow> None
           | Some n \<Rightarrow> (case f (pn_value n) a of
                          None \<Rightarrow> None
                        | Some a' \<Rightarrow> msp_walk f heap (pn_next n) a')))"

definition make_one :: "('s, 'd) processor_ops \<Rightarrow> nat \<Rightarrow> 'd multi_recordable \<times> 's world \<Rightarrow> ('d multi_recordable \<times> 's world) option" where
  "make_one po v = (\<lambda>(r, w).
     case w v of
       None \<Rightarrow> None
     | Some s \<Rightarrow> (case p_MakeRecordable po s of
                    None \<Rightarrow> None
                  | Some (d, s') \<Rightarrow> Some (mr_AddRecordable v d r, w(v \<mapsto> s'))))"

definition msp_MakeRecordable :: "('s, 'd) processor_ops \<Rightarrow> msp \<Rightarrow> 's world \<Rightarrow> ('d multi_recordable \<times> 's world) option" where
  "msp_MakeRecordable po m w = msp_walk (make_one po) (msp_heap m) (msp_head m) ([], w)"

definition start_one :: "('s, 'd) processor_ops \<Rightarrow> span_context \<Rightarrow> nat \<Rightarrow>
    'd multi_recordable \<times> 's world \<Rightarrow> ('d multi_recordable \<times> 's world) option" where
  "start_one po parent v = (\<lambda>(r, w).
     case mr_GetRecordable v r of
       None \<Rightarrow> Some (r, w)
     | Some d \<Rightarrow>
         (case w v of
            None \<Rightarrow> None
          | Some s \<Rightarrow> (case p_OnStart po d parent s of
                         None \<Rightarrow> None
                       | Some (d', s') \<Rightarrow> Some (AList.update v (Some d') r, w(v \<mapsto> s')))))"

definition msp_OnStart :: "('s, 'd) processor_ops \<Rightarrow> msp \<Rightarrow> span_context \<Rightarrow>
    'd multi_recordable \<Rightarrow> 's world \<Rightarrow> ('d multi_recordable \<times> 's world) option" where
  "msp_OnStart po m parent r w = msp_walk (start_one po parent) (msp_heap m) (msp_head m) (r, w)"

definition end_one :: "('s, 'd) processor_ops \<Rightarrow> nat \<Rightarrow> 'd multi_recordable \<times> 's world \<Rightarrow> ('d multi_recordable \<times> 's world) option" where
  "end_one po v = (\<lambda>(r, w).
     case mr_ReleaseRecordable v r of (recordable, r') \<Rightarrow>
       if recordable \<noteq> None
       then case w v of
              None \<Rightarrow> None
            | Some s \<Rightarrow> (case p_OnEnd po recordable s of
                           None \<Rightarrow> None
                         | Some s' \<Rightarrow> Some (r', w(v \<mapsto> s')))
       else Some (r', w))"

definition msp_OnEnd :: "('s, 'd) processor_ops \<Rightarrow> msp \<Rightarrow> 'd multi_recordable \<Rightarrow> 's world \<Rightarrow> 's world option" where
  "msp_OnEnd po m r w = map_option snd (msp_walk (end_one po) (msp_heap m) (msp_head m) (r, w))"

text \<open>The bodies of \<open>ForceFlush\<close> and \<open>Shutdown\<close>, with \<open>result |=\<close>.\<close>

definition collect_one :: "('s \<Rightarrow> (bool \<times> 's) option) \<Rightarrow> nat \<Rightarrow> bool \<times> 's world \<Rightarrow> (bool \<times> 's world) option" where
  "collect_one call v = (\<lambda>(result, w).
     case w v of
       None \<Rightarrow> None
     | Some s \<Rightarrow> (case call s of None \<Rightarrow> None | Some (b, s') \<Rightarrow> Some (result \<or> b, w(v \<mapsto> s'))))"

definition msp_ForceFlush :: "('s, 'd) processor_ops \<Rightarrow> msp \<Rightarrow> int \<Rightarrow> 's world \<Rightarrow> (bool \<times> 's world) option" where
  "msp_ForceFlush po m timeout w =
     msp_walk (collect_one (p_ForceFlush po timeout)) (msp_heap m) (msp_head m) (True, w)"

definition msp_Shutdown :: "('s, 'd) processor_ops \<Rightarrow> msp \<Rightarrow> int \<Rightarrow> 's world \<Rightarrow> (bool \<times> 's world) option" where
  "msp_Shutdown po m timeout w =
     msp_walk (collect_one (p_Shutdown po timeout)) (msp_heap m) (msp_head m) (True, w)"

text \<open>\<open>delete\<close> of a node destroys the processor it owns. The last component records, in order, the processors
  destroyed and the states their destructors left.\<close>

definition delete_node :: "('s, 'd) processor_ops \<Rightarrow> nat \<Rightarrow> node_heap \<times> 's world \<times> (nat \<times> 's) list \<Rightarrow>
    (node_heap \<times> 's world \<times> (nat \<times> 's) list) option" where
  "delete_node po x = (\<lambda>(heap, w, gone).
     case heap x of
       None \<Rightarrow> None
     | Some n \<Rightarrow>
         (case w (pn_value n) of
            None \<Rightarrow> None
          | Some s \<Rightarrow> (case p_Destroy po s of
                         None \<Rightarrow> None
                       | Some s' \<Rightarrow> Some (heap(x := None), w(pn_value n := None), gone @ [(pn_value n, s')]))))"

definition drop_next :: "('s, 'd) processor_ops \<Rightarrow> nat \<Rightarrow> processor_node \<Rightarrow> node_heap \<times> 's world \<times> (nat \<times> 's) list \<Rightarrow>
    (node_heap \<times> 's world \<times> (nat \<times> 's) list) option" where
  "drop_next po x n st =
     (case pn_next n of
        None \<Rightarrow> Some st
      | Some b \<Rightarrow>
          (case delete_node po b st of
             None \<Rightarrow> None
           | Some (heap, w, gone) \<Rightarrow>
               (case heap x of
                  None \<Rightarrow> None
                | Some n' \<Rightarrow> Some (heap(x \<mapsto> n'\<lparr>pn_next := None\<rparr>), w, gone))))"

partial_function (option) cleanup_loop :: "('s, 'd) processor_ops \<Rightarrow> nat option \<Rightarrow> node_heap \<times> 's world \<times> (nat \<times> 's) list \<Rightarrow>
    (node_heap \<times> 's world \<times> (nat \<times> 's) list) option" where
  "cleanup_loop po node st =
     (case node of
        None \<Rightarrow> Some st
      | Some x \<Rightarrow>
          (case fst st x of
             None \<Rightarrow> None
           | Some n \<Rightarrow>
               (case drop_next po x n st of
                  None \<Rightarrow> None
                | Some st1 \<Rightarrow>
                    (case pn_prev n of
                       Some p \<Rightarrow> cleanup_loop po (Some p) st1
                     | None \<Rightarrow> (case delete_node po x st1 of
                                  None \<Rightarrow> None
                                | Some st2 \<Rightarrow> cleanup_loop po None st2)))))"

definition Cleanup :: "('s, 'd) processor_ops \<Rightarrow> msp \<Rightarrow> 's world \<Rightarrow> (msp \<times> 's world \<times> (nat \<times> 's) list) option" where
  "Cleanup po m w =
     (if msp_count m \<noteq> 0
      then case cleanup_loop po (msp_tail m) (msp_heap m, w, []) of
             None \<Rightarrow> None
           | Some (heap, w', gone) \<Rightarrow>
               Some (m\<lparr>msp_heap := heap, msp_head := None, msp_tail := None, msp_count := 0\<rparr>, w', gone)
      else Some (m, w, []))"

definition msp_Destroy :: "('s, 'd) processor_ops \<Rightarrow> msp \<Rightarrow> 's world \<Rightarrow> (msp \<times> 's world \<times> (nat \<times> 's) list) option" where
  "msp_Destroy po m w =
     (case msp_Shutdown po m timeout_max w of None \<Rightarrow> None | Some (r, w') \<Rightarrow> Cleanup po m w')"

subsection \<open>Reference definitions\<close>

fun fold_opt :: "('v \<Rightarrow> 'a \<Rightarrow> 'a option) \<Rightarrow> 'v list \<Rightarrow> 'a \<Rightarrow> 'a option" where
  "fold_opt f [] a = Some a"
| "fold_opt f (v # vs) a = (case f v a of None \<Rightarrow> None | Some a' \<Rightarrow> fold_opt f vs a')"

definition node_at :: "nat list \<Rightarrow> nat list \<Rightarrow> nat \<Rightarrow> processor_node" where
  "node_at xs vs i = \<lparr>pn_value = vs ! i, pn_next = (if Suc i < length xs then Some (xs ! Suc i) else None),
     pn_prev = (if i = 0 then None else Some (xs ! (i - 1)))\<rparr>"

text \<open>The heap holds a doubly linked list of the nodes \<open>xs\<close> with the processors \<open>vs\<close>, and nothing else.\<close>

definition msp_rep :: "msp \<Rightarrow> nat list \<Rightarrow> nat list \<Rightarrow> bool" where
  "msp_rep m xs vs \<longleftrightarrow> length xs = length vs \<and> distinct xs \<and> (\<forall>x \<in> set xs. x < msp_fresh m) \<and>
     (\<forall>x. x \<notin> set xs \<longrightarrow> msp_heap m x = None) \<and> (\<forall>i < length xs. msp_heap m (xs ! i) = Some (node_at xs vs i)) \<and>
     msp_head m = (if xs = [] then None else Some (xs ! 0)) \<and> msp_tail m = (if xs = [] then None else Some (last xs)) \<and>
     msp_count m = length xs"

subsection \<open>Uses of a processor\<close>

text \<open>The whole life of a span on a multi processor, and sequences of uses.\<close>

definition msp_span :: "('s, 'd) processor_ops \<Rightarrow> ('o \<Rightarrow> 'd \<Rightarrow> 'd) \<Rightarrow> span_context \<Rightarrow> msp \<Rightarrow> 'o list \<Rightarrow> 'o list \<Rightarrow> 's world \<Rightarrow> 's world option" where
  "msp_span po app parent m ops1 ops2 w =
     Option.bind (msp_MakeRecordable po m w) (\<lambda>(r, w1).
     Option.bind (mr_apply_all app ops1 r) (\<lambda>r1.
     Option.bind (msp_OnStart po m parent r1 w1) (\<lambda>(r2, w2).
     Option.bind (mr_apply_all app ops2 r2) (\<lambda>r3.
     msp_OnEnd po m r3 w2))))"

datatype 'o msp_call = Call_span "'o list" "'o list" | Call_flush int | Call_shutdown int

fun msp_run :: "('s, 'd) processor_ops \<Rightarrow> ('o \<Rightarrow> 'd \<Rightarrow> 'd) \<Rightarrow> span_context \<Rightarrow> msp \<Rightarrow> 'o msp_call list \<Rightarrow> 's world \<Rightarrow> 's world option" where
  "msp_run po app parent m [] w = Some w"
| "msp_run po app parent m (Call_span ops1 ops2 # calls) w =
     Option.bind (msp_span po app parent m ops1 ops2 w) (msp_run po app parent m calls)"
| "msp_run po app parent m (Call_flush t # calls) w =
     Option.bind (msp_ForceFlush po m t w) (\<lambda>(_, w'). msp_run po app parent m calls w')"
| "msp_run po app parent m (Call_shutdown t # calls) w =
     Option.bind (msp_Shutdown po m t w) (\<lambda>(_, w'). msp_run po app parent m calls w')"

definition ssp_ok :: "'d ime ssp \<Rightarrow> bool" where
  "ssp_ok p \<longleftrightarrow> (case ssp_exporter p of
     None \<Rightarrow> False | Some e \<Rightarrow> wf_cb (ime_data e) \<and> ime_is_shutdown e = ssp_shutdown_latch p)"

subsection \<open>The list of processors\<close>

lemma node_at_snoc:
  assumes "length xs = length vs" and "i < length xs"
  shows "node_at (xs @ [x]) (vs @ [v]) i =
    (if Suc i = length xs then (node_at xs vs i)\<lparr>pn_next := Some x\<rparr> else node_at xs vs i)"
  using assms by (auto simp: node_at_def nth_append)

lemma AddProcessor_rep:
  assumes "msp_rep m xs vs"
  shows "\<exists>m'. AddProcessor (Some v) m = Some m' \<and> msp_rep m' (xs @ [msp_fresh m]) (vs @ [v])"
proof (cases "xs = []")
  case True
  then show ?thesis using assms by (auto simp: msp_rep_def AddProcessor_def Let_def node_at_def)
next
  case False
  let ?x = "msp_fresh m" and ?t = "xs ! (length xs - 1)"
  have r: "length xs = length vs" "distinct xs" "\<And>i. i < length xs \<Longrightarrow> msp_heap m (xs ! i) = Some (node_at xs vs i)"
    "\<And>x. x \<in> set xs \<Longrightarrow> x < ?x" "\<And>x. x \<notin> set xs \<Longrightarrow> msp_heap m x = None" "msp_tail m = Some ?t"
    "msp_head m = Some (xs ! 0)" "msp_count m = length xs"
    using assms False by (auto simp: msp_rep_def last_conv_nth)
  have tx: "?t \<in> set xs" "?t \<noteq> ?x" using False r(4) [of ?t] by (auto intro!: nth_mem)
  have ht: "msp_heap m ?t = Some (node_at xs vs (length xs - 1))" using r(3) False by simp
  have idx: "i < length xs \<Longrightarrow> xs ! i = ?t \<longleftrightarrow> Suc i = length xs" "i < length xs \<Longrightarrow> xs ! i \<noteq> ?x" for i
    using r(2,4) False nth_eq_iff_index_eq [OF r(2), of i "length xs - 1"] nth_mem [of i xs] by fastforce+
  let ?h = "(msp_heap m)(?x \<mapsto> \<lparr>pn_value = v, pn_next = None, pn_prev = Some ?t\<rparr>,
      ?t \<mapsto> (node_at xs vs (length xs - 1))\<lparr>pn_next := Some ?x\<rparr>)"
  have "AddProcessor (Some v) m =
      Some (m\<lparr>msp_heap := ?h, msp_fresh := ?x + 1, msp_tail := Some ?x, msp_count := length xs + 1\<rparr>)"
    using False r(6,8) tx(2) ht by (simp add: AddProcessor_def Let_def)
  moreover have "?h ((xs @ [?x]) ! i) = Some (node_at (xs @ [?x]) (vs @ [v]) i)" if "i < Suc (length xs)" for i
  proof (cases "i < length xs")
    case True
    then have "length xs - 1 = i" if "Suc i = length xs" using that by simp
    then show ?thesis using True idx [OF True] r(3) [OF True]
      by (auto simp: nth_append node_at_snoc [OF r(1) True])
  next
    case False
    with that have "i = length xs" by simp
    then show ?thesis using \<open>xs \<noteq> []\<close> r(1) tx(2) by (auto simp: node_at_def nth_append)
  qed
  moreover have "?h x = None" if "x \<notin> set xs" "x \<noteq> ?x" for x using r(5) that tx by auto
  ultimately show ?thesis
    using r False by (auto simp: msp_rep_def nth_append less_Suc_eq_le intro: less_imp_le)
qed

lemma add_processors_rep:
  "msp_rep m xs vs \<Longrightarrow>
     \<exists>m' xs'. add_processors ps m = Some m' \<and> msp_rep m' xs' (vs @ List.map_filter id ps)"
proof (induction ps arbitrary: m xs vs)
  case (Cons p ps)
  show ?case
  proof (cases p)
    case None
    then show ?thesis using Cons.IH [OF Cons.prems] by (simp add: AddProcessor_def map_filter_simps)
  next
    case (Some v)
    obtain m' where m': "AddProcessor (Some v) m = Some m'" "msp_rep m' (xs @ [msp_fresh m]) (vs @ [v])"
      using AddProcessor_rep [OF Cons.prems] by blast
    then show ?thesis using Cons.IH [OF m'(2)] Some by (simp add: map_filter_simps)
  qed
qed (auto simp: map_filter_simps)

lemma MultiSpanProcessor_rep:
  "\<exists>m xs. MultiSpanProcessor ps = Some m \<and> msp_rep m xs (List.map_filter id ps)"
  using add_processors_rep [of msp_empty "[]" "[]" ps]
  by (simp add: MultiSpanProcessor_def msp_rep_def msp_empty_def)

lemma msp_walk_eq:
  assumes "msp_rep m xs vs"
  shows "msp_walk f (msp_heap m) (msp_head m) a = fold_opt f vs a"
proof -
  have r: "length xs = length vs" "\<And>i. i < length xs \<Longrightarrow> msp_heap m (xs ! i) = Some (node_at xs vs i)"
    "msp_head m = (if xs = [] then None else Some (xs ! 0))"
    using assms by (auto simp: msp_rep_def)
  have "msp_walk f (msp_heap m) (if i < length xs then Some (xs ! i) else None) a = fold_opt f (drop i vs) a"
    if "i \<le> length xs" for i
    using that
  proof (induction i arbitrary: a rule: inc_induct)
    case base
    then show ?case using r(1) by (simp add: msp_walk.simps)
  next
    case (step i)
    have "drop i vs = vs ! i # drop (Suc i) vs" using step.hyps r(1) by (simp add: Cons_nth_drop_Suc)
    then show ?case using step.hyps r(2) [of i] step.IH
      by (subst msp_walk.simps) (auto simp: node_at_def split: option.splits)
  qed
  from this [of 0] show ?thesis using r(3) by (simp split: if_splits)
qed

subsection \<open>Destruction\<close>

text \<open>What is left of the list when \<open>Cleanup\<close> has come to the node \<open>k\<close>, before and after it
  deleted the node behind it.\<close>

definition rest_heap :: "nat list \<Rightarrow> nat list \<Rightarrow> nat \<Rightarrow> node_heap \<Rightarrow> bool" where
  "rest_heap xs vs k heap \<longleftrightarrow> (\<forall>i < k. heap (xs ! i) = Some (node_at xs vs i)) \<and>
     (k < length xs \<longrightarrow> (\<exists>n. heap (xs ! k) = Some n \<and> pn_value n = vs ! k)) \<and>
     (\<forall>x. x \<notin> set (take (Suc k) xs) \<longrightarrow> heap x = None)"

definition rest_world :: "nat list \<Rightarrow> 's world \<Rightarrow> nat \<Rightarrow> 's world" where
  "rest_world vs w k = (\<lambda>v. if v \<in> set (drop k vs) then None else w v)"

definition gone_list :: "(nat \<Rightarrow> 's) \<Rightarrow> nat list \<Rightarrow> nat \<Rightarrow> (nat \<times> 's) list" where
  "gone_list s' vs k = rev (map (\<lambda>v. (v, s' v)) (drop k vs))"

lemma delete_node_step:
  assumes len: "length xs = length vs" and d: "distinct xs" "distinct vs" and k: "k < length xs"
    and live: "\<forall>v \<in> set vs. w v = Some (s v) \<and> p_Destroy po (s v) = Some (s' v)"
    and h: "rest_heap xs vs k heap"
  shows "delete_node po (xs ! k) (heap, rest_world vs w (Suc k), gone_list s' vs (Suc k)) =
    Some (heap(xs ! k := None), rest_world vs w k, gone_list s' vs k)"
    and "\<And>x. x \<notin> set (take k xs) \<Longrightarrow> (heap(xs ! k := None)) x = None"
proof -
  have dr: "drop k vs = vs ! k # drop (Suc k) vs" using k len by (simp add: Cons_nth_drop_Suc)
  have "vs ! k \<notin> set (drop (Suc k) vs)" using distinct_drop [OF d(2), of k] unfolding dr by simp
  then have "rest_world vs w (Suc k) (vs ! k) = Some (s (vs ! k))"
    using bspec [OF live, of "vs ! k"] k len by (simp add: rest_world_def)
  moreover have "(rest_world vs w (Suc k))(vs ! k := None) = rest_world vs w k"
    by (auto simp: rest_world_def dr fun_eq_iff)
  ultimately show "delete_node po (xs ! k) (heap, rest_world vs w (Suc k), gone_list s' vs (Suc k)) =
      Some (heap(xs ! k := None), rest_world vs w k, gone_list s' vs k)"
    using h k bspec [OF live, of "vs ! k"] len by (auto simp: rest_heap_def delete_node_def gone_list_def dr)
  show "(heap(xs ! k := None)) x = None" if "x \<notin> set (take k xs)" for x
    using h that k by (auto simp: rest_heap_def take_Suc_conv_app_nth)
qed

text \<open>At the node \<open>k\<close> the node behind it, if any, is deleted; the other nodes stay as they are.\<close>

lemma drop_next_step:
  assumes len: "length xs = length vs" and d: "distinct xs" "distinct vs" and k: "k < length xs"
    and live: "\<forall>v \<in> set vs. w v = Some (s v) \<and> p_Destroy po (s v) = Some (s' v)"
    and h: "rest_heap xs vs (Suc k) heap"
  shows "\<exists>heap'. drop_next po (xs ! k) (node_at xs vs k) (heap, rest_world vs w (Suc (Suc k)), gone_list s' vs (Suc (Suc k))) =
      Some (heap', rest_world vs w (Suc k), gone_list s' vs (Suc k)) \<and> rest_heap xs vs k heap'"
proof (cases "Suc k < length xs")
  case True
  note st = delete_node_step [OF len d True live h]
  let ?h = "heap(xs ! Suc k := None)" and ?n = "(node_at xs vs k)\<lparr>pn_next := None\<rparr>"
  have ne: "i \<le> k \<Longrightarrow> xs ! i \<noteq> xs ! Suc k" "i < k \<Longrightarrow> xs ! i \<noteq> xs ! k" for i
    using True k by (simp_all add: nth_eq_iff_index_eq [OF d(1)])
  have hk: "?h (xs ! k) = Some (node_at xs vs k)" using h ne(1) [of k] by (simp add: rest_heap_def)
  have "xs ! k \<in> set (take (Suc k) xs)" using k by (simp add: take_Suc_conv_app_nth)
  then have out: "(?h(xs ! k \<mapsto> ?n)) x = None" if "x \<notin> set (take (Suc k) xs)" for x
    using st(2) [OF that] that by (simp only: fun_upd_apply split: if_splits) auto
  have "rest_heap xs vs k (?h(xs ! k \<mapsto> ?n))"
    unfolding rest_heap_def
  proof (intro conjI allI impI)
    fix i assume i: "i < k"
    then show "(?h(xs ! k \<mapsto> ?n)) (xs ! i) = Some (node_at xs vs i)"
      using h ne(1) [of i] ne(2) [OF i] by (simp add: rest_heap_def)
  next
    show "\<exists>n. (?h(xs ! k \<mapsto> ?n)) (xs ! k) = Some n \<and> pn_value n = vs ! k" by (simp add: node_at_def)
  qed (rule out)
  moreover have "drop_next po (xs ! k) (node_at xs vs k) (heap, rest_world vs w (Suc (Suc k)), gone_list s' vs (Suc (Suc k))) =
      Some (?h(xs ! k \<mapsto> ?n), rest_world vs w (Suc k), gone_list s' vs (Suc k))"
    using st(1) hk True by (simp add: drop_next_def node_at_def)
  ultimately show ?thesis by blast
next
  case False
  then have "length vs = Suc k" using k len by simp
  moreover have "rest_heap xs vs k heap"
    using h k False len by (auto simp: rest_heap_def node_at_def)
  ultimately show ?thesis using False
    by (auto simp: drop_next_def node_at_def rest_world_def gone_list_def)
qed

lemma cleanup_loop_eq:
  assumes len: "length xs = length vs" and d: "distinct xs" "distinct vs"
    and live: "\<forall>v \<in> set vs. w v = Some (s v) \<and> p_Destroy po (s v) = Some (s' v)"
  shows "k < length xs \<Longrightarrow> rest_heap xs vs (Suc k) heap \<Longrightarrow>
    cleanup_loop po (Some (xs ! k)) (heap, rest_world vs w (Suc (Suc k)), gone_list s' vs (Suc (Suc k))) =
      Some ((\<lambda>_. None), rest_world vs w 0, gone_list s' vs 0)"
proof (induction k arbitrary: heap)
  case 0
  obtain heap' where h': "drop_next po (xs ! 0) (node_at xs vs 0) (heap, rest_world vs w (Suc (Suc 0)), gone_list s' vs (Suc (Suc 0))) =
      Some (heap', rest_world vs w (Suc 0), gone_list s' vs (Suc 0))" "rest_heap xs vs 0 heap'"
    using drop_next_step [OF len d 0(1) live 0(2)] by blast
  have "heap'(xs ! 0 := None) = (\<lambda>_. None)"
    using delete_node_step(2) [OF len d 0(1) live h'(2)] by (simp add: fun_eq_iff)
  then show ?case
    using h'(1) delete_node_step(1) [OF len d 0(1) live h'(2)] 0(2)
    by (subst cleanup_loop.simps) (simp add: rest_heap_def node_at_def cleanup_loop.simps [of po None])
next
  case (Suc k)
  obtain heap' where h': "drop_next po (xs ! Suc k) (node_at xs vs (Suc k))
      (heap, rest_world vs w (Suc (Suc (Suc k))), gone_list s' vs (Suc (Suc (Suc k)))) =
      Some (heap', rest_world vs w (Suc (Suc k)), gone_list s' vs (Suc (Suc k)))" "rest_heap xs vs (Suc k) heap'"
    using drop_next_step [OF len d Suc.prems(1) live Suc.prems(2)] by blast
  have p: "pn_prev (node_at xs vs (Suc k)) = Some (xs ! k)" by (simp add: node_at_def)
  have "heap (xs ! Suc k) = Some (node_at xs vs (Suc k))" using Suc.prems(2) by (simp add: rest_heap_def)
  then show ?case
    using h'(1) Suc.IH [OF _ h'(2)] Suc.prems(1) by (subst cleanup_loop.simps) (simp add: p)
qed

lemma Cleanup_eq:
  assumes r: "msp_rep m xs vs" and d: "distinct vs"
    and live: "\<forall>v \<in> set vs. w v = Some (s v) \<and> p_Destroy po (s v) = Some (s' v)"
  shows "\<exists>m'. Cleanup po m w = Some (m', (\<lambda>v. if v \<in> set vs then None else w v), rev (map (\<lambda>v. (v, s' v)) vs)) \<and>
     msp_heap m' = (\<lambda>_. None) \<and> msp_rep m' [] []"
proof (cases "xs = []")
  case True
  then show ?thesis using r by (auto simp: msp_rep_def Cleanup_def)
next
  case False
  let ?k = "length xs - 1"
  have k: "?k < length xs" "Suc ?k = length xs" "xs ! ?k = last xs" using False by (auto simp: last_conv_nth)
  have len: "length xs = length vs" "distinct xs" using r by (auto simp: msp_rep_def)
  have "rest_heap xs vs (Suc ?k) (msp_heap m)" using r k by (auto simp: rest_heap_def msp_rep_def)
  from cleanup_loop_eq [OF len d live k(1) this]
  have "cleanup_loop po (Some (last xs)) (msp_heap m, w, []) = Some ((\<lambda>_. None), rest_world vs w 0, gone_list s' vs 0)"
    using k len(1) by (simp add: rest_world_def gone_list_def)
  then show ?thesis using r False by (auto simp: msp_rep_def Cleanup_def rest_world_def gone_list_def)
qed

subsection \<open>Fan-out\<close>

lemma map_of_AddRecordable: "map_of (mr_AddRecordable v d r) u = (if u = v then Some d else map_of r u)"
  by (simp add: mr_AddRecordable_def update_conv')

lemma world_upd:
  "(\<lambda>u. if u \<in> set vs then Some (s1 u) else (w(v \<mapsto> s1 v)) u) = (\<lambda>u. if u = v \<or> u \<in> set vs then Some (s1 u) else w u)"
  by (auto simp: fun_eq_iff)

lemma fold_make:
  assumes "distinct vs" and "\<forall>v \<in> set vs. w v = Some (s v) \<and> p_MakeRecordable po (s v) = Some (Some (d v), s1 v)"
    and "list_all (\<lambda>(k, d). d \<noteq> None) r"
  shows "\<exists>r'. fold_opt (make_one po) vs (r, w) = Some (r', \<lambda>v. if v \<in> set vs then Some (s1 v) else w v) \<and>
    (\<forall>v. map_of r' v = (if v \<in> set vs then Some (Some (d v)) else map_of r v)) \<and> list_all (\<lambda>(k, d). d \<noteq> None) r'"
  using assms
proof (induction vs arbitrary: r w)
  case (Cons v vs)
  have v: "make_one po v (r, w) = Some (mr_AddRecordable v (Some (d v)) r, w(v \<mapsto> s1 v))"
    using Cons.prems(2) by (simp add: make_one_def)
  have "list_all (\<lambda>(k, d). d \<noteq> None) (mr_AddRecordable v (Some (d v)) r)"
    using Cons.prems(3) by (induction r) (auto simp: mr_AddRecordable_def)
  moreover have "\<forall>u \<in> set vs. (w(v \<mapsto> s1 v)) u = Some (s u) \<and> p_MakeRecordable po (s u) = Some (Some (d u), s1 u)"
    using Cons.prems(1,2) by auto
  ultimately obtain r' where r': "fold_opt (make_one po) vs (mr_AddRecordable v (Some (d v)) r, w(v \<mapsto> s1 v)) =
      Some (r', \<lambda>u. if u \<in> set vs then Some (s1 u) else (w(v \<mapsto> s1 v)) u)"
    "\<forall>u. map_of r' u = (if u \<in> set vs then Some (Some (d u)) else map_of (mr_AddRecordable v (Some (d v)) r) u)"
    "list_all (\<lambda>(k, d). d \<noteq> None) r'"
    using Cons.IH [of "w(v \<mapsto> s1 v)" "mr_AddRecordable v (Some (d v)) r"] distinct.simps(2) [THEN iffD1, OF Cons.prems(1)] by blast
  then show ?case using v r' by (auto simp: map_of_AddRecordable world_upd simp del: fun_upd_apply)
qed simp

lemma fold_start:
  assumes "distinct vs"
    and "\<forall>v \<in> set vs. w v = Some (s v) \<and> map_of r v = Some (Some (d v)) \<and> p_OnStart po (d v) parent (s v) = Some (d1 v, s1 v)"
    and "list_all (\<lambda>(k, d). d \<noteq> None) r"
  shows "\<exists>r'. fold_opt (start_one po parent) vs (r, w) = Some (r', \<lambda>v. if v \<in> set vs then Some (s1 v) else w v) \<and>
    (\<forall>v. map_of r' v = (if v \<in> set vs then Some (Some (d1 v)) else map_of r v)) \<and> list_all (\<lambda>(k, d). d \<noteq> None) r'"
  using assms
proof (induction vs arbitrary: r w)
  case (Cons v vs)
  let ?r = "mr_AddRecordable v (Some (d1 v)) r"
  have v: "start_one po parent v (r, w) = Some (?r, w(v \<mapsto> s1 v))"
    using Cons.prems(2) by (simp add: start_one_def mr_GetRecordable_def mr_AddRecordable_def)
  have "list_all (\<lambda>(k, d). d \<noteq> None) ?r" using Cons.prems(3) by (induction r) (auto simp: mr_AddRecordable_def)
  moreover have "\<forall>u \<in> set vs. (w(v \<mapsto> s1 v)) u = Some (s u) \<and> map_of ?r u = Some (Some (d u)) \<and>
      p_OnStart po (d u) parent (s u) = Some (d1 u, s1 u)"
    using Cons.prems(1,2) by (auto simp: map_of_AddRecordable)
  ultimately obtain r' where r': "fold_opt (start_one po parent) vs (?r, w(v \<mapsto> s1 v)) =
      Some (r', \<lambda>u. if u \<in> set vs then Some (s1 u) else (w(v \<mapsto> s1 v)) u)"
    "\<forall>u. map_of r' u = (if u \<in> set vs then Some (Some (d1 u)) else map_of ?r u)" "list_all (\<lambda>(k, d). d \<noteq> None) r'"
    using Cons.IH [of "w(v \<mapsto> s1 v)" ?r] distinct.simps(2) [THEN iffD1, OF Cons.prems(1)] by blast
  then show ?case using v r' by (auto simp: map_of_AddRecordable world_upd simp del: fun_upd_apply)
qed simp

lemma fold_end:
  assumes "distinct vs"
    and "\<forall>v \<in> set vs. w v = Some (s v) \<and> map_of r v = Some (Some (d v)) \<and> p_OnEnd po (Some (d v)) (s v) = Some (s1 v)"
  shows "map_option snd (fold_opt (end_one po) vs (r, w)) = Some (\<lambda>v. if v \<in> set vs then Some (s1 v) else w v)"
  using assms
proof (induction vs arbitrary: r w)
  case (Cons v vs)
  have "end_one po v (r, w) = Some (AList.delete v r, w(v \<mapsto> s1 v))"
    using Cons.prems(2) by (simp add: end_one_def mr_ReleaseRecordable_def)
  moreover have "map_option snd (fold_opt (end_one po) vs (AList.delete v r, w(v \<mapsto> s1 v))) =
      Some (\<lambda>u. if u \<in> set vs then Some (s1 u) else (w(v \<mapsto> s1 v)) u)"
    using Cons.prems by (intro Cons.IH) (auto simp: delete_conv')
  ultimately show ?case by (simp add: world_upd del: fun_upd_apply)
qed simp

lemma fold_collect:
  assumes "distinct vs" and "\<forall>v \<in> set vs. w v = Some (s v) \<and> call (s v) = Some (b v, s1 v)"
  shows "fold_opt (collect_one call) vs (True, w) = Some (True, \<lambda>v. if v \<in> set vs then Some (s1 v) else w v)"
  using assms
proof (induction vs arbitrary: w)
  case (Cons v vs)
  have "collect_one call v (True, w) = Some (True, w(v \<mapsto> s1 v))"
    using Cons.prems(2) by (simp add: collect_one_def)
  moreover have "fold_opt (collect_one call) vs (True, w(v \<mapsto> s1 v)) =
      Some (True, \<lambda>u. if u \<in> set vs then Some (s1 u) else (w(v \<mapsto> s1 v)) u)"
    using Cons.prems by (intro Cons.IH) auto
  ultimately show ?case by (simp add: world_upd del: fun_upd_apply)
qed simp

lemma mr_apply_all_map_of:
  assumes "list_all (\<lambda>(k, d). d \<noteq> None) r"
  shows "\<exists>r'. mr_apply_all app ops r = Some r' \<and> list_all (\<lambda>(k, d). d \<noteq> None) r' \<and>
    (\<forall>v. map_of r' v = map_option (map_option (fold app ops)) (map_of r v))"
  by (intro exI conjI allI, rule mr_apply_all_eq [OF assms], rule mr_each_keeps [OF assms], rule map_of_map_option)

lemma span_through_list:
  assumes "distinct vs" and "list_all (\<lambda>(k, d). d \<noteq> None) ([] :: (nat \<times> 'd option) list)"
    and "\<forall>v \<in> set vs. w v = Some (s v) \<and> p_MakeRecordable po (s v) = Some (Some (d v), s1 v) \<and>
      p_OnStart po (fold app ops1 (d v)) parent (s1 v) = Some (d2 v, s2 v) \<and>
      p_OnEnd po (Some (fold app ops2 (d2 v :: 'd))) (s2 v) = Some (s3 v)"
  shows "\<exists>r w1 r1 r2 w2 r3. fold_opt (make_one po) vs ([], w) = Some (r, w1) \<and> mr_apply_all app ops1 r = Some r1 \<and>
    fold_opt (start_one po parent) vs (r1, w1) = Some (r2, w2) \<and> mr_apply_all app ops2 r2 = Some r3 \<and>
    map_option snd (fold_opt (end_one po) vs (r3, w2)) = Some (\<lambda>v. if v \<in> set vs then Some (s3 v) else w v)"
proof -
  have "\<forall>v \<in> set vs. w v = Some (s v) \<and> p_MakeRecordable po (s v) = Some (Some (d v), s1 v)" using assms(3) by blast
  from fold_make [OF assms(1) this assms(2)] obtain r where r: "fold_opt (make_one po) vs ([], w) =
      Some (r, \<lambda>v. if v \<in> set vs then Some (s1 v) else w v)"
    "\<forall>v. map_of r v = (if v \<in> set vs then Some (Some (d v)) else map_of [] v)" "list_all (\<lambda>(k, d). d \<noteq> None) r" by blast
  obtain r1 where r1: "mr_apply_all app ops1 r = Some r1" "list_all (\<lambda>(k, d). d \<noteq> None) r1"
    "\<forall>v. map_of r1 v = map_option (map_option (fold app ops1)) (map_of r v)"
    using mr_apply_all_map_of [OF r(3)] by blast
  let ?w1 = "\<lambda>v. if v \<in> set vs then Some (s1 v) else w v"
  have "\<forall>v \<in> set vs. ?w1 v = Some (s1 v) \<and> map_of r1 v = Some (Some (fold app ops1 (d v))) \<and>
      p_OnStart po (fold app ops1 (d v)) parent (s1 v) = Some (d2 v, s2 v)"
    using assms(3) r(2) r1(3) by simp
  from fold_start [OF assms(1) this r1(2)] obtain r2 where r2: "fold_opt (start_one po parent) vs (r1, ?w1) =
      Some (r2, \<lambda>v. if v \<in> set vs then Some (s2 v) else ?w1 v)"
    "\<forall>v. map_of r2 v = (if v \<in> set vs then Some (Some (d2 v)) else map_of r1 v)" "list_all (\<lambda>(k, d). d \<noteq> None) r2" by blast
  obtain r3 where r3: "mr_apply_all app ops2 r2 = Some r3"
    "\<forall>v. map_of r3 v = map_option (map_option (fold app ops2)) (map_of r2 v)"
    using mr_apply_all_map_of [OF r2(3)] by blast
  let ?w2 = "\<lambda>v. if v \<in> set vs then Some (s2 v) else ?w1 v"
  have "\<forall>v \<in> set vs. ?w2 v = Some (s2 v) \<and> map_of r3 v = Some (Some (fold app ops2 (d2 v))) \<and>
      p_OnEnd po (Some (fold app ops2 (d2 v))) (s2 v) = Some (s3 v)"
    using assms(3) r2(2) r3(2) by simp
  from fold_end [OF assms(1) this]
  have "map_option snd (fold_opt (end_one po) vs (r3, ?w2)) = Some (\<lambda>v. if v \<in> set vs then Some (s3 v) else ?w2 v)" .
  moreover have "(\<lambda>v. if v \<in> set vs then Some (s3 v) else ?w2 v) = (\<lambda>v. if v \<in> set vs then Some (s3 v) else w v)"
    by (simp add: fun_eq_iff)
  ultimately show ?thesis using r(1) r1(1) r2(1) r3(1) by (intro exI conjI) (assumption | simp only:)+
qed

subsection \<open>The simple processor with the in-memory exporter\<close>

text \<open>Spans that end one after the other (the calls of \<open>Export\<close> are serialised by the processor's lock), each
  with the spurious failures its call meets.\<close>

fun ssp_end_all :: "((bool \<times> bool) list \<times> ('r, 'i) span_data) list \<Rightarrow> ('r, 'i) span_data ime ssp \<Rightarrow>
    ('r, 'i) span_data ime ssp option" where
  "ssp_end_all [] p = Some p"
| "ssp_end_all ((fails, d) # calls) p =
     (case ssp_OnEnd (ime_ops fails) (Some d) p of None \<Rightarrow> None | Some p' \<Rightarrow> ssp_end_all calls p')"

lemma ssp_OnEnd_open:
  assumes "ssp_exporter p = Some e" and "\<not> ime_is_shutdown e"
  shows "ssp_OnEnd (ime_ops fails) (Some d) p =
    map_option (\<lambda>b. p\<lparr>ssp_exporter := Some (e\<lparr>ime_data := b\<rparr>)\<rparr>) (imd_Add fails (ime_data e) (Some d))"
  using assms by (simp add: ssp_OnEnd_def ime_ops_def ime_Export_def split: option.splits)

lemma ssp_OnEnd_closed:
  assumes "ssp_exporter p = Some e" and "ime_is_shutdown e"
  shows "ssp_OnEnd (ime_ops fails) (Some d) p = Some p"
  using assms by (simp add: ssp_OnEnd_def ime_ops_def ime_Export_def)

lemma ssp_end_all_closed:
  "ssp_exporter p = Some e \<Longrightarrow> ime_is_shutdown e \<Longrightarrow> ssp_end_all calls p = Some p"
  by (induction calls) (auto simp: ssp_OnEnd_closed)

lemma imd_Add_returns:
  assumes "wf_cb b" and "(False, False) \<in> set fails"
  shows "\<exists>b'. imd_Add fails b (Some x) = Some b'"
  using assms by (auto simp: imd_Add_def cb_Add_eq [OF assms(1)] simp del: cb_Add.simps)

lemma ssp_end_all_open:
  assumes "ssp_exporter p = Some e" and "\<not> ime_is_shutdown e" and "wf_cb (ime_data e)"
    and "\<forall>c \<in> set calls. (False, False) \<in> set (fst c)"
  shows "\<exists>b. ssp_end_all calls p = Some (p\<lparr>ssp_exporter := Some (e\<lparr>ime_data := b\<rparr>)\<rparr>) \<and>
    imd.add_all (ime_data e) (map snd calls) b"
  using assms
proof (induction calls arbitrary: p e)
  case (Cons c calls)
  obtain fails d where c: "c = (fails, d)" by (cases c)
  obtain b where b: "imd_Add fails (ime_data e) (Some d) = Some b"
    using imd_Add_returns [OF Cons.prems(3), of fails d] Cons.prems(4) c by auto
  have "wf_cb b" using imd.add_result [OF Cons.prems(3)] b by blast
  with Cons.IH [of "p\<lparr>ssp_exporter := Some (e\<lparr>ime_data := b\<rparr>)\<rparr>" "e\<lparr>ime_data := b\<rparr>"] Cons.prems(2,4)
  obtain b' where "ssp_end_all calls (p\<lparr>ssp_exporter := Some (e\<lparr>ime_data := b\<rparr>)\<rparr>) =
      Some (p\<lparr>ssp_exporter := Some (e\<lparr>ime_data := b'\<rparr>)\<rparr>)" "imd.add_all b (map snd calls) b'" by auto
  then show ?case using b ssp_OnEnd_open [OF Cons.prems(1,2), of fails d] by (auto simp: c)
qed (auto simp: split: option.splits)

subsection \<open>The contract of a processor\<close>

text \<open>What the multi processor needs of its processors in order to return: on a state that keeps to an invariant every
  operation returns and keeps it.\<close>

locale span_processor =
  fixes po :: "('s, 'd) processor_ops" and inv :: "'s \<Rightarrow> bool"
  assumes make: "inv s \<Longrightarrow> \<exists>d s'. p_MakeRecordable po s = Some (Some d, s') \<and> inv s'"
    and start: "inv s \<Longrightarrow> \<exists>d' s'. p_OnStart po d sc s = Some (d', s') \<and> inv s'"
    and ended: "inv s \<Longrightarrow> \<exists>s'. p_OnEnd po (Some d) s = Some s' \<and> inv s'"
    and flush: "inv s \<Longrightarrow> \<exists>b s'. p_ForceFlush po t s = Some (b, s') \<and> inv s'"
    and shutdown: "inv s \<Longrightarrow> \<exists>b s'. p_Shutdown po t s = Some (b, s') \<and> inv s'"
    and destroy: "inv s \<Longrightarrow> \<exists>s'. p_Destroy po s = Some s'"
begin

definition all_inv :: "nat list \<Rightarrow> 's world \<Rightarrow> bool" where
  "all_inv vs w \<longleftrightarrow> (\<forall>v \<in> set vs. \<exists>s. w v = Some s \<and> inv s)"

lemma all_inv_world: "\<forall>v \<in> set vs. inv (s v) \<Longrightarrow> all_inv vs (\<lambda>v. if v \<in> set vs then Some (s v) else w v)"
  by (simp add: all_inv_def)

lemma span_life:
  assumes "msp_rep m xs vs" and "distinct vs" and "all_inv vs w"
  shows "\<exists>w'. msp_span po app parent m ops1 ops2 w = Some w' \<and> all_inv vs w'"
proof -
  obtain s where s: "\<forall>v \<in> set vs. w v = Some (s v) \<and> inv (s v)"
    using bchoice [of "set vs" "\<lambda>v x. w v = Some x \<and> inv x"] assms(3) by (auto simp: all_inv_def)
  obtain q where q: "\<forall>v \<in> set vs. p_MakeRecordable po (s v) = Some (Some (fst (q v)), snd (q v)) \<and> inv (snd (q v))"
    using bchoice [of "set vs" "\<lambda>v x. p_MakeRecordable po (s v) = Some (Some (fst x), snd x) \<and> inv (snd x)"] make s by fastforce
  obtain q2 where q2: "\<forall>v \<in> set vs. p_OnStart po (fold app ops1 (fst (q v))) parent (snd (q v)) = Some (fst (q2 v), snd (q2 v)) \<and>
      inv (snd (q2 v))"
    using bchoice [of "set vs" "\<lambda>v x. p_OnStart po (fold app ops1 (fst (q v))) parent (snd (q v)) = Some (fst x, snd x) \<and> inv (snd x)"]
      start q by fastforce
  obtain s3 where s3: "\<forall>v \<in> set vs. p_OnEnd po (Some (fold app ops2 (fst (q2 v)))) (snd (q2 v)) = Some (s3 v) \<and> inv (s3 v)"
    using bchoice [of "set vs" "\<lambda>v x. p_OnEnd po (Some (fold app ops2 (fst (q2 v)))) (snd (q2 v)) = Some x \<and> inv x"] ended q2 by fastforce
  have "\<forall>v \<in> set vs. w v = Some (s v) \<and> p_MakeRecordable po (s v) = Some (Some ((\<lambda>v. fst (q v)) v), (\<lambda>v. snd (q v)) v) \<and>
      p_OnStart po (fold app ops1 ((\<lambda>v. fst (q v)) v)) parent ((\<lambda>v. snd (q v)) v) = Some ((\<lambda>v. fst (q2 v)) v, (\<lambda>v. snd (q2 v)) v) \<and>
      p_OnEnd po (Some (fold app ops2 ((\<lambda>v. fst (q2 v)) v))) ((\<lambda>v. snd (q2 v)) v) = Some (s3 v)"
    using s q q2 s3 by simp
  from span_through_list [OF assms(2) _ this]
  have "msp_span po app parent m ops1 ops2 w = Some (\<lambda>v. if v \<in> set vs then Some (s3 v) else w v)"
    by (auto simp: msp_span_def msp_MakeRecordable_def msp_OnStart_def msp_OnEnd_def msp_walk_eq [OF assms(1)])
  then show ?thesis using all_inv_world [of vs s3 w] s3 by simp
qed

lemma collected:
  assumes "distinct vs" and "all_inv vs w" and "\<forall>s. inv s \<longrightarrow> (\<exists>b s'. call s = Some (b, s') \<and> inv s')"
  shows "\<exists>w'. fold_opt (collect_one call) vs (True, w) = Some (True, w') \<and> all_inv vs w' \<and> (\<forall>v. v \<notin> set vs \<longrightarrow> w' v = w v)"
proof -
  obtain s where s: "\<forall>v \<in> set vs. w v = Some (s v) \<and> inv (s v)"
    using bchoice [of "set vs" "\<lambda>v x. w v = Some x \<and> inv x"] assms(2) by (auto simp: all_inv_def)
  obtain q where q: "\<forall>v \<in> set vs. call (s v) = Some (fst (q v), snd (q v)) \<and> inv (snd (q v))"
    using bchoice [of "set vs" "\<lambda>v x. call (s v) = Some (fst x, snd x) \<and> inv (snd x)"] assms(3) s by fastforce
  have "\<forall>v \<in> set vs. w v = Some (s v) \<and> call (s v) = Some ((\<lambda>v. fst (q v)) v, (\<lambda>v. snd (q v)) v)" using s q by simp
  from fold_collect [OF assms(1) this] show ?thesis using all_inv_world [of vs "\<lambda>v. snd (q v)" w] q by simp
qed

lemma run_returns:
  assumes "msp_rep m xs vs" and "distinct vs"
  shows "all_inv vs w \<Longrightarrow> \<exists>w'. msp_run po app parent m calls w = Some w' \<and> all_inv vs w'"
proof (induction calls arbitrary: w)
  case (Cons c calls)
  show ?case
  proof (cases c)
    case (Call_span ops1 ops2)
    then show ?thesis using span_life [OF assms Cons.prems, of app parent ops1 ops2] Cons.IH by fastforce
  next
    case (Call_flush t)
    have "\<forall>s. inv s \<longrightarrow> (\<exists>b s'. p_ForceFlush po t s = Some (b, s') \<and> inv s')" using flush by blast
    with Call_flush show ?thesis using collected [OF assms(2) Cons.prems, of "p_ForceFlush po t"] Cons.IH
      by (fastforce simp: msp_ForceFlush_def msp_walk_eq [OF assms(1)])
  next
    case (Call_shutdown t)
    have "\<forall>s. inv s \<longrightarrow> (\<exists>b s'. p_Shutdown po t s = Some (b, s') \<and> inv s')" using shutdown by blast
    with Call_shutdown show ?thesis using collected [OF assms(2) Cons.prems, of "p_Shutdown po t"] Cons.IH
      by (fastforce simp: msp_Shutdown_def msp_walk_eq [OF assms(1)])
  qed
qed simp

lemma destroy_returns:
  assumes "msp_rep m xs vs" and "distinct vs" and "all_inv vs w"
  shows "\<exists>m' w' gone. msp_Destroy po m w = Some (m', w', gone) \<and> msp_heap m' = (\<lambda>_. None) \<and>
    (\<forall>v. w' v = (if v \<in> set vs then None else w v)) \<and> map fst gone = rev vs"
proof -
  obtain w1 where w1: "msp_Shutdown po m timeout_max w = Some (True, w1)" "all_inv vs w1" "\<forall>v. v \<notin> set vs \<longrightarrow> w1 v = w v"
    using collected [OF assms(2,3), of "p_Shutdown po timeout_max"] shutdown by (auto simp: msp_Shutdown_def msp_walk_eq [OF assms(1)])
  obtain s where s: "\<forall>v \<in> set vs. w1 v = Some (s v) \<and> inv (s v)"
    using bchoice [of "set vs" "\<lambda>v x. w1 v = Some x \<and> inv x"] w1(2) by (auto simp: all_inv_def)
  obtain s' where "\<forall>v \<in> set vs. p_Destroy po (s v) = Some (s' v)"
    using bchoice [of "set vs" "\<lambda>v x. p_Destroy po (s v) = Some x"] destroy s by fastforce
  with s have "\<forall>v \<in> set vs. w1 v = Some (s v) \<and> p_Destroy po (s v) = Some (s' v)" by simp
  from Cleanup_eq [OF assms(1,2) this] show ?thesis using w1 by (auto simp: msp_Destroy_def rev_map comp_def)
qed

end

text \<open>A simple processor with an in-memory exporter keeps to the contract, as long as the weak exchanges do not fail for
  ever: the latch is set exactly when the exporter is shut down, and the buffer is well-formed.\<close>

lemma ssp_ok_OnEnd:
  assumes "ssp_ok p" and "(False, False) \<in> set fails"
  shows "\<exists>p'. ssp_OnEnd (ime_ops fails) (Some d) p = Some p' \<and> ssp_ok p'"
proof -
  obtain e where e: "ssp_exporter p = Some e" "wf_cb (ime_data e)" "ime_is_shutdown e = ssp_shutdown_latch p"
    using assms(1) by (auto simp: ssp_ok_def split: option.splits)
  show ?thesis
  proof (cases "ime_is_shutdown e")
    case True
    then show ?thesis using ssp_OnEnd_closed [OF e(1)] assms(1) by blast
  next
    case False
    obtain b where b: "imd_Add fails (ime_data e) (Some d) = Some b" using imd_Add_returns [OF e(2) assms(2)] by blast
    have "wf_cb b" using imd.add_result [OF e(2)] b by blast
    then show ?thesis using ssp_OnEnd_open [OF e(1) False, of fails d] b e(3) by (auto simp: ssp_ok_def)
  qed
qed

interpretation ssp_mem: span_processor "ssp_ops (ime_ops (fails @ [(False, False)]))" ssp_ok
proof
  fix s :: "('a, 'b) span_data ime ssp" and d sc t
  assume ok: "ssp_ok s"
  show "\<exists>d s'. p_MakeRecordable (ssp_ops (ime_ops (fails @ [(False, False)]))) s = Some (Some d, s') \<and> ssp_ok s'"
    using ok by (auto simp: ssp_ok_def ssp_ops_def ssp_MakeRecordable_def ime_ops_def ime_MakeRecordable_def split: option.splits)
  show "\<exists>d' s'. p_OnStart (ssp_ops (ime_ops (fails @ [(False, False)]))) d sc s = Some (d', s') \<and> ssp_ok s'"
    using ok by (simp add: ssp_ops_def ssp_OnStart_def)
  show "\<exists>s'. p_OnEnd (ssp_ops (ime_ops (fails @ [(False, False)]))) (Some d) s = Some s' \<and> ssp_ok s'"
    using ssp_ok_OnEnd [OF ok, of "fails @ [(False, False)]" d] by (simp add: ssp_ops_def)
  show "\<exists>b s'. p_ForceFlush (ssp_ops (ime_ops (fails @ [(False, False)]))) t s = Some (b, s') \<and> ssp_ok s'"
    using ok by (auto simp: ssp_ok_def ssp_ops_def ssp_ForceFlush_def ime_ops_def ime_ForceFlush_def split: option.splits)
  show "\<exists>b s'. p_Shutdown (ssp_ops (ime_ops (fails @ [(False, False)]))) t s = Some (b, s') \<and> ssp_ok s'"
    using ok by (auto simp: ssp_ok_def ssp_ops_def ssp_Shutdown_def ime_ops_def ime_Shutdown_def split: option.splits)
  show "\<exists>s'. p_Destroy (ssp_ops (ime_ops (fails @ [(False, False)]))) s = Some s'"
    using ok by (auto simp: ssp_ok_def ssp_ops_def ssp_Destroy_def ssp_Shutdown_def ime_ops_def ime_Shutdown_def split: option.splits)
qed

text \<open>A processor for examples, and what it is after one span ended on it.\<close>

definition demo_ssp :: "(nat, nat) span_data ime ssp" where
  "demo_ssp = SimpleSpanProcessor (Some (InMemorySpanExporter 1))"

definition demo_ended :: "(nat, nat) span_data ime ssp" where
  "demo_ended = SimpleSpanProcessor (Some \<lparr>ime_data =
     \<lparr>cb_data = [Some (sd_SetDuration 5 (sd_SetName ''x'' SpanData)), None], cb_capacity = 2, cb_head = 1, cb_tail = 0\<rparr>,
     ime_is_shutdown = False\<rparr>)"

lemma demo_ssp_steps:
  "p_MakeRecordable (ssp_ops (ime_ops [(False, False)])) demo_ssp = Some (Some SpanData, demo_ssp)"
  "p_OnStart (ssp_ops (ime_ops [(False, False)])) d sc demo_ssp = Some (d, demo_ssp)"
  "p_OnEnd (ssp_ops (ime_ops [(False, False)])) (Some (sd_SetDuration 5 (sd_SetName ''x'' SpanData))) demo_ssp = Some demo_ended"
proof -
  show "p_MakeRecordable (ssp_ops (ime_ops [(False, False)])) demo_ssp = Some (Some SpanData, demo_ssp)"
    by (simp add: demo_ssp_def ssp_ops_def ssp_MakeRecordable_def ime_ops_def ime_MakeRecordable_def SimpleSpanProcessor_def)
  show "p_OnStart (ssp_ops (ime_ops [(False, False)])) d sc demo_ssp = Some (d, demo_ssp)"
    by (simp add: ssp_ops_def ssp_OnStart_def)
  show "p_OnEnd (ssp_ops (ime_ops [(False, False)])) (Some (sd_SetDuration 5 (sd_SetName ''x'' SpanData))) demo_ssp = Some demo_ended"
    by (simp add: demo_ssp_def demo_ended_def ssp_ops_def ssp_OnEnd_def ime_ops_def ime_Export_def SimpleSpanProcessor_def
        InMemorySpanExporter_def InMemoryData_def CircularBuffer_def imd_Add_def add_round_def SwapIfNull_def aup_IsNull_def Let_def
        numeral_2_eq_2)
qed

subsection \<open>Properties\<close>

text \<open>Spans that end on a simple processor with an in-memory exporter. Every \<open>OnEnd\<close> returns;
  \<open>GetSpans\<close> then returns the first \<open>n\<close> ended spans in the order in which they ended, \<open>n\<close> being the size of the
  buffer, and leaves the buffer empty. \<open>Shutdown\<close> reaches the exporter once: after it spans that end change nothing,
  and a second \<open>Shutdown\<close> answers true without calling the exporter, whatever the exporter would do.\<close>

theorem simple_processor_exports:
  assumes "\<forall>c \<in> set calls. (False, False) \<in> set (fst c)"
  shows "\<exists>p e b. ssp_end_all calls (SimpleSpanProcessor (Some (InMemorySpanExporter n))) = Some p \<and> ssp_exporter p = Some e \<and>
    GetSpans (ime_data e) = Some (b, map Some (take n (map snd calls))) \<and> cb_contents b = [] \<and>
    (\<exists>p1. ssp_Shutdown (ime_ops fails) timeout p = Some (True, p1) \<and> ssp_end_all late p1 = Some p1 \<and>
      ssp_Shutdown other_exporter timeout p1 = Some (True, p1))"
proof -
  let ?e = "InMemorySpanExporter n :: ('a, 'b) span_data ime"
  let ?p = "SimpleSpanProcessor (Some ?e)"
  have e: "ssp_exporter ?p = Some ?e" "\<not> ime_is_shutdown ?e" "wf_cb (ime_data ?e)" "ime_data ?e = CircularBuffer n"
    "\<not> ssp_shutdown_latch ?p"
    using wf_CircularBuffer(1) [of n] by (simp_all add: SimpleSpanProcessor_def InMemorySpanExporter_def InMemoryData_def)
  obtain b where b: "ssp_end_all calls ?p = Some (?p\<lparr>ssp_exporter := Some (?e\<lparr>ime_data := b\<rparr>)\<rparr>)"
    "imd.add_all (ime_data ?e) (map snd calls) b"
    using ssp_end_all_open [OF e(1-3) assms] by blast
  have "cb_contents (ime_data ?e) = []" "cb_max_size (ime_data ?e) = n" unfolding e(4)
    by (simp_all add: CircularBuffer_def cb_contents_def slots_of_def cb_max_size_def)
  moreover have "wf_cb b" using imd.add_all_result [OF e(3) b(2)] by blast
  then obtain ys c where c: "imd_Get b = Some (c, map Some ys)" using imd.drain_some by blast
  ultimately have g: "imd_Get b = Some (c, map Some (take n (map snd calls)))" "cb_contents c = []"
    using imd.drain_add_all [OF e(3) _ b(2) c] by simp_all
  let ?q = "?p\<lparr>ssp_exporter := Some (?e\<lparr>ime_data := b\<rparr>)\<rparr>"
  let ?q1 = "?p\<lparr>ssp_exporter := Some (?e\<lparr>ime_data := b, ime_is_shutdown := True\<rparr>), ssp_shutdown_latch := True\<rparr>"
  have "ssp_Shutdown (ime_ops fails) timeout ?q = Some (True, ?q1)"
    using e(5) by (simp add: ssp_Shutdown_def ime_ops_def ime_Shutdown_def)
  moreover have "ssp_end_all late ?q1 = Some ?q1" by (rule ssp_end_all_closed [of _ "?e\<lparr>ime_data := b, ime_is_shutdown := True\<rparr>"]) simp_all
  moreover have "ssp_Shutdown other_exporter timeout ?q1 = Some (True, ?q1)" by (simp add: ssp_Shutdown_def)
  ultimately show ?thesis using b(1) g by (intro exI [of _ ?q] exI [of _ "?e\<lparr>ime_data := b\<rparr>"] exI [of _ c]) (auto simp: GetSpans_def)
qed

theorem simple_processor_exports_witness:
  "\<exists>p e b. ssp_end_all (map (\<lambda>nm. ([(True, False), (False, False)], sd_SetName nm SpanData)) [''a'', ''b'', ''c''])
       (SimpleSpanProcessor (Some (InMemorySpanExporter 2 :: (nat, nat) span_data ime))) = Some p \<and> ssp_exporter p = Some e \<and>
     GetSpans (ime_data e) = Some (b, [Some (sd_SetName ''a'' SpanData), Some (sd_SetName ''b'' SpanData)])"
proof -
  let ?calls = "map (\<lambda>nm. ([(True, False), (False, False)], sd_SetName nm SpanData :: (nat, nat) span_data)) [''a'', ''b'', ''c'']"
  have c: "\<forall>c \<in> set ?calls. (False, False) \<in> set (fst c)" by simp
  have t: "map Some (take 2 (map snd ?calls)) = [Some (sd_SetName ''a'' SpanData), Some (sd_SetName ''b'' SpanData)]"
    by (simp add: take_Cons')
  show ?thesis using simple_processor_exports [OF c, of 2 "[]" 0 "[]" "ime_ops []"] unfolding t by (elim exE conjE) (intro exI conjI)
qed

text \<open>C14: A span handed to a multi processor built from any processors, null ones among them, whatever the
  processors do. From its creation to its end every processor gets a recordable of its own, made by itself, with
  exactly the operations done on the span before and after \<open>OnStart\<close>, and each is called once with its own recordable;
  nothing else is touched. The walks over the linked list return and never follow a dangling pointer.\<close>

theorem multi_processor_fans_out:
  assumes "vs = List.map_filter id ps" and "distinct vs"
    and "\<forall>v \<in> set vs. w v = Some (s v) \<and> p_MakeRecordable po (s v) = Some (Some (d v), s1 v) \<and>
      p_OnStart po (fold app ops1 (d v)) parent (s1 v) = Some (d2 v, s2 v) \<and>
      p_OnEnd po (Some (fold app ops2 (d2 v))) (s2 v) = Some (s3 v)"
  shows "\<exists>m r w1 r1 r2 w2 r3. MultiSpanProcessor ps = Some m \<and> msp_MakeRecordable po m w = Some (r, w1) \<and>
    mr_apply_all app ops1 r = Some r1 \<and> msp_OnStart po m parent r1 w1 = Some (r2, w2) \<and>
    mr_apply_all app ops2 r2 = Some r3 \<and>
    msp_OnEnd po m r3 w2 = Some (\<lambda>v. if v \<in> set vs then Some (s3 v) else w v)"
proof -
  obtain m xs where m: "MultiSpanProcessor ps = Some m" "msp_rep m xs vs"
    using MultiSpanProcessor_rep [of ps] assms(1) by blast
  show ?thesis
    using m(1) span_through_list [OF assms(2) _ assms(3)]
    by (simp add: msp_MakeRecordable_def msp_OnStart_def msp_OnEnd_def msp_walk_eq [OF m(2)])
qed

text \<open>Two simple processors with in-memory exporters; the pointer between them is null.\<close>

theorem multi_processor_fans_out_witness:
  "\<exists>m r w1 r1 r2 w2 r3. MultiSpanProcessor [Some 7, None, Some 3] = Some m \<and>
    msp_MakeRecordable (ssp_ops (ime_ops [(False, False)])) m (\<lambda>_. Some demo_ssp) = Some (r, w1) \<and>
    mr_apply_all sd_apply [R_SetName ''x''] r = Some r1 \<and>
    msp_OnStart (ssp_ops (ime_ops [(False, False)])) m demo_span_context r1 w1 = Some (r2, w2) \<and>
    mr_apply_all sd_apply [R_SetDuration 5] r2 = Some r3 \<and>
    msp_OnEnd (ssp_ops (ime_ops [(False, False)])) m r3 w2 =
      Some (\<lambda>v. if v \<in> set [7, 3] then Some demo_ended else Some demo_ssp)"
proof -
  let ?po = "ssp_ops (ime_ops [(False, False)]) :: ((nat, nat) span_data ime ssp, (nat, nat) span_data) processor_ops"
  have v: "[7, 3 :: nat] = List.map_filter id [Some 7, None, Some 3]" "distinct [7, 3 :: nat]" by (simp_all add: map_filter_simps)
  show ?thesis
    by (rule multi_processor_fans_out [OF v, where s = "\<lambda>_. demo_ssp" and ?s1.0 = "\<lambda>_. demo_ssp" and ?s2.0 = "\<lambda>_. demo_ssp"
          and ?s3.0 = "\<lambda>_. demo_ended" and d = "\<lambda>_. SpanData" and ?d2.0 = "\<lambda>_. sd_SetName ''x'' SpanData"])
      (simp add: demo_ssp_steps)
qed

text \<open>C15: The life of a multi processor. \<open>ForceFlush\<close> and \<open>Shutdown\<close> call every processor once in the order in which
  they were added; both answer true whatever the processors answer. The destructor shuts every processor down, deletes
  every node of the list exactly once, last to first, destroys each processor with its node, and leaves no node behind.\<close>

theorem multi_processor_lifetime:
  assumes "vs = List.map_filter id ps" and "distinct vs"
    and "\<forall>v \<in> set vs. w v = Some (s v) \<and> p_ForceFlush po t (s v) = Some (b v, s1 v) \<and>
      p_Shutdown po timeout_max (s1 v) = Some (b1 v, s2 v) \<and> p_Destroy po (s2 v) = Some (s3 v)"
  shows "\<exists>m w1 m'. MultiSpanProcessor ps = Some m \<and> msp_ForceFlush po m t w = Some (True, w1) \<and>
    msp_Shutdown po m timeout_max w1 = Some (True, \<lambda>v. if v \<in> set vs then Some (s2 v) else w v) \<and>
    msp_Destroy po m w1 = Some (m', (\<lambda>v. if v \<in> set vs then None else w v), rev (map (\<lambda>v. (v, s3 v)) vs)) \<and>
    msp_heap m' = (\<lambda>_. None)"
proof -
  obtain m xs where m: "MultiSpanProcessor ps = Some m" "msp_rep m xs vs"
    using MultiSpanProcessor_rep [of ps] assms(1) by blast
  let ?w1 = "\<lambda>v. if v \<in> set vs then Some (s1 v) else w v" and ?w2 = "\<lambda>v. if v \<in> set vs then Some (s2 v) else w v"
  have f: "msp_ForceFlush po m t w = Some (True, ?w1)"
    unfolding msp_ForceFlush_def msp_walk_eq [OF m(2)] using assms(3) by (intro fold_collect [OF assms(2), where s = s and b = b]) blast
  have "fold_opt (collect_one (p_Shutdown po timeout_max)) vs (True, ?w1) = Some (True, \<lambda>v. if v \<in> set vs then Some (s2 v) else ?w1 v)"
    using assms(3) by (intro fold_collect [OF assms(2), where s = s1 and b = b1]) auto
  moreover have "(\<lambda>v. if v \<in> set vs then Some (s2 v) else ?w1 v) = ?w2" by (simp add: fun_eq_iff)
  ultimately have sh: "msp_Shutdown po m timeout_max ?w1 = Some (True, ?w2)"
    by (simp only: msp_Shutdown_def msp_walk_eq [OF m(2)])
  have "\<forall>v \<in> set vs. ?w2 v = Some (s2 v) \<and> p_Destroy po (s2 v) = Some (s3 v)" using assms(3) by simp
  from Cleanup_eq [OF m(2) assms(2) this] obtain m' where
    "Cleanup po m ?w2 = Some (m', (\<lambda>v. if v \<in> set vs then None else ?w2 v), rev (map (\<lambda>v. (v, s3 v)) vs))"
    "msp_heap m' = (\<lambda>_. None)" by blast
  moreover have "(\<lambda>v. if v \<in> set vs then None else ?w2 v) = (\<lambda>v. if v \<in> set vs then None else w v)" by (simp add: fun_eq_iff)
  ultimately show ?thesis using m(1) f sh
    by (intro exI [of _ m] exI [of _ ?w1] exI [of _ m']) (simp add: msp_Destroy_def)
qed

text \<open>Processors whose \<open>Shutdown\<close> and \<open>ForceFlush\<close> fail, counting the calls.\<close>

theorem multi_processor_lifetime_witness:
  "\<exists>po :: (nat, unit) processor_ops. \<exists>m w1 m'. MultiSpanProcessor [Some 7, None, Some 3] = Some m \<and>
    msp_ForceFlush po m 0 (\<lambda>_. Some 0) = Some (True, w1) \<and>
    msp_Shutdown po m timeout_max w1 = Some (True, \<lambda>v. if v \<in> set [7, 3] then Some 2 else Some 0) \<and>
    msp_Destroy po m w1 = Some (m', (\<lambda>v. if v \<in> set [7, 3] then None else Some 0), [(3, 3), (7, 3)]) \<and>
    msp_heap m' = (\<lambda>_. None)"
proof -
  define po :: "(nat, unit) processor_ops" where
    "po = \<lparr>p_MakeRecordable = (\<lambda>s. None), p_OnStart = (\<lambda>d sc s. None), p_OnEnd = (\<lambda>d s. None),
      p_ForceFlush = (\<lambda>t s. Some (False, s + 1)), p_Shutdown = (\<lambda>t s. Some (False, s + 1)), p_Destroy = (\<lambda>s. Some (s + 1))\<rparr>"
  have v: "[7, 3 :: nat] = List.map_filter id [Some 7, None, Some 3]" "distinct [7, 3 :: nat]" by (simp_all add: map_filter_simps)
  have "rev (map (\<lambda>v :: nat. (v, 3 :: nat)) [7, 3]) = [(3, 3), (7, 3)]" by simp
  with multi_processor_lifetime [OF v, where w = "\<lambda>_. Some 0" and s = "\<lambda>_. 0" and ?s1.0 = "\<lambda>_. 1" and ?s2.0 = "\<lambda>_. 2"
      and ?s3.0 = "\<lambda>_. 3" and po = po and t = 0 and b = "\<lambda>_. False" and ?b1.0 = "\<lambda>_. False"]
  show ?thesis by (intro exI [of _ po]) (simp add: po_def)
qed

text \<open>Any use of a multi processor over simple processors with in-memory exporters returns: spans with any
  operations, flushes and shutdowns in any order, under spurious failures of the weak exchanges. The buffers stay well-formed
  and a latch is set exactly when its exporter is shut down. The destructor then returns, frees every node and destroys
  every processor once, in the reverse order.\<close>

theorem multi_processor_returns:
  fixes w :: "('r, 'i) span_data ime ssp world"
  assumes "vs = List.map_filter id ps" and "distinct vs" and "\<forall>v \<in> set vs. \<exists>p. w v = Some p \<and> ssp_ok p"
  shows "\<exists>m w1 m' w2 gone. MultiSpanProcessor ps = Some m \<and>
    msp_run (ssp_ops (ime_ops (fails @ [(False, False)]))) sd_apply parent m calls w = Some w1 \<and>
    (\<forall>v \<in> set vs. \<exists>p. w1 v = Some p \<and> ssp_ok p) \<and>
    msp_Destroy (ssp_ops (ime_ops (fails @ [(False, False)]))) m w1 = Some (m', w2, gone) \<and>
    msp_heap m' = (\<lambda>_. None) \<and> (\<forall>v \<in> set vs. w2 v = None) \<and> map fst gone = rev vs"
proof -
  obtain m xs where m: "MultiSpanProcessor ps = Some m" "msp_rep m xs vs"
    using MultiSpanProcessor_rep [of ps] assms(1) by blast
  have "ssp_mem.all_inv vs w" using assms(3) by (simp add: ssp_mem.all_inv_def)
  from ssp_mem.run_returns [OF m(2) assms(2) this] obtain w1 where
    w1: "msp_run (ssp_ops (ime_ops (fails @ [(False, False)]))) sd_apply parent m calls w = Some w1" "ssp_mem.all_inv vs w1"
    by blast
  from ssp_mem.destroy_returns [OF m(2) assms(2) w1(2)] show ?thesis
    using m(1) w1 by (fastforce simp: ssp_mem.all_inv_def)
qed

theorem multi_processor_returns_witness:
  "\<exists>m w1 m' w2 gone. MultiSpanProcessor [Some 7, None, Some 3] = Some m \<and>
    msp_run (ssp_ops (ime_ops [(True, False), (False, False)])) sd_apply demo_span_context m
      [Call_span [R_SetName ''x''] [R_SetDuration 5], Call_shutdown 0, Call_span [] [], Call_flush 0]
      (\<lambda>_. Some demo_ssp) = Some w1 \<and>
    msp_Destroy (ssp_ops (ime_ops [(True, False), (False, False)])) m w1 = Some (m', w2, gone) \<and> map fst gone = [3, 7]"
proof -
  have v: "[7, 3 :: nat] = List.map_filter id [Some 7, None, Some 3]" "distinct [7, 3 :: nat]" by (simp_all add: map_filter_simps)
  have "\<forall>v \<in> set [7, 3 :: nat]. \<exists>p. (\<lambda>_. Some demo_ssp) v = Some p \<and> ssp_ok p"
    by (simp add: ssp_ok_def demo_ssp_def SimpleSpanProcessor_def InMemorySpanExporter_def InMemoryData_def)
  from multi_processor_returns [OF v this, of "[(True, False)]" demo_span_context
      "[Call_span [R_SetName ''x''] [R_SetDuration 5], Call_shutdown 0, Call_span [] [], Call_flush 0]"]
  show ?thesis by (simp only: append.simps rev.simps) (elim exE conjE, intro exI conjI)
qed

end
