(* ===== verification/Tracer_Provider.thy ===== *)
theory Tracer_Provider
  imports Cpp_Prelude
begin

text \<open>
  \<open>opentelemetry/common/spin_lock_mutex.h\<close>: the spin lock, and \<open>opentelemetry/trace/provider.h\<close>: the global tracer
  provider that it guards. Any number of threads call \<open>GetTracerProvider\<close> and \<open>SetTracerProvider\<close>; a step is one access
  to the shared memory. Copying and assigning a shared pointer is not atomic: it reads or writes the object and the control
  block one after the other, so that without the lock a reader could see halves of two providers.
\<close>

subsection \<open>SpinLockMutex\<close>

definition SPINLOCK_FAST_ITERATIONS :: nat where
  "SPINLOCK_FAST_ITERATIONS = 100"

text \<open>\<open>try_lock\<close> run without interruption: the result and the new flag.\<close>

definition try_lock :: "bool \<Rightarrow> bool \<times> bool" where
  "try_lock flag = (if flag then (False, flag) else (\<not> flag, True))"

definition unlock :: "bool \<Rightarrow> bool" where
  "unlock flag = False"

text \<open>Where a thread stands in \<open>lock\<close>: before the first exchange; before the load and before the exchange of \<open>try_lock\<close> in the
  fast loop; the same in the attempt after yielding.\<close>

datatype lock_pc = Try | Spin_load nat | Spin_exchange nat | Yield_load | Yield_exchange

text \<open>One access: the new flag, and \<^term>\<open>None\<close> when \<open>lock\<close> returns.\<close>

definition spin_next :: "nat \<Rightarrow> lock_pc" where
  "spin_next i = (if i + 1 < SPINLOCK_FAST_ITERATIONS then Spin_load (i + 1) else Yield_load)"

fun lock_next :: "lock_pc \<Rightarrow> bool \<Rightarrow> bool \<times> lock_pc option" where
  "lock_next Try flag = (True, if \<not> flag then None else Some (Spin_load 0))"
| "lock_next (Spin_load i) flag = (flag, Some (if \<not> flag then Spin_exchange i else spin_next i))"
| "lock_next (Spin_exchange i) flag = (True, if \<not> flag then None else Some (spin_next i))"
| "lock_next Yield_load flag = (flag, Some (if \<not> flag then Yield_exchange else Try))"
| "lock_next Yield_exchange flag = (True, if \<not> flag then None else Some Try)"

subsection \<open>Provider\<close>

datatype 'p call = GetTracerProvider | SetTracerProvider 'p

datatype 'p thread_pc =
    Idle
  | Returned 'p 'p
  | Locking "'p call" lock_pc
  | Entered "'p call"
  | Set_half 'p
  | Get_half 'p
  | Unlocking "('p \<times> 'p) option"

text \<open>\<open>pv_object\<close> and \<open>pv_control\<close>: the provider whose object and whose control block the global pointer has.
  \<open>pv_log\<close> records the calls in the order in which they completed their accesses, with what a reader saw.\<close>

record 'p provider_state =
  pv_flag :: bool
  pv_object :: 'p
  pv_control :: 'p
  pv_pc :: "nat \<Rightarrow> 'p thread_pc"
  pv_log :: "('p call \<times> ('p \<times> 'p) option) list"

definition provider_start :: "'p \<Rightarrow> 'p provider_state" where
  "provider_start noop =
     \<lparr>pv_flag = False, pv_object = noop, pv_control = noop, pv_pc = (\<lambda>_. Idle), pv_log = []\<rparr>"

definition goto_pc :: "nat \<Rightarrow> 'p thread_pc \<Rightarrow> 'p provider_state \<Rightarrow> 'p provider_state" where
  "goto_pc i q s = s\<lparr>pv_pc := (pv_pc s)(i := q)\<rparr>"

inductive provider_step :: "'p provider_state \<Rightarrow> 'p provider_state \<Rightarrow> bool" where
  call_idle: "pv_pc s i = Idle \<Longrightarrow> provider_step s (goto_pc i (Locking c Try) s)"
| call_again: "pv_pc s i = Returned a b \<Longrightarrow> provider_step s (goto_pc i (Locking c Try) s)"
| locking: "pv_pc s i = Locking c l \<Longrightarrow> lock_next l (pv_flag s) = (flag, Some l') \<Longrightarrow>
    provider_step s (goto_pc i (Locking c l') (s\<lparr>pv_flag := flag\<rparr>))"
| locked: "pv_pc s i = Locking c l \<Longrightarrow> lock_next l (pv_flag s) = (flag, None) \<Longrightarrow>
    provider_step s (goto_pc i (Entered c) (s\<lparr>pv_flag := flag\<rparr>))"
| set_object: "pv_pc s i = Entered (SetTracerProvider p) \<Longrightarrow> provider_step s (goto_pc i (Set_half p) (s\<lparr>pv_object := p\<rparr>))"
| set_control: "pv_pc s i = Set_half p \<Longrightarrow>
    provider_step s (goto_pc i (Unlocking None) (s\<lparr>pv_control := p, pv_log := pv_log s @ [(SetTracerProvider p, None)]\<rparr>))"
| get_object: "pv_pc s i = Entered GetTracerProvider \<Longrightarrow> provider_step s (goto_pc i (Get_half (pv_object s)) s)"
| get_control: "pv_pc s i = Get_half a \<Longrightarrow>
    provider_step s (goto_pc i (Unlocking (Some (a, pv_control s)))
      (s\<lparr>pv_log := pv_log s @ [(GetTracerProvider, Some (a, pv_control s))]\<rparr>))"
| unlocking: "pv_pc s i = Unlocking r \<Longrightarrow>
    provider_step s (goto_pc i (case r of None \<Rightarrow> Idle | Some (a, b) \<Rightarrow> Returned a b) (s\<lparr>pv_flag := unlock (pv_flag s)\<rparr>))"

inductive provider_reach :: "'p \<Rightarrow> 'p provider_state \<Rightarrow> bool" for noop where
  start: "provider_reach noop (provider_start noop)"
| step: "provider_reach noop s \<Longrightarrow> provider_step s s' \<Longrightarrow> provider_reach noop s'"

subsection \<open>Reference definitions\<close>

fun in_section :: "'p thread_pc \<Rightarrow> bool" where
  "in_section (Entered c) = True"
| "in_section (Set_half p) = True"
| "in_section (Get_half p) = True"
| "in_section (Unlocking r) = True"
| "in_section _ = False"

text \<open>A global variable with atomic reads and writes, run along a log; \<^term>\<open>None\<close> when a reader saw anything but its value.\<close>

fun replay :: "'p \<Rightarrow> ('p call \<times> ('p \<times> 'p) option) list \<Rightarrow> 'p option" where
  "replay p [] = Some p"
| "replay p ((SetTracerProvider q, r) # rest) = (if r = None then replay q rest else None)"
| "replay p ((GetTracerProvider, r) # rest) = (if r = Some (p, p) then replay p rest else None)"

text \<open>What a thread inside the section knows of the global pointer, given the value \<open>c\<close> it had when the last call completed.\<close>

fun pc_ok :: "'p \<Rightarrow> 'p provider_state \<Rightarrow> 'p thread_pc \<Rightarrow> bool" where
  "pc_ok c s (Set_half p) \<longleftrightarrow> pv_object s = p"
| "pc_ok c s (Get_half a) \<longleftrightarrow> a = c \<and> pv_object s = c"
| "pc_ok c s (Entered _) \<longleftrightarrow> pv_object s = c"
| "pc_ok c s (Unlocking r) \<longleftrightarrow> pv_object s = c \<and> (case r of None \<Rightarrow> True | Some (a, b) \<Rightarrow> a = c \<and> b = c)"
| "pc_ok c s _ \<longleftrightarrow> True"

definition seen_ok :: "'p \<Rightarrow> 'p provider_state \<Rightarrow> 'p thread_pc \<Rightarrow> bool" where
  "seen_ok noop s q \<longleftrightarrow> (case q of Returned a b \<Rightarrow> a = b \<and> (a = noop \<or> SetTracerProvider a \<in> fst ` set (pv_log s)) | _ \<Rightarrow> True)"

definition provider_inv :: "'p \<Rightarrow> 'p provider_state \<Rightarrow> bool" where
  "provider_inv noop s \<longleftrightarrow>
     replay noop (pv_log s) = Some (pv_control s) \<and>
     (pv_flag s \<longleftrightarrow> (\<exists>i. in_section (pv_pc s i))) \<and>
     (\<forall>i j. in_section (pv_pc s i) \<longrightarrow> in_section (pv_pc s j) \<longrightarrow> i = j) \<and>
     (\<not> pv_flag s \<longrightarrow> pv_object s = pv_control s) \<and>
     (\<forall>i. pc_ok (pv_control s) s (pv_pc s i)) \<and>
     (\<forall>i. seen_ok noop s (pv_pc s i))"

subsection \<open>Lemmas\<close>

lemma pv_pc_goto [simp]: "pv_pc (goto_pc i q s) = (pv_pc s)(i := q)" "pv_flag (goto_pc i q s) = pv_flag s"
  "pv_object (goto_pc i q s) = pv_object s" "pv_control (goto_pc i q s) = pv_control s" "pv_log (goto_pc i q s) = pv_log s"
  by (simp_all add: goto_pc_def)

lemma replay_append: "replay p (xs @ ys) = Option.bind (replay p xs) (\<lambda>q. replay q ys)"
  by (induction p xs rule: replay.induct) auto

lemma replay_value: "replay p l = Some c \<Longrightarrow> c = p \<or> SetTracerProvider c \<in> fst ` set l"
  by (induction p l rule: replay.induct) (auto split: if_splits)

lemma lock_next_waits: "lock_next l flag = (flag', Some l') \<Longrightarrow> flag' = flag"
  by (cases l) (auto split: if_splits)

lemma lock_next_returns: "lock_next l flag = (flag', None) \<Longrightarrow> \<not> flag \<and> flag'"
  by (cases l) (auto split: if_splits)

text \<open>\<open>try_lock\<close> without interruption is the load followed, if the flag was clear, by the exchange.\<close>

lemma try_lock_accesses:
  assumes "lock_next (Spin_load i) flag = (flag1, Some l)"
  shows "(if l = Spin_exchange i then lock_next l flag1 = (snd (try_lock flag), None) \<and> fst (try_lock flag)
    else try_lock flag = (False, flag1))"
  using assms by (auto simp: try_lock_def spin_next_def split: if_splits)

text \<open>Only the moving thread's part of the invariant changes, as long as it keeps the shared memory that the others rely on.\<close>

lemma outside_section:
  assumes "provider_inv noop s" and "in_section (pv_pc s i)" and "j \<noteq> i"
  shows "\<not> in_section (pv_pc s j)"
  using assms by (auto simp: provider_inv_def)

lemma pc_ok_outside: "\<not> in_section q \<Longrightarrow> pc_ok c s q"
  by (cases q) auto

lemma seen_ok_mono: "seen_ok noop s q \<Longrightarrow> set (pv_log s) \<subseteq> set (pv_log s') \<Longrightarrow> seen_ok noop s' q"
  by (auto simp: seen_ok_def split: thread_pc.splits)

lemma inv_outside:
  assumes "provider_inv noop s" and "\<not> in_section (pv_pc s i)" and "\<not> in_section q" and "seen_ok noop s q"
  shows "provider_inv noop (goto_pc i q s)"
proof -
  have "in_section (((pv_pc s)(i := q)) j) \<longleftrightarrow> in_section (pv_pc s j)" for j using assms(2,3) by simp
  moreover have "pc_ok c (goto_pc i q s) r \<longleftrightarrow> pc_ok c s r" for c r by (cases r) (auto split: option.splits)
  moreover have "seen_ok noop (goto_pc i q s) r \<longleftrightarrow> seen_ok noop s r" for r by (simp add: seen_ok_def split: thread_pc.splits)
  ultimately show ?thesis using assms pc_ok_outside [OF assms(3)] by (simp add: provider_inv_def)
qed

lemma inv_inside:
  assumes "provider_inv noop s" and i: "in_section (pv_pc s i)" "in_section q"
    and "pv_pc s' = (pv_pc s)(i := q)" "pv_flag s' = pv_flag s" "set (pv_log s) \<subseteq> set (pv_log s')"
    and "replay noop (pv_log s') = Some (pv_control s')" "pc_ok (pv_control s') s' q"
  shows "provider_inv noop s'"
proof -
  have sec: "in_section (pv_pc s' j) \<longleftrightarrow> j = i" for j
    using outside_section [OF assms(1) i(1), of j] i(2) assms(4) by auto
  have "pv_flag s'" using assms(1,5) i(1) by (auto simp: provider_inv_def)
  moreover have "pc_ok (pv_control s') s' (pv_pc s' j)" for j
    using sec [of j] pc_ok_outside assms(4,8) by (cases "j = i") auto
  moreover have "seen_ok noop s' (pv_pc s' j)" for j
  proof (cases "j = i")
    case True
    then show ?thesis using i(2) assms(4) by (auto simp: seen_ok_def split: thread_pc.splits)
  next
    case False
    then show ?thesis using assms(1,4) seen_ok_mono [OF _ assms(6)] by (auto simp: provider_inv_def)
  qed
  ultimately show ?thesis using sec assms(7) by (auto simp: provider_inv_def)
qed

lemma inv_enter:
  assumes inv: "provider_inv noop s" and free: "\<not> pv_flag s"
  shows "provider_inv noop (goto_pc i (Entered c) (s\<lparr>pv_flag := True\<rparr>))" (is "provider_inv noop ?s")
proof -
  have none: "\<not> in_section (pv_pc s j)" for j using inv free unfolding provider_inv_def by blast
  have sec: "in_section (pv_pc ?s j) \<longleftrightarrow> j = i" for j using none [of j] by simp
  have eq: "pv_object s = pv_control s" using inv free unfolding provider_inv_def by blast
  have ok: "pc_ok (pv_control s) ?s (pv_pc ?s j)" for j
    using pc_ok_outside [OF none, of "pv_control s" ?s j] eq by (cases "j = i") simp_all
  have "seen_ok noop s (pv_pc s j)" for j using inv unfolding provider_inv_def by blast
  then have "seen_ok noop ?s (pv_pc ?s j)" for j
    using seen_ok_mono [of noop s "pv_pc s j" ?s] by (cases "j = i") (simp_all add: seen_ok_def [of _ _ "Entered c"])
  moreover have "replay noop (pv_log ?s) = Some (pv_control ?s)" using inv unfolding provider_inv_def by simp
  ultimately show ?thesis using sec ok unfolding provider_inv_def by simp
qed

lemma inv_leave:
  assumes inv: "provider_inv noop s" and u: "pv_pc s i = Unlocking r"
  shows "provider_inv noop (goto_pc i (case r of None \<Rightarrow> Idle | Some (a, b) \<Rightarrow> Returned a b) (s\<lparr>pv_flag := False\<rparr>))"
    (is "provider_inv noop (goto_pc i ?q ?s)")
proof -
  have "pc_ok (pv_control s) s (pv_pc s i)" using inv unfolding provider_inv_def by blast
  then have ok: "pc_ok (pv_control s) s (Unlocking r)" unfolding u .
  have rep: "replay noop (pv_log s) = Some (pv_control s)" using inv unfolding provider_inv_def by blast
  have i: "in_section (pv_pc s i)" unfolding u by simp
  have none: "\<not> in_section (pv_pc (goto_pc i ?q ?s) j)" for j
    using outside_section [OF inv i, of j] by (cases "j = i") (auto split: option.splits)
  have "seen_ok noop (goto_pc i ?q ?s) ?q"
    using ok replay_value [OF rep] by (cases r) (simp_all add: seen_ok_def split_def)
  moreover have "seen_ok noop s (pv_pc s j)" for j using inv unfolding provider_inv_def by blast
  ultimately have "seen_ok noop (goto_pc i ?q ?s) (pv_pc (goto_pc i ?q ?s) j)" for j
    using seen_ok_mono [of noop s "pv_pc s j" "goto_pc i ?q ?s"] by (cases "j = i") simp_all
  moreover have "pv_object s = pv_control s" using ok by simp
  ultimately show ?thesis using rep none pc_ok_outside [OF none] unfolding provider_inv_def by simp
qed

lemma provider_inv_step: "provider_step s s' \<Longrightarrow> provider_inv noop s \<Longrightarrow> provider_inv noop s'"
proof (induction rule: provider_step.induct)
  case (locking s i c l flag l')
  have "pv_flag s = flag" using lock_next_waits [OF locking(2)] by simp
  then have "s\<lparr>pv_flag := flag\<rparr> = s" by simp
  then show ?case using inv_outside [OF locking(3), of i "Locking c l'"] locking(1) by (simp add: seen_ok_def)
next
  case (locked s i c l flag)
  have "\<not> pv_flag s" "flag" using lock_next_returns [OF locked(2)] by simp_all
  then show ?case using inv_enter [OF locked(3), of i c] by simp
next
  case (set_object s i p)
  show ?case by (rule inv_inside [OF set_object(2), of i]) (use set_object in \<open>auto simp: provider_inv_def\<close>)
next
  case (set_control s i p)
  have "pc_ok (pv_control s) s (Set_half p)" using set_control by (metis provider_inv_def)
  then show ?case
    by (intro inv_inside [OF set_control(2), of i]) (use set_control in \<open>auto simp: provider_inv_def replay_append\<close>)
next
  case (get_object s i)
  have "pc_ok (pv_control s) s (Entered GetTracerProvider)" using get_object by (metis provider_inv_def)
  then show ?case
    by (intro inv_inside [OF get_object(2), of i]) (use get_object in \<open>auto simp: provider_inv_def\<close>)
next
  case (get_control s i a)
  have "pc_ok (pv_control s) s (Get_half a)" using get_control by (metis provider_inv_def)
  then show ?case
    by (intro inv_inside [OF get_control(2), of i]) (use get_control in \<open>auto simp: provider_inv_def replay_append\<close>)
next
  case (unlocking s i r)
  then show ?case using inv_leave [OF unlocking(2,1)] by (simp add: unlock_def)
qed (rule inv_outside; simp add: seen_ok_def)+

lemma provider_reach_inv: "provider_reach noop s \<Longrightarrow> provider_inv noop s"
proof (induction rule: provider_reach.induct)
  case start
  show ?case by (simp add: provider_inv_def provider_start_def seen_ok_def)
qed (rule provider_inv_step)

subsection \<open>Progress\<close>

lemma one_step: "provider_step u v \<Longrightarrow> P v \<Longrightarrow> \<exists>s'. provider_step\<^sup>*\<^sup>* u s' \<and> P s'"
  by blast

text \<open>While the flag is clear a thread that wants the lock has it after at most two accesses of its own.\<close>

lemma free_lock_taken:
  assumes "pv_pc s i = Locking c l" and "\<not> pv_flag s"
  shows "\<exists>s'. provider_step\<^sup>*\<^sup>* s s' \<and> pv_pc s' i = Entered c"
proof -
  have go: "\<exists>s'. provider_step\<^sup>*\<^sup>* u s' \<and> pv_pc s' i = Entered c"
    if "pv_pc u i = Locking c k" "lock_next k (pv_flag u) = (True, None)" for u k
    by (rule one_step [OF provider_step.locked [OF that]]) simp
  have two: "\<exists>s'. provider_step\<^sup>*\<^sup>* s s' \<and> pv_pc s' i = Entered c"
    if k: "lock_next l (pv_flag s) = (False, Some k)" "lock_next k False = (True, None)" for k
  proof -
    let ?u = "goto_pc i (Locking c k) (s\<lparr>pv_flag := False\<rparr>)"
    have "provider_step s ?u" by (rule provider_step.locking [OF assms(1) k(1)])
    moreover obtain s' where "provider_step\<^sup>*\<^sup>* ?u s'" "pv_pc s' i = Entered c" using go [of ?u k] k(2) by auto
    ultimately show ?thesis by (meson converse_rtranclp_into_rtranclp)
  qed
  show ?thesis
  proof (cases l)
    case Try
    then show ?thesis using go [OF assms(1)] assms(2) by simp
  next
    case (Spin_load n)
    then show ?thesis using two [of "Spin_exchange n"] assms(2) by simp
  next
    case (Spin_exchange n)
    then show ?thesis using go [OF assms(1)] assms(2) by simp
  next
    case Yield_load
    then show ?thesis using two [of Yield_exchange] assms(2) by simp
  next
    case Yield_exchange
    then show ?thesis using go [OF assms(1)] assms(2) by simp
  qed
qed

text \<open>The thread inside the section leaves it by steps of its own.\<close>

lemma section_left:
  fixes s :: "'p provider_state"
  assumes "in_section (pv_pc s j)" and "j \<noteq> i"
  shows "\<exists>s'. provider_step\<^sup>*\<^sup>* s s' \<and> \<not> pv_flag s' \<and> pv_pc s' i = pv_pc s i"
proof -
  define freed where "freed = (\<lambda>(u :: 'p provider_state) q. \<exists>s'. provider_step\<^sup>*\<^sup>* u s' \<and> \<not> pv_flag s' \<and> pv_pc s' i = q)"
  have chain: "freed u q" if "provider_step u v" "freed v q" for u v q
    using that unfolding freed_def by (blast intro: converse_rtranclp_into_rtranclp)
  have out: "freed u q" if "pv_pc u j = Unlocking r" "pv_pc u i = q" for u r q
    unfolding freed_def
    by (rule one_step [OF provider_step.unlocking [OF that(1)]]) (use assms(2) that(2) in \<open>simp add: unlock_def\<close>)
  have set_half: "freed u q" if "pv_pc u j = Set_half p" "pv_pc u i = q" for u p q
    by (rule chain [OF provider_step.set_control [OF that(1)]], rule out) (use assms(2) that(2) in simp_all)
  have get_half: "freed u q" if "pv_pc u j = Get_half p" "pv_pc u i = q" for u p q
    by (rule chain [OF provider_step.get_control [OF that(1)]], rule out) (use assms(2) that(2) in simp_all)
  have entered: "freed u q" if "pv_pc u j = Entered c" "pv_pc u i = q" for u c q
  proof (cases c)
    case GetTracerProvider
    show ?thesis
      by (rule chain [OF provider_step.get_object [OF that(1) [unfolded GetTracerProvider]]], rule get_half)
        (use assms(2) that(2) in simp_all)
  next
    case (SetTracerProvider p)
    show ?thesis
      by (rule chain [OF provider_step.set_object [OF that(1) [unfolded SetTracerProvider]]], rule set_half)
        (use assms(2) that(2) in simp_all)
  qed
  have "freed s (pv_pc s i)"
    using assms(1) by (cases "pv_pc s j") (auto intro: entered set_half get_half out)
  then show ?thesis by (simp add: freed_def)
qed

subsection \<open>Properties\<close>

text \<open>C30: The global provider behaves like a variable that is read and written at once. Under every interleaving at most one thread
  is between \<open>lock\<close> and \<open>unlock\<close>; the completed calls, in the order in which they completed, are those of an atomic
  variable that starts with the no-operation provider; and \<open>GetTracerProvider\<close> never returns halves of two providers: what it
  returns is the initial provider or one that was set, so never a null pointer unless a null pointer was set.\<close>

theorem provider_is_atomic:
  assumes "provider_reach noop s"
  shows "(in_section (pv_pc s i) \<and> in_section (pv_pc s j) \<longrightarrow> i = j) \<and>
    replay noop (pv_log s) = Some (pv_control s) \<and>
    (pv_pc s i = Returned a b \<longrightarrow> a = b \<and> (a = noop \<or> SetTracerProvider a \<in> fst ` set (pv_log s)))"
proof -
  have inv: "provider_inv noop s" by (rule provider_reach_inv [OF assms])
  then have "seen_ok noop s (pv_pc s i)" unfolding provider_inv_def by blast
  then have "pv_pc s i = Returned a b \<longrightarrow> a = b \<and> (a = noop \<or> SetTracerProvider a \<in> fst ` set (pv_log s))"
    by (auto simp: seen_ok_def)
  then show ?thesis using inv unfolding provider_inv_def by blast
qed

theorem provider_is_atomic_witness:
  "\<exists>s. provider_reach (0 :: nat) s \<and> pv_pc s 0 = Entered (SetTracerProvider 5) \<and> replay 0 (pv_log s) = Some (pv_control s)"
proof -
  let ?s = "goto_pc 0 (Locking (SetTracerProvider 5) Try) (provider_start (0 :: nat))"
  have "provider_reach 0 ?s" by (rule provider_reach.step [OF provider_reach.start provider_step.call_idle]) (simp add: provider_start_def)
  moreover have "provider_step ?s (goto_pc 0 (Entered (SetTracerProvider 5)) (?s\<lparr>pv_flag := True\<rparr>))"
    by (rule provider_step.locked) (auto simp: provider_start_def)
  ultimately have r: "provider_reach 0 (goto_pc 0 (Entered (SetTracerProvider 5)) (?s\<lparr>pv_flag := True\<rparr>))"
    by (rule provider_reach.step)
  show ?thesis using r provider_is_atomic [OF r] by auto
qed

text \<open>C31: The lock does not deadlock. From every reachable state in which a thread is waiting in \<open>lock\<close>, wherever it
  stands in the spinning and whoever holds the lock, there is a continuation in which it enters the section.\<close>

theorem spin_lock_progress:
  assumes "provider_reach noop s" and "pv_pc s i = Locking c l"
  shows "\<exists>s'. provider_step\<^sup>*\<^sup>* s s' \<and> pv_pc s' i = Entered c"
proof (cases "pv_flag s")
  case True
  then obtain j where j: "in_section (pv_pc s j)" using provider_reach_inv [OF assms(1)] by (auto simp: provider_inv_def)
  with assms(2) have "j \<noteq> i" by auto
  then obtain u where "provider_step\<^sup>*\<^sup>* s u" "\<not> pv_flag u" "pv_pc u i = Locking c l"
    using section_left [OF j, of i] assms(2) by auto
  then show ?thesis using free_lock_taken [of u i c l] by (meson rtranclp_trans)
qed (rule free_lock_taken [OF assms(2)])

theorem spin_lock_progress_witness:
  "\<exists>s s'. provider_reach (0 :: nat) s \<and> pv_pc s 3 = Locking GetTracerProvider Try \<and> provider_step\<^sup>*\<^sup>* s s' \<and>
     pv_pc s' 3 = Entered GetTracerProvider"
proof -
  let ?s = "goto_pc 3 (Locking GetTracerProvider Try) (provider_start (0 :: nat))"
  have r: "provider_reach 0 ?s" by (rule provider_reach.step [OF provider_reach.start provider_step.call_idle]) (simp add: provider_start_def)
  then show ?thesis using spin_lock_progress [OF r, of 3 GetTracerProvider Try] by auto
qed

end
