(* ===== verification/Url_Parser.thy ===== *)
theory Url_Parser
  imports Cpp_Prelude
begin

text \<open>
  \<open>opentelemetry/ext/http/common/url_parser.h\<close>: splitting an endpoint URL into scheme, host, port, path and query, and decoding
  percent-encoded text. The port is \<^term>\<open>None\<close> while the code has not initialised it. The positions of the code are kept.
\<close>

subsection \<open>UrlParser\<close>

record url_parser =
  url_host :: string
  url_scheme :: string
  url_path :: string
  url_port :: "16 word option"
  url_query :: string
  url_success :: bool

fun find_port_loop :: "nat \<Rightarrow> nat \<Rightarrow> string \<Rightarrow> nat option" where
  "find_port_loop i sub_expression_counter [] = None"
| "find_port_loop i sub_expression_counter (c # cs) =
     (if sub_expression_counter = 0 \<and> c = CHR '':'' then Some i
      else if c = CHR ''['' then find_port_loop (i + 1) (sub_expression_counter + 1) cs
      else if c = CHR '']'' then
        find_port_loop (i + 1) (if sub_expression_counter > 0 then sub_expression_counter - 1 else sub_expression_counter) cs
      else if sub_expression_counter = 0 \<and> c = CHR ''/'' then None
      else find_port_loop (i + 1) sub_expression_counter cs)"

definition FindPortPosition :: "string \<Rightarrow> nat \<Rightarrow> nat option" where
  "FindPortPosition url offset = find_port_loop offset 0 (drop offset url)"

text \<open>The port and whether the number was accepted.\<close>

definition GetPort :: "string \<Rightarrow> 16 word \<times> bool" where
  "GetPort s =
     (let r = strtol10 (c_str s); port = st_num r
      in if st_used r = 0 \<or> st_used r \<noteq> length s \<or> st_erange r \<or> port < 0 \<or> port > 65535 then (0, False)
         else (word_of_int port, True))"

definition find_first_of :: "string \<Rightarrow> string \<Rightarrow> nat \<Rightarrow> nat option" where
  "find_first_of s chars pos = map_option ((+) pos) (index_of (\<lambda>c. c \<in> set chars) (drop pos s))"

definition with_port :: "string \<Rightarrow> url_parser \<Rightarrow> url_parser" where
  "with_port port_str u =
     (case GetPort port_str of (port, ok) \<Rightarrow>
        u\<lparr>url_port := Some port, url_success := (if ok then url_success u else False)\<rparr>)"

text \<open>The scheme with the position behind it, and the position behind the credentials.\<close>

definition url_scheme_part :: "string \<Rightarrow> string \<times> nat" where
  "url_scheme_part url =
     (case find_str ''://'' url 0 of
        None \<Rightarrow> (''http'', 0)
      | Some pos \<Rightarrow> (sub_at url 0 pos, pos + 3))"

definition skip_credentials :: "string \<Rightarrow> nat \<Rightarrow> nat" where
  "skip_credentials url cpos =
     (case find_char CHR ''@'' url cpos of
        None \<Rightarrow> cpos
      | Some pos1 \<Rightarrow> (case find_char CHR ''/'' url cpos of
                        None \<Rightarrow> pos1 + 1
                      | Some pos2 \<Rightarrow> if pos1 < pos2 then pos1 + 1 else cpos))"

definition default_port :: "string \<Rightarrow> 16 word option" where
  "default_port scheme = (if scheme = ''http'' then Some 80 else if scheme = ''https'' then Some 443 else None)"

text \<open>Path and query, from the position of the first \<open>/\<close> or \<open>?\<close>.\<close>

definition path_and_query :: "string \<Rightarrow> nat \<Rightarrow> url_parser \<Rightarrow> url_parser" where
  "path_and_query url cpos u =
     (if url ! cpos = CHR ''/''
      then case find_char CHR ''?'' url cpos of
             None \<Rightarrow> u\<lparr>url_path := drop cpos url\<rparr>
           | Some pos \<Rightarrow> u\<lparr>url_path := sub_at url cpos (pos - cpos), url_query := drop (pos + 1) url\<rparr>
      else let u1 = u\<lparr>url_path := ''/''\<rparr>
           in if url ! cpos = CHR ''?'' then u1\<lparr>url_query := drop cpos url\<rparr> else u1)"

definition UrlParser :: "string \<Rightarrow> url_parser" where
  "UrlParser url =
     (let u0 = \<lparr>url_host = [], url_scheme = [], url_path = [], url_port = None, url_query = [], url_success = True\<rparr>
      in if length url = 0 then u0
         else let (scheme, cpos0) = url_scheme_part url;
                  u1 = u0\<lparr>url_scheme := scheme\<rparr>;
                  cpos1 = skip_credentials url cpos0;
                  (is_port, u2, cpos) =
                    (case FindPortPosition url cpos1 of
                       None \<Rightarrow> (False, u1\<lparr>url_port := default_port scheme\<rparr>, cpos1)
                     | Some pos \<Rightarrow> (True, u1\<lparr>url_host := sub_at url cpos1 (pos - cpos1)\<rparr>, pos + 1))
              in case find_first_of url ''/?'' cpos of
                   None \<Rightarrow>
                     (let u3 = u2\<lparr>url_path := ''/''\<rparr>
                      in if is_port then with_port (drop cpos url) u3 else u3\<lparr>url_host := drop cpos url\<rparr>)
                 | Some pos \<Rightarrow>
                     (let part = sub_at url cpos (pos - cpos)
                      in path_and_query url pos (if is_port then with_port part u2 else u2\<lparr>url_host := part\<rparr>)))"

subsection \<open>UrlDecoder\<close>

definition hex_to_int :: "char \<Rightarrow> int" where
  "hex_to_int ch =
     (let v = schar_val ch
      in if 48 \<le> v \<and> v \<le> 57 then v - 48
         else if 97 \<le> v \<and> v \<le> 102 then v - 97 + 10
         else if 65 \<le> v \<and> v \<le> 70 then v - 65 + 10 else - 1)"

text \<open>The loop; \<^term>\<open>None\<close> when the code gives up and returns its argument.\<close>

fun decode_loop :: "string \<Rightarrow> string \<Rightarrow> string option" where
  "decode_loop [] result = Some result"
| "decode_loop (c # rest) result =
     (if c = CHR ''%''
      then (case rest of
              h # l # rest' \<Rightarrow>
                if hex_to_int h = - 1 \<or> hex_to_int l = - 1 then None
                else decode_loop rest' (result @ [char_of (nat (hex_to_int h * 16 + hex_to_int l))])
            | _ \<Rightarrow> None)
      else decode_loop rest (result @ [c]))"

definition Decode :: "string \<Rightarrow> string" where
  "Decode encoded = (case decode_loop encoded [] of None \<Rightarrow> encoded | Some result \<Rightarrow> result)"

subsection \<open>Reference definitions\<close>

text \<open>Printed URLs: a host is a name without delimiters or an address in brackets.\<close>

definition plain_host :: "string \<Rightarrow> bool" where
  "plain_host h \<longleftrightarrow> set h \<inter> set '':/?@[]'' = {}"

definition bracket_host :: "string \<Rightarrow> bool" where
  "bracket_host h \<longleftrightarrow> (\<exists>a. h = CHR ''['' # a @ '']'' \<and> set a \<inter> set ''/?@[]'' = {})"

definition print_port :: "nat option \<Rightarrow> string" where
  "print_port port = (case port of None \<Rightarrow> [] | Some p \<Rightarrow> CHR '':'' # nat_digits p)"

definition print_query :: "string option \<Rightarrow> string" where
  "print_query q = (case q of None \<Rightarrow> [] | Some s \<Rightarrow> CHR ''?'' # s)"

definition print_url :: "string \<Rightarrow> string \<Rightarrow> nat option \<Rightarrow> string \<Rightarrow> string option \<Rightarrow> string" where
  "print_url scheme host port path query =
     scheme @ ''://'' @ host @ print_port port @ CHR ''/'' # path @ print_query query"

text \<open>Percent-encoding, leaving the characters that satisfy \<open>keep\<close>.\<close>

definition pct_encode :: "(char \<Rightarrow> bool) \<Rightarrow> string \<Rightarrow> string" where
  "pct_encode keep s =
     concat (map (\<lambda>c. if keep c then [c]
       else [CHR ''%'', ''0123456789ABCDEF'' ! (char_val c div 16), ''0123456789ABCDEF'' ! (char_val c mod 16)]) s)"

subsection \<open>Lemmas\<close>

lemma find_sub_first: "p \<notin> set xs \<Longrightarrow> find_sub (p # ps) (xs @ (p # ps) @ ys) = Some (length xs)"
  by (induction xs) (auto simp: is_prefix_iff)

lemma scheme_part: "CHR '':'' \<notin> set scheme \<Longrightarrow> url_scheme_part (scheme @ ''://'' @ r) = (scheme, length scheme + 3)"
  using find_sub_first [of "CHR '':''" scheme "''//''" r] by (simp add: url_scheme_part_def find_str_def sub_at_def)

lemma index_of_append_None:
  "\<forall>x \<in> set xs. \<not> P x \<Longrightarrow> index_of P (xs @ ys) = map_option ((+) (length xs)) (index_of P ys)"
proof (induction xs)
  case Nil
  show ?case by (cases "index_of P ys") (auto simp: option.map_ident)
next
  case (Cons x xs)
  then show ?case by (cases "index_of P ys") (simp_all del: index_of_None)
qed

lemma find_char_at: "c \<notin> set a \<Longrightarrow> find_char c (pre @ a @ c # b) (length pre) = Some (length pre + length a)"
  using index_of_append [of a "\<lambda>x. x = c" c b] by (auto simp: find_char_def)

lemma find_char_none: "c \<notin> set a \<Longrightarrow> find_char c (pre @ a) (length pre) = None"
  by (auto simp: find_char_def)

lemma no_credentials:
  assumes "CHR ''@'' \<notin> set a" and "CHR ''/'' \<notin> set a"
  shows "skip_credentials (pre @ a @ CHR ''/'' # b) (length pre) = length pre"
proof -
  have at: "index_of (\<lambda>x. x = CHR ''@'') (a @ CHR ''/'' # b) =
      map_option (\<lambda>k. length a + Suc k) (index_of (\<lambda>x. x = CHR ''@'') b)"
    using assms(1) by (subst index_of_append_None) (auto simp: option.map_comp comp_def)
  show ?thesis using find_char_at [OF assms(2), of pre b]
    by (auto simp: skip_credentials_def find_char_def [of "CHR ''@''"] at option.map_comp comp_def split: option.splits)
qed

lemma port_loop_plain: "set h \<inter> set '':/[]'' = {} \<Longrightarrow> find_port_loop i 0 (h @ r) = find_port_loop (i + length h) 0 r"
  by (induction h arbitrary: i) auto

lemma port_loop_inner:
  "set a \<inter> set ''[]'' = {} \<Longrightarrow> find_port_loop i (Suc n) (a @ CHR '']'' # r) = find_port_loop (i + length a + 1) n r"
  by (induction a arbitrary: i) auto

lemma port_loop_host:
  assumes "plain_host h \<or> bracket_host h"
  shows "find_port_loop i 0 (h @ r) = find_port_loop (i + length h) 0 r"
proof -
  have "find_port_loop i 0 (h @ r) = find_port_loop (i + length h) 0 r" if b: "bracket_host h"
  proof -
    obtain a where a: "h = CHR ''['' # a @ '']''" "set a \<inter> set ''[]'' = {}" using b by (auto simp: bracket_host_def)
    show ?thesis using port_loop_inner [OF a(2), of "Suc i" 0 r] by (simp add: a(1))
  qed
  then show ?thesis using assms port_loop_plain [of h i r] by (auto simp: plain_host_def)
qed

lemma FindPort_host:
  "plain_host h \<or> bracket_host h \<Longrightarrow> FindPortPosition (pre @ h @ r) (length pre) = find_port_loop (length pre + length h) 0 r"
  by (simp add: FindPortPosition_def port_loop_host)

lemma host_chars:
  assumes "plain_host h \<or> bracket_host h"
  shows "CHR ''@'' \<notin> set h" "CHR ''/'' \<notin> set h" "CHR ''?'' \<notin> set h"
  using assms by (auto simp: plain_host_def bracket_host_def)

lemma digits_chars: "c \<in> set (nat_digits p) \<Longrightarrow> c \<notin> set ''/?@''"
  using nat_digits_isdigit [of c p] by (auto simp: char_class char_val_def)

lemma GetPort_nat_digits:
  assumes "p \<le> 65535"
  shows "GetPort (nat_digits p) = (of_nat p, True)"
proof -
  have "NUL \<notin> set (nat_digits p)" using nat_digits_isdigit [of NUL p] by (auto simp: char_class)
  then have "c_str (nat_digits p) = nat_digits p" by (rule c_str_no_nul)
  moreover have "int p \<le> LONG_MAX" using assms by (simp add: LONG_MAX_def)
  then have "strtol10 (nat_digits p) = \<lparr>st_num = int p, st_used = length (nat_digits p), st_erange = False\<rparr>"
    using strtol10_nat_digits [of "[]" p] by simp
  ultimately show ?thesis using assms by (simp add: GetPort_def Let_def)
qed

lemma find_slash: "set a \<inter> set ''/?'' = {} \<Longrightarrow>
  find_first_of (pre @ a @ CHR ''/'' # b) ''/?'' (length pre) = Some (length pre + length a)"
  using index_of_append [of a "\<lambda>c. c \<in> set ''/?''" "CHR ''/''" b] by (auto simp: find_first_of_def)

lemma path_and_query_printed:
  assumes "CHR ''?'' \<notin> set path" and "url_query u = []"
  shows "path_and_query (pre @ CHR ''/'' # path @ print_query q) (length pre) u =
    u\<lparr>url_path := CHR ''/'' # path, url_query := (case q of None \<Rightarrow> [] | Some s \<Rightarrow> s)\<rparr>"
proof (cases q)
  case None
  then show ?thesis using assms find_char_none [of "CHR ''?''" "CHR ''/'' # path" pre]
    by (simp add: path_and_query_def print_query_def)
next
  case (Some s)
  then show ?thesis using assms find_char_at [of "CHR ''?''" "CHR ''/'' # path" pre s]
    by (simp add: path_and_query_def print_query_def sub_at_def)
qed

text \<open>The front of a printed URL: the scheme, no credentials, and the position of the port if there is one.\<close>

lemma printed_front:
  assumes "CHR '':'' \<notin> set scheme" and "plain_host host \<or> bracket_host host"
  defines "pre \<equiv> scheme @ ''://''"
  shows "url_scheme_part (pre @ host @ print_port port @ CHR ''/'' # r) = (scheme, length pre)"
    and "skip_credentials (pre @ host @ print_port port @ CHR ''/'' # r) (length pre) = length pre"
    and "FindPortPosition (pre @ host @ print_port port @ CHR ''/'' # r) (length pre) =
      (case port of None \<Rightarrow> None | Some p \<Rightarrow> Some (length pre + length host))"
proof -
  show "url_scheme_part (pre @ host @ print_port port @ CHR ''/'' # r) = (scheme, length pre)"
    using scheme_part [OF assms(1)] by (simp add: pre_def)
  have "skip_credentials (pre @ (host @ print_port port) @ CHR ''/'' # r) (length pre) = length pre"
    using host_chars [OF assms(2)] digits_chars by (intro no_credentials) (auto simp: print_port_def split: option.splits)
  then show "skip_credentials (pre @ host @ print_port port @ CHR ''/'' # r) (length pre) = length pre" by simp
  show "FindPortPosition (pre @ host @ print_port port @ CHR ''/'' # r) (length pre) =
      (case port of None \<Rightarrow> None | Some p \<Rightarrow> Some (length pre + length host))"
    unfolding FindPort_host [OF assms(2)] by (simp add: print_port_def split: option.split)
qed

lemma hex_digit: "k < 16 \<Longrightarrow> hex_to_int (''0123456789ABCDEF'' ! k) = int k"
  by (simp add: numeral_eq_Suc less_Suc_eq) (elim disjE; simp add: hex_to_int_def schar_val_def char_val_def)

lemma decode_loop_pct:
  assumes "\<not> keep (CHR ''%'')"
  shows "decode_loop (pct_encode keep s) result = Some (result @ s)"
proof (induction s arbitrary: result)
  case (Cons c s)
  have "nat (int a * 16 + int b) = a * 16 + b" for a b :: nat by (simp add: nat_add_distrib nat_mult_distrib)
  then have "nat (int (char_val c div 16) * 16 + int (char_val c mod 16)) = char_val c" by simp
  then show ?case
    using Cons.IH assms hex_digit [of "char_val c div 16"] hex_digit [of "char_val c mod 16"] char_val_less [of c]
    by (auto simp: pct_encode_def less_mult_imp_div_less)
qed (simp add: pct_encode_def)

subsection \<open>Properties\<close>

text \<open>C35: Parsing a printed URL gives back its parts, with the default port of the scheme when none is printed; brackets protect the
  colons of an address, and an at sign in the path or the query is no credential.\<close>

theorem url_parts_round_trip:
  assumes "CHR '':'' \<notin> set scheme" and "plain_host host \<or> bracket_host host" and "CHR ''?'' \<notin> set path"
    and "case port of None \<Rightarrow> True | Some p \<Rightarrow> p \<le> 65535"
  shows "UrlParser (print_url scheme host port path query) =
    \<lparr>url_host = host, url_scheme = scheme, url_path = CHR ''/'' # path,
     url_port = (case port of None \<Rightarrow> default_port scheme | Some p \<Rightarrow> Some (of_nat p)),
     url_query = (case query of None \<Rightarrow> [] | Some s \<Rightarrow> s), url_success = True\<rparr>"
proof -
  define pre where "pre = scheme @ ''://''"
  define e where "e = CHR ''/'' # path @ print_query query"
  let ?url = "pre @ host @ print_port port @ e"
  let ?u = "\<lparr>url_host = [], url_scheme = scheme, url_path = [], url_port = None, url_query = [], url_success = True\<rparr>"
  have front: "url_scheme_part ?url = (scheme, length pre)" "skip_credentials ?url (length pre) = length pre"
    "FindPortPosition ?url (length pre) = (case port of None \<Rightarrow> None | Some p \<Rightarrow> Some (length pre + length host))"
    using printed_front [OF assms(1,2), of port "path @ print_query query"] unfolding pre_def e_def .
  have pq: "path_and_query (x @ e) (length x) u =
      u\<lparr>url_path := CHR ''/'' # path, url_query := (case query of None \<Rightarrow> [] | Some s \<Rightarrow> s)\<rparr>" if "url_query u = []" for x u
    unfolding e_def by (rule path_and_query_printed [OF assms(3) that])
  have f: "find_first_of (x @ y @ e) ''/?'' (length x) = Some (length x + length y)" if "set y \<inter> set ''/?'' = {}" for x y
    unfolding e_def by (rule find_slash [OF that])
  have "UrlParser ?url = \<lparr>url_host = host, url_scheme = scheme, url_path = CHR ''/'' # path,
     url_port = (case port of None \<Rightarrow> default_port scheme | Some p \<Rightarrow> Some (of_nat p)),
     url_query = (case query of None \<Rightarrow> [] | Some s \<Rightarrow> s), url_success = True\<rparr>"
  proof (cases port)
    case None
    have "find_first_of (pre @ host @ e) ''/?'' (length pre) = Some (length pre + length host)"
      using host_chars [OF assms(2)] by (intro f) auto
    moreover have url: "?url = pre @ host @ e" by (simp add: None print_port_def)
    moreover have "pre @ host @ e \<noteq> []" by (simp add: e_def)
    ultimately show ?thesis
      using pq [of "?u\<lparr>url_port := default_port scheme, url_host := host\<rparr>" "pre @ host"]
        front [unfolded url]
      unfolding url UrlParser_def Let_def by (simp add: None sub_at_def)
  next
    case (Some p)
    let ?x = "pre @ host @ '':''"
    have "find_first_of (?x @ nat_digits p @ e) ''/?'' (length ?x) = Some (length ?x + length (nat_digits p))"
      using digits_chars [of _ p] by (intro f) fastforce
    moreover have "sub_at (?x @ nat_digits p @ e) (length ?x) (length (nat_digits p)) = nat_digits p"
      by (simp only: sub_at_def append_eq_conv_conj [THEN iffD1, OF refl] take_append) simp
    moreover have "GetPort (nat_digits p) = (of_nat p, True)" using assms(4) Some by (simp add: GetPort_nat_digits)
    moreover have "sub_at (pre @ host @ r) (length pre) (length host) = host" for r by (simp add: sub_at_def)
    moreover have url: "?url = pre @ host @ CHR '':'' # nat_digits p @ e" by (simp add: Some print_port_def)
    ultimately show ?thesis
      using pq [of "?u\<lparr>url_host := host, url_port := Some (of_nat p)\<rparr>" "?x @ nat_digits p"]
        front [unfolded url]
      unfolding url UrlParser_def Let_def by (simp add: Some with_port_def add.assoc)
  qed
  then show ?thesis by (simp add: print_url_def pre_def e_def)
qed

theorem url_parts_round_trip_witness:
  "UrlParser ''https://[::1]:4318/v1/traces?u=a@b'' =
    \<lparr>url_host = ''[::1]'', url_scheme = ''https'', url_path = ''/v1/traces'', url_port = Some 4318, url_query = ''u=a@b'', url_success = True\<rparr>"
proof -
  have "bracket_host ''[::1]''" unfolding bracket_host_def by (rule exI [of _ "''::1''"]) simp
  moreover have "nat_digits 4318 = ''4318''" by (simp add: nat_digits.simps char_of_eq_iff)
  then have "print_url ''https'' ''[::1]'' (Some 4318) ''v1/traces'' (Some ''u=a@b'') = ''https://[::1]:4318/v1/traces?u=a@b''"
    by (simp add: print_url_def print_port_def print_query_def)
  ultimately show ?thesis
    using url_parts_round_trip [of "''https''" "''[::1]''" "''v1/traces''" "Some 4318" "Some ''u=a@b''"] by simp
qed

text \<open>What the parser does beyond that: a query directly after the host keeps its question mark, while one after a path does not;
  a colon in such a query is taken for the port's, so the parse fails; for a scheme other than \<open>http\<close> and \<open>https\<close> without a
  port the port stays uninitialised although the parse counts as successful, as it does for the empty string.\<close>

theorem url_parser_corner_cases:
  "url_query (UrlParser ''http://h?a=b'') = ''?a=b'' \<and> url_query (UrlParser ''http://h/?a=b'') = ''a=b'' \<and>
   \<not> url_success (UrlParser ''http://h?a=b:c'') \<and> url_host (UrlParser ''http://h?a=b:c'') = ''h?a=b'' \<and>
   url_success (UrlParser ''ftp://h/'') \<and> url_port (UrlParser ''ftp://h/'') = None \<and>
   url_success (UrlParser []) \<and> url_port (UrlParser []) = None"
  by code_simp

text \<open>Decoding inverts percent-encoding, whatever characters the encoder leaves as they are, the percent sign apart; a text with a
  broken escape is returned unchanged as a whole, the valid escapes in it too.\<close>

theorem url_decode_inverts:
  assumes "\<not> keep (CHR ''%'')"
  shows "Decode (pct_encode keep s) = s \<and> Decode ''%41%4'' = ''%41%4''"
proof -
  have "Decode ''%41%4'' = ''%41%4''" by code_simp
  then show ?thesis using decode_loop_pct [of keep, OF assms, of s "[]"] by (simp add: Decode_def)
qed

theorem url_decode_inverts_witness: "Decode (pct_encode (\<lambda>c. c = CHR ''a'') ''a b%'') = ''a b%''"
  using url_decode_inverts [of "\<lambda>c. c = CHR ''a''"] by simp

end
