(* ===== verification/Socket_Tools.thy ===== *)
theory Socket_Tools
  imports Cpp_Prelude
begin

text \<open>
  \<open>api/ext/http/server/socket_tools.h\<close> as it compiles on Linux: socket addresses, the thread flag and the reactor over
  \<open>epoll\<close>. The set of descriptors that the kernel watches is the map \<open>rx_epoll\<close>, changed by \<open>epoll_ctl\<close>; what
  \<open>epoll_wait\<close> returns is an argument. The callbacks are a record of functions on the state of the client. A failed
  \<open>assert\<close>, a use of a destroyed object and a call through a null pointer are errors.
\<close>

unbundle bit_operations_syntax

type_synonym u32 = "32 word"

datatype srv_error = AssertFailed | UseAfterFree | NullCallback

subsection \<open>Socket addresses\<close>

text \<open>Byte order on a little-endian machine.\<close>

definition htons :: "u16 \<Rightarrow> u16" where
  "htons x = push_bit 8 x OR drop_bit 8 x"

definition htonl :: "u32 \<Rightarrow> u32" where
  "htonl x = push_bit 24 (take_bit 8 x) OR push_bit 16 (take_bit 8 (drop_bit 8 x))
     OR push_bit 8 (take_bit 8 (drop_bit 16 x)) OR take_bit 8 (drop_bit 24 x)"

record SocketAddr =
  sa_family :: u16
  sin_port :: u16
  sin_addr :: u32

definition AF_INET :: u16 where "AF_INET = 2"

definition SocketAddr_default :: SocketAddr where
  "SocketAddr_default = \<lparr>sa_family = 0, sin_port = 0, sin_addr = 0\<rparr>"

definition SocketAddr_inet :: "u64 \<Rightarrow> int \<Rightarrow> SocketAddr" where
  "SocketAddr_inet addr port = \<lparr>sa_family = AF_INET, sin_port = htons (word_of_int port), sin_addr = htonl (ucast addr)\<rparr>"

text \<open>\<open>inet_pton(AF_INET, \<dots>)\<close> of the C library: four decimal numbers below 256, without leading zeros, separated by
  single dots.\<close>

fun inet_pton4 :: "string \<Rightarrow> nat list \<Rightarrow> nat \<Rightarrow> bool \<Rightarrow> nat list option" where
  "inet_pton4 [] parts cur saw_digit = (if saw_digit \<and> length parts = 3 then Some (parts @ [cur]) else None)"
| "inet_pton4 (c # cs) parts cur saw_digit =
     (if isdigit c
      then let new = cur * 10 + nat (digit_val c)
           in if saw_digit \<and> cur = 0 \<or> new > 255 \<or> \<not> saw_digit \<and> length parts \<ge> 4 then None
              else inet_pton4 cs parts new True
      else if c = CHR ''.'' \<and> saw_digit
      then if length parts \<ge> 3 then None else inet_pton4 cs (parts @ [cur]) 0 False
      else None)"

definition inet_pton :: "string \<Rightarrow> u32 option" where
  "inet_pton s =
     map_option (\<lambda>ps. htonl (of_nat (foldl (\<lambda>a b. a * 256 + b) 0 ps))) (inet_pton4 (c_str s) [] 0 False)"

text \<open>The constructor from text. \<open>stack\<close> is what the 16 bytes of the local buffer hold on entry, and
  \<open>old\<close> what the address field holds: \<open>inet_pton\<close> leaves it alone when it fails.\<close>

definition SocketAddr_parse :: "string \<Rightarrow> u32 \<Rightarrow> string \<Rightarrow> SocketAddr" where
  "SocketAddr_parse stack old addr =
     (let store = (\<lambda>buf. case inet_pton buf of Some a \<Rightarrow> a | None \<Rightarrow> old)
      in case find_char CHR '':'' addr 0 of
           Some colon \<Rightarrow>
             let n = min 15 colon;
                 buf = take 15 (take n addr @ drop n stack) @ [NUL]
             in \<lparr>sa_family = AF_INET, sin_port = htons (word_of_int (atoi (drop (colon + 1) addr))), sin_addr = store buf\<rparr>
         | None \<Rightarrow> \<lparr>sa_family = AF_INET, sin_port = 0, sin_addr = store addr\<rparr>)"

definition sa_port :: "SocketAddr \<Rightarrow> int" where
  "sa_port a = (if sa_family a = AF_INET then uint (htons (sin_port a)) else - 1)"

definition octet :: "u32 \<Rightarrow> nat \<Rightarrow> string" where
  "octet addr k = nat_digits (unat (drop_bit k addr AND 255))"

definition sa_toString :: "SocketAddr \<Rightarrow> string" where
  "sa_toString a =
     (if sa_family a = AF_INET
      then let addr = htonl (sin_addr a)
           in nat_digits (unat (drop_bit 24 addr)) @ ''.'' @ octet addr 16 @ ''.'' @ octet addr 8 @ ''.'' @ octet addr 0
              @ '':'' @ nat_digits (unat (htons (sin_port a)))
      else ''[?AF?'' @ nat_digits (unat (sa_family a)) @ '']'')"

subsection \<open>The reactor\<close>

text \<open>\<open>enum State\<close> and the event bits of \<open>epoll\<close>.\<close>

definition Readable :: int where "Readable = 1"
definition Writable :: int where "Writable = 2"
definition Acceptable :: int where "Acceptable = 4"
definition Closed :: int where "Closed = 8"

definition EPOLLIN :: int where "EPOLLIN = 1"
definition EPOLLOUT :: int where "EPOLLOUT = 4"
definition EPOLLERR :: int where "EPOLLERR = 8"
definition EPOLLHUP :: int where "EPOLLHUP = 16"

lemmas reactor_bits = Readable_def Writable_def Acceptable_def Closed_def EPOLLIN_def EPOLLOUT_def EPOLLERR_def EPOLLHUP_def

definition has :: "int \<Rightarrow> int \<Rightarrow> bool" where
  "has flags state \<longleftrightarrow> flags AND state \<noteq> 0"

record SocketData =
  sd_socket :: fd
  sd_flags :: int

record reactor =
  rx_sockets :: "SocketData list"
  rx_epoll :: "fd \<rightharpoonup> int"
  rx_terminate :: bool

definition Reactor :: reactor where
  "Reactor = \<lparr>rx_sockets = [], rx_epoll = Map.empty, rx_terminate = False\<rparr>"

text \<open>\<open>epoll_ctl\<close>: adding fails for a descriptor that is watched, changing and deleting for one that is not.\<close>

definition epoll_add :: "fd \<Rightarrow> int \<Rightarrow> (fd \<rightharpoonup> int) \<Rightarrow> (fd \<rightharpoonup> int)" where
  "epoll_add s ev m = (if m s = None then m(s \<mapsto> ev) else m)"

definition epoll_mod :: "fd \<Rightarrow> int \<Rightarrow> (fd \<rightharpoonup> int) \<Rightarrow> (fd \<rightharpoonup> int)" where
  "epoll_mod s ev m = (if m s = None then m else m(s \<mapsto> ev))"

definition epoll_del :: "fd \<Rightarrow> (fd \<rightharpoonup> int) \<Rightarrow> (fd \<rightharpoonup> int)" where
  "epoll_del s m = m(s := None)"

definition epoll_events :: "int \<Rightarrow> int" where
  "epoll_events flags =
     (let e1 = (if has flags Readable then EPOLLIN else 0);
          e2 = (if has flags Writable then e1 OR EPOLLOUT else e1)
      in if has flags Acceptable then e2 OR EPOLLIN else e2)"

definition find_socket :: "fd \<Rightarrow> SocketData list \<Rightarrow> nat option" where
  "find_socket s = index_of (\<lambda>d. sd_socket d = s)"

definition removeSocket :: "fd \<Rightarrow> reactor \<Rightarrow> reactor" where
  "removeSocket s r =
     (case find_socket s (rx_sockets r) of
        None \<Rightarrow> r
      | Some i \<Rightarrow> r\<lparr>rx_epoll := epoll_del s (rx_epoll r),
                    rx_sockets := take i (rx_sockets r) @ drop (i + 1) (rx_sockets r)\<rparr>)"

text \<open>The part of \<open>addSocket\<close> after the element was found or appended, at place \<open>i\<close>.\<close>

definition update_flags :: "fd \<Rightarrow> int \<Rightarrow> nat \<Rightarrow> reactor \<Rightarrow> reactor" where
  "update_flags s flags i r =
     (if sd_flags (rx_sockets r ! i) \<noteq> flags
      then r\<lparr>rx_sockets := (rx_sockets r)[i := (rx_sockets r ! i)\<lparr>sd_flags := flags\<rparr>],
             rx_epoll := epoll_mod s (epoll_events flags) (rx_epoll r)\<rparr>
      else r)"

definition addSocket :: "fd \<Rightarrow> int \<Rightarrow> reactor \<Rightarrow> reactor" where
  "addSocket s flags r =
     (if flags = 0 then removeSocket s r
      else case find_socket s (rx_sockets r) of
             None \<Rightarrow>
               update_flags s flags (length (rx_sockets r))
                 (r\<lparr>rx_epoll := epoll_add s 0 (rx_epoll r),
                    rx_sockets := rx_sockets r @ [\<lparr>sd_socket = s, sd_flags = 0\<rparr>]\<rparr>)
           | Some i \<Rightarrow> update_flags s flags i r)"

definition reactor_start :: "reactor \<Rightarrow> reactor" where
  "reactor_start r = r\<lparr>rx_terminate := False\<rparr>"

definition reactor_stop :: "reactor \<Rightarrow> reactor" where
  "reactor_stop r =
     r\<lparr>rx_terminate := True, rx_epoll := fold (\<lambda>d. epoll_del (sd_socket d)) (rx_sockets r) (rx_epoll r), rx_sockets := []\<rparr>"

text \<open>The callbacks, on a client state \<open>'s\<close>, and one round of the loop in \<open>onThread\<close>: \<open>events\<close> is what
  \<open>epoll_wait\<close> returned. The flags of a socket are read once, before its callbacks.\<close>

record 's SocketCallback =
  onSocketReadable :: "fd \<Rightarrow> 's \<Rightarrow> srv_error + 's"
  onSocketWritable :: "fd \<Rightarrow> 's \<Rightarrow> srv_error + 's"
  onSocketAcceptable :: "fd \<Rightarrow> 's \<Rightarrow> srv_error + 's"
  onSocketClosed :: "fd \<Rightarrow> 's \<Rightarrow> srv_error + 's"

definition call_if :: "bool \<Rightarrow> ('s \<Rightarrow> srv_error + 's) \<Rightarrow> srv_error + 's \<Rightarrow> srv_error + 's" where
  "call_if b f x = (case x of Inl e \<Rightarrow> Inl e | Inr s \<Rightarrow> if b then f s else Inr s)"

definition handle_event :: "'s SocketCallback \<Rightarrow> ('s \<Rightarrow> reactor) \<Rightarrow> fd \<times> int \<Rightarrow> 's \<Rightarrow> srv_error + 's" where
  "handle_event cb rx ev s =
     (case find_socket (fst ev) (rx_sockets (rx s)) of
        None \<Rightarrow> Inl AssertFailed
      | Some i \<Rightarrow>
          let sock = sd_socket (rx_sockets (rx s) ! i);
              flags = sd_flags (rx_sockets (rx s) ! i);
              x1 = call_if (has flags Readable \<and> has (snd ev) EPOLLIN) (onSocketReadable cb sock) (Inr s);
              x2 = call_if (has flags Writable \<and> has (snd ev) EPOLLOUT) (onSocketWritable cb sock) x1;
              x3 = call_if (has flags Acceptable \<and> has (snd ev) EPOLLIN) (onSocketAcceptable cb sock) x2
          in call_if (has flags Closed \<and> has (snd ev) (EPOLLHUP OR EPOLLERR)) (onSocketClosed cb sock) x3)"

fun handle_events :: "'s SocketCallback \<Rightarrow> ('s \<Rightarrow> reactor) \<Rightarrow> (fd \<times> int) list \<Rightarrow> 's \<Rightarrow> srv_error + 's" where
  "handle_events cb rx [] s = Inr s"
| "handle_events cb rx (ev # evs) s =
     (case handle_event cb rx ev s of Inl e \<Rightarrow> Inl e | Inr s' \<Rightarrow> handle_events cb rx evs s')"

subsection \<open>The reactor and the kernel agree\<close>

definition flags_of :: "reactor \<Rightarrow> fd \<rightharpoonup> int" where
  "flags_of r = map_of (map (\<lambda>d. (sd_socket d, sd_flags d)) (rx_sockets r))"

definition reactor_ok :: "reactor \<Rightarrow> bool" where
  "reactor_ok r \<longleftrightarrow> distinct (map sd_socket (rx_sockets r)) \<and> (\<forall>d \<in> set (rx_sockets r). sd_flags d \<noteq> 0) \<and>
     (\<forall>s. rx_epoll r s = map_option epoll_events (flags_of r s))"

lemma find_socket_None: "find_socket s ds = None \<longleftrightarrow> s \<notin> sd_socket ` set ds"
  by (auto simp: find_socket_def)

lemma find_socket_Some: "find_socket s ds = Some i \<Longrightarrow> i < length ds \<and> sd_socket (ds ! i) = s"
  unfolding find_socket_def using index_of_Some_less index_of_Some_nth by fastforce

lemma flags_of_None: "flags_of r s = None \<longleftrightarrow> find_socket s (rx_sockets r) = None"
  by (force simp: flags_of_def map_of_eq_None_iff find_socket_None)

lemma flags_of_Some:
  assumes "reactor_ok r" and "find_socket s (rx_sockets r) = Some i"
  shows "flags_of r s = Some (sd_flags (rx_sockets r ! i))"
proof -
  have i: "i < length (rx_sockets r)" "sd_socket (rx_sockets r ! i) = s" using find_socket_Some [OF assms(2)] by simp_all
  have "(s, sd_flags (rx_sockets r ! i)) \<in> set (map (\<lambda>d. (sd_socket d, sd_flags d)) (rx_sockets r))"
    using i nth_mem [OF i(1)] by force
  moreover have "distinct (map fst (map (\<lambda>d. (sd_socket d, sd_flags d)) (rx_sockets r)))"
    using assms(1) by (simp add: reactor_ok_def o_def)
  ultimately show ?thesis unfolding flags_of_def by (rule map_of_is_SomeI [rotated])
qed

lemma find_socket_split:
  assumes "find_socket s ds = Some i"
  obtains as d bs where "ds = as @ d # bs" "i = length as" "sd_socket d = s" "s \<notin> sd_socket ` set as"
proof -
  have i: "i < length ds" "sd_socket (ds ! i) = s" using find_socket_Some [OF assms] by simp_all
  have "take i ds = takeWhile (\<lambda>d. sd_socket d \<noteq> s) ds" using assms unfolding find_socket_def by (rule index_of_take)
  then have "s \<notin> sd_socket ` set (take i ds)" by (auto dest: set_takeWhileD)
  then show ?thesis using that [OF id_take_nth_drop [OF i(1)]] i by simp
qed

abbreviation pairs_of :: "SocketData list \<Rightarrow> (fd \<times> int) list" where
  "pairs_of ds \<equiv> map (\<lambda>d. (sd_socket d, sd_flags d)) ds"

lemma map_of_pairs_notin [simp]: "s \<notin> sd_socket ` set ds \<Longrightarrow> map_of (pairs_of ds) s = None"
  by (force simp: map_of_eq_None_iff)

lemma reactor_okD:
  assumes "reactor_ok r"
  shows "distinct (map sd_socket (rx_sockets r))" "d \<in> set (rx_sockets r) \<Longrightarrow> sd_flags d \<noteq> 0"
    "rx_epoll r s = map_option epoll_events (flags_of r s)"
  using assms by (auto simp: reactor_ok_def)

lemma Reactor_ok [simp]: "reactor_ok Reactor"
  by (simp add: reactor_ok_def Reactor_def flags_of_def)

lemma removeSocket_both:
  assumes ok: "reactor_ok r"
  shows "reactor_ok (removeSocket s r) \<and> flags_of (removeSocket s r) = (flags_of r)(s := None)"
proof (cases "find_socket s (rx_sockets r)")
  case None
  then have "flags_of r s = None" by (simp add: flags_of_None)
  then show ?thesis using ok None by (auto simp: removeSocket_def)
next
  case (Some i)
  then obtain as d bs where d: "rx_sockets r = as @ d # bs" "i = length as" "sd_socket d = s" "s \<notin> sd_socket ` set as"
    by (rule find_socket_split)
  have dist: "distinct (map sd_socket (as @ d # bs))" using reactor_okD(1) [OF ok] d(1) by simp
  then have "s \<notin> sd_socket ` set bs" using d(3) by auto
  then have "map_of (pairs_of (as @ bs)) = (map_of (pairs_of (as @ d # bs)))(s := None)"
    using d(3,4) by (auto simp: fun_eq_iff map_add_def split: option.split)
  then have f: "flags_of (removeSocket s r) = (flags_of r)(s := None)"
    using Some d(1,2) by (simp add: removeSocket_def flags_of_def)
  have "rx_sockets (removeSocket s r) = as @ bs" "rx_epoll (removeSocket s r) = (rx_epoll r)(s := None)"
    using Some d(1,2) by (simp_all add: removeSocket_def epoll_del_def)
  then have "reactor_ok (removeSocket s r)"
    using ok f dist d(1) by (auto simp: reactor_ok_def)
  with f show ?thesis by simp
qed

lemmas removeSocket_ok = removeSocket_both [THEN conjunct1] removeSocket_both [THEN conjunct2]

lemma update_flags_both:
  assumes i: "find_socket s (rx_sockets r) = Some i" and dist: "distinct (map sd_socket (rx_sockets r))"
    and "\<And>d. d \<in> set (rx_sockets r) \<Longrightarrow> sd_socket d \<noteq> s \<Longrightarrow> sd_flags d \<noteq> 0" and "flags \<noteq> 0"
    and epoll: "\<And>x. x \<noteq> s \<Longrightarrow> rx_epoll r x = map_option epoll_events (flags_of r x)" "rx_epoll r s \<noteq> None"
    and same: "sd_flags (rx_sockets r ! i) = flags \<Longrightarrow> rx_epoll r s = Some (epoll_events flags)"
  shows "reactor_ok (update_flags s flags i r) \<and> flags_of (update_flags s flags i r) = (flags_of r)(s \<mapsto> flags)"
proof -
  obtain as d bs where d: "rx_sockets r = as @ d # bs" "i = length as" "sd_socket d = s" "s \<notin> sd_socket ` set as"
    using i by (rule find_socket_split)
  let ?r = "update_flags s flags i r"
  have bs: "s \<notin> sd_socket ` set bs" using dist d(1,3) by auto
  have rs: "rx_sockets ?r = as @ d\<lparr>sd_flags := flags\<rparr> # bs" using d(1,2) by (auto simp: update_flags_def)
  have f: "flags_of ?r = (flags_of r)(s \<mapsto> flags)"
    using d map_of_pairs_notin [OF d(4)] unfolding flags_of_def rs by (auto simp: fun_eq_iff map_add_def split: option.split)
  have "rx_epoll ?r = (rx_epoll r)(s \<mapsto> epoll_events flags)"
    using epoll(2) same by (auto simp: update_flags_def epoll_mod_def)
  then have "reactor_ok ?r"
    unfolding reactor_ok_def rs f using dist assms(3,4) epoll(1) d(1,3,4) bs by (auto simp: image_iff)
  with f show ?thesis by simp
qed

lemma addSocket_both:
  assumes ok: "reactor_ok r" and "flags \<noteq> 0"
  shows "reactor_ok (addSocket s flags r) \<and> flags_of (addSocket s flags r) = (flags_of r)(s \<mapsto> flags)"
proof (cases "find_socket s (rx_sockets r)")
  case None
  let ?r = "r\<lparr>rx_epoll := epoll_add s 0 (rx_epoll r), rx_sockets := rx_sockets r @ [\<lparr>sd_socket = s, sd_flags = 0\<rparr>]\<rparr>"
  have s: "s \<notin> sd_socket ` set (rx_sockets r)" using None by (simp add: find_socket_None)
  have "find_socket s (rx_sockets ?r) = Some (length (rx_sockets r))"
    unfolding find_socket_def using s by (auto intro!: index_of_append)
  moreover have "flags_of r s = None" using None by (simp add: flags_of_None)
  then have e: "rx_epoll ?r = (rx_epoll r)(s \<mapsto> 0)" using reactor_okD(3) [OF ok, of s] by (simp add: epoll_add_def)
  moreover have f: "flags_of ?r = (flags_of r)(s \<mapsto> 0)"
    using map_of_pairs_notin [OF s] by (auto simp: flags_of_def fun_eq_iff map_add_def split: option.split)
  ultimately have "reactor_ok (update_flags s flags (length (rx_sockets r)) ?r) \<and>
      flags_of (update_flags s flags (length (rx_sockets r)) ?r) = (flags_of ?r)(s \<mapsto> flags)"
    using s reactor_okD [OF ok] assms(2) by (intro update_flags_both) auto
  then show ?thesis using None assms(2) f by (simp add: addSocket_def)
next
  case (Some i)
  have "reactor_ok (update_flags s flags i r) \<and> flags_of (update_flags s flags i r) = (flags_of r)(s \<mapsto> flags)"
    using reactor_okD [OF ok] flags_of_Some [OF ok Some] assms(2) by (intro update_flags_both [OF Some]) auto
  then show ?thesis using Some assms(2) by (simp add: addSocket_def)
qed

lemmas addSocket_ok = addSocket_both [THEN conjunct1] addSocket_both [THEN conjunct2]

lemma stop_ok: "reactor_ok r \<Longrightarrow> reactor_ok (reactor_stop r) \<and> rx_epoll (reactor_stop r) = Map.empty"
proof -
  assume ok: "reactor_ok r"
  have del: "fold (\<lambda>d. epoll_del (sd_socket d)) ds m x = (if x \<in> sd_socket ` set ds then None else m x)" for ds m x
    by (induction ds arbitrary: m) (auto simp: epoll_del_def)
  have "rx_epoll r x = None" if "x \<notin> sd_socket ` set (rx_sockets r)" for x
    using reactor_okD(3) [OF ok, of x] that by (simp add: flags_of_def)
  then have "rx_epoll (reactor_stop r) = Map.empty" by (auto simp: reactor_stop_def del)
  then show ?thesis by (simp add: reactor_ok_def reactor_stop_def flags_of_def)
qed

subsection \<open>A client of the reactor\<close>

text \<open>What a callback promises: no assertion fails, the invariant is kept, the listening sockets stay, and no other socket is
  unregistered.\<close>

definition callback_safe ::
    "('s \<Rightarrow> reactor) \<Rightarrow> ('s \<Rightarrow> bool) \<Rightarrow> ('s \<Rightarrow> fd set) \<Rightarrow> fd \<Rightarrow> 's \<Rightarrow> srv_error + 's \<Rightarrow> bool" where
  "callback_safe rx good listening x s r \<longleftrightarrow>
     (case r of
        Inl e \<Rightarrow> e \<noteq> AssertFailed
      | Inr s' \<Rightarrow> good s' \<and> listening s' = listening s \<and>
          (\<forall>y. y \<noteq> x \<longrightarrow> flags_of (rx s) y \<noteq> None \<longrightarrow> flags_of (rx s') y \<noteq> None))"

locale reactor_client =
  fixes cb :: "'s SocketCallback" and rx :: "'s \<Rightarrow> reactor" and good :: "'s \<Rightarrow> bool" and listening :: "'s \<Rightarrow> fd set"
  assumes good_reactor: "good s \<Longrightarrow> reactor_ok (rx s)"
    and listening_flags: "good s \<Longrightarrow> flags_of (rx s) x = Some f \<Longrightarrow> x \<in> listening s \<Longrightarrow>
      \<not> has f Readable \<and> \<not> has f Writable \<and> \<not> has f Closed"
    and peer_flags: "good s \<Longrightarrow> flags_of (rx s) x = Some f \<Longrightarrow> x \<notin> listening s \<Longrightarrow> \<not> has f Acceptable"
    and readable: "good s \<Longrightarrow> x \<notin> listening s \<Longrightarrow> callback_safe rx good listening x s (onSocketReadable cb x s)"
    and writable: "good s \<Longrightarrow> x \<notin> listening s \<Longrightarrow> callback_safe rx good listening x s (onSocketWritable cb x s)"
    and acceptable: "good s \<Longrightarrow> x \<in> listening s \<Longrightarrow> callback_safe rx good listening x s (onSocketAcceptable cb x s)"
    and closed: "good s \<Longrightarrow> x \<notin> listening s \<Longrightarrow> callback_safe rx good listening x s (onSocketClosed cb x s)"
begin

abbreviation "safe \<equiv> callback_safe rx good listening"

lemma safe_call_if:
  assumes "safe x s r" and "\<And>s'. b \<Longrightarrow> good s' \<Longrightarrow> listening s' = listening s \<Longrightarrow> safe x s' (f s')"
  shows "safe x s (call_if b f r)"
proof (cases r)
  case (Inr s')
  have s': "good s'" "listening s' = listening s" "\<And>y. y \<noteq> x \<Longrightarrow> flags_of (rx s) y \<noteq> None \<Longrightarrow> flags_of (rx s') y \<noteq> None"
    using assms(1) Inr by (auto simp: callback_safe_def)
  show ?thesis
  proof (cases b)
    case True
    have "safe x s' (f s')" by (rule assms(2) [OF True s'(1,2)])
    then have "safe x s (f s')" using s'(2,3) by (fastforce simp: callback_safe_def split: sum.splits)
    then show ?thesis using True Inr by (simp add: call_if_def)
  qed (use assms(1) Inr in \<open>simp add: call_if_def\<close>)
qed (use assms(1) in \<open>simp add: call_if_def callback_safe_def\<close>)

lemma handle_event_safe:
  assumes good: "good s" and "flags_of (rx s) (fst ev) \<noteq> None"
  shows "safe (fst ev) s (handle_event cb rx ev s)"
proof -
  obtain i where i: "find_socket (fst ev) (rx_sockets (rx s)) = Some i" using assms(2) by (auto simp: flags_of_None)
  let ?x = "fst ev" and ?f = "sd_flags (rx_sockets (rx s) ! i)"
  have sock: "sd_socket (rx_sockets (rx s) ! i) = ?x" using find_socket_Some [OF i] by simp
  have f: "flags_of (rx s) ?x = Some ?f" by (rule flags_of_Some [OF good_reactor [OF good] i])
  have start: "safe ?x s (Inr s)" using good by (simp add: callback_safe_def)
  have "safe ?x s (call_if (has ?f Closed \<and> has (snd ev) (EPOLLHUP OR EPOLLERR)) (onSocketClosed cb ?x)
      (call_if (has ?f Acceptable \<and> has (snd ev) EPOLLIN) (onSocketAcceptable cb ?x)
       (call_if (has ?f Writable \<and> has (snd ev) EPOLLOUT) (onSocketWritable cb ?x)
        (call_if (has ?f Readable \<and> has (snd ev) EPOLLIN) (onSocketReadable cb ?x) (Inr s)))))"
    using listening_flags [OF good f] peer_flags [OF good f]
    by (intro safe_call_if start readable writable acceptable closed) auto
  then show ?thesis unfolding handle_event_def using i sock by (simp add: Let_def)
qed

text \<open>A round of the loop over the events of different registered sockets: the assertion on the socket holds at every event.\<close>

lemma handle_events_safe:
  assumes "good s" and "distinct (map fst evs)" and "\<And>x. x \<in> fst ` set evs \<Longrightarrow> flags_of (rx s) x \<noteq> None"
  shows "handle_events cb rx evs s \<noteq> Inl AssertFailed \<and>
    (\<forall>s'. handle_events cb rx evs s = Inr s' \<longrightarrow> good s' \<and> listening s' = listening s)"
  using assms
proof (induction evs arbitrary: s)
  case (Cons ev evs)
  have safe: "safe (fst ev) s (handle_event cb rx ev s)" using Cons.prems by (intro handle_event_safe) auto
  show ?case
  proof (cases "handle_event cb rx ev s")
    case (Inr s')
    have s': "good s'" "listening s' = listening s"
        "\<And>y. y \<noteq> fst ev \<Longrightarrow> flags_of (rx s) y \<noteq> None \<Longrightarrow> flags_of (rx s') y \<noteq> None"
      using safe Inr by (auto simp: callback_safe_def)
    have "flags_of (rx s') x \<noteq> None" if x: "x \<in> fst ` set evs" for x
    proof (rule s'(3))
      show "x \<noteq> fst ev" using x Cons.prems(2) by (metis distinct.simps(2) list.simps(9) set_map)
    qed (use x Cons.prems(3) in simp)
    then show ?thesis using Cons.IH [OF s'(1)] Cons.prems(2) Inr s'(2) by simp
  qed (use safe in \<open>auto simp: callback_safe_def\<close>)
qed simp

end

subsection \<open>Printing and reading addresses\<close>

lemma htons_involution: "htons (htons x) = x"
  unfolding htons_def by (rule bit_word_eqI) (auto simp: bit_simps)

lemma byte_cases:
  assumes "(n::nat) < 32"
  obtains k where "k < 8" "n = k" | k where "k < 8" "n = 8 + k" | k where "k < 8" "n = 16 + k" | k where "k < 8" "n = 24 + k"
proof -
  consider "n < 8" | "8 \<le> n" "n < 16" | "16 \<le> n" "n < 24" | "24 \<le> n" by linarith
  then show ?thesis using assms that(1) [of n] that(2) [of "n - 8"] that(3) [of "n - 16"] that(4) [of "n - 24"] by cases auto
qed

lemma bit_htonl:
  assumes "k < 8"
  shows "bit (htonl x) k = bit x (24 + k)" "bit (htonl x) (8 + k) = bit x (16 + k)"
    "bit (htonl x) (16 + k) = bit x (8 + k)" "bit (htonl x) (24 + k) = bit x k"
  using assms by (simp_all add: htonl_def bit_simps)

lemma htonl_involution: "htonl (htonl x) = x"
proof (rule bit_word_eqI)
  fix n assume "n < LENGTH(32)"
  then have "n < 32" by simp
  then show "bit (htonl (htonl x)) n = bit x n" by (cases rule: byte_cases) (simp_all add: bit_htonl)
qed

text \<open>A number below 256 is read digit by digit.\<close>

lemma pton4_number:
  assumes "n < 256" and "length parts < 4"
  shows "inet_pton4 (nat_digits n @ rest) parts 0 False = inet_pton4 rest parts n True"
proof -
  consider "n < 10" | "10 \<le> n" "n < 100" | "100 \<le> n" by linarith
  then show ?thesis
  proof cases
    case 1
    then show ?thesis using assms by (simp add: nat_digits.simps [of n])
  next
    case 2
    then have "nat_digits n = [char_of (48 + n div 10), char_of (48 + n mod 10)]"
      by (simp add: nat_digits.simps [of n] nat_digits.simps [of "n div 10"])
    moreover have "n div 10 < 10" "0 < n div 10" "n mod 10 < 10" "n div 10 * 10 + n mod 10 = n" using 2 by simp_all
    ultimately show ?thesis using assms by (simp add: Let_def)
  next
    case 3
    have "10 \<le> n div 10" using 3 div_le_mono [of 100 n 10] by simp
    moreover have "n div 10 \<le> 25" using assms(1) div_le_mono [of n 255 10] by simp
    moreover from this have "n div 10 div 10 \<le> 2" using div_le_mono [of "n div 10" 25 10] by simp
    moreover have "0 < n div 10 div 10" using calculation(1) div_le_mono [of 10 "n div 10" 10] by simp
    ultimately have d: "\<not> n div 10 < 10" "n div 10 div 10 < 10" "0 < n div 10 div 10" "n div 10 < 256" by simp_all
    from 3 have "nat_digits n = [char_of (48 + n div 10 div 10), char_of (48 + n div 10 mod 10), char_of (48 + n mod 10)]"
      using assms(1) d by (simp add: nat_digits.simps [of n] nat_digits.simps [of "n div 10"] nat_digits.simps [of "n div 10 div 10"])
    moreover have "n div 10 div 10 * 10 + n div 10 mod 10 = n div 10" "n div 10 * 10 + n mod 10 = n" by simp_all
    moreover have "n div 10 mod 10 < 10" "n mod 10 < 10" "n div 10 > 0" "n div 10 div 10 < 256" using d by simp_all
    moreover note d assms
    ultimately show ?thesis by (simp add: Let_def)
  qed
qed

lemma dot_facts [simp]: "\<not> isdigit CHR ''.''" "\<not> isdigit CHR '':''"
  by (simp_all add: isdigit_def char_val_def)

definition dotted :: "nat \<Rightarrow> nat \<Rightarrow> nat \<Rightarrow> nat \<Rightarrow> string" where
  "dotted a b c d = nat_digits a @ ''.'' @ nat_digits b @ ''.'' @ nat_digits c @ ''.'' @ nat_digits d"

lemma pton4_dotted:
  assumes "a < 256" "b < 256" "c < 256" "d < 256"
  shows "inet_pton4 (dotted a b c d) [] 0 False = Some [a, b, c, d]"
  using assms pton4_number [of d "[a, b, c]" "[]"] by (simp add: dotted_def pton4_number)

lemma nat_digits_chars: "c \<in> set (nat_digits n) \<Longrightarrow> c \<noteq> CHR '':'' \<and> c \<noteq> NUL"
  using nat_digits_isdigit [of c n] by (auto simp: isdigit_def char_val_def)

lemma dotted_chars: "c \<in> set (dotted x y z w) \<Longrightarrow> c \<noteq> CHR '':'' \<and> c \<noteq> NUL"
proof -
  have "CHR ''.'' \<noteq> NUL" by code_simp
  then show "c \<in> set (dotted x y z w) \<Longrightarrow> c \<noteq> CHR '':'' \<and> c \<noteq> NUL"
    unfolding dotted_def using nat_digits_chars by auto
qed

lemma length_nat_digits_octet: "n < 256 \<Longrightarrow> length (nat_digits n) \<le> 3"
proof -
  assume n: "n < 256"
  then have "n div 10 \<le> 25" using div_le_mono [of n 255 10] by simp
  then have "n div 10 div 10 < 10" using div_le_mono [of "n div 10" 25 10] by simp
  then show ?thesis by (simp add: nat_digits.simps [of n] nat_digits.simps [of "n div 10"] nat_digits.simps [of "n div 10 div 10"])
qed

lemma length_dotted: "a < 256 \<Longrightarrow> b < 256 \<Longrightarrow> c < 256 \<Longrightarrow> d < 256 \<Longrightarrow> length (dotted a b c d) \<le> 15"
  using length_nat_digits_octet [of a] length_nat_digits_octet [of b] length_nat_digits_octet [of c] length_nat_digits_octet [of d]
  by (simp add: dotted_def)

text \<open>The local buffer holds the address when the byte after it happens to be zero.\<close>

lemma c_str_buffer:
  assumes "NUL \<notin> set s" and "length s \<le> 15" and "length stack = 16" and "stack ! length s = NUL"
  shows "c_str (take 15 (s @ drop (length s) stack) @ [NUL]) = s"
proof -
  have z: "drop (length s) stack = NUL # drop (length s + 1) stack"
    using assms Cons_nth_drop_Suc [of "length s" stack] by simp
  obtain rest where "take 15 (s @ drop (length s) stack) @ [NUL] = s @ NUL # rest"
    using assms(2) by (cases "length s = 15") (auto simp: z take_Cons')
  moreover have "takeWhile (\<lambda>c. c \<noteq> NUL) (s @ NUL # rest) = s" using assms(1) by (subst takeWhile_append2) auto
  ultimately show ?thesis by (simp add: c_str_def)
qed

lemma atoi_nat_digits: "n < 2147483648 \<Longrightarrow> atoi (nat_digits n) = int n"
proof -
  assume n: "n < 2147483648"
  have "c_str (nat_digits n) = nat_digits n" by (rule c_str_no_nul) (use nat_digits_chars in blast)
  then show ?thesis using n strtol10_nat_digits [of "[]" n] by (simp add: atoi_def LONG_MAX_def)
qed

lemma octets:
  fixes x :: u32
  defines "n \<equiv> unat x"
  shows "unat (drop_bit 24 x) = n div 2 ^ 24" "unat (drop_bit k x AND 255) = n div 2 ^ k mod 256"
proof -
  show "unat (drop_bit 24 x) = n div 2 ^ 24" unfolding n_def by (subst unat_drop_bit_eq) (simp only: drop_bit_eq_div)
  have "drop_bit k x AND 255 = take_bit 8 (drop_bit k x)" by (simp add: take_bit_eq_mask mask_eq_exp_minus_1)
  then show "unat (drop_bit k x AND 255) = n div 2 ^ k mod 256"
    unfolding n_def by (simp add: unsigned_take_bit_eq unat_drop_bit_eq) (simp add: drop_bit_eq_div take_bit_eq_mod)
qed

lemma join_octets:
  fixes n :: nat
  shows "((n div 16777216 * 256 + n div 65536 mod 256) * 256 + n div 256 mod 256) * 256 + n mod 256 = n"
proof -
  have a: "n div 65536 = n div 16777216 * 256 + n div 65536 mod 256"
    using div_mult_mod_eq [of "n div 65536" 256] by (simp add: div_mult2_eq [symmetric] mult.commute)
  have b: "n div 256 = n div 65536 * 256 + n div 256 mod 256"
    using div_mult_mod_eq [of "n div 256" 256] by (simp add: div_mult2_eq [symmetric] mult.commute)
  show ?thesis unfolding a [symmetric] b [symmetric] by simp
qed

lemma pton_printed:
  fixes x :: u32
  shows "inet_pton (dotted (unat (drop_bit 24 x)) (unat (drop_bit 16 x AND 255)) (unat (drop_bit 8 x AND 255)) (unat (drop_bit 0 x AND 255)))
    = Some (htonl x)"
proof -
  let ?n = "unat x"
  have "?n < 2 ^ LENGTH(32)" by (rule unsigned_less)
  then have lt: "?n div 16777216 < 256" by (simp add: less_mult_imp_div_less)
  have c: "c_str (dotted a b c d) = dotted a b c d" for a b c d by (rule c_str_no_nul) (use dotted_chars in blast)
  show ?thesis
    unfolding inet_pton_def c octets
    using lt join_octets [of ?n] by (simp add: pton4_dotted)
qed

lemma parse_with_garbage:
  "sa_toString (SocketAddr_parse (''........9'' @ replicate 7 NUL) old ''10.0.0.1:80'') = ''10.0.0.19:80''"
proof -
  have c: "find_char CHR '':'' ''10.0.0.1:80'' 0 = Some 8" by code_simp
  have a: "atoi (drop (8 + 1) ''10.0.0.1:80'') = 80" by code_simp
  have "inet_pton4 (c_str (take 15 (take (min 15 8) ''10.0.0.1:80'' @ drop (min 15 8) (''........9'' @ replicate 7 NUL)) @ [NUL])) [] 0 False
      = Some [10, 0, 0, 19]" by code_simp
  then have ip: "inet_pton (take 15 (take (min 15 8) ''10.0.0.1:80'' @ drop (min 15 8) (''........9'' @ replicate 7 NUL)) @ [NUL])
      = Some (htonl 167772179)" by (simp add: inet_pton_def)
  have "SocketAddr_parse (''........9'' @ replicate 7 NUL) old ''10.0.0.1:80'' =
      \<lparr>sa_family = AF_INET, sin_port = htons 80, sin_addr = htonl 167772179\<rparr>"
    unfolding SocketAddr_parse_def Let_def c option.case ip a by simp
  moreover have "nat_digits 10 = ''10''" "nat_digits 0 = ''0''" "nat_digits 19 = ''19''" "nat_digits 80 = ''80''" by code_simp+
  ultimately show ?thesis by (simp add: sa_toString_def Let_def htonl_involution htons_involution octet_def octets)
qed

text \<open>Socket addresses survive being printed and read back when the constructor's local buffer is clear. The buffer is not
  terminated after the copied text: with a digit left on the stack behind it, \<open>10.0.0.1:80\<close> is read as \<open>10.0.0.19\<close>.\<close>

theorem socket_addr_round_trip:
  assumes "sa_family a = AF_INET"
  shows "SocketAddr_parse (replicate 16 NUL) old (sa_toString a) = a \<and>
    sa_toString (SocketAddr_parse (''........9'' @ replicate 7 NUL) old ''10.0.0.1:80'') = ''10.0.0.19:80''"
proof
  let ?x = "htonl (sin_addr a)" and ?p = "unat (htons (sin_port a))"
  define d where "d = dotted (unat (drop_bit 24 ?x)) (unat (drop_bit 16 ?x AND 255)) (unat (drop_bit 8 ?x AND 255))
    (unat (drop_bit 0 ?x AND 255))"
  have s: "sa_toString a = d @ CHR '':'' # nat_digits ?p"
    using assms by (simp add: sa_toString_def octet_def d_def dotted_def Let_def)
  have ch: "c \<in> set d \<Longrightarrow> c \<noteq> CHR '':'' \<and> c \<noteq> NUL" for c unfolding d_def by (rule dotted_chars)
  have colon: "find_char CHR '':'' (sa_toString a) 0 = Some (length d)"
    unfolding s find_char_def using ch by (subst drop_0, subst index_of_append) auto
  have "unat ?x < 2 ^ LENGTH(32)" by (rule unsigned_less)
  then have "unat ?x div 2 ^ 24 < 256" by (simp add: less_mult_imp_div_less)
  then have len: "length d \<le> 15" unfolding d_def octets by (intro length_dotted) simp_all
  have nul: "NUL \<notin> set d" using ch by blast
  let ?buf = "take 15 (take (min 15 (length d)) (sa_toString a) @ drop (min 15 (length d)) (replicate 16 NUL)) @ [NUL]"
  have "c_str ?buf = d" using len c_str_buffer [OF nul len, of "replicate 16 NUL"] by (simp add: s min_def)
  then have "inet_pton ?buf = inet_pton d" using c_str_no_nul [OF nul] by (simp add: inet_pton_def)
  then have ip: "inet_pton ?buf = Some (sin_addr a)" unfolding d_def pton_printed by (simp add: htonl_involution)
  have "?p < 2 ^ LENGTH(16)" by (rule unsigned_less)
  then have "atoi (nat_digits ?p) = int ?p" by (simp add: atoi_nat_digits)
  then have "htons (word_of_int (atoi (drop (length d + 1) (sa_toString a)))) = sin_port a" by (simp add: s htons_involution)
  then show "SocketAddr_parse (replicate 16 NUL) old (sa_toString a) = a"
    unfolding SocketAddr_parse_def Let_def colon option.case ip using assms by simp
  show "sa_toString (SocketAddr_parse (''........9'' @ replicate 7 NUL) old ''10.0.0.1:80'') = ''10.0.0.19:80''"
    by (rule parse_with_garbage)
qed

lemma socket_addr_round_trip_witness:
  "SocketAddr_parse (replicate 16 NUL) 0 (sa_toString (SocketAddr_inet 0x7F000001 30000)) = SocketAddr_inet 0x7F000001 30000"
  using socket_addr_round_trip [of "SocketAddr_inet 0x7F000001 30000" 0] by (simp add: SocketAddr_inet_def)

end
