(* ===== verification/Http_Message.thy ===== *)
theory Http_Message
  imports Cpp_Prelude "HOL-Library.Char_ord" "HOL-Library.List_Lexorder"
begin

text \<open>
  The messages of \<open>api/ext/http/server/http_server.h\<close>: \<open>HttpRequest\<close>, \<open>HttpResponse\<close>, \<open>parseHeaders\<close> and its
  helpers, and the default reason phrases. A \<open>std::map\<close> from strings to strings is the list of its pairs in the order of
  iteration, strictly increasing in the key. A pointer into the receive buffer is the rest of the buffer; reading at the
  end gives the terminating NUL.
\<close>

subsection \<open>std::map\<close>

type_synonym str_map = "(string \<times> string) list"

fun smap_put :: "string \<Rightarrow> string \<Rightarrow> str_map \<Rightarrow> str_map" where
  "smap_put k v [] = [(k, v)]"
| "smap_put k v ((k', v') # m) =
     (if k < k' then (k, v) # (k', v') # m else if k = k' then (k, v) # m else (k', v') # smap_put k v m)"

definition smap_find :: "string \<Rightarrow> str_map \<Rightarrow> string option" where
  "smap_find k m = map_of m k"

definition smap_ok :: "str_map \<Rightarrow> bool" where
  "smap_ok m \<longleftrightarrow> sorted_wrt (<) (map fst m)"

subsection \<open>Requests and responses\<close>

record HttpRequest =
  rq_client :: string
  rq_method :: string
  rq_uri :: string
  rq_protocol :: string
  rq_headers :: str_map
  rq_content :: string

record HttpResponse =
  rs_code :: int
  rs_message :: string
  rs_headers :: str_map
  rs_body :: string

subsection \<open>Parsing\<close>

definition at :: "string \<Rightarrow> char" where
  "at p = (case p of [] \<Rightarrow> NUL | c # _ \<Rightarrow> c)"

text \<open>The stop condition of the three words of the request line, and of a header's name and value.\<close>

definition word_char :: "char \<Rightarrow> bool" where
  "word_char c \<longleftrightarrow> c \<noteq> NUL \<and> c \<noteq> CHR '' '' \<and> c \<noteq> CR \<and> c \<noteq> LF"

definition name_char :: "char \<Rightarrow> bool" where
  "name_char c \<longleftrightarrow> c \<noteq> CHR '':'' \<and> word_char c"

definition value_char :: "char \<Rightarrow> bool" where
  "value_char c \<longleftrightarrow> c \<noteq> NUL \<and> c \<noteq> CR \<and> c \<noteq> LF"

definition skip_spaces :: "string \<Rightarrow> string" where
  "skip_spaces = dropWhile (\<lambda>c. c = CHR '' '')"

fun normalize_chars :: "bool \<Rightarrow> string \<Rightarrow> string" where
  "normalize_chars first [] = []"
| "normalize_chars first (ch # cs) =
     (if first then to_upper ch # normalize_chars False cs
      else if ch = CHR ''-'' then ch # normalize_chars True cs
      else to_lower ch # normalize_chars False cs)"

definition normalizeHeaderName :: "string \<Rightarrow> string" where
  "normalizeHeaderName name = normalize_chars True name"

fun equals_chars :: "string \<Rightarrow> string \<Rightarrow> bool" where
  "equals_chars (c # cs) (m # ms) = (to_lower c = m \<and> equals_chars cs ms)"
| "equals_chars [] [] = True"
| "equals_chars _ _ = False"

definition equalsLowercased :: "string \<Rightarrow> string \<Rightarrow> bool" where
  "equalsLowercased str msk = equals_chars (c_str str) msk"

text \<open>The end of a line: an optional CR, then LF.\<close>

definition line_end :: "string \<Rightarrow> string option" where
  "line_end p = (let q = (if at p = CR then tl p else p) in if at q = LF then Some (tl q) else None)"

definition add_header :: "string \<Rightarrow> string \<Rightarrow> str_map \<Rightarrow> str_map" where
  "add_header name val hs =
     (let old = (case smap_find name hs of Some v \<Rightarrow> v | None \<Rightarrow> [])
      in if old \<noteq> [] then smap_put name (old @ '','' @ val) hs else smap_put name val hs)"

lemma length_dropWhile_less_eq: "length (dropWhile P xs) \<le> length xs"
  by (induction xs) auto

lemma line_end_length: "line_end p = Some q \<Longrightarrow> length q < length p"
  by (cases p; cases "tl p") (auto simp: line_end_def at_def Let_def split: if_splits list.splits)

text \<open>The loop over the header lines: the headers collected so far, and whether parsing succeeded.\<close>

function parse_header_lines :: "string \<Rightarrow> str_map \<Rightarrow> bool \<times> str_map" where
  "parse_header_lines p hs =
     (if at p = CR \<or> at p = LF then (line_end p \<noteq> None, hs)
      else let name_end = dropWhile name_char p
           in if at name_end \<noteq> CHR '':'' then (False, hs)
              else let name = normalizeHeaderName (takeWhile name_char p);
                       v = skip_spaces (tl name_end);
                       hs' = add_header name (takeWhile value_char v) hs
                   in case line_end (dropWhile value_char v) of
                        None \<Rightarrow> (False, hs')
                      | Some q \<Rightarrow> parse_header_lines q hs')"
  by pat_completeness auto
termination
proof (relation "measure (\<lambda>(p, hs). length p)", goal_cases)
  case (2 p hs name_end name v hs' q)
  then have "length q < length (dropWhile value_char v)" by (simp add: line_end_length)
  also have "\<dots> \<le> length v" by (rule length_dropWhile_less_eq)
  also have "\<dots> \<le> length (tl name_end)" unfolding 2 skip_spaces_def by (rule length_dropWhile_less_eq)
  also have "\<dots> \<le> length (dropWhile name_char p)" using 2 by simp
  also have "\<dots> \<le> length p" by (rule length_dropWhile_less_eq)
  finally show ?case by simp
qed simp

declare parse_header_lines.simps [simp del]

definition parseHeaders :: "string \<Rightarrow> HttpRequest \<Rightarrow> bool \<times> HttpRequest" where
  "parseHeaders buf rq =
     (let p1 = dropWhile word_char buf
      in if at p1 \<noteq> CHR '' '' then (False, rq)
         else let rq1 = rq\<lparr>rq_method := takeWhile word_char buf\<rparr>;
                  b2 = skip_spaces p1; p2 = dropWhile word_char b2
              in if at p2 \<noteq> CHR '' '' then (False, rq1)
                 else let rq2 = rq1\<lparr>rq_uri := takeWhile word_char b2\<rparr>;
                          b3 = skip_spaces p2; p3 = dropWhile word_char b3
                      in if at p3 \<noteq> CR \<and> at p3 \<noteq> LF then (False, rq2)
                         else let rq3 = rq2\<lparr>rq_protocol := takeWhile word_char b3\<rparr>
                              in case line_end p3 of
                                   None \<Rightarrow> (False, rq3)
                                 | Some p4 \<Rightarrow>
                                     let (ok, hs) = parse_header_lines p4 []
                                     in (ok, rq3\<lparr>rq_headers := hs\<rparr>))"

subsection \<open>Reason phrases\<close>

definition reason_phrases :: "(int \<times> string) list" where
  "reason_phrases =
     [(100, ''Continue''), (101, ''Switching Protocols''),
      (200, ''OK''), (201, ''Created''), (202, ''Accepted''), (203, ''Non-Authoritative Information''), (204, ''No Content''),
      (205, ''Reset Content''), (206, ''Partial Content''),
      (300, ''Multiple Choices''), (301, ''Moved Permanently''), (302, ''Found''), (303, ''See Other''), (304, ''Not Modified''),
      (305, ''Use Proxy''), (306, ''Switch Proxy''), (307, ''Temporary Redirect''), (308, ''Permanent Redirect''),
      (400, ''Bad Request''), (401, ''Unauthorized''), (402, ''Payment Required''), (403, ''Forbidden''), (404, ''Not Found''),
      (405, ''Method Not Allowed''), (406, ''Not Acceptable''), (407, ''Proxy Authentication Required''), (408, ''Request Timeout''),
      (409, ''Conflict''), (410, ''Gone''), (411, ''Length Required''), (412, ''Precondition Failed''), (413, ''Payload Too Large''),
      (414, ''URI Too Long''), (415, ''Unsupported Media Type''), (416, ''Range Not Satisfiable''), (417, ''Expectation Failed''),
      (421, ''Misdirected Request''), (426, ''Upgrade Required''), (428, ''Precondition Required''), (429, ''Too Many Requests''),
      (431, ''Request Header Fields Too Large''),
      (500, ''Internal Server Error''), (501, ''Not Implemented''), (502, ''Bad Gateway''), (503, ''Service Unavailable''),
      (504, ''Gateway Timeout''), (505, ''HTTP Version Not Supported''), (506, ''Variant Also Negotiates''), (510, ''Not Extended''),
      (511, ''Network Authentication Required'')]"

definition getDefaultResponseMessage :: "int \<Rightarrow> string" where
  "getDefaultResponseMessage code = (case map_of reason_phrases code of Some m \<Rightarrow> m | None \<Rightarrow> ''???'')"

subsection \<open>Lemmas on maps\<close>

lemma smap_put_keys: "set (map fst (smap_put k v m)) = insert k (set (map fst m))"
  by (induction k v m rule: smap_put.induct) auto

lemma smap_put_ok [simp]: "smap_ok m \<Longrightarrow> smap_ok (smap_put k v m)"
proof (induction k v m rule: smap_put.induct)
  case (2 k v k' v' m)
  then have "sorted_wrt (<) (map fst m)" "\<forall>x \<in> set (map fst m). k' < x" by (simp_all add: smap_ok_def)
  with 2 show ?case using smap_put_keys [of k v m] by (auto simp: smap_ok_def)
qed (simp add: smap_ok_def)

lemma smap_find_put [simp]: "smap_ok m \<Longrightarrow> smap_find x (smap_put k v m) = (if x = k then Some v else smap_find x m)"
  by (induction k v m rule: smap_put.induct) (auto simp: smap_ok_def smap_find_def)

lemma add_header_ok [simp]: "smap_ok hs \<Longrightarrow> smap_ok (add_header k v hs)"
  by (simp add: add_header_def Let_def)

lemma parse_header_lines_ok: "smap_ok hs \<Longrightarrow> smap_ok (snd (parse_header_lines p hs))"
proof (induction p hs rule: parse_header_lines.induct)
  case (1 p hs)
  then show ?case by (subst parse_header_lines.simps) (auto simp: Let_def split: option.split)
qed

subsection \<open>Requests as text\<close>

definition header_text :: "string \<times> string \<Rightarrow> string" where
  "header_text kv = fst kv @ '': '' @ snd kv"

definition head_lines :: "string \<Rightarrow> string \<Rightarrow> string \<Rightarrow> (string \<times> string) list \<Rightarrow> string list" where
  "head_lines m u p hs = (m @ '' '' @ u @ '' '' @ p) # map header_text hs"

definition lines_text :: "string list \<Rightarrow> string" where
  "lines_text ls = concat (map (\<lambda>l. l @ CRLF) ls)"

definition good_header :: "string \<times> string \<Rightarrow> bool" where
  "good_header kv \<longleftrightarrow> list_all name_char (fst kv) \<and> list_all value_char (snd kv) \<and> at (snd kv) \<noteq> CHR '' ''"

definition good_head :: "string \<Rightarrow> string \<Rightarrow> string \<Rightarrow> (string \<times> string) list \<Rightarrow> bool" where
  "good_head m u p hs \<longleftrightarrow> list_all word_char (m @ u @ p) \<and> u \<noteq> [] \<and> list_all good_header hs"

definition headers_of :: "(string \<times> string) list \<Rightarrow> str_map \<Rightarrow> str_map" where
  "headers_of = fold (\<lambda>(k, v). add_header (normalizeHeaderName k) v)"

lemma CR_not_LF [simp]: "CR \<noteq> LF" "LF \<noteq> CR" "CR \<noteq> NUL" "CR \<noteq> CHR '' ''" "LF \<noteq> CHR '' ''" "NUL \<noteq> CR" "CHR '' '' \<noteq> CR" "CHR '' '' \<noteq> LF"
  "CHR '':'' \<noteq> CR" "CHR '':'' \<noteq> LF" "CHR '' '' \<noteq> CHR '':''"
  "CR \<noteq> CHR '':''" "LF \<noteq> CHR '':''"
  by code_simp+

lemma at_simps [simp]: "at (c # cs) = c" "at [] = NUL" "at (CR # s) = CR"
  by (simp_all add: at_def)

lemma stops [simp]: "\<not> word_char CR" "\<not> word_char CHR '' ''" "\<not> value_char CR" "\<not> name_char CHR '':''" "\<not> name_char CR"
  by (simp_all add: word_char_def value_char_def name_char_def)

lemma line_end_CRLF [simp]: "line_end (CR # LF # s) = Some s"
  by (simp add: line_end_def)

lemma takeWhile_stop: "list_all P w \<Longrightarrow> \<not> P c \<Longrightarrow> takeWhile P (w @ c # s) = w"
  "list_all P w \<Longrightarrow> \<not> P c \<Longrightarrow> dropWhile P (w @ c # s) = c # s"
  by (induction w) auto

lemma skip_spaces_Cons [simp]: "skip_spaces (CHR '' '' # s) = skip_spaces s"
  by (simp add: skip_spaces_def)

lemma skip_spaces_id: "at s \<noteq> CHR '' '' \<Longrightarrow> skip_spaces s = s"
  by (cases s) (auto simp: skip_spaces_def)

lemma word_at: "list_all word_char w \<Longrightarrow> w \<noteq> [] \<Longrightarrow> at (w @ s) \<noteq> CHR '' ''"
  by (cases w) (auto simp: word_char_def)

lemma value_at: "at v \<noteq> CHR '' '' \<Longrightarrow> at (v @ CR # s) \<noteq> CHR '' ''"
  by (cases v) auto

lemma parse_header_line:
  assumes "good_header (k, v)"
  shows "parse_header_lines (k @ '': '' @ v @ CRLF @ s) hs = parse_header_lines s (add_header (normalizeHeaderName k) v hs)"
proof -
  have k: "list_all name_char k" and v: "list_all value_char v" "at v \<noteq> CHR '' ''" using assms by (simp_all add: good_header_def)
  let ?p = "k @ CHR '':'' # CHR '' '' # v @ CR # LF # s"
  have at: "at ?p \<noteq> CR" "at ?p \<noteq> LF" using k by (cases k; simp add: name_char_def word_char_def)+
  have n: "takeWhile name_char ?p = k" "dropWhile name_char ?p = CHR '':'' # CHR '' '' # v @ CR # LF # s"
    using takeWhile_stop [OF k, of "CHR '':''"] by simp_all
  have sp: "skip_spaces (v @ CR # LF # s) = v @ CR # LF # s" by (rule skip_spaces_id [OF value_at [OF v(2)]])
  have w: "takeWhile value_char (v @ CR # LF # s) = v" "dropWhile value_char (v @ CR # LF # s) = CR # LF # s"
    using takeWhile_stop [OF v(1), of CR] by simp_all
  have "parse_header_lines ?p hs = parse_header_lines s (add_header (normalizeHeaderName k) v hs)"
    using at by (subst parse_header_lines.simps) (simp add: n sp w Let_def)
  then show ?thesis by simp
qed

lemma parse_header_text:
  "list_all good_header hs \<Longrightarrow> parse_header_lines (lines_text (map header_text hs) @ CRLF @ s) m = (True, headers_of hs m)"
proof (induction hs arbitrary: m)
  case Nil
  show ?case by (subst parse_header_lines.simps) (simp add: lines_text_def headers_of_def)
next
  case (Cons kv hs)
  obtain k v where kv: "kv = (k, v)" by (cases kv)
  have "lines_text (map header_text (kv # hs)) @ CRLF @ s = k @ '': '' @ v @ CRLF @ (lines_text (map header_text hs) @ CRLF @ s)"
    by (simp add: lines_text_def header_text_def kv)
  then show ?case using Cons parse_header_line [of k v] by (simp add: kv headers_of_def del: append.simps)
qed

text \<open>Parsing a well-formed head gives its parts back, whatever follows it.\<close>

lemma parseHeaders_text:
  assumes "good_head m u p hs"
  shows "parseHeaders (lines_text (head_lines m u p hs) @ CRLF @ s) rq =
    (True, rq\<lparr>rq_method := m, rq_uri := u, rq_protocol := p, rq_headers := headers_of hs []\<rparr>)"
proof -
  have m: "list_all word_char m" and u: "list_all word_char u" "u \<noteq> []" and p: "list_all word_char p" and hs: "list_all good_header hs"
    using assms by (simp_all add: good_head_def)
  define r where "r = lines_text (map header_text hs) @ CRLF @ s"
  have t: "lines_text (head_lines m u p hs) @ CRLF @ s = m @ CHR '' '' # u @ CHR '' '' # p @ CR # LF # r"
    by (simp add: lines_text_def head_lines_def r_def)
  note w1 = takeWhile_stop [OF m stops(2), of "u @ CHR '' '' # p @ CR # LF # r"]
  note w2 = takeWhile_stop [OF u(1) stops(2), of "p @ CR # LF # r"]
  note w3 = takeWhile_stop [OF p stops(1), of "LF # r"]
  have s1: "skip_spaces (u @ CHR '' '' # p @ CR # LF # r) = u @ CHR '' '' # p @ CR # LF # r"
    by (rule skip_spaces_id [OF word_at [OF u]])
  have "at (p @ CR # LF # r) \<noteq> CHR '' ''" using p by (cases p) (auto simp: word_char_def)
  then have s2: "skip_spaces (p @ CR # LF # r) = p @ CR # LF # r" by (rule skip_spaces_id)
  have "parse_header_lines r [] = (True, headers_of hs [])" unfolding r_def by (rule parse_header_text [OF hs])
  then show ?thesis unfolding t parseHeaders_def by (simp add: w1 w2 w3 s1 s2 Let_def)
qed

text \<open>The end of the head is where the first empty line is.\<close>

lemma find_sub_line: "a \<notin> set l \<Longrightarrow> find_sub (a # pat) (l @ s) = map_option ((+) (length l)) (find_sub (a # pat) s)"
proof (induction l)
  case Nil
  then show ?case by (cases "find_sub (a # pat) s") simp_all
next
  case (Cons c l)
  then show ?case by (cases "find_sub (a # pat) s") auto
qed

lemma find_sub_take_None: "find_sub pat s = None \<Longrightarrow> find_sub pat (take n s) = None"
proof (induction s arbitrary: n)
  case (Cons c s)
  have "\<not> is_prefix pat (take n (c # s))"
    using Cons.prems by (auto simp: is_prefix_iff split: if_splits) (metis append.assoc append_take_drop_id)
  then show ?case using Cons by (cases n) (auto split: if_splits)
qed simp

lemma find_sub_take_before: "find_sub pat s = Some i \<Longrightarrow> n < i + length pat \<Longrightarrow> find_sub pat (take n s) = None"
proof (induction s arbitrary: n i)
  case Nil
  then show ?case by (auto split: if_splits)
next
  case (Cons c s)
  show ?case
  proof (cases n)
    case 0
    then show ?thesis using Cons.prems by (auto split: if_splits)
  next
    case (Suc k)
    show ?thesis
    proof (cases "is_prefix pat (c # s)")
      case True
      then have i: "i = 0" using Cons.prems(1) by simp
      have no: "\<not> is_prefix pat t" if "length t \<le> n" for t using that i Cons.prems(2) by (auto simp: is_prefix_iff)
      have "find_sub pat t = None" if "length t \<le> n" for t using that
      proof (induction t)
        case Nil
        then show ?case using no [of "[]"] by (cases pat) auto
      next
        case (Cons x t)
        then show ?case using no [of "x # t"] by simp
      qed
      then show ?thesis by simp
    next
      case False
      then obtain j where j: "i = Suc j" "find_sub pat s = Some j" using Cons.prems(1) by auto
      have "\<not> is_prefix pat (take n (c # s))"
        using False by (auto simp: is_prefix_iff) (metis append.assoc append_take_drop_id)
      then show ?thesis using Cons.IH [OF j(2), of k] Cons.prems(2) j(1) Suc by simp
    qed
  qed
qed

lemma find_double_CRLF:
  assumes "ls \<noteq> []" and "\<And>l. l \<in> set ls \<Longrightarrow> l \<noteq> [] \<and> CR \<notin> set l"
  shows "find_sub (CRLF @ CRLF) (lines_text ls @ CRLF @ body) = Some (length (lines_text ls) - 2)"
  using assms
proof (induction ls)
  case (Cons l ls)
  have l: "CR \<notin> set l" using Cons.prems by simp
  show ?case
  proof (cases "ls = []")
    case True
    then show ?thesis using find_sub_line [OF l, of "[LF, CR, LF]"] by (simp add: lines_text_def)
  next
    case False
    then obtain l' ls' where ls: "ls = l' # ls'" by (cases ls) auto
    obtain c cs where c: "l' = c # cs" "c \<noteq> CR" using Cons.prems(2) [of l'] ls by (cases l') auto
    have IH: "find_sub (CRLF @ CRLF) (lines_text ls @ CRLF @ body) = Some (length (lines_text ls) - 2)"
      using False Cons by simp
    have n: "length (lines_text ls) \<ge> 2" by (simp add: ls lines_text_def)
    have "find_sub (CRLF @ CRLF) (CRLF @ lines_text ls @ CRLF @ body) = Some (2 + (length (lines_text ls) - 2))"
      using IH c by (simp add: ls lines_text_def)
    then show ?thesis
      using find_sub_line [OF l, of "[LF, CR, LF]" "CRLF @ lines_text ls @ CRLF @ body"] n by (simp add: lines_text_def)
  qed
qed simp

lemma good_head_lines: "good_head m u p hs \<Longrightarrow> l \<in> set (head_lines m u p hs) \<Longrightarrow> l \<noteq> [] \<and> CR \<notin> set l"
proof -
  assume g: "good_head m u p hs" and l: "l \<in> set (head_lines m u p hs)"
  have w: "CR \<notin> set w" if "list_all word_char w" for w using that stops(1) by (auto simp: list_all_iff)
  have v: "CR \<notin> set w" if "list_all value_char w" for w using that stops(3) by (auto simp: list_all_iff)
  have n: "CR \<notin> set w" if "list_all name_char w" for w using that stops(5) by (auto simp: list_all_iff)
  show ?thesis using g l w v n
    by (auto simp: good_head_def head_lines_def header_text_def good_header_def list_all_iff)
qed

end
