(* ===== verification/Http_Connection.thy ===== *)
theory Http_Connection
  imports Socket_Tools Http_Message
begin

text \<open>
  The life of one connection in \<open>api/ext/http/server/http_server.h\<close>. A connection is a record with the fields of \<open>HttpServer::Connection\<close>;
  \<open>handleConnection\<close> is the loop over the states of a connection, its stages in the order of the code. What the system
  calls \<open>send\<close>, \<open>recv\<close> and \<open>accept\<close> return, what the handlers answer and the text of the clock are functions of the number of
  the call (\<open>server_env\<close>), so any behaviour of the outside is covered. Bytes that were sent, shutdowns and closed sockets
  are recorded in \<open>io_trace\<close>.
\<close>

subsection \<open>The outside\<close>

text \<open>\<open>send\<close> returns the number of bytes taken, or fails with a value of \<open>errno\<close>; \<open>recv\<close> likewise returns data or at most 0.\<close>

datatype send_result = Taken nat | SendFails int

type_synonym callback = "nat \<Rightarrow> HttpRequest \<Rightarrow> HttpResponse \<Rightarrow> int \<times> HttpResponse"

record server_env =
  ev_send :: "nat \<Rightarrow> fd \<Rightarrow> string \<Rightarrow> send_result"
  ev_recv :: "nat \<Rightarrow> fd \<Rightarrow> string"
  ev_accept :: "nat \<Rightarrow> (fd \<Rightarrow> bool) \<Rightarrow> (fd \<times> SocketAddr) option"
  ev_date :: "nat \<Rightarrow> string"

definition EWOULDBLOCK :: int where "EWOULDBLOCK = 11"

datatype io_event = Io_sent fd string | Io_shutdown fd | Io_close fd | Io_request fd HttpRequest

record server_io =
  io_env :: server_env
  io_calls :: nat
  io_reactor :: reactor
  io_trace :: "io_event list"

definition tick :: "server_io \<Rightarrow> server_io" where
  "tick io = io\<lparr>io_calls := io_calls io + 1\<rparr>"

definition record_event :: "io_event \<Rightarrow> server_io \<Rightarrow> server_io" where
  "record_event e io = io\<lparr>io_trace := io_trace io @ [e]\<rparr>"

definition io_addSocket :: "fd \<Rightarrow> int \<Rightarrow> server_io \<Rightarrow> server_io" where
  "io_addSocket s flags io = io\<lparr>io_reactor := addSocket s flags (io_reactor io)\<rparr>"

subsection \<open>Connections\<close>

datatype conn_state =
  Idle | ReceivingHeaders | Sending100Continue | ReceivingBody | Processing | SendingHeaders | SendingBody | Closing

record Connection =
  cn_socket :: fd
  cn_receiveBuffer :: string
  cn_sendBuffer :: string
  cn_state :: conn_state
  cn_contentLength :: nat
  cn_keepalive :: bool
  cn_request :: HttpRequest
  cn_response :: HttpResponse

text \<open>What \<open>m_connections[socket]\<close> creates. The fields without initialiser are written before they are read: the
  code of the response on leaving \<open>Idle\<close>, the other two when the headers end.\<close>

definition new_request :: HttpRequest where
  "new_request = \<lparr>rq_client = [], rq_method = [], rq_uri = [], rq_protocol = [], rq_headers = [], rq_content = []\<rparr>"

definition new_response :: HttpResponse where
  "new_response = \<lparr>rs_code = 0, rs_message = [], rs_headers = [], rs_body = []\<rparr>"

definition new_connection :: Connection where
  "new_connection = \<lparr>cn_socket = - 1, cn_receiveBuffer = [], cn_sendBuffer = [], cn_state = Idle, cn_contentLength = 0,
     cn_keepalive = False, cn_request = new_request, cn_response = new_response\<rparr>"

text \<open>What the handling of a connection reads of the server. A handler without callback is a null pointer.\<close>

record server_config =
  sc_serverHost :: string
  sc_allowKeepalive :: bool
  sc_maxHeaders :: nat
  sc_maxContent :: nat
  sc_handlers :: "(string \<times> callback option) list"

subsection \<open>Sending\<close>

definition sendMore :: "Connection \<Rightarrow> server_io \<Rightarrow> bool \<times> Connection \<times> server_io" where
  "sendMore c io =
     (if cn_sendBuffer c = [] then (False, c, io)
      else let io1 = tick io
           in case ev_send (io_env io) (io_calls io) (cn_socket c) (cn_sendBuffer c) of
                SendFails errno \<Rightarrow>
                  if errno \<noteq> EWOULDBLOCK then (True, c, io1)
                  else (False, c\<lparr>cn_sendBuffer := []\<rparr>, io1)
              | Taken n \<Rightarrow>
                  let c' = c\<lparr>cn_sendBuffer := drop n (cn_sendBuffer c)\<rparr>;
                      io2 = record_event (Io_sent (cn_socket c) (take n (cn_sendBuffer c))) io1
                  in if cn_sendBuffer c' \<noteq> [] then (True, c', io_addSocket (cn_socket c) (Writable OR Closed) io2)
                     else (False, c', io2))"

subsection \<open>Answering a request\<close>

fun run_handlers ::
    "(string \<times> callback option) list \<Rightarrow> HttpRequest \<Rightarrow> HttpResponse \<Rightarrow> nat \<Rightarrow> srv_error + HttpResponse \<times> nat" where
  "run_handlers [] rq rs n = Inr (rs, n)"
| "run_handlers ((root, h) # hs) rq rs n =
     (if length root \<le> length (rq_uri rq) \<and> take (length root) (c_str (rq_uri rq)) = take (length root) (c_str root)
      then case h of
             None \<Rightarrow> Inl NullCallback
           | Some f \<Rightarrow>
               let (result, rs') = f n rq rs
               in if result \<noteq> 0 then Inr (rs'\<lparr>rs_code := result\<rparr>, n + 1)
                  else run_handlers hs rq rs' (n + 1)
      else run_handlers hs rq rs n)"

text \<open>After a handler asked to close (\<open>-1\<close>) the connection is destroyed, and then used.\<close>

definition processRequest :: "server_config \<Rightarrow> Connection \<Rightarrow> server_io \<Rightarrow> srv_error + Connection \<times> server_io" where
  "processRequest cfg c io =
     (let rs0 = (cn_response c)\<lparr>rs_message := [], rs_headers := [], rs_body := []\<rparr>;
          answer =
            (if rs_code rs0 = 0
             then case run_handlers (sc_handlers cfg) (cn_request c) (rs0\<lparr>rs_code := 404\<rparr>) (io_calls io) of
                    Inl e \<Rightarrow> Inl e
                  | Inr (rs, n) \<Rightarrow>
                      if rs_code rs = - 1 then Inl UseAfterFree
                      else Inr (rs, record_event (Io_request (cn_socket c) (cn_request c)) (io\<lparr>io_calls := n\<rparr>))
             else Inr (rs0, io))
      in case answer of
           Inl e \<Rightarrow> Inl e
         | Inr (rs, io1) \<Rightarrow>
             let rs1 = (if rs_message rs = [] then rs\<lparr>rs_message := getDefaultResponseMessage (rs_code rs)\<rparr> else rs);
                 h1 = smap_put ''Host'' (sc_serverHost cfg) (rs_headers rs1);
                 h2 = smap_put ''Connection'' (if cn_keepalive c then ''keep-alive'' else ''close'') h1;
                 h3 = smap_put ''Date'' (ev_date (io_env io1) (io_calls io1)) h2;
                 h4 = smap_put ''Content-Length'' (nat_digits (length (rs_body rs1))) h3
             in Inr (c\<lparr>cn_response := rs1\<lparr>rs_headers := h4\<rparr>\<rparr>, tick io1))"

definition header_out :: "string \<times> string \<Rightarrow> string" where
  "header_out kv = fst kv @ '': '' @ snd kv @ CRLF"

definition response_head :: "string \<Rightarrow> HttpResponse \<Rightarrow> string" where
  "response_head protocol rs =
     protocol @ '' '' @ to_string (rs_code rs) @ '' '' @ rs_message rs @ CRLF @ concat (map header_out (rs_headers rs)) @ CRLF"

subsection \<open>The stages of handleConnection\<close>

text \<open>How a stage ends: go on with the next one, run the loop again (\<open>continue\<close>), return, or undefined behaviour.\<close>

datatype flow = Next | Again | Return | Undefined srv_error

type_synonym stage = "server_config \<Rightarrow> Connection \<Rightarrow> server_io \<Rightarrow> flow \<times> Connection \<times> server_io"

definition st_idle :: stage where
  "st_idle cfg c io =
     (if cn_state c = Idle
      then (Next, c\<lparr>cn_response := (cn_response c)\<lparr>rs_code := 0\<rparr>, cn_state := ReceivingHeaders\<rparr>, io)
      else (Next, c, io))"

definition refuse :: "int \<Rightarrow> Connection \<Rightarrow> Connection" where
  "refuse code c = c\<lparr>cn_response := (cn_response c)\<lparr>rs_code := code\<rparr>, cn_keepalive := False, cn_state := Processing\<rparr>"

text \<open>Where the head ends, and how long the separator is.\<close>

definition head_end :: "string \<Rightarrow> (nat \<times> nat) option" where
  "head_end buf =
     (case find_str (CRLF @ CRLF) buf 0 of
        Some ofs \<Rightarrow> Some (ofs, 4)
      | None \<Rightarrow> map_option (\<lambda>ofs. (ofs, 2)) (find_str [LF, LF] buf 0))"

definition wants_keepalive :: "HttpRequest \<Rightarrow> bool" where
  "wants_keepalive rq =
     (case smap_find ''Connection'' (rq_headers rq) of
        None \<Rightarrow> rq_protocol rq = ''HTTP/1.1''
      | Some v \<Rightarrow>
          if equalsLowercased v ''keep-alive'' then True
          else if equalsLowercased v ''close'' then False
          else rq_protocol rq = ''HTTP/1.1'')"

text \<open>\<open>atoi\<close> gives an \<open>int\<close>, which becomes a \<open>size_t\<close>.\<close>

definition content_length :: "HttpRequest \<Rightarrow> nat" where
  "content_length rq =
     (case smap_find ''Content-Length'' (rq_headers rq) of
        None \<Rightarrow> 0
      | Some v \<Rightarrow> unat (word_of_int (atoi v) :: u64))"

definition st_headers :: stage where
  "st_headers cfg c io =
     (if cn_state c \<noteq> ReceivingHeaders then (Next, c, io)
      else let e = head_end (cn_receiveBuffer c);
               headersLen = (case e of Some (ofs, _) \<Rightarrow> ofs | None \<Rightarrow> length (cn_receiveBuffer c))
           in if headersLen > sc_maxHeaders cfg then (Again, refuse 431 c, io)
              else case e of
                     None \<Rightarrow> (Return, c, io)
                   | Some (ofs, len) \<Rightarrow>
                       (case parseHeaders (cn_receiveBuffer c) (cn_request c) of
                          (False, rq) \<Rightarrow> (Again, refuse 400 (c\<lparr>cn_request := rq\<rparr>), io)
                        | (True, rq) \<Rightarrow>
                            let c1 = c\<lparr>cn_request := rq, cn_receiveBuffer := drop (ofs + len) (cn_receiveBuffer c),
                                       cn_keepalive := wants_keepalive rq, cn_contentLength := content_length rq\<rparr>
                            in if cn_contentLength c1 > sc_maxContent cfg then (Again, refuse 413 c1, io)
                               else case smap_find ''Expect'' (rq_headers rq) of
                                      Some v \<Rightarrow>
                                        if rq_protocol rq = ''HTTP/1.1''
                                        then if \<not> equalsLowercased v ''100-continue'' then (Again, refuse 417 c1, io)
                                             else (Again, c1\<lparr>cn_sendBuffer := ''HTTP/1.1 100 Continue'' @ CRLF @ CRLF,
                                                             cn_state := Sending100Continue\<rparr>, io)
                                        else (Next, c1\<lparr>cn_state := ReceivingBody\<rparr>, io)
                                    | None \<Rightarrow> (Next, c1\<lparr>cn_state := ReceivingBody\<rparr>, io)))"

text \<open>A stage that sends the buffer and then goes on with \<open>k\<close>.\<close>

definition sending :: "conn_state \<Rightarrow> (Connection \<Rightarrow> server_io \<Rightarrow> flow \<times> Connection \<times> server_io) \<Rightarrow> Connection \<Rightarrow> server_io
    \<Rightarrow> flow \<times> Connection \<times> server_io" where
  "sending st k c io =
     (if cn_state c \<noteq> st then (Next, c, io)
      else case sendMore c io of (True, c', io') \<Rightarrow> (Return, c', io') | (False, c', io') \<Rightarrow> k c' io')"

definition st_continue :: stage where
  "st_continue cfg = sending Sending100Continue (\<lambda>c io. (Next, c\<lparr>cn_state := ReceivingBody\<rparr>, io))"

definition st_body :: stage where
  "st_body cfg c io =
     (if cn_state c \<noteq> ReceivingBody then (Next, c, io)
      else if length (cn_receiveBuffer c) < cn_contentLength c then (Return, c, io)
      else (Next, c\<lparr>cn_request := (cn_request c)\<lparr>rq_content := take (cn_contentLength c) (cn_receiveBuffer c)\<rparr>,
                    cn_receiveBuffer := drop (cn_contentLength c) (cn_receiveBuffer c), cn_state := Processing\<rparr>, io))"

definition st_process :: stage where
  "st_process cfg c io =
     (if cn_state c \<noteq> Processing then (Next, c, io)
      else case processRequest cfg c io of
             Inl e \<Rightarrow> (Undefined e, c, io)
           | Inr (c', io') \<Rightarrow>
               (Next, c'\<lparr>cn_sendBuffer := response_head (rq_protocol (cn_request c')) (cn_response c'), cn_state := SendingHeaders\<rparr>, io'))"

definition st_send_headers :: stage where
  "st_send_headers cfg = sending SendingHeaders (\<lambda>c io.
     (Next, c\<lparr>cn_sendBuffer := rs_body (cn_response c), cn_response := (cn_response c)\<lparr>rs_body := []\<rparr>, cn_state := SendingBody\<rparr>, io))"

definition st_send_body :: stage where
  "st_send_body cfg = sending SendingBody (\<lambda>c io.
     let c1 = c\<lparr>cn_keepalive := cn_keepalive c \<and> sc_allowKeepalive cfg\<rparr>
     in if cn_keepalive c1
        then let io1 = io_addSocket (cn_socket c) (Readable OR Closed) io;
                 c2 = c1\<lparr>cn_state := Idle\<rparr>
             in (if cn_receiveBuffer c2 = [] then Return else Next, c2, io1)
        else (Next, c1\<lparr>cn_state := Closing\<rparr>, io_addSocket (cn_socket c) Closed (record_event (Io_shutdown (cn_socket c)) io)))"

definition st_closing :: stage where
  "st_closing cfg c io = (if cn_state c = Closing then (Return, c, io) else (Next, c, io))"

fun run_stages :: "stage list \<Rightarrow> stage" where
  "run_stages [] cfg c io = (Next, c, io)"
| "run_stages (f # fs) cfg c io = (case f cfg c io of (Next, c', io') \<Rightarrow> run_stages fs cfg c' io' | r \<Rightarrow> r)"

definition loop_body :: stage where
  "loop_body = run_stages
     [st_idle, st_headers, st_continue, st_body, st_process, st_send_headers, st_send_body, st_closing]"

subsection \<open>The loop\<close>

text \<open>Each round either shortens the receive buffer or moves towards the end of a request that is not kept alive.\<close>

definition conn_rank :: "Connection \<Rightarrow> nat" where
  "conn_rank c = (case cn_state c of Idle \<Rightarrow> 1 | ReceivingHeaders \<Rightarrow> 1 | Closing \<Rightarrow> 0 | _ \<Rightarrow> if cn_keepalive c then 2 else 0)"

fun state_index :: "conn_state \<Rightarrow> nat" where
  "state_index Idle = 0"
| "state_index ReceivingHeaders = 1"
| "state_index Sending100Continue = 2"
| "state_index ReceivingBody = 3"
| "state_index Processing = 4"
| "state_index SendingHeaders = 5"
| "state_index SendingBody = 6"
| "state_index Closing = 7"

definition late :: "nat \<Rightarrow> Connection \<Rightarrow> Connection \<Rightarrow> bool" where
  "late n c c' \<longleftrightarrow> n \<le> state_index (cn_state c') \<and> cn_keepalive c' = cn_keepalive c \<and>
     length (cn_receiveBuffer c') \<le> length (cn_receiveBuffer c)"

lemma head_end_bound: "head_end buf = Some (ofs, len) \<Longrightarrow> 2 \<le> len \<and> ofs + len \<le> length buf"
  by (auto simp: head_end_def split: option.splits dest: find_str_bounds)

lemma sendMore_keeps:
  assumes "sendMore c io = (b, c', io')"
  shows "cn_state c' = cn_state c" "cn_keepalive c' = cn_keepalive c" "cn_receiveBuffer c' = cn_receiveBuffer c"
    "cn_socket c' = cn_socket c" "cn_request c' = cn_request c" "cn_response c' = cn_response c"
    "cn_contentLength c' = cn_contentLength c"
  using assms by (auto simp: sendMore_def Let_def split: if_splits send_result.splits)

lemma processRequest_keeps:
  assumes "processRequest cfg c io = Inr (c', io')"
  shows "cn_state c' = cn_state c" "cn_keepalive c' = cn_keepalive c" "cn_receiveBuffer c' = cn_receiveBuffer c"
    "cn_socket c' = cn_socket c" "cn_request c' = cn_request c" "cn_contentLength c' = cn_contentLength c"
  using assms by (auto simp: processRequest_def Let_def split: if_splits sum.splits prod.splits)

lemma st_headers_flow:
  assumes "st_headers cfg c io = (f, c', io')" and "cn_state c = ReceivingHeaders"
  obtains "f = Return" "c' = c" "head_end (cn_receiveBuffer c) = None" "length (cn_receiveBuffer c) \<le> sc_maxHeaders cfg"
  | "f = Again" "cn_state c' = Processing" "\<not> cn_keepalive c'" "length (cn_receiveBuffer c') \<le> length (cn_receiveBuffer c)"
      "rs_code (cn_response c') \<noteq> 0"
  | "f = Again" "cn_state c' = Sending100Continue" "length (cn_receiveBuffer c') < length (cn_receiveBuffer c)"
      "cn_contentLength c' \<le> sc_maxContent cfg" "cn_sendBuffer c' \<noteq> []"
  | "f = Next" "cn_state c' = ReceivingBody" "length (cn_receiveBuffer c') < length (cn_receiveBuffer c)"
      "cn_contentLength c' \<le> sc_maxContent cfg"
proof (cases "head_end (cn_receiveBuffer c)")
  case None
  then show ?thesis using assms that(1,2) by (auto simp: st_headers_def refuse_def split: if_splits)
next
  case (Some e)
  obtain ofs len where e: "e = (ofs, len)" by (cases e)
  have b: "2 \<le> len" "ofs + len \<le> length (cn_receiveBuffer c)" using head_end_bound Some e by auto
  obtain ok rq where p: "parseHeaders (cn_receiveBuffer c) (cn_request c) = (ok, rq)" by fastforce
  show ?thesis
  proof (cases "ofs > sc_maxHeaders cfg \<or> \<not> ok")
    case True
    then show ?thesis using assms Some e p that(2) by (auto simp: st_headers_def refuse_def split: if_splits bool.splits)
  next
    case False
    then show ?thesis using assms Some e p b that
      by (auto simp: st_headers_def refuse_def Let_def split: if_splits option.splits)
  qed
qed

lemma sending_flow:
  assumes "sending st k c io = (f, c', io')" and "cn_state c = st"
  obtains c1 io1 where "sendMore c io = (True, c1, io1)" "f = Return" "c' = c1" "io' = io1"
  | c1 io1 where "sendMore c io = (False, c1, io1)" "k c1 io1 = (f, c', io')"
  using assms by (auto simp: sending_def split: prod.splits bool.splits)

text \<open>A stage after the headers handles one state: it does not repeat the loop, and if it goes on it has left its state.\<close>

definition goes_on :: "nat \<Rightarrow> Connection \<Rightarrow> flow \<Rightarrow> Connection \<Rightarrow> bool" where
  "goes_on n c0 fl c' \<longleftrightarrow> fl \<noteq> Again \<and> (fl = Next \<longrightarrow> late (n + 1) c0 c')"

lemma other_state: "late (state_index st) c0 c \<Longrightarrow> cn_state c \<noteq> st \<Longrightarrow> late (state_index st + 1) c0 c"
  by (cases st; cases "cn_state c") (auto simp: late_def)

lemma sending_goes_on:
  assumes "late (state_index st) c0 c" and "sending st k c io = (fl, c', io')"
    and k: "\<And>c1 io1. late (state_index st) c0 c1 \<Longrightarrow> k c1 io1 = (fl, c', io') \<Longrightarrow> goes_on (state_index st) c0 fl c'"
  shows "goes_on (state_index st) c0 fl c'"
proof (cases "cn_state c = st")
  case True
  from assms(2) True show ?thesis
  proof (cases rule: sending_flow)
    case (2 c1 io1)
    have "late (state_index st) c0 c1" using assms(1) sendMore_keeps [OF 2(1)] by (simp add: late_def)
    then show ?thesis using 2(2) by (rule k)
  qed (simp add: goes_on_def)
next
  case False
  then show ?thesis using assms(1,2) other_state [OF assms(1) False] by (auto simp: sending_def goes_on_def)
qed

lemma st_continue_goes_on: "late 2 c0 c \<Longrightarrow> st_continue cfg c io = (fl, c', io') \<Longrightarrow> goes_on 2 c0 fl c'"
  using sending_goes_on [of Sending100Continue c0 c] by (fastforce simp: st_continue_def goes_on_def late_def)

lemma st_send_headers_goes_on: "late 5 c0 c \<Longrightarrow> st_send_headers cfg c io = (fl, c', io') \<Longrightarrow> goes_on 5 c0 fl c'"
  using sending_goes_on [of SendingHeaders c0 c] by (fastforce simp: st_send_headers_def goes_on_def late_def)

lemma st_body_goes_on: "late 3 c0 c \<Longrightarrow> st_body cfg c io = (fl, c', io') \<Longrightarrow> goes_on 3 c0 fl c'"
  using other_state [of ReceivingBody c0 c] by (auto simp: st_body_def goes_on_def late_def split: if_splits)

lemma st_process_goes_on:
  assumes "late 4 c0 c" and "st_process cfg c io = (fl, c', io')"
  shows "goes_on 4 c0 fl c'"
proof (cases "cn_state c = Processing")
  case True
  show ?thesis
  proof (cases "processRequest cfg c io")
    case (Inl e)
    then show ?thesis using assms True by (auto simp: st_process_def goes_on_def)
  next
    case (Inr r)
    obtain c1 io1 where r: "r = (c1, io1)" by (cases r)
    show ?thesis using assms True Inr r processRequest_keeps [OF Inr [unfolded r]]
      by (auto simp: st_process_def goes_on_def late_def)
  qed
next
  case False
  then show ?thesis using assms other_state [of Processing c0 c] by (auto simp: st_process_def goes_on_def)
qed

lemma st_send_body_flow:
  assumes "st_send_body cfg c io = (fl, c', io')" and "late 6 c0 c"
  shows "fl = Return \<or> fl = Next \<and> cn_state c' = Closing \<or>
    fl = Next \<and> cn_state c' = Idle \<and> cn_keepalive c0 \<and> length (cn_receiveBuffer c') \<le> length (cn_receiveBuffer c0)"
proof (cases "cn_state c = SendingBody")
  case True
  from assms(1) [unfolded st_send_body_def] True show ?thesis
  proof (cases rule: sending_flow)
    case (2 c1 io1)
    then show ?thesis using assms(2) sendMore_keeps [OF 2(1)] by (auto simp: late_def Let_def split: if_splits)
  qed simp
next
  case False
  then have "cn_state c = Closing" using assms(2) by (cases "cn_state c") (auto simp: late_def)
  then show ?thesis using assms by (auto simp: st_send_body_def sending_def)
qed

text \<open>The rest of the loop after the headers.\<close>

definition rest_body :: stage where
  "rest_body = run_stages [st_continue, st_body, st_process, st_send_headers, st_send_body, st_closing]"

lemma run_stages_Cons:
  assumes "run_stages (f # fs) cfg c io = (fl, c', io')"
  obtains "f cfg c io = (fl, c', io')" "fl \<noteq> Next"
  | c1 io1 where "f cfg c io = (Next, c1, io1)" "run_stages fs cfg c1 io1 = (fl, c', io')"
  using assms by (cases "f cfg c io"; cases "fst (f cfg c io)") auto

lemma run_stages_step:
  assumes "run_stages (f # fs) cfg c io = (fl, c', io')"
    and "\<And>fl1 c1 io1. f cfg c io = (fl1, c1, io1) \<Longrightarrow> goes_on n c0 fl1 c1"
    and "\<And>c1 io1. late (n + 1) c0 c1 \<Longrightarrow> run_stages fs cfg c1 io1 = (fl, c', io') \<Longrightarrow> Q"
    and "fl \<noteq> Next \<Longrightarrow> fl \<noteq> Again \<Longrightarrow> Q"
  shows Q
  using assms(1)
proof (cases rule: run_stages_Cons)
  case 1
  then show ?thesis using assms(2) [OF 1(1)] assms(4) by (simp add: goes_on_def)
next
  case (2 c1 io1)
  then show ?thesis using assms(2) [OF 2(1)] assms(3) by (simp add: goes_on_def)
qed

lemma rest_body_flow:
  assumes "rest_body cfg c io = (fl, c', io')" and "late 2 c0 c"
  shows "fl \<noteq> Again \<and> (fl = Next \<longrightarrow> cn_state c' = Idle \<and> cn_keepalive c0 \<and> length (cn_receiveBuffer c') \<le> length (cn_receiveBuffer c0))"
    (is ?Q)
  using assms(1) [unfolded rest_body_def]
proof (rule run_stages_step [where n = 2 and ?c0.0 = c0], goal_cases)
  case (2 c1 io1)
  from 2(2) show ?Q
  proof (rule run_stages_step [where n = 3 and ?c0.0 = c0], goal_cases)
    case (2 c2 io2)
    from 2(2) show ?Q
    proof (rule run_stages_step [where n = 4 and ?c0.0 = c0], goal_cases)
      case (2 c3 io3)
      from 2(2) show ?Q
      proof (rule run_stages_step [where n = 5 and ?c0.0 = c0], goal_cases)
        case (2 c4 io4)
        obtain fl5 c5 io5 where f: "st_send_body cfg c4 io4 = (fl5, c5, io5)" by (cases "st_send_body cfg c4 io4") auto
        have "late 6 c0 c4" using 2(1) by simp
        from st_send_body_flow [OF f this] show ?Q using 2(2) f by (auto simp: st_closing_def)
      qed (use 2 in \<open>auto intro: st_send_headers_goes_on\<close>)
    qed (use 2 in \<open>auto intro: st_process_goes_on\<close>)
  qed (use 2 in \<open>auto intro: st_body_goes_on\<close>)
qed (use assms(2) in \<open>auto intro: st_continue_goes_on\<close>)

lemma loop_body_eq:
  "loop_body cfg c io = (case st_idle cfg c io of (_, c1, io1) \<Rightarrow>
     (case st_headers cfg c1 io1 of (Next, c2, io2) \<Rightarrow> rest_body cfg c2 io2 | r \<Rightarrow> r))"
  by (simp add: loop_body_def rest_body_def st_idle_def split: prod.split flow.split)

lemma loop_body_measure:
  assumes "loop_body cfg c io = (fl, c', io')" and "fl = Next \<or> fl = Again"
  shows "length (cn_receiveBuffer c') < length (cn_receiveBuffer c) \<or>
    length (cn_receiveBuffer c') = length (cn_receiveBuffer c) \<and> conn_rank c' < conn_rank c"
proof (cases "cn_state c = Idle \<or> cn_state c = ReceivingHeaders")
  case True
  define c1 where "c1 = (if cn_state c = Idle then c\<lparr>cn_response := (cn_response c)\<lparr>rs_code := 0\<rparr>, cn_state := ReceivingHeaders\<rparr> else c)"
  have c1: "cn_state c1 = ReceivingHeaders" "cn_receiveBuffer c1 = cn_receiveBuffer c" "conn_rank c = 1"
    using True by (auto simp: c1_def conn_rank_def)
  have i: "st_idle cfg c io = (Next, c1, io)" by (simp add: st_idle_def c1_def)
  obtain f2 c2 io2 where h: "st_headers cfg c1 io = (f2, c2, io2)" by (cases "st_headers cfg c1 io") auto
  from h c1(1) show ?thesis
  proof (cases rule: st_headers_flow)
    case 4
    have "late 2 c2 c2" using 4 by (simp add: late_def)
    then have "fl = Next \<Longrightarrow> length (cn_receiveBuffer c') \<le> length (cn_receiveBuffer c2)" "fl \<noteq> Again"
      using rest_body_flow [of cfg c2 io2 fl c' io' c2] assms(1) i h 4 by (simp_all add: loop_body_eq)
    then show ?thesis using assms(2) 4 c1(2) by auto
  qed (use assms i h c1 in \<open>auto simp: loop_body_eq conn_rank_def\<close>)
next
  case False
  then have l: "late 2 c c" by (cases "cn_state c") (auto simp: late_def)
  have "st_idle cfg c io = (Next, c, io)" "st_headers cfg c io = (Next, c, io)" using False by (auto simp: st_idle_def st_headers_def)
  then have r: "rest_body cfg c io = (fl, c', io')" using assms(1) by (simp add: loop_body_eq)
  show ?thesis
  proof (cases "cn_state c = Closing")
    case True
    then have "fl = Return" using r
      by (auto simp: rest_body_def st_continue_def st_body_def st_process_def st_send_headers_def st_send_body_def sending_def st_closing_def)
    then show ?thesis using assms(2) by simp
  next
    case nc: False
    have "fl = Next" "cn_state c' = Idle" "cn_keepalive c" "length (cn_receiveBuffer c') \<le> length (cn_receiveBuffer c)"
      using rest_body_flow [OF r l] assms(2) by auto
    then show ?thesis using False nc by (cases "cn_state c") (auto simp: conn_rank_def)
  qed
qed

text \<open>The loop: it returns, or meets undefined behaviour.\<close>

function handleConnection :: "server_config \<Rightarrow> Connection \<Rightarrow> server_io \<Rightarrow> srv_error + Connection \<times> server_io" where
  "handleConnection cfg c io =
     (case loop_body cfg c io of
        (Return, c', io') \<Rightarrow> Inr (c', io')
      | (Undefined e, c', io') \<Rightarrow> Inl e
      | (Next, c', io') \<Rightarrow> handleConnection cfg c' io'
      | (Again, c', io') \<Rightarrow> handleConnection cfg c' io')"
  by pat_completeness auto
termination
  by (relation "measures [\<lambda>(cfg, c, io). length (cn_receiveBuffer c), \<lambda>(cfg, c, io). conn_rank c]")
    (auto dest: loop_body_measure [OF sym])

declare handleConnection.simps [simp del]

subsection \<open>Facts about every stage\<close>

abbreviation "all_stages \<equiv> [st_idle, st_headers, st_continue, st_body, st_process, st_send_headers, st_send_body, st_closing]"

lemma run_stages_rule:
  assumes "\<And>f c io fl c' io'. f \<in> set fs \<Longrightarrow> P c io \<Longrightarrow> f cfg c io = (fl, c', io') \<Longrightarrow> P c' io' \<and> (fl = Return \<longrightarrow> Q c' io')"
    and "P c io" and "run_stages fs cfg c io = (fl, c', io')"
  shows "P c' io' \<and> (fl = Return \<longrightarrow> Q c' io')"
  using assms
proof (induction fs arbitrary: c io)
  case (Cons f fs)
  from Cons.prems(3) show ?case
  proof (cases rule: run_stages_Cons)
    case 1
    then show ?thesis using Cons.prems(1) [of f c io fl c' io'] Cons.prems(2) by simp
  next
    case (2 c1 io1)
    then have "P c1 io1" using Cons.prems(1) [of f c io] Cons.prems(2) by fastforce
    moreover have "P c' io' \<and> (fl = Return \<longrightarrow> Q c' io')"
      if "f \<in> set fs" "P c io" "f cfg c io = (fl, c', io')" for f c io fl c' io'
      using Cons.prems(1) [of f c io fl c' io'] that by simp
    ultimately show ?thesis using Cons.IH 2(2) by blast
  qed
qed simp

text \<open>A property of connection and outside that every stage keeps is kept by the loop, and what every returning stage
  establishes holds at the end.\<close>

lemma handleConnection_rule:
  assumes stages: "\<And>f c io fl c' io'. f \<in> set all_stages \<Longrightarrow> P c io \<Longrightarrow> f cfg c io = (fl, c', io') \<Longrightarrow>
      P c' io' \<and> (fl = Return \<longrightarrow> Q c' io')"
    and "P c io" and "handleConnection cfg c io = Inr (c', io')"
  shows "P c' io' \<and> Q c' io'"
  using assms
proof (induction cfg c io rule: handleConnection.induct)
  case (1 cfg c io)
  obtain fl c1 io1 where l: "loop_body cfg c io = (fl, c1, io1)" by (cases "loop_body cfg c io") auto
  have r: "P c1 io1 \<and> (fl = Return \<longrightarrow> Q c1 io1)"
    using run_stages_rule [where P = P and Q = Q, OF 1(3) 1(4) l [unfolded loop_body_def]] .
  show ?case
  proof (cases fl)
    case Next
    then show ?thesis using 1(1) [OF l [symmetric] _ refl] 1(3,5) r l by (simp add: handleConnection.simps [of cfg c])
  next
    case Again
    then show ?thesis using 1(2) [OF l [symmetric] _ refl] 1(3,5) r l by (simp add: handleConnection.simps [of cfg c])
  qed (use 1(5) r l in \<open>simp_all add: handleConnection.simps [of cfg c]\<close>)
qed

text \<open>When the loop returns there is nothing left to do: it waits for bytes that have not come, for room to send, or
  for the peer to close.\<close>

definition waiting :: "server_config \<Rightarrow> Connection \<Rightarrow> bool" where
  "waiting cfg c =
     (case cn_state c of
        Idle \<Rightarrow> cn_receiveBuffer c = []
      | ReceivingHeaders \<Rightarrow> head_end (cn_receiveBuffer c) = None \<and> length (cn_receiveBuffer c) \<le> sc_maxHeaders cfg
      | Sending100Continue \<Rightarrow> cn_sendBuffer c \<noteq> []
      | ReceivingBody \<Rightarrow> length (cn_receiveBuffer c) < cn_contentLength c
      | Processing \<Rightarrow> False
      | SendingHeaders \<Rightarrow> cn_sendBuffer c \<noteq> []
      | SendingBody \<Rightarrow> cn_sendBuffer c \<noteq> []
      | Closing \<Rightarrow> True)"

lemma sendMore_True: "sendMore c io = (True, c', io') \<Longrightarrow> cn_sendBuffer c' \<noteq> []"
  by (auto simp: sendMore_def Let_def split: if_splits send_result.splits)

lemma sendMore_False: "sendMore c io = (False, c', io') \<Longrightarrow> cn_sendBuffer c' = []"
  by (auto simp: sendMore_def Let_def split: if_splits send_result.splits)

lemma sending_Return:
  assumes "sending st k c io = (Return, c', io')"
    and "\<And>c1 io1. cn_state c1 = st \<Longrightarrow> k c1 io1 = (Return, c', io') \<Longrightarrow> waiting cfg c'"
    and "st \<in> {Sending100Continue, SendingHeaders, SendingBody}"
  shows "waiting cfg c'"
proof (cases "cn_state c = st")
  case True
  from assms(1) True show ?thesis
  proof (cases rule: sending_flow)
    case (1 c1 io1)
    then show ?thesis using assms(3) True sendMore_keeps(1) [OF 1(1)] sendMore_True [OF 1(1)] by (auto simp: waiting_def)
  next
    case (2 c1 io1)
    then show ?thesis using assms(2) [of c1 io1] True sendMore_keeps(1) [OF 2(1)] by simp
  qed
qed (use assms(1) in \<open>simp add: sending_def\<close>)

lemma stage_Return:
  assumes "f \<in> set all_stages" and f: "f cfg c io = (Return, c', io')"
  shows "waiting cfg c'"
proof -
  consider "f = st_idle" | "f = st_headers" | "f = st_continue" | "f = st_body" | "f = st_process" | "f = st_send_headers"
    | "f = st_send_body" | "f = st_closing" using assms(1) by auto
  then show ?thesis
  proof cases
    case 2
    show ?thesis
    proof (cases "cn_state c = ReceivingHeaders")
      case True
      from f [unfolded 2] True show ?thesis by (cases rule: st_headers_flow) (auto simp: waiting_def True)
    qed (use f 2 in \<open>simp add: st_headers_def\<close>)
  next
    case 3
    from f [unfolded 3 st_continue_def] show ?thesis by (rule sending_Return) auto
  next
    case 6
    from f [unfolded 6 st_send_headers_def] show ?thesis by (rule sending_Return) auto
  next
    case 7
    from f [unfolded 7 st_send_body_def] show ?thesis
      by (rule sending_Return) (auto simp: waiting_def Let_def split: if_splits)
  qed (use f in \<open>auto simp: st_idle_def st_body_def st_process_def st_closing_def waiting_def split: if_splits sum.splits prod.splits\<close>)
qed

lemma handleConnection_waiting: "handleConnection cfg c io = Inr (c', io') \<Longrightarrow> waiting cfg c'"
  using handleConnection_rule [where P = "\<lambda>_ _. True" and Q = "\<lambda>c _. waiting cfg c" and cfg = cfg] stage_Return by blast

subsection \<open>The invariant of a connection\<close>

text \<open>What the reactor watches for in a state: reading while a request is awaited, only the end once the server has closed its
  side, and reading or writing in between.\<close>

definition flags_fit :: "conn_state \<Rightarrow> int \<Rightarrow> bool" where
  "flags_fit st f =
     (case st of
        Idle \<Rightarrow> f = (Readable OR Closed)
      | ReceivingHeaders \<Rightarrow> f = (Readable OR Closed)
      | Closing \<Rightarrow> f = Closed
      | _ \<Rightarrow> f = (Readable OR Closed) \<or> f = (Writable OR Closed))"

text \<open>The limits are kept, the headers are a proper map, and there is something to send only in the states that send.\<close>

definition sending_states :: "conn_state set" where
  "sending_states = {Sending100Continue, SendingHeaders, SendingBody}"

definition conn_ok :: "server_config \<Rightarrow> Connection \<Rightarrow> bool" where
  "conn_ok cfg c \<longleftrightarrow> length (rq_content (cn_request c)) \<le> sc_maxContent cfg \<and> smap_ok (rq_headers (cn_request c)) \<and>
     (cn_state c = Sending100Continue \<or> cn_state c = ReceivingBody \<longrightarrow> cn_contentLength c \<le> sc_maxContent cfg) \<and>
     (cn_sendBuffer c \<noteq> [] \<longrightarrow> cn_state c \<in> sending_states)"

definition conn_inv :: "server_config \<Rightarrow> server_io \<Rightarrow> fd \<Rightarrow> Connection \<Rightarrow> server_io \<Rightarrow> bool" where
  "conn_inv cfg io0 s c io \<longleftrightarrow> cn_socket c = s \<and> io_env io = io_env io0 \<and> reactor_ok (io_reactor io) \<and>
     (\<forall>x. x \<noteq> s \<longrightarrow> flags_of (io_reactor io) x = flags_of (io_reactor io0) x) \<and>
     (\<exists>f. flags_of (io_reactor io) s = Some f \<and> flags_fit (cn_state c) f) \<and> conn_ok cfg c"

lemma reactor_flag_facts [simp]: "(Readable OR Closed) \<noteq> 0" "(Writable OR Closed) \<noteq> 0" "Closed \<noteq> 0"
  by (simp_all add: reactor_bits)

lemma io_simps [simp]:
  "io_reactor (tick io) = io_reactor io" "io_env (tick io) = io_env io" "io_trace (tick io) = io_trace io"
  "io_reactor (record_event e io) = io_reactor io" "io_env (record_event e io) = io_env io"
  "io_calls (record_event e io) = io_calls io" "io_trace (record_event e io) = io_trace io @ [e]"
  "io_reactor (io_addSocket s f io) = addSocket s f (io_reactor io)" "io_env (io_addSocket s f io) = io_env io"
  "io_trace (io_addSocket s f io) = io_trace io" "io_calls (tick io) = io_calls io + 1"
  by (simp_all add: tick_def record_event_def io_addSocket_def)

lemma conn_inv_cong:
  assumes "conn_inv cfg io0 s c io" and "cn_socket c' = cn_socket c" "io_env io' = io_env io" "io_reactor io' = io_reactor io"
    "conn_ok cfg c'" "\<And>f. flags_fit (cn_state c) f \<Longrightarrow> flags_fit (cn_state c') f"
  shows "conn_inv cfg io0 s c' io'"
  using assms by (auto simp: conn_inv_def)

lemma conn_inv_add:
  assumes "conn_inv cfg io0 s c io" and "cn_socket c' = cn_socket c" "io_env io' = io_env io"
    "io_reactor io' = addSocket s f (io_reactor io)" "f \<noteq> 0" "conn_ok cfg c'" "flags_fit (cn_state c') f"
  shows "conn_inv cfg io0 s c' io'"
  using assms addSocket_ok [of "io_reactor io" f s] by (auto simp: conn_inv_def)

lemma sendMore_inv:
  assumes inv: "conn_inv cfg io0 s c io" and "sendMore c io = (b, c', io')"
    and st: "cn_state c \<in> sending_states"
  shows "conn_inv cfg io0 s c' io'"
proof -
  have s: "cn_socket c = s" "conn_ok cfg c" using inv by (simp_all add: conn_inv_def)
  note k = sendMore_keeps [OF assms(2)]
  have sz: "conn_ok cfg c'" using s(2) k st by (simp add: conn_ok_def)
  have "io_env io' = io_env io \<and> (io_reactor io' = io_reactor io \<or> io_reactor io' = addSocket s (Writable OR Closed) (io_reactor io))"
    using assms(2) s(1) by (auto simp: sendMore_def Let_def split: if_splits send_result.splits)
  then show ?thesis
    using conn_inv_cong [OF inv k(4), of io'] conn_inv_add [OF inv k(4), of io' "Writable OR Closed"] sz k(1) st
    by (auto simp: flags_fit_def sending_states_def)
qed

lemma parseHeaders_keeps:
  assumes "parseHeaders buf rq = (ok, rq')" and "smap_ok (rq_headers rq)"
  shows "rq_content rq' = rq_content rq" "smap_ok (rq_headers rq')"
proof -
  have "smap_ok (snd (parse_header_lines p []))" for p by (rule parse_header_lines_ok) (simp add: smap_ok_def)
  then have "rq_content rq' = rq_content rq \<and> smap_ok (rq_headers rq')"
    using assms by (auto simp: parseHeaders_def Let_def split: if_splits option.splits prod.splits) (metis snd_conv)+
  then show "rq_content rq' = rq_content rq" "smap_ok (rq_headers rq')" by simp_all
qed

lemma st_headers_inv:
  assumes inv: "conn_inv cfg io0 s c io" and h: "st_headers cfg c io = (fl, c', io')" and st: "cn_state c = ReceivingHeaders"
  shows "conn_inv cfg io0 s c' io'"
proof -
  have sz: "conn_ok cfg c" using inv by (simp add: conn_inv_def)
  obtain ok rq where p: "parseHeaders (cn_receiveBuffer c) (cn_request c) = (ok, rq)" by fastforce
  have "smap_ok (rq_headers (cn_request c))" using sz by (simp add: conn_ok_def)
  note rq = parseHeaders_keeps [OF p this]
  have "cn_sendBuffer c = []" using sz st by (auto simp: conn_ok_def sending_states_def)
  then have "io' = io \<and> cn_socket c' = cn_socket c \<and> (cn_request c' = cn_request c \<or> cn_request c' = rq) \<and>
      (cn_sendBuffer c' \<noteq> [] \<longrightarrow> cn_state c' = Sending100Continue)"
    using h st p by (auto simp: st_headers_def refuse_def Let_def split: if_splits option.splits prod.splits bool.splits)
  moreover have "flags_fit ReceivingHeaders f \<Longrightarrow> flags_fit (cn_state c') f \<and>
      (cn_state c' = Sending100Continue \<or> cn_state c' = ReceivingBody \<longrightarrow> cn_contentLength c' \<le> sc_maxContent cfg)" for f
    using h st by (cases rule: st_headers_flow) (auto simp: flags_fit_def st)
  moreover obtain f where "flags_fit ReceivingHeaders f" using inv st by (auto simp: conn_inv_def)
  ultimately show ?thesis
    using sz rq by (intro conn_inv_cong [OF inv]) (auto simp: conn_ok_def st sending_states_def)
qed

lemma sending_inv:
  assumes inv: "conn_inv cfg io0 s c io" and f: "sending st k c io = (fl, c', io')"
    and st: "st \<in> sending_states"
    and k: "\<And>c1 io1. conn_inv cfg io0 s c1 io1 \<Longrightarrow> conn_ok cfg c1 \<Longrightarrow> cn_socket c1 = s \<Longrightarrow> cn_state c1 = st \<Longrightarrow> cn_sendBuffer c1 = [] \<Longrightarrow>
      k c1 io1 = (fl, c', io') \<Longrightarrow> conn_inv cfg io0 s c' io'"
  shows "conn_inv cfg io0 s c' io'"
proof (cases "cn_state c = st")
  case True
  from f True show ?thesis
  proof (cases rule: sending_flow)
    case (1 c1 io1)
    then show ?thesis using sendMore_inv [OF inv 1(1)] True st by simp
  next
    case (2 c1 io1)
    have "conn_inv cfg io0 s c1 io1" using sendMore_inv [OF inv 2(1)] True st by simp
    then show ?thesis using 2(2) k [of c1 io1] True sendMore_keeps(1) [OF 2(1)] sendMore_False [OF 2(1)] by (simp add: conn_inv_def)
  qed
qed (use f inv in \<open>simp add: sending_def\<close>)

lemma st_process_inv:
  assumes inv: "conn_inv cfg io0 s c io" and f: "st_process cfg c io = (fl, c', io')"
  shows "conn_inv cfg io0 s c' io'"
proof (cases "cn_state c = Processing")
  case True
  show ?thesis
  proof (cases "processRequest cfg c io")
    case (Inl e)
    then show ?thesis using f inv True by (simp add: st_process_def)
  next
    case (Inr r)
    obtain c1 io1 where r: "r = (c1, io1)" by (cases r)
    note k = processRequest_keeps [OF Inr [unfolded r]]
    have "io_reactor io1 = io_reactor io" "io_env io1 = io_env io"
      using Inr r by (auto simp: processRequest_def Let_def split: if_splits sum.splits prod.splits)
    then show ?thesis using f True Inr r k inv
      by (intro conn_inv_cong [OF inv]) (auto simp: st_process_def conn_inv_def conn_ok_def flags_fit_def sending_states_def)
  qed
qed (use f inv in \<open>simp add: st_process_def\<close>)

lemma stage_inv:
  assumes inv: "conn_inv cfg io0 s c io" and "f \<in> set all_stages" and f: "f cfg c io = (fl, c', io')"
  shows "conn_inv cfg io0 s c' io'"
proof -
  have sz: "conn_ok cfg c" and s: "cn_socket c = s" using inv by (simp_all add: conn_inv_def)
  consider "f = st_idle" | "f = st_headers" | "f = st_continue" | "f = st_body" | "f = st_process" | "f = st_send_headers"
    | "f = st_send_body" | "f = st_closing" using assms(2) by auto
  then show ?thesis
  proof cases
    case 1
    then show ?thesis using f inv sz conn_inv_cong [OF inv, of c' io] by (auto simp: st_idle_def conn_ok_def flags_fit_def sending_states_def split: if_splits)
  next
    case 2
    then show ?thesis using f inv st_headers_inv [OF inv] by (cases "cn_state c = ReceivingHeaders") (auto simp: st_headers_def)
  next
    case 3
    from f [unfolded 3 st_continue_def] show ?thesis
    proof (rule sending_inv [OF inv])
      fix c1 io1
      assume i: "conn_inv cfg io0 s c1 io1" "conn_ok cfg c1" "cn_state c1 = Sending100Continue" "cn_sendBuffer c1 = []" and k: "(Next, c1\<lparr>cn_state := ReceivingBody\<rparr>, io1) = (fl, c', io')"
      show "conn_inv cfg io0 s c' io'"
        using k i(2-4) by (intro conn_inv_cong [OF i(1)]) (auto simp: conn_ok_def flags_fit_def sending_states_def)
    qed (simp add: sending_states_def)
  next
    case 4
    then show ?thesis using f inv sz conn_inv_cong [OF inv, of c' io]
      by (auto simp: st_body_def conn_ok_def flags_fit_def sending_states_def split: if_splits)
  next
    case 5
    then show ?thesis using f st_process_inv [OF inv] by simp
  next
    case 6
    from f [unfolded 6 st_send_headers_def] show ?thesis
    proof (rule sending_inv [OF inv])
      fix c1 io1
      assume i: "conn_inv cfg io0 s c1 io1" "conn_ok cfg c1" "cn_state c1 = SendingHeaders" "cn_sendBuffer c1 = []" and k: "(Next, c1\<lparr>cn_sendBuffer := rs_body (cn_response c1), cn_response := (cn_response c1)\<lparr>rs_body := []\<rparr>,
            cn_state := SendingBody\<rparr>, io1) = (fl, c', io')"
      show "conn_inv cfg io0 s c' io'"
        using k i(2-4) by (intro conn_inv_cong [OF i(1)]) (auto simp: conn_ok_def flags_fit_def sending_states_def)
    qed (simp add: sending_states_def)
  next
    case 7
    from f [unfolded 7 st_send_body_def] show ?thesis
    proof (rule sending_inv [OF inv])
      fix c1 io1
      assume i: "conn_inv cfg io0 s c1 io1" "conn_ok cfg c1" "cn_socket c1 = s" "cn_state c1 = SendingBody" "cn_sendBuffer c1 = []"
        and k: "(let c2 = c1\<lparr>cn_keepalive := cn_keepalive c1 \<and> sc_allowKeepalive cfg\<rparr>
          in if cn_keepalive c2
             then let io2 = io_addSocket (cn_socket c1) (Readable OR Closed) io1; c3 = c2\<lparr>cn_state := Idle\<rparr>
                  in (if cn_receiveBuffer c3 = [] then Return else Next, c3, io2)
             else (Next, c2\<lparr>cn_state := Closing\<rparr>, io_addSocket (cn_socket c1) Closed (record_event (Io_shutdown (cn_socket c1)) io1)))
          = (fl, c', io')"
      show "conn_inv cfg io0 s c' io'"
        using k i conn_inv_add [OF i(1), of c' io' "Readable OR Closed"] conn_inv_add [OF i(1), of c' io' Closed]
        by (auto simp: Let_def conn_ok_def flags_fit_def split: if_splits)
    qed (simp add: sending_states_def)
  next
    case 8
    then show ?thesis using f inv by (auto simp: st_closing_def split: if_splits)
  qed
qed

lemma handleConnection_inv:
  assumes "conn_inv cfg io0 s c io" and "handleConnection cfg c io = Inr (c', io')"
  shows "conn_inv cfg io0 s c' io'"
proof -
  have "conn_inv cfg io0 s c' io' \<and> True"
    by (rule handleConnection_rule [where P = "conn_inv cfg io0 s" and Q = "\<lambda>_ _. True", OF _ assms]) (blast intro: stage_inv)
  then show ?thesis ..
qed

text \<open>The only undefined behaviours are a null callback and a handler that asks to close the connection.\<close>

lemma run_handlers_Inl: "run_handlers hs rq rs n = Inl e \<Longrightarrow> e = NullCallback"
  by (induction hs rq rs n rule: run_handlers.induct) (auto simp: Let_def split: if_splits option.splits prod.splits)

lemma stage_Undefined:
  assumes "f \<in> set all_stages" and "f cfg c io = (Undefined e, c', io')"
  shows "e \<noteq> AssertFailed"
proof -
  have "f = st_process"
    using assms by (auto simp: st_idle_def st_body_def st_closing_def st_headers_def st_continue_def st_send_headers_def
        st_send_body_def sending_def Let_def split: if_splits option.splits prod.splits bool.splits)
  then have "processRequest cfg c io = Inl e" using assms(2) by (auto simp: st_process_def split: if_splits sum.splits prod.splits)
  then show ?thesis
    by (auto simp: processRequest_def Let_def split: if_splits sum.splits prod.splits dest: run_handlers_Inl)
qed

lemma run_stages_Undefined:
  "set fs \<subseteq> set all_stages \<Longrightarrow> run_stages fs cfg c io = (Undefined e, c', io') \<Longrightarrow> e \<noteq> AssertFailed"
proof (induction fs arbitrary: c io)
  case (Cons f fs)
  from Cons.prems(2) show ?case
  proof (cases rule: run_stages_Cons)
    case 1
    then show ?thesis using stage_Undefined [of f] Cons.prems(1) by simp
  next
    case (2 c1 io1)
    then show ?thesis using Cons by simp
  qed
qed simp

lemma handleConnection_Inl: "handleConnection cfg c io = Inl e \<Longrightarrow> e \<noteq> AssertFailed"
proof (induction cfg c io rule: handleConnection.induct)
  case (1 cfg c io)
  obtain fl c1 io1 where l: "loop_body cfg c io = (fl, c1, io1)" by (cases "loop_body cfg c io") auto
  show ?case
  proof (cases fl)
    case Next
    then show ?thesis using 1(1) [OF l [symmetric] _ refl] 1(3) l by (simp add: handleConnection.simps [of cfg c])
  next
    case Again
    then show ?thesis using 1(2) [OF l [symmetric] _ refl] 1(3) l by (simp add: handleConnection.simps [of cfg c])
  next
    case (Undefined e')
    then show ?thesis using run_stages_Undefined [of all_stages cfg c io e' c1 io1] 1(3) l
      by (simp add: handleConnection.simps [of cfg c] loop_body_def)
  qed (use 1(3) l in \<open>simp add: handleConnection.simps [of cfg c]\<close>)
qed

end
