(* ===== verification/Http_Server.thy ===== *)
theory Http_Server
  imports Http_Connection
begin

text \<open>
  The class \<open>HttpServer\<close> of \<open>api/ext/http/server/http_server.h\<close>: configuration, listening sockets, the map of connections
  and the four callbacks of the reactor (\<open>Socket_Tools\<close>), each handing a connection to \<open>handleConnection\<close>
  (\<open>Http_Connection\<close>). The locale \<open>reactor_client\<close> is interpreted for it.
\<close>

record http_server =
  sv_config :: server_config
  sv_io :: server_io
  sv_listening :: "fd list"
  sv_connections :: "fd \<rightharpoonup> Connection"

subsection \<open>Configuration\<close>

definition HttpServer_default :: "server_env \<Rightarrow> http_server" where
  "HttpServer_default env =
     \<lparr>sv_config = \<lparr>sc_serverHost = ''unnamed'', sc_allowKeepalive = True, sc_maxHeaders = 8192,
                   sc_maxContent = 2 * 1024 * 1024, sc_handlers = []\<rparr>,
      sv_io = \<lparr>io_env = env, io_calls = 0, io_reactor = Reactor, io_trace = []\<rparr>,
      sv_listening = [], sv_connections = Map.empty\<rparr>"

definition setKeepalive :: "bool \<Rightarrow> http_server \<Rightarrow> http_server" where
  "setKeepalive b sv = sv\<lparr>sv_config := (sv_config sv)\<lparr>sc_allowKeepalive := b\<rparr>\<rparr>"

definition setRequestLimits :: "nat \<Rightarrow> nat \<Rightarrow> http_server \<Rightarrow> http_server" where
  "setRequestLimits h b sv = sv\<lparr>sv_config := (sv_config sv)\<lparr>sc_maxHeaders := h, sc_maxContent := b\<rparr>\<rparr>"

definition setServerName :: "string \<Rightarrow> http_server \<Rightarrow> http_server" where
  "setServerName name sv = sv\<lparr>sv_config := (sv_config sv)\<lparr>sc_serverHost := name\<rparr>\<rparr>"

definition push_handler :: "string \<times> callback option \<Rightarrow> http_server \<Rightarrow> http_server" where
  "push_handler h sv = sv\<lparr>sv_config := (sv_config sv)\<lparr>sc_handlers := sc_handlers (sv_config sv) @ [h]\<rparr>\<rparr>"

definition addHandler :: "string \<Rightarrow> callback \<Rightarrow> http_server \<Rightarrow> http_server" where
  "addHandler root f = push_handler (root, Some f)"

text \<open>\<open>server[root] = callback\<close>: a handler with a null callback, whose callback is then assigned.\<close>

definition index_handler :: "string \<Rightarrow> http_server \<Rightarrow> http_server" where
  "index_handler root = push_handler (root, None)"

definition assign_handler :: "callback \<Rightarrow> http_server \<Rightarrow> http_server" where
  "assign_handler f sv =
     (let hs = sc_handlers (sv_config sv)
      in sv\<lparr>sv_config := (sv_config sv)\<lparr>sc_handlers := butlast hs @ [(fst (last hs), Some f)]\<rparr>\<rparr>)"

definition add_handler_pair :: "string \<times> callback \<Rightarrow> http_server \<Rightarrow> http_server" where
  "add_handler_pair p = push_handler (fst p, Some (snd p))"

text \<open>\<open>s\<close> is the descriptor that \<open>socket\<close> returned, \<open>bound\<close> the address that \<open>getsockname\<close> gives.\<close>

definition addListeningPort :: "fd \<Rightarrow> SocketAddr \<Rightarrow> http_server \<Rightarrow> int \<times> http_server" where
  "addListeningPort s bound sv =
     (sa_port bound,
      sv\<lparr>sv_listening := sv_listening sv @ [s], sv_io := io_addSocket s Acceptable (sv_io sv)\<rparr>)"

definition HttpServer :: "server_env \<Rightarrow> string \<Rightarrow> int \<Rightarrow> fd \<Rightarrow> SocketAddr \<Rightarrow> http_server" where
  "HttpServer env host port s bound =
     snd (addListeningPort s bound (setServerName (host @ '':'' @ to_string port) (HttpServer_default env)))"

definition server_start :: "http_server \<Rightarrow> http_server" where
  "server_start sv = sv\<lparr>sv_io := (sv_io sv)\<lparr>io_reactor := reactor_start (io_reactor (sv_io sv))\<rparr>\<rparr>"

definition server_stop :: "http_server \<Rightarrow> http_server" where
  "server_stop sv = sv\<lparr>sv_io := (sv_io sv)\<lparr>io_reactor := reactor_stop (io_reactor (sv_io sv))\<rparr>\<rparr>"

definition HttpServer_destroy :: "http_server \<Rightarrow> http_server" where
  "HttpServer_destroy sv = sv\<lparr>sv_io := fold (\<lambda>s. record_event (Io_close s)) (sv_listening sv) (sv_io sv)\<rparr>"

subsection \<open>Callbacks\<close>

definition put_connection :: "fd \<Rightarrow> srv_error + Connection \<times> server_io \<Rightarrow> http_server \<Rightarrow> srv_error + http_server" where
  "put_connection s r sv =
     (case r of
        Inl e \<Rightarrow> Inl e
      | Inr (c, io) \<Rightarrow> Inr (sv\<lparr>sv_connections := (sv_connections sv)(s \<mapsto> c), sv_io := io\<rparr>))"

definition handleConnectionClosed :: "Connection \<Rightarrow> http_server \<Rightarrow> http_server" where
  "handleConnectionClosed c sv =
     (let io = sv_io sv;
          io1 = io\<lparr>io_reactor := removeSocket (cn_socket c) (io_reactor io)\<rparr>
      in sv\<lparr>sv_io := record_event (Io_close (cn_socket c)) io1,
            sv_connections := (sv_connections sv)(cn_socket c := None)\<rparr>)"

text \<open>The descriptors that are open: a new one is none of them.\<close>

definition is_open :: "http_server \<Rightarrow> fd \<Rightarrow> bool" where
  "is_open sv s \<longleftrightarrow> s \<in> set (sv_listening sv) \<or> sv_connections sv s \<noteq> None"

definition http_onSocketAcceptable :: "fd \<Rightarrow> http_server \<Rightarrow> srv_error + http_server" where
  "http_onSocketAcceptable s sv =
     (if s \<notin> set (sv_listening sv) then Inl AssertFailed
      else let io = tick (sv_io sv)
           in case ev_accept (io_env io) (io_calls (sv_io sv)) (is_open sv) of
                None \<Rightarrow> Inr (sv\<lparr>sv_io := io\<rparr>)
              | Some (cs, caddr) \<Rightarrow>
                  let c = (case sv_connections sv cs of Some c \<Rightarrow> c | None \<Rightarrow> new_connection);
                      c' = c\<lparr>cn_socket := cs, cn_state := Idle, cn_request := (cn_request c)\<lparr>rq_client := sa_toString caddr\<rparr>\<rparr>
                  in Inr (sv\<lparr>sv_connections := (sv_connections sv)(cs \<mapsto> c'), sv_io := io_addSocket cs (Readable OR Closed) io\<rparr>))"

definition http_onSocketReadable :: "fd \<Rightarrow> http_server \<Rightarrow> srv_error + http_server" where
  "http_onSocketReadable s sv =
     (if s \<in> set (sv_listening sv) then Inl AssertFailed
      else case sv_connections sv s of
             None \<Rightarrow> Inr sv
           | Some c \<Rightarrow>
               let io = tick (sv_io sv);
                   received = take 2048 (ev_recv (io_env io) (io_calls (sv_io sv)) s)
               in if received = [] then Inr (handleConnectionClosed c (sv\<lparr>sv_io := io\<rparr>))
                  else put_connection s
                         (handleConnection (sv_config sv) (c\<lparr>cn_receiveBuffer := cn_receiveBuffer c @ received\<rparr>) io) sv)"

definition http_onSocketWritable :: "fd \<Rightarrow> http_server \<Rightarrow> srv_error + http_server" where
  "http_onSocketWritable s sv =
     (if s \<in> set (sv_listening sv) then Inl AssertFailed
      else case sv_connections sv s of
             None \<Rightarrow> Inr sv
           | Some c \<Rightarrow>
               (case sendMore c (sv_io sv) of
                  (True, c', io') \<Rightarrow> put_connection s (Inr (c', io')) sv
                | (False, c', io') \<Rightarrow> put_connection s (handleConnection (sv_config sv) c' io') sv))"

definition http_onSocketClosed :: "fd \<Rightarrow> http_server \<Rightarrow> srv_error + http_server" where
  "http_onSocketClosed s sv =
     (if s \<in> set (sv_listening sv) then Inl AssertFailed
      else case sv_connections sv s of
             None \<Rightarrow> Inr sv
           | Some c \<Rightarrow> Inr (handleConnectionClosed c sv))"

definition http_callbacks :: "http_server SocketCallback" where
  "http_callbacks = \<lparr>onSocketReadable = http_onSocketReadable, onSocketWritable = http_onSocketWritable,
     onSocketAcceptable = http_onSocketAcceptable, onSocketClosed = http_onSocketClosed\<rparr>"

subsection \<open>The invariant of the server\<close>

abbreviation sv_reactor :: "http_server \<Rightarrow> reactor" where
  "sv_reactor sv \<equiv> io_reactor (sv_io sv)"

abbreviation listening_set :: "http_server \<Rightarrow> fd set" where
  "listening_set sv \<equiv> set (sv_listening sv)"

text \<open>\<open>accept\<close> returns a descriptor that is not in use.\<close>

definition accept_fresh :: "server_env \<Rightarrow> bool" where
  "accept_fresh env \<longleftrightarrow> (\<forall>n A c a. ev_accept env n A = Some (c, a) \<longrightarrow> \<not> A c)"

definition server_inv :: "http_server \<Rightarrow> bool" where
  "server_inv sv \<longleftrightarrow> accept_fresh (io_env (sv_io sv)) \<and> reactor_ok (sv_reactor sv) \<and>
     (\<forall>s \<in> listening_set sv. flags_of (sv_reactor sv) s = Some Acceptable \<and> sv_connections sv s = None) \<and>
     (\<forall>s. s \<notin> listening_set sv \<longrightarrow> sv_connections sv s = None \<longrightarrow> flags_of (sv_reactor sv) s = None) \<and>
     (\<forall>s c. sv_connections sv s = Some c \<longrightarrow> cn_socket c = s \<and> conn_ok (sv_config sv) c \<and> waiting (sv_config sv) c \<and>
        (\<exists>f. flags_of (sv_reactor sv) s = Some f \<and> flags_fit (cn_state c) f))"

lemma server_inv_conn:
  assumes "server_inv sv" and "sv_connections sv s = Some c"
  shows "conn_inv (sv_config sv) (sv_io sv) s c (sv_io sv)" "s \<notin> listening_set sv" "waiting (sv_config sv) c"
  using assms by (auto simp: server_inv_def conn_inv_def)

text \<open>Putting a connection back after its handling.\<close>

lemma put_connection_inv:
  assumes inv: "server_inv sv" and c: "sv_connections sv s = Some c"
    and c': "conn_inv (sv_config sv) (sv_io sv) s c' io'" "waiting (sv_config sv) c'"
  shows "server_inv (sv\<lparr>sv_connections := (sv_connections sv)(s \<mapsto> c'), sv_io := io'\<rparr>)" (is "server_inv ?sv")
proof -
  have s: "s \<notin> listening_set sv" using server_inv_conn [OF inv c] by simp
  have f: "flags_of (io_reactor io') x = flags_of (sv_reactor sv) x" if "x \<noteq> s" for x using c'(1) that by (simp add: conn_inv_def)
  show ?thesis
    unfolding server_inv_def
  proof (intro conjI ballI allI impI)
    fix x assume "x \<in> listening_set ?sv"
    then show "flags_of (sv_reactor ?sv) x = Some Acceptable" "sv_connections ?sv x = None"
      using inv s f [of x] by (auto simp: server_inv_def)
  next
    fix x assume "x \<notin> listening_set ?sv" "sv_connections ?sv x = None"
    then show "flags_of (sv_reactor ?sv) x = None" using inv f [of x] by (auto simp: server_inv_def split: if_splits)
  next
    fix x d assume d: "sv_connections ?sv x = Some d"
    have "cn_socket d = x \<and> conn_ok (sv_config ?sv) d \<and> waiting (sv_config ?sv) d \<and>
        (\<exists>g. flags_of (sv_reactor ?sv) x = Some g \<and> flags_fit (cn_state d) g)"
    proof (cases "x = s")
      case True
      then show ?thesis using d c' by (auto simp: conn_inv_def)
    next
      case False
      then show ?thesis using d inv f [of x] by (auto simp: server_inv_def)
    qed
    then show "cn_socket d = x" "conn_ok (sv_config ?sv) d" "waiting (sv_config ?sv) d"
      "\<exists>g. flags_of (sv_reactor ?sv) x = Some g \<and> flags_fit (cn_state d) g" by blast+
  qed (use inv c'(1) in \<open>auto simp: server_inv_def conn_inv_def\<close>)
qed

lemma closed_inv:
  assumes inv: "server_inv sv" and c: "sv_connections sv s = Some c"
  shows "server_inv (handleConnectionClosed c sv)"
proof -
  have s: "cn_socket c = s" "s \<notin> listening_set sv" "reactor_ok (sv_reactor sv)" using inv c by (auto simp: server_inv_def)
  note r = removeSocket_ok [OF s(3), of s]
  show ?thesis using inv s r unfolding server_inv_def handleConnectionClosed_def Let_def by (auto split: if_splits)
qed

lemma server_inv_io:
  "server_inv sv \<Longrightarrow> io_env io = io_env (sv_io sv) \<Longrightarrow> io_reactor io = sv_reactor sv \<Longrightarrow> server_inv (sv\<lparr>sv_io := io\<rparr>)"
  by (simp add: server_inv_def)

lemma put_safe:
  assumes inv: "server_inv sv" and c: "sv_connections sv s = Some c"
    and r: "\<And>c' io'. r = Inr (c', io') \<Longrightarrow> conn_inv (sv_config sv) (sv_io sv) s c' io' \<and> waiting (sv_config sv) c'"
    and e: "\<And>e. r = Inl e \<Longrightarrow> e \<noteq> AssertFailed"
  shows "callback_safe sv_reactor server_inv listening_set s sv (put_connection s r sv)"
proof (cases r)
  case (Inr p)
  obtain c' io' where p: "p = (c', io')" by (cases p)
  have c': "conn_inv (sv_config sv) (sv_io sv) s c' io'" "waiting (sv_config sv) c'" using r Inr p by auto
  have "flags_of (io_reactor io') x = flags_of (sv_reactor sv) x" if "x \<noteq> s" for x using c'(1) that by (simp add: conn_inv_def)
  then show ?thesis
    using put_connection_inv [OF inv c c'] Inr p by (simp add: callback_safe_def put_connection_def)
qed (use e in \<open>simp add: callback_safe_def put_connection_def\<close>)

lemma closed_safe:
  assumes inv: "server_inv sv" and c: "sv_connections sv s = Some c"
  shows "callback_safe sv_reactor server_inv listening_set s sv (Inr (handleConnectionClosed c sv))"
proof -
  have s: "cn_socket c = s" "reactor_ok (sv_reactor sv)" using inv c by (auto simp: server_inv_def)
  show ?thesis
    using closed_inv [OF inv c] removeSocket_ok(2) [OF s(2), of s] s(1)
    by (simp add: callback_safe_def handleConnectionClosed_def Let_def)
qed

lemma safe_io:
  assumes "callback_safe sv_reactor server_inv listening_set s (sv\<lparr>sv_io := io\<rparr>) r" and "io_reactor io = sv_reactor sv"
  shows "callback_safe sv_reactor server_inv listening_set s sv r"
  using assms by (cases r) (simp_all add: callback_safe_def)

lemma conn_inv_receive:
  "conn_inv cfg io0 s c io \<Longrightarrow> io_env io' = io_env io \<Longrightarrow> io_reactor io' = io_reactor io \<Longrightarrow>
   conn_inv cfg io0 s (c\<lparr>cn_receiveBuffer := b\<rparr>) io'"
  by (auto simp: conn_inv_def conn_ok_def)

lemma readable_safe:
  assumes inv: "server_inv sv" and s: "s \<notin> listening_set sv"
  shows "callback_safe sv_reactor server_inv listening_set s sv (http_onSocketReadable s sv)"
proof (cases "sv_connections sv s")
  case None
  then show ?thesis using inv s by (simp add: http_onSocketReadable_def callback_safe_def)
next
  case (Some c)
  let ?io = "tick (sv_io sv)" and ?d = "take 2048 (ev_recv (io_env (sv_io sv)) (io_calls (sv_io sv)) s)"
  show ?thesis
  proof (cases "?d = []")
    case True
    have "callback_safe sv_reactor server_inv listening_set s (sv\<lparr>sv_io := ?io\<rparr>) (Inr (handleConnectionClosed c (sv\<lparr>sv_io := ?io\<rparr>)))"
      using server_inv_io [OF inv, of ?io] Some by (intro closed_safe) auto
    then show ?thesis using True Some s safe_io [of s ?io] by (auto simp: http_onSocketReadable_def Let_def)
  next
    case False
    let ?c = "c\<lparr>cn_receiveBuffer := cn_receiveBuffer c @ ?d\<rparr>"
    have c: "conn_inv (sv_config sv) (sv_io sv) s ?c ?io" by (rule conn_inv_receive [OF server_inv_conn(1) [OF inv Some]]) simp_all
    have "callback_safe sv_reactor server_inv listening_set s sv (put_connection s (handleConnection (sv_config sv) ?c ?io) sv)"
      using handleConnection_inv [OF c] handleConnection_waiting handleConnection_Inl by (intro put_safe [OF inv Some]) blast+
    then show ?thesis using False Some s by (simp add: http_onSocketReadable_def Let_def)
  qed
qed

lemma sendMore_any_inv:
  assumes inv: "conn_inv cfg io0 s c io" and m: "sendMore c io = (b, c', io')"
  shows "conn_inv cfg io0 s c' io'"
proof (cases "cn_state c \<in> sending_states")
  case True
  then show ?thesis by (rule sendMore_inv [OF inv m])
next
  case False
  then have "cn_sendBuffer c = []" using inv by (auto simp: conn_inv_def conn_ok_def)
  then show ?thesis using inv m by (simp add: sendMore_def)
qed

lemma sendMore_waiting: "waiting cfg c \<Longrightarrow> sendMore c io = (True, c', io') \<Longrightarrow> waiting cfg c'"
  using sendMore_keeps [of c io True c' io'] sendMore_True [of c io c' io']
  by (cases "cn_state c") (simp_all add: waiting_def)

lemma writable_safe:
  assumes inv: "server_inv sv" and s: "s \<notin> listening_set sv"
  shows "callback_safe sv_reactor server_inv listening_set s sv (http_onSocketWritable s sv)"
proof (cases "sv_connections sv s")
  case None
  then show ?thesis using inv s by (simp add: http_onSocketWritable_def callback_safe_def)
next
  case (Some c)
  obtain b c' io' where m: "sendMore c (sv_io sv) = (b, c', io')" by (cases "sendMore c (sv_io sv)") auto
  note c = server_inv_conn [OF inv Some]
  have c': "conn_inv (sv_config sv) (sv_io sv) s c' io'" by (rule sendMore_any_inv [OF c(1) m])
  show ?thesis
  proof (cases b)
    case True
    have "callback_safe sv_reactor server_inv listening_set s sv (put_connection s (Inr (c', io')) sv)"
      using c' sendMore_waiting [OF c(3)] m True by (intro put_safe [OF inv Some]) auto
    then show ?thesis using m True Some s by (simp add: http_onSocketWritable_def)
  next
    case False
    have "callback_safe sv_reactor server_inv listening_set s sv (put_connection s (handleConnection (sv_config sv) c' io') sv)"
      using handleConnection_inv [OF c'] handleConnection_waiting handleConnection_Inl by (intro put_safe [OF inv Some]) blast+
    then show ?thesis using m False Some s by (simp add: http_onSocketWritable_def)
  qed
qed

lemma acceptable_safe:
  assumes inv: "server_inv sv" and s: "s \<in> listening_set sv"
  shows "callback_safe sv_reactor server_inv listening_set s sv (http_onSocketAcceptable s sv)"
proof (cases "ev_accept (io_env (sv_io sv)) (io_calls (sv_io sv)) (is_open sv)")
  case None
  then show ?thesis using inv s server_inv_io [OF inv, of "tick (sv_io sv)"]
    by (simp add: http_onSocketAcceptable_def callback_safe_def)
next
  case (Some p)
  obtain cs a where p: "p = (cs, a)" by (cases p)
  have fresh: "cs \<notin> listening_set sv" "sv_connections sv cs = None"
    using inv Some p unfolding server_inv_def accept_fresh_def by (metis is_open_def)+
  let ?c = "new_connection\<lparr>cn_socket := cs, cn_state := Idle, cn_request := (cn_request new_connection)\<lparr>rq_client := sa_toString a\<rparr>\<rparr>"
  let ?io = "io_addSocket cs (Readable OR Closed) (tick (sv_io sv))"
  let ?sv = "sv\<lparr>sv_connections := (sv_connections sv)(cs \<mapsto> ?c), sv_io := ?io\<rparr>"
  have ok: "reactor_ok (sv_reactor sv)" using inv by (simp add: server_inv_def)
  note r = addSocket_ok [OF ok, of "Readable OR Closed" cs]
  have c: "conn_ok (sv_config sv) ?c" "waiting (sv_config sv) ?c" "flags_fit (cn_state ?c) (Readable OR Closed)"
    by (simp_all add: conn_ok_def waiting_def flags_fit_def new_connection_def new_request_def smap_ok_def)
  have "server_inv ?sv" using inv r c fresh by (auto simp: server_inv_def)
  then show ?thesis using s r Some p fresh by (simp add: http_onSocketAcceptable_def callback_safe_def Let_def)
qed

lemma acceptable_flags: "\<not> has Acceptable Readable" "\<not> has Acceptable Writable" "\<not> has Acceptable Closed"
  by (simp_all add: has_def reactor_bits)

lemma flags_fit_peer: "flags_fit st f \<Longrightarrow> \<not> has f Acceptable"
proof -
  have "\<not> has (Readable OR Closed) Acceptable" "\<not> has (Writable OR Closed) Acceptable" "\<not> has Closed Acceptable"
    by (simp_all add: has_def reactor_bits)
  then show "flags_fit st f \<Longrightarrow> \<not> has f Acceptable" by (cases st) (auto simp: flags_fit_def)
qed

interpretation http: reactor_client http_callbacks sv_reactor server_inv listening_set
proof
  fix sv s f assume inv: "server_inv sv" and f: "flags_of (sv_reactor sv) s = Some f"
  show "\<not> has f Readable \<and> \<not> has f Writable \<and> \<not> has f Closed" if "s \<in> listening_set sv"
    using inv f that acceptable_flags by (auto simp: server_inv_def)
  show "\<not> has f Acceptable" if "s \<notin> listening_set sv"
  proof -
    have "sv_connections sv s \<noteq> None" using inv f that by (auto simp: server_inv_def)
    then obtain c where "sv_connections sv s = Some c" by blast
    then have "flags_fit (cn_state c) f" using server_inv_conn(1) [OF inv] f by (fastforce simp: conn_inv_def)
    then show ?thesis by (rule flags_fit_peer)
  qed
next
  fix sv s assume inv: "server_inv sv" and s: "s \<notin> listening_set sv"
  show "callback_safe sv_reactor server_inv listening_set s sv (onSocketClosed http_callbacks s sv)"
    using inv s closed_safe [OF inv] by (cases "sv_connections sv s") (auto simp: http_callbacks_def http_onSocketClosed_def callback_safe_def)
qed (simp_all add: http_callbacks_def readable_safe writable_safe acceptable_safe, simp add: server_inv_def)

subsection \<open>Running the server\<close>

text \<open>A server that is being set up, before it is started.\<close>

inductive server_setup :: "server_env \<Rightarrow> http_server \<Rightarrow> bool" for env where
  su_new: "server_setup env (HttpServer_default env)"
| su_keepalive: "server_setup env sv \<Longrightarrow> server_setup env (setKeepalive b sv)"
| su_limits: "server_setup env sv \<Longrightarrow> server_setup env (setRequestLimits h b sv)"
| su_name: "server_setup env sv \<Longrightarrow> server_setup env (setServerName name sv)"
| su_handler: "server_setup env sv \<Longrightarrow> server_setup env (addHandler root f sv)"
| su_index: "server_setup env sv \<Longrightarrow> server_setup env (assign_handler f (index_handler root sv))"
| su_pair: "server_setup env sv \<Longrightarrow> server_setup env (add_handler_pair p sv)"
| su_listen: "server_setup env sv \<Longrightarrow> \<not> is_open sv s \<Longrightarrow> server_setup env (snd (addListeningPort s bound sv))"

text \<open>Rounds of the reactor's thread: \<open>epoll_wait\<close> reports at most four different sockets that are watched.\<close>

definition epoll_report :: "http_server \<Rightarrow> (fd \<times> int) list \<Rightarrow> bool" where
  "epoll_report sv evs \<longleftrightarrow> length evs \<le> 4 \<and> distinct (map fst evs) \<and> (\<forall>s \<in> fst ` set evs. rx_epoll (sv_reactor sv) s \<noteq> None)"

inductive server_reach :: "server_env \<Rightarrow> http_server \<Rightarrow> bool" for env where
  sr_start: "server_setup env sv \<Longrightarrow> server_reach env (server_start sv)"
| sr_round: "server_reach env sv \<Longrightarrow> epoll_report sv evs \<Longrightarrow> handle_events http_callbacks sv_reactor evs sv = Inr sv' \<Longrightarrow>
    server_reach env sv'"

lemma setup_inv: "server_setup env sv \<Longrightarrow> accept_fresh env \<Longrightarrow> server_inv sv \<and> sv_connections sv = Map.empty"
proof (induction rule: server_setup.induct)
  case su_new
  then show ?case by (simp add: server_inv_def HttpServer_default_def Reactor_def flags_of_def reactor_ok_def)
next
  case (su_listen sv s bound)
  have ok: "reactor_ok (sv_reactor sv)" using su_listen by (simp add: server_inv_def)
  have "Acceptable \<noteq> 0" by (simp add: reactor_bits)
  note r = addSocket_ok [OF ok this, of s]
  show ?case using su_listen r by (auto simp: server_inv_def addListeningPort_def is_open_def)
qed (simp_all add: server_inv_def setKeepalive_def setRequestLimits_def setServerName_def addHandler_def index_handler_def
    assign_handler_def add_handler_pair_def push_handler_def Let_def)

lemma report_watched: "server_inv sv \<Longrightarrow> epoll_report sv evs \<Longrightarrow> x \<in> fst ` set evs \<Longrightarrow> flags_of (sv_reactor sv) x \<noteq> None"
  by (auto simp: epoll_report_def server_inv_def reactor_ok_def)

lemma round_safe:
  assumes "server_inv sv" and "epoll_report sv evs"
  shows "handle_events http_callbacks sv_reactor evs sv \<noteq> Inl AssertFailed \<and>
    (\<forall>sv'. handle_events http_callbacks sv_reactor evs sv = Inr sv' \<longrightarrow> server_inv sv')"
  using http.handle_events_safe [OF assms(1), of evs] report_watched [OF assms] assms(2) by (simp add: epoll_report_def)

lemma reach_inv: "server_reach env sv \<Longrightarrow> accept_fresh env \<Longrightarrow> server_inv sv"
proof (induction rule: server_reach.induct)
  case (sr_start sv)
  have "flags_of (reactor_start r) = flags_of r" "reactor_ok (reactor_start r) = reactor_ok r" for r
    by (simp_all add: reactor_ok_def reactor_start_def flags_of_def)
  then show ?case using setup_inv [OF sr_start] by (simp add: server_inv_def server_start_def)
next
  case (sr_round sv evs sv')
  then show ?case using round_safe by blast
qed



text \<open>A server for the witnesses: one listening socket, one client, and a kernel that takes at most 20 bytes at a time.\<close>

definition demo_http_env :: server_env where
  "demo_http_env =
     \<lparr>ev_send = (\<lambda>n s buf. Taken 20), ev_recv = (\<lambda>n s. ''GET / HTTP/1.1''),
      ev_accept = (\<lambda>n A. if A 7 then None else Some (7, SocketAddr_default)), ev_date = (\<lambda>n. ''now'')\<rparr>"

definition demo_server :: http_server where
  "demo_server = server_start (snd (addListeningPort 3 SocketAddr_default (HttpServer_default demo_http_env)))"

definition demo_accepted :: http_server where
  "demo_accepted = demo_server
     \<lparr>sv_connections := [7 \<mapsto> new_connection\<lparr>cn_socket := 7, cn_request := new_request\<lparr>rq_client := sa_toString SocketAddr_default\<rparr>\<rparr>],
      sv_io := io_addSocket 7 (Readable OR Closed) (tick (sv_io demo_server))\<rparr>"

lemmas demo_server_defs = demo_server_def demo_accepted_def HttpServer_default_def addListeningPort_def server_start_def
  reactor_start_def io_addSocket_def addSocket_def find_socket_def Reactor_def update_flags_def epoll_add_def epoll_mod_def
  is_open_def demo_http_env_def tick_def new_connection_def new_request_def reactor_bits

lemma demo_fresh: "accept_fresh demo_http_env"
  by (auto simp: accept_fresh_def demo_http_env_def split: if_splits)

lemma demo_reach: "server_reach demo_http_env demo_server"
  unfolding demo_server_def
  by (intro sr_start su_listen su_new) (simp add: is_open_def HttpServer_default_def)

lemma demo_round: "handle_events http_callbacks sv_reactor [(3, EPOLLIN)] demo_server = Inr demo_accepted"
  by (simp add: handle_event_def call_if_def has_def http_callbacks_def http_onSocketAcceptable_def Let_def demo_server_defs)

lemma demo_accepted_reach: "server_reach demo_http_env demo_accepted"
proof (rule sr_round [OF demo_reach _ demo_round])
  show "epoll_report demo_server [(3, EPOLLIN)]" by (simp add: epoll_report_def demo_server_defs)
qed


subsection \<open>Where the server stalls\<close>

lemma flag_bits:
  "has (Writable OR Closed) Writable" "has (Writable OR Closed) Closed" "\<not> has (Writable OR Closed) Readable"
  "\<not> has (Writable OR Closed) Acceptable" "has EPOLLOUT EPOLLOUT" "\<not> has EPOLLOUT (EPOLLHUP OR EPOLLERR)"
  by (simp_all add: has_def reactor_bits)

lemma handle_event_writable:
  assumes inv: "server_inv sv" and f: "flags_of (sv_reactor sv) s = Some (Writable OR Closed)" and ev: "\<not> has ev (EPOLLHUP OR EPOLLERR)"
  shows "handle_event http_callbacks sv_reactor (s, ev) sv = (if has ev EPOLLOUT then http_onSocketWritable s sv else Inr sv)"
proof -
  have "find_socket s (rx_sockets (sv_reactor sv)) \<noteq> None" using f flags_of_None [of "sv_reactor sv" s] by simp
  then obtain i where i: "find_socket s (rx_sockets (sv_reactor sv)) = Some i" by blast
  have ok: "reactor_ok (sv_reactor sv)" using inv by (simp add: server_inv_def)
  have fl: "sd_flags (rx_sockets (sv_reactor sv) ! i) = (Writable OR Closed)" using flags_of_Some [OF ok i] f by simp
  have so: "sd_socket (rx_sockets (sv_reactor sv) ! i) = s" using find_socket_Some [OF i] by simp
  show ?thesis using ev
    by (simp add: handle_event_def i fl so flag_bits call_if_def http_callbacks_def Let_def split: sum.split)
qed

text \<open>A connection that waits for the rest of a body does nothing when it is told that it can write.\<close>

lemma body_waits:
  assumes "cn_state c = ReceivingBody" and "length (cn_receiveBuffer c) < cn_contentLength c"
  shows "handleConnection cfg c io = Inr (c, io)"
  using assms by (subst handleConnection.simps) (simp add: loop_body_def st_idle_def st_headers_def st_continue_def sending_def st_body_def)

lemma continue_then_body:
  assumes "cn_state c = Sending100Continue" and "cn_sendBuffer c = []" and "length (cn_receiveBuffer c) < cn_contentLength c"
  shows "handleConnection cfg c io = Inr (c\<lparr>cn_state := ReceivingBody\<rparr>, io)"
  using assms
  by (subst handleConnection.simps)
    (simp add: loop_body_def st_idle_def st_headers_def st_continue_def sending_def sendMore_def st_body_def)

lemma writable_stalled:
  assumes inv: "server_inv sv" and c: "sv_connections sv s = Some c" "cn_state c = ReceivingBody"
    and f: "flags_of (sv_reactor sv) s = Some (Writable OR Closed)" and ev: "\<not> has ev (EPOLLHUP OR EPOLLERR)"
  shows "handle_event http_callbacks sv_reactor (s, ev) sv = Inr sv"
proof -
  have k: "s \<notin> listening_set sv" "waiting (sv_config sv) c" "conn_ok (sv_config sv) c"
    using inv c(1) by (auto simp: server_inv_def)
  have "cn_sendBuffer c = []" using k(3) c(2) by (auto simp: conn_ok_def sending_states_def)
  moreover have "length (cn_receiveBuffer c) < cn_contentLength c" using k(2) c(2) by (simp add: waiting_def)
  moreover have "(sv_connections sv)(s \<mapsto> c) = sv_connections sv" using c(1) by auto
  ultimately have "http_onSocketWritable s sv = Inr sv"
    using k(1) c body_waits [OF c(2)] by (simp add: http_onSocketWritable_def sendMore_def put_connection_def)
  then show ?thesis using handle_event_writable [OF inv f ev] by simp
qed

text \<open>When \<open>100 Continue\<close> could not be sent in one piece, the body of the request is never read. The rest of the line is sent as soon
  as the socket is writable, but the reactor goes on watching it for writing only: from then on every report for the socket
  other than the peer's end of the connection leaves the server as it is.\<close>

theorem blocked_continue_stalls:
  assumes "server_inv sv" and "sv_connections sv s = Some c" and "cn_state c = Sending100Continue"
    and "flags_of (sv_reactor sv) s = Some (Writable OR Closed)" and "length (cn_receiveBuffer c) < cn_contentLength c"
    and "ev_send (io_env (sv_io sv)) (io_calls (sv_io sv)) s (cn_sendBuffer c) = Taken n" and "length (cn_sendBuffer c) \<le> n"
  shows "\<exists>sv'. handle_event http_callbacks sv_reactor (s, EPOLLOUT) sv = Inr sv' \<and> sv_connections sv' s \<noteq> None \<and>
    (\<forall>ev. \<not> has ev (EPOLLHUP OR EPOLLERR) \<longrightarrow> handle_event http_callbacks sv_reactor (s, ev) sv' = Inr sv')"
proof -
  have k: "s \<notin> listening_set sv" "waiting (sv_config sv) c" "cn_socket c = s" using assms(1,2) by (auto simp: server_inv_def)
  have b: "cn_sendBuffer c \<noteq> []" using k(2) assms(3) by (simp add: waiting_def)
  let ?io = "record_event (Io_sent s (take n (cn_sendBuffer c))) (tick (sv_io sv))"
  let ?c = "c\<lparr>cn_sendBuffer := [], cn_state := ReceivingBody\<rparr>"
  let ?sv = "sv\<lparr>sv_connections := (sv_connections sv)(s \<mapsto> ?c), sv_io := ?io\<rparr>"
  have "sendMore c (sv_io sv) = (False, c\<lparr>cn_sendBuffer := []\<rparr>, ?io)" using b k(3) assms(6,7) by (simp add: sendMore_def)
  then have w: "http_onSocketWritable s sv = Inr ?sv"
    using k(1) assms(2,3,5) continue_then_body [of "c\<lparr>cn_sendBuffer := []\<rparr>" "sv_config sv" ?io]
    by (simp add: http_onSocketWritable_def put_connection_def)
  have h: "handle_event http_callbacks sv_reactor (s, EPOLLOUT) sv = Inr ?sv"
    using handle_event_writable [OF assms(1,4) flag_bits(6)] flag_bits(5) w by simp
  have "server_inv ?sv" using writable_safe [OF assms(1) k(1)] w by (simp add: callback_safe_def)
  then have "handle_event http_callbacks sv_reactor (s, ev) ?sv = Inr ?sv" if "\<not> has ev (EPOLLHUP OR EPOLLERR)" for ev
    using assms(4) that by (intro writable_stalled) auto
  then show ?thesis using h by (intro exI [of _ ?sv]) simp
qed

definition demo_blocked :: Connection where
  "demo_blocked = (the (sv_connections demo_accepted 7))
     \<lparr>cn_state := Sending100Continue, cn_contentLength := 5, cn_sendBuffer := ''ue'' @ CRLF @ CRLF\<rparr>"

lemma blocked_continue_stalls_witness:
  "\<exists>sv sv'. sv_connections sv 7 = Some demo_blocked \<and> handle_event http_callbacks sv_reactor (7, EPOLLOUT) sv = Inr sv' \<and>
    handle_event http_callbacks sv_reactor (7, EPOLLIN) sv' = Inr sv'"
proof -
  obtain c where c: "sv_connections demo_accepted 7 = Some c" by (simp add: demo_accepted_def)
  have inv: "server_inv demo_accepted" by (rule reach_inv [OF demo_accepted_reach demo_fresh])
  have cfg: "sc_maxContent (sv_config demo_accepted) = 2097152" by (simp add: demo_server_defs)
  let ?io = "io_addSocket 7 (Writable OR Closed) (sv_io demo_accepted)"
  have b: "cn_socket demo_blocked = 7" "conn_ok (sv_config demo_accepted) demo_blocked" "waiting (sv_config demo_accepted) demo_blocked"
    using cfg by (simp_all add: demo_blocked_def conn_ok_def waiting_def sending_states_def demo_accepted_def new_connection_def new_request_def smap_ok_def)
  have st: "cn_state demo_blocked = Sending100Continue" "length (cn_receiveBuffer demo_blocked) < cn_contentLength demo_blocked"
      "length (cn_sendBuffer demo_blocked) \<le> 20"
    by (simp_all add: demo_blocked_def demo_accepted_def new_connection_def)
  have ci: "conn_inv (sv_config demo_accepted) (sv_io demo_accepted) 7 demo_blocked ?io"
    using server_inv_conn(1) [OF inv c] b st
    by (intro conn_inv_add [OF server_inv_conn(1) [OF inv c]]) (auto simp: conn_inv_def flags_fit_def)
  let ?sv = "demo_accepted\<lparr>sv_connections := (sv_connections demo_accepted)(7 \<mapsto> demo_blocked), sv_io := ?io\<rparr>"
  have sv: "server_inv ?sv" by (rule put_connection_inv [OF inv c ci b(3)])
  have fl: "flags_of (sv_reactor ?sv) 7 = Some (Writable OR Closed)"
    using addSocket_ok(2) [of "sv_reactor demo_accepted" "Writable OR Closed" 7] inv by (simp add: server_inv_def)
  have sd: "ev_send (io_env (sv_io ?sv)) (io_calls (sv_io ?sv)) 7 (cn_sendBuffer demo_blocked) = Taken 20"
    by (simp add: demo_server_defs)
  have ev: "\<not> has EPOLLIN (EPOLLHUP OR EPOLLERR)" by (simp add: has_def reactor_bits)
  have c7: "sv_connections ?sv 7 = Some demo_blocked" by simp
  from blocked_continue_stalls [OF sv c7 st(1) fl st(2) sd st(3)] show ?thesis using ev c7 by blast
qed

end
