(* ===== verification/Http_Exchange.thy ===== *)
theory Http_Exchange
  imports Http_Connection
begin

text \<open>
  A request and its answer on one connection of \<open>api/ext/http/server/http_server.h\<close>: the request arrives in any number of
  pieces, the handlers see it once and complete, and the answer is what goes out on the wire; and where the code breaks
  this (a full socket, a handler that closes, mixed line ends).
\<close>

subsection \<open>Receiving in pieces\<close>

text \<open>The pieces that \<open>recv\<close> delivers, each followed by a run of the loop.\<close>

fun feed :: "server_config \<Rightarrow> string list \<Rightarrow> Connection \<Rightarrow> server_io \<Rightarrow> srv_error + Connection \<times> server_io" where
  "feed cfg [] c io = Inr (c, io)"
| "feed cfg (d # ds) c io =
     (case handleConnection cfg (c\<lparr>cn_receiveBuffer := cn_receiveBuffer c @ d\<rparr>) io of
        Inl e \<Rightarrow> Inl e
      | Inr (c', io') \<Rightarrow> feed cfg ds c' io')"

definition head_text :: "string \<Rightarrow> string \<Rightarrow> string \<Rightarrow> (string \<times> string) list \<Rightarrow> string" where
  "head_text m u p hs = lines_text (head_lines m u p hs) @ CRLF"

text \<open>The request as the handlers see it, before the body is stored.\<close>

definition parsed :: "string \<Rightarrow> string \<Rightarrow> string \<Rightarrow> (string \<times> string) list \<Rightarrow> HttpRequest \<Rightarrow> HttpRequest" where
  "parsed m u p hs rq = rq\<lparr>rq_method := m, rq_uri := u, rq_protocol := p, rq_headers := headers_of hs []\<rparr>"

text \<open>A request that the server accepts: well formed, within the limits, announcing the length of its body, and without
  expectations.\<close>

definition fits :: "server_config \<Rightarrow> string \<Rightarrow> string \<Rightarrow> string \<Rightarrow> (string \<times> string) list \<Rightarrow> string \<Rightarrow> bool" where
  "fits cfg m u p hs body \<longleftrightarrow> good_head m u p hs \<and> length (head_text m u p hs) \<le> sc_maxHeaders cfg + 1 \<and>
     length body \<le> sc_maxContent cfg \<and> content_length (parsed m u p hs new_request) = length body \<and>
     smap_find ''Expect'' (headers_of hs []) = None"

lemma LF_facts: "\<not> word_char LF" "\<not> value_char LF" "\<not> name_char LF" "LF \<noteq> CHR '':''" "LF \<noteq> CHR '' ''"
  by (simp_all add: word_char_def value_char_def name_char_def)

lemma head_lines_no_LF: "good_head m u p hs \<Longrightarrow> l \<in> set (head_lines m u p hs) \<Longrightarrow> LF \<notin> set l"
proof -
  assume g: "good_head m u p hs" and l: "l \<in> set (head_lines m u p hs)"
  have w: "LF \<notin> set w" if "list_all word_char w" for w using that LF_facts(1) by (auto simp: list_all_iff)
  have v: "LF \<notin> set w" if "list_all value_char w" for w using that LF_facts(2) by (auto simp: list_all_iff)
  have n: "LF \<notin> set w" if "list_all name_char w" for w using that LF_facts(3) by (auto simp: list_all_iff)
  show ?thesis using g l w v n LF_facts(4,5)
    by (auto simp: good_head_def head_lines_def header_text_def good_header_def list_all_iff)
qed

lemma no_double_LF:
  assumes "\<And>l. l \<in> set ls \<Longrightarrow> l \<noteq> [] \<and> LF \<notin> set l"
  shows "find_sub [LF, LF] (lines_text ls @ CRLF) = None"
  using assms
proof (induction ls)
  case Nil
  then show ?case by (simp add: lines_text_def)
next
  case (Cons l ls)
  have "LF \<notin> set (l @ [CR])" using Cons.prems by simp
  note f = find_sub_line [OF this, of "[LF]" "LF # lines_text ls @ CRLF"]
  have "\<not> is_prefix [LF] (lines_text ls @ CRLF)"
  proof (cases ls)
    case Nil
    then show ?thesis by (simp add: lines_text_def)
  next
    case (Cons l' ls')
    then obtain c cs where "l' = c # cs" "c \<noteq> LF" using Cons.prems [of l'] by (cases l') auto
    then show ?thesis using Cons by (simp add: lines_text_def)
  qed
  then have "find_sub [LF, LF] (LF # lines_text ls @ CRLF) = None" using Cons by simp
  then show ?case using f by (simp add: lines_text_def)
qed

text \<open>The head is found when it is complete, and not before.\<close>

lemma head_end_complete:
  assumes "good_head m u p hs"
  shows "head_end (head_text m u p hs @ body) = Some (length (head_text m u p hs) - 4, 4)"
proof -
  have "find_sub (CRLF @ CRLF) (lines_text (head_lines m u p hs) @ CRLF @ body) = Some (length (lines_text (head_lines m u p hs)) - 2)"
    by (rule find_double_CRLF) (use good_head_lines [OF assms] in \<open>auto simp: head_lines_def\<close>)
  then show ?thesis by (simp add: head_end_def find_str_def head_text_def)
qed

lemma length_head_text: "4 \<le> length (head_text m u p hs)"
  by (simp add: head_text_def lines_text_def head_lines_def)

lemma head_end_partial:
  assumes g: "good_head m u p hs" and n: "n < length (head_text m u p hs)"
  shows "head_end (take n (head_text m u p hs)) = None"
proof -
  let ?t = "head_text m u p hs"
  have "find_str (CRLF @ CRLF) ?t 0 = Some (length ?t - 4)"
    using head_end_complete [OF g, of "[]"] by (auto simp: head_end_def split: option.splits)
  then have "find_sub (CRLF @ CRLF) ?t = Some (length ?t - 4)" by (simp add: find_str_def option.map_id0 [unfolded id_def])
  then have a: "find_sub (CRLF @ CRLF) (take n ?t) = None"
    using n length_head_text by (intro find_sub_take_before) auto
  have "find_sub [LF, LF] ?t = None"
    unfolding head_text_def using good_head_lines [OF g] head_lines_no_LF [OF g] by (intro no_double_LF) blast
  then have "find_sub [LF, LF] (take n ?t) = None" by (rule find_sub_take_None)
  then show ?thesis using a by (simp add: head_end_def find_str_def)
qed

subsection \<open>The loop on a request\<close>

text \<open>The connection with the head read and \<open>b\<close> of the body received.\<close>

definition with_head :: "string \<Rightarrow> string \<Rightarrow> string \<Rightarrow> (string \<times> string) list \<Rightarrow> string \<Rightarrow> Connection \<Rightarrow> string \<Rightarrow> Connection" where
  "with_head m u p hs body c b =
     c\<lparr>cn_response := (cn_response c)\<lparr>rs_code := 0\<rparr>, cn_request := parsed m u p hs (cn_request c), cn_receiveBuffer := b,
       cn_keepalive := wants_keepalive (parsed m u p hs (cn_request c)), cn_contentLength := length body, cn_state := ReceivingBody\<rparr>"

lemma content_length_parsed: "content_length (parsed m u p hs rq) = content_length (parsed m u p hs rq')"
  by (simp add: content_length_def parsed_def)

lemma headers_accepted:
  assumes fit: "fits cfg m u p hs body" and c: "cn_state c = ReceivingHeaders" "rs_code (cn_response c) = 0"
    "cn_receiveBuffer c = head_text m u p hs @ b"
  shows "st_headers cfg c io = (Next, with_head m u p hs body c b, io)"
proof -
  have g: "good_head m u p hs" using fit by (simp add: fits_def)
  note e = head_end_complete [OF g, of b]
  have p: "parseHeaders (head_text m u p hs @ b) (cn_request c) = (True, parsed m u p hs (cn_request c))"
    using parseHeaders_text [OF g, of b] by (simp add: head_text_def parsed_def)
  have n: "\<not> sc_maxHeaders cfg < length (head_text m u p hs) - 4" using fit by (auto simp: fits_def)
  have cl: "content_length (parsed m u p hs (cn_request c)) = length body" "length body \<le> sc_maxContent cfg"
    using fit content_length_parsed [of m u p hs "cn_request c" new_request] by (auto simp: fits_def)
  have ex: "smap_find ''Expect'' (rq_headers (parsed m u p hs (cn_request c))) = None" using fit by (simp add: fits_def parsed_def)
  have d: "drop (length (head_text m u p hs) - 4 + 4) (head_text m u p hs @ b) = b" using length_head_text by simp
  have "(cn_response c)\<lparr>rs_code := 0\<rparr> = cn_response c" using c(2) by simp
  then show ?thesis unfolding st_headers_def with_head_def c(3) e using c(1,3) n p cl ex d by (simp add: Let_def)
qed

text \<open>The connection after a proper prefix of the request: the first \<open>k\<close> bytes.\<close>

definition after_prefix ::
    "string \<Rightarrow> string \<Rightarrow> string \<Rightarrow> (string \<times> string) list \<Rightarrow> string \<Rightarrow> Connection \<Rightarrow> nat \<Rightarrow> Connection" where
  "after_prefix m u p hs body c k =
     (if k = 0 then c
      else if k < length (head_text m u p hs)
      then c\<lparr>cn_response := (cn_response c)\<lparr>rs_code := 0\<rparr>, cn_state := ReceivingHeaders, cn_receiveBuffer := take k (head_text m u p hs)\<rparr>
      else with_head m u p hs body c (take (k - length (head_text m u p hs)) body))"

lemma with_head_loop:
  "loop_body cfg (with_head m u p hs body c b) io = rest_body cfg (with_head m u p hs body c b) io"
  by (simp add: loop_body_eq st_idle_def st_headers_def with_head_def)

lemma loop_from_idle:
  assumes "fits cfg m u p hs body" and "cn_state c = Idle"
  shows "loop_body cfg (c\<lparr>cn_receiveBuffer := head_text m u p hs @ b\<rparr>) io = rest_body cfg (with_head m u p hs body c b) io"
proof -
  let ?c = "c\<lparr>cn_receiveBuffer := head_text m u p hs @ b, cn_response := (cn_response c)\<lparr>rs_code := 0\<rparr>, cn_state := ReceivingHeaders\<rparr>"
  have "st_headers cfg ?c io = (Next, with_head m u p hs body ?c b, io)" by (rule headers_accepted [OF assms(1)]) simp_all
  moreover have "with_head m u p hs body ?c b = with_head m u p hs body c b" by (simp add: with_head_def)
  ultimately show ?thesis using assms(2) by (simp add: loop_body_eq st_idle_def)
qed

text \<open>Going on after a prefix is the same as starting with everything received so far.\<close>

lemma resume:
  assumes fit: "fits cfg m u p hs body" and c: "cn_state c = Idle" "cn_receiveBuffer c = []"
  shows "handleConnection cfg ((after_prefix m u p hs body c k)
      \<lparr>cn_receiveBuffer := cn_receiveBuffer (after_prefix m u p hs body c k) @ d\<rparr>) io =
    handleConnection cfg (c\<lparr>cn_receiveBuffer := take k (head_text m u p hs @ body) @ d\<rparr>) io"
    (is "handleConnection cfg ?l io = handleConnection cfg ?r io")
proof -
  let ?t = "head_text m u p hs"
  have "loop_body cfg ?l io = loop_body cfg ?r io"
  proof (cases "k < length ?t")
    case True
    show ?thesis
    proof (cases "k = 0")
      case False
      let ?c = "?r\<lparr>cn_response := (cn_response c)\<lparr>rs_code := 0\<rparr>, cn_state := ReceivingHeaders\<rparr>"
      have "?l = ?c" using True False by (intro Connection.equality) (simp_all add: after_prefix_def)
      moreover have "st_idle cfg ?l io = (Next, ?l, io)" using True False by (simp add: after_prefix_def st_idle_def)
      moreover have "st_idle cfg ?r io = (Next, ?c, io)" using c by (simp add: st_idle_def)
      ultimately show ?thesis by (simp add: loop_body_eq)
    qed (use c in \<open>simp add: after_prefix_def\<close>)
  next
    case False
    then have kt: "k \<noteq> 0" "length ?t \<le> k" using length_head_text [of m u p hs] by auto
    let ?b = "take (k - length ?t) body @ d"
    have l: "?l = with_head m u p hs body c ?b" using False kt by (simp add: after_prefix_def with_head_def)
    have r: "?r = c\<lparr>cn_receiveBuffer := ?t @ ?b\<rparr>" using kt by simp
    show ?thesis unfolding l r with_head_loop by (rule loop_from_idle [OF fit c(1), symmetric])
  qed
  then show ?thesis by (simp add: handleConnection.simps)
qed

text \<open>A proper prefix is kept, and nothing else happens.\<close>

lemma prefix_kept:
  assumes fit: "fits cfg m u p hs body" and c: "cn_state c = Idle" "cn_receiveBuffer c = []"
    and k: "0 < k" "k < length (head_text m u p hs @ body)"
  shows "handleConnection cfg (c\<lparr>cn_receiveBuffer := take k (head_text m u p hs @ body)\<rparr>) io =
    Inr (after_prefix m u p hs body c k, io)"
proof (cases "k < length (head_text m u p hs)")
  case True
  have g: "good_head m u p hs" "length (head_text m u p hs) \<le> sc_maxHeaders cfg + 1" using fit by (simp_all add: fits_def)
  have e: "head_end (take k (head_text m u p hs)) = None" by (rule head_end_partial [OF g(1) True])
  have "take k (head_text m u p hs @ body) = take k (head_text m u p hs)" using True by simp
  then show ?thesis using True e g(2) c(1) k(1)
    by (subst handleConnection.simps) (simp add: loop_body_eq st_idle_def st_headers_def after_prefix_def)
next
  case False
  let ?b = "take (k - length (head_text m u p hs)) body"
  have t: "take k (head_text m u p hs @ body) = head_text m u p hs @ ?b" using False by simp
  have lt: "k - length (head_text m u p hs) < length body" using k False by simp
  have "rest_body cfg (with_head m u p hs body c ?b) io = (Return, with_head m u p hs body c ?b, io)"
    using lt by (simp add: rest_body_def st_continue_def sending_def st_body_def with_head_def)
  then show ?thesis using loop_from_idle [OF fit c(1), of ?b io] False k(1)
    by (subst handleConnection.simps) (simp add: t after_prefix_def)
qed

lemma feed_after_prefix:
  assumes fit: "fits cfg m u p hs body" and c: "cn_state c = Idle" "cn_receiveBuffer c = []"
  shows "take k (head_text m u p hs @ body) @ concat ds = head_text m u p hs @ body \<Longrightarrow> ds \<noteq> [] \<Longrightarrow> [] \<notin> set ds \<Longrightarrow>
    k < length (head_text m u p hs @ body) \<Longrightarrow>
    feed cfg ds (after_prefix m u p hs body c k) io = handleConnection cfg (c\<lparr>cn_receiveBuffer := head_text m u p hs @ body\<rparr>) io"
proof (induction ds arbitrary: k)
  case (Cons d ds)
  let ?t = "head_text m u p hs @ body"
  have drop: "drop k ?t = d @ concat ds" using Cons.prems(1) append_take_drop_id [of k ?t] by (metis concat.simps(2) same_append_eq)
  have r: "handleConnection cfg ((after_prefix m u p hs body c k)
      \<lparr>cn_receiveBuffer := cn_receiveBuffer (after_prefix m u p hs body c k) @ d\<rparr>) io =
      handleConnection cfg (c\<lparr>cn_receiveBuffer := take k ?t @ d\<rparr>) io"
    by (rule resume [OF fit c])
  have td: "take k ?t @ d = take (k + length d) ?t" unfolding take_add drop by simp
  show ?case
  proof (cases "ds = []")
    case True
    then show ?thesis using r Cons.prems(1) by (simp split: sum.split)
  next
    case False
    have "concat ds \<noteq> []" using False Cons.prems(3) by (cases ds) auto
    then have lt: "k + length d < length ?t" using arg_cong [OF drop, of length] Cons.prems(4) by (cases "concat ds") auto
    have "0 < k + length d" using Cons.prems(3) by (cases d) auto
    note kept = prefix_kept [OF fit c this lt, of io]
    have "take (k + length d) ?t @ concat ds = ?t" unfolding td [symmetric] using Cons.prems(1) by (simp only: concat.simps append_assoc)
    then have "feed cfg ds (after_prefix m u p hs body c (k + length d)) io = handleConnection cfg (c\<lparr>cn_receiveBuffer := ?t\<rparr>) io"
      using Cons.IH [of "k + length d"] False Cons.prems(3) lt by simp
    then show ?thesis using r kept td by simp
  qed
qed simp

subsection \<open>The answer\<close>

text \<open>The bytes that went out on a socket, and the requests that reached the handlers.\<close>

fun wire_of :: "fd \<Rightarrow> io_event list \<Rightarrow> string" where
  "wire_of s [] = []"
| "wire_of s (Io_sent s' b # es) = (if s' = s then b else []) @ wire_of s es"
| "wire_of s (_ # es) = wire_of s es"

fun requests_of :: "io_event list \<Rightarrow> (fd \<times> HttpRequest) list" where
  "requests_of [] = []"
| "requests_of (Io_request s rq # es) = (s, rq) # requests_of es"
| "requests_of (_ # es) = requests_of es"

lemma wire_of_append [simp]: "wire_of s (es @ fs) = wire_of s es @ wire_of s fs"
  by (induction s es rule: wire_of.induct) auto

lemma requests_of_append [simp]: "requests_of (es @ fs) = requests_of es @ requests_of fs"
  by (induction es rule: requests_of.induct) auto

text \<open>A socket that takes what it is given, and one that is full.\<close>

definition sends_all :: "server_env \<Rightarrow> bool" where
  "sends_all env \<longleftrightarrow> (\<forall>n s b. \<exists>k. ev_send env n s b = Taken k \<and> length b \<le> k)"

definition sends_none :: "server_env \<Rightarrow> bool" where
  "sends_none env \<longleftrightarrow> (\<forall>n s b. ev_send env n s b = SendFails EWOULDBLOCK)"

text \<open>What goes out of a buffer in the two cases: all of it or nothing. Both times the code takes the buffer as sent.\<close>

definition out_of :: "server_env \<Rightarrow> string \<Rightarrow> string" where
  "out_of env b = (if sends_none env then [] else b)"

lemma sends_not_both: "sends_all env \<Longrightarrow> \<not> sends_none env"
  unfolding sends_all_def sends_none_def by (metis send_result.distinct(1))

lemma sendMore_out:
  assumes "sends_all (io_env io) \<or> sends_none (io_env io)"
  obtains io' where "sendMore c io = (False, c\<lparr>cn_sendBuffer := []\<rparr>, io')" "io_env io' = io_env io"
    "wire_of (cn_socket c) (io_trace io') = wire_of (cn_socket c) (io_trace io) @ out_of (io_env io) (cn_sendBuffer c)"
    "requests_of (io_trace io') = requests_of (io_trace io)"
proof (cases "cn_sendBuffer c = []")
  case True
  then have "sendMore c io = (False, c\<lparr>cn_sendBuffer := []\<rparr>, io)" by (simp add: sendMore_def)
  then show ?thesis using that True by (simp add: out_of_def)
next
  case False
  show ?thesis
  proof (cases "sends_none (io_env io)")
    case True
    then have "sendMore c io = (False, c\<lparr>cn_sendBuffer := []\<rparr>, tick io)" using False by (simp add: sendMore_def sends_none_def)
    then show ?thesis using that [of "tick io"] True by (simp add: out_of_def)
  next
    case none: False
    then obtain k where k: "ev_send (io_env io) (io_calls io) (cn_socket c) (cn_sendBuffer c) = Taken k" "length (cn_sendBuffer c) \<le> k"
      using assms unfolding sends_all_def by blast
    let ?io = "record_event (Io_sent (cn_socket c) (cn_sendBuffer c)) (tick io)"
    have "sendMore c io = (False, c\<lparr>cn_sendBuffer := []\<rparr>, ?io)" using False k by (simp add: sendMore_def)
    then show ?thesis using that [of ?io] none by (simp add: out_of_def)
  qed
qed

lemma smap_find_put_same [simp]: "smap_find k (smap_put k v m) = Some v"
  by (induction k v m rule: smap_put.induct) (auto simp: smap_find_def)

lemma smap_find_put_other [simp]: "k \<noteq> k' \<Longrightarrow> smap_find k (smap_put k' v m) = smap_find k m"
  by (induction k' v m rule: smap_put.induct) (auto simp: smap_find_def)

text \<open>The headers that the server itself sets.\<close>

definition server_headers :: "string set" where
  "server_headers = {''Host'', ''Connection'', ''Date'', ''Content-Length''}"

text \<open>The headers of the answer \<open>rs\<close> with those of the server.\<close>

definition answer_headers :: "HttpResponse \<Rightarrow> str_map \<Rightarrow> bool" where
  "answer_headers rs hdrs \<longleftrightarrow> smap_find ''Content-Length'' hdrs = Some (nat_digits (length (rs_body rs))) \<and>
     (\<forall>k. k \<notin> server_headers \<longrightarrow> smap_find k hdrs = smap_find k (rs_headers rs))"

text \<open>What the response becomes after the handlers answered \<open>rs\<close>.\<close>

lemma processRequest_answer:
  assumes "rs_code (cn_response c) = 0"
    and "run_handlers (sc_handlers cfg) (cn_request c) ((cn_response c)\<lparr>rs_message := [], rs_headers := [], rs_body := [], rs_code := 404\<rparr>)
      (io_calls io) = Inr (rs, n)" and "rs_code rs \<noteq> - 1"
  obtains msg hdrs io' where
    "processRequest cfg c io = Inr (c\<lparr>cn_response := rs\<lparr>rs_message := msg, rs_headers := hdrs\<rparr>\<rparr>, io')"
    "answer_headers rs hdrs"
    "io_trace io' = io_trace io @ [Io_request (cn_socket c) (cn_request c)]" "io_env io' = io_env io"
proof -
  let ?rs1 = "if rs_message rs = [] then rs\<lparr>rs_message := getDefaultResponseMessage (rs_code rs)\<rparr> else rs"
  let ?io1 = "record_event (Io_request (cn_socket c) (cn_request c)) (io\<lparr>io_calls := n\<rparr>)"
  let ?hd = "smap_put ''Content-Length'' (nat_digits (length (rs_body rs))) (smap_put ''Date'' (ev_date (io_env ?io1) (io_calls ?io1))
     (smap_put ''Connection'' (if cn_keepalive c then ''keep-alive'' else ''close'')
       (smap_put ''Host'' (sc_serverHost cfg) (rs_headers rs))))"
  have "processRequest cfg c io = Inr (c\<lparr>cn_response := rs\<lparr>rs_message := (if rs_message rs = [] then getDefaultResponseMessage (rs_code rs) else rs_message rs),
       rs_headers := ?hd\<rparr>\<rparr>, tick ?io1)"
    using assms by (simp add: processRequest_def Let_def)
  from that [OF this] show ?thesis by (simp add: record_event_def tick_def server_headers_def answer_headers_def)
qed

lemma rest_body_answer:
  assumes fin: "cn_state c = Processing" and p: "processRequest cfg c io = Inr (c2, io2)" and env: "sends_all (io_env io2) \<or> sends_none (io_env io2)"
    and rb: "cn_receiveBuffer c = []"
  shows "\<exists>c' io'. rest_body cfg c io = (Return, c', io') \<and> cn_receiveBuffer c' = [] \<and>
    cn_state c' = (if cn_keepalive c \<and> sc_allowKeepalive cfg then Idle else Closing) \<and>
    wire_of (cn_socket c) (io_trace io') = wire_of (cn_socket c) (io_trace io2) @
      out_of (io_env io2) (response_head (rq_protocol (cn_request c)) (cn_response c2)) @ out_of (io_env io2) (rs_body (cn_response c2)) \<and>
    requests_of (io_trace io') = requests_of (io_trace io2)"
proof -
  note k = processRequest_keeps [OF p]
  let ?h = "response_head (rq_protocol (cn_request c2)) (cn_response c2)"
  let ?c3 = "c2\<lparr>cn_sendBuffer := ?h, cn_state := SendingHeaders\<rparr>"
  have s3: "st_process cfg c io = (Next, ?c3, io2)" using fin p by (simp add: st_process_def)
  obtain io3 where m3: "sendMore ?c3 io2 = (False, ?c3\<lparr>cn_sendBuffer := []\<rparr>, io3)" "io_env io3 = io_env io2"
      "wire_of (cn_socket c) (io_trace io3) = wire_of (cn_socket c) (io_trace io2) @ out_of (io_env io2) ?h"
      "requests_of (io_trace io3) = requests_of (io_trace io2)"
    using sendMore_out [OF env, of ?c3] k by auto
  let ?c4 = "?c3\<lparr>cn_sendBuffer := rs_body (cn_response c2), cn_response := (cn_response c2)\<lparr>rs_body := []\<rparr>, cn_state := SendingBody\<rparr>"
  have s4: "st_send_headers cfg ?c3 io2 = (Next, ?c4, io3)" using m3(1) by (simp add: st_send_headers_def sending_def)
  obtain io4 where m4: "sendMore ?c4 io3 = (False, ?c4\<lparr>cn_sendBuffer := []\<rparr>, io4)" "io_env io4 = io_env io3"
      "wire_of (cn_socket c) (io_trace io4) = wire_of (cn_socket c) (io_trace io3) @ out_of (io_env io2) (rs_body (cn_response c2))"
      "requests_of (io_trace io4) = requests_of (io_trace io3)"
    using sendMore_out [of io3 ?c4] env m3(2) k by auto
  have early: "st_continue cfg c io = (Next, c, io)" "st_body cfg c io = (Next, c, io)"
    using fin by (simp_all add: st_continue_def sending_def st_body_def)
  show ?thesis
    unfolding rest_body_def using early s3 s4 m3 m4 k rb
    by (cases "cn_keepalive c \<and> sc_allowKeepalive cfg") (auto simp: st_send_body_def sending_def st_closing_def Let_def)
qed

lemma with_head_body:
  "rest_body cfg (with_head m u p hs body c body) io =
   rest_body cfg ((with_head m u p hs body c body)
     \<lparr>cn_request := (parsed m u p hs (cn_request c))\<lparr>rq_content := body\<rparr>, cn_receiveBuffer := [], cn_state := Processing\<rparr>) io"
  by (simp add: rest_body_def st_continue_def sending_def st_body_def with_head_def)

lemma segmentation_eq:
  assumes "fits cfg m u p hs body" and "cn_state c = Idle" and "cn_receiveBuffer c = []"
    and "concat ds = head_text m u p hs @ body" and "[] \<notin> set ds"
  shows "feed cfg ds c io = handleConnection cfg (c\<lparr>cn_receiveBuffer := head_text m u p hs @ body\<rparr>) io"
proof -
  have ne: "head_text m u p hs \<noteq> []" using length_head_text [of m u p hs] by auto
  then have "0 < length (head_text m u p hs @ body)" by simp
  moreover have "ds \<noteq> []" using assms(4) ne by auto
  ultimately show ?thesis
    using feed_after_prefix [OF assms(1-3), of 0 ds io] assms(4,5) by (simp add: after_prefix_def)
qed

text \<open>C18: A request in any number of pieces. However the network cuts an acceptable request, the connection ends exactly as if it
  had arrived at once, for every behaviour of the handlers and of \<open>send\<close>.\<close>

theorem segmentation_does_not_matter:
  assumes "fits cfg m u p hs body" and "cn_state c = Idle" and "cn_receiveBuffer c = []"
    and "concat ds = head_text m u p hs @ body" and "[] \<notin> set ds"
  shows "feed cfg ds c io = handleConnection cfg (c\<lparr>cn_receiveBuffer := head_text m u p hs @ body\<rparr>) io"
  using assms by (rule segmentation_eq)

lemma keepalive_content: "wants_keepalive (rq\<lparr>rq_content := b\<rparr>) = wants_keepalive rq"
  by (cases "smap_find ''Connection'' (rq_headers rq)") (simp_all add: wants_keepalive_def)

text \<open>Both answers at once: what the handlers gave goes out, or is dropped.\<close>

lemma request_outcome:
  assumes "fits cfg m u p hs body" and "cn_state c = Idle" and "cn_receiveBuffer c = []"
    and "concat ds = head_text m u p hs @ body" and "[] \<notin> set ds" and "sends_all (io_env io) \<or> sends_none (io_env io)"
    and "rq = (parsed m u p hs (cn_request c))\<lparr>rq_content := body\<rparr>"
    and "run_handlers (sc_handlers cfg) rq ((cn_response c)\<lparr>rs_message := [], rs_headers := [], rs_body := [], rs_code := 404\<rparr>)
      (io_calls io) = Inr (rs, n)" and "rs_code rs \<noteq> - 1"
  shows "\<exists>c' io' msg hdrs. feed cfg ds c io = Inr (c', io') \<and>
    requests_of (io_trace io') = requests_of (io_trace io) @ [(cn_socket c, rq)] \<and>
    wire_of (cn_socket c) (io_trace io') = wire_of (cn_socket c) (io_trace io) @
      out_of (io_env io) (response_head p (rs\<lparr>rs_message := msg, rs_headers := hdrs\<rparr>)) @ out_of (io_env io) (rs_body rs) \<and>
    answer_headers rs hdrs \<and>
    cn_state c' = (if wants_keepalive rq \<and> sc_allowKeepalive cfg then Idle else Closing)"
proof -
  define cp where "cp = (with_head m u p hs body c body)\<lparr>cn_request := rq, cn_receiveBuffer := [], cn_state := Processing\<rparr>"
  have cp: "cn_socket cp = cn_socket c" "cn_request cp = rq" "cn_keepalive cp = wants_keepalive rq" "cn_state cp = Processing"
      "cn_receiveBuffer cp = []" "cn_response cp = (cn_response c)\<lparr>rs_code := 0\<rparr>"
    using assms(7) keepalive_content by (simp_all add: with_head_def cp_def)
  have pr: "rq_protocol rq = p" using assms(7) by (simp add: parsed_def)
  have "run_handlers (sc_handlers cfg) (cn_request cp)
      ((cn_response cp)\<lparr>rs_message := [], rs_headers := [], rs_body := [], rs_code := 404\<rparr>) (io_calls io) = Inr (rs, n)"
    using assms(8) cp by simp
  moreover have "rs_code (cn_response cp) = 0" using cp(6) by simp
  ultimately obtain msg hdrs io2 where p: "processRequest cfg cp io = Inr (cp\<lparr>cn_response := rs\<lparr>rs_message := msg, rs_headers := hdrs\<rparr>\<rparr>, io2)"
      "answer_headers rs hdrs"
      "io_trace io2 = io_trace io @ [Io_request (cn_socket cp) (cn_request cp)]" "io_env io2 = io_env io"
    using assms(9) processRequest_answer by blast
  define rs2 where "rs2 = rs\<lparr>rs_message := msg, rs_headers := hdrs\<rparr>"
  note p1 = p(1) [folded rs2_def]
  obtain c' io' where r: "rest_body cfg cp io = (Return, c', io')"
      "cn_state c' = (if cn_keepalive cp \<and> sc_allowKeepalive cfg then Idle else Closing)"
      "wire_of (cn_socket cp) (io_trace io') = wire_of (cn_socket cp) (io_trace io2) @
        out_of (io_env io2) (response_head (rq_protocol (cn_request cp)) rs2) @ out_of (io_env io2) (rs_body rs2)"
      "requests_of (io_trace io') = requests_of (io_trace io2)"
    using rest_body_answer [OF cp(4) p1 _ cp(5)] assms(6) p(4) by auto
  have "handleConnection cfg (c\<lparr>cn_receiveBuffer := head_text m u p hs @ body\<rparr>) io = Inr (c', io')"
    using loop_from_idle [OF assms(1,2), of body io] with_head_body [of cfg m u p hs body c io] r(1) assms(7)
    by (subst handleConnection.simps) (simp add: cp_def)
  then have "feed cfg ds c io = Inr (c', io')" using segmentation_eq [OF assms(1-5)] by simp
  moreover have "requests_of (io_trace io') = requests_of (io_trace io) @ [(cn_socket c, rq)]" using r(4) p(3) cp(1,2) by simp
  moreover have "wire_of (cn_socket c) (io_trace io') = wire_of (cn_socket c) (io_trace io) @
      out_of (io_env io) (response_head p (rs\<lparr>rs_message := msg, rs_headers := hdrs\<rparr>)) @ out_of (io_env io) (rs_body rs)"
    using r(3) p(3,4) cp(1,2) pr by (simp add: rs2_def)
  moreover have "cn_state c' = (if wants_keepalive rq \<and> sc_allowKeepalive cfg then Idle else Closing)" using r(2) cp(3) by simp
  ultimately show ?thesis using p(2) by blast
qed

text \<open>C17: A request is answered. An acceptable request in any number of pieces reaches the handlers once, with its method, target,
  protocol, headers and body; what goes out is one response with the code, the headers and the body the handlers gave, whose
  \<open>Content-Length\<close> is the length of that body (it and three other headers are set by the server); and the connection is left idle or closing as the request asked.\<close>

theorem request_is_answered:
  assumes "fits cfg m u p hs body" and "cn_state c = Idle" and "cn_receiveBuffer c = []"
    and "concat ds = head_text m u p hs @ body" and "[] \<notin> set ds" and "sends_all (io_env io)"
    and "rq = (parsed m u p hs (cn_request c))\<lparr>rq_content := body\<rparr>"
    and "run_handlers (sc_handlers cfg) rq ((cn_response c)\<lparr>rs_message := [], rs_headers := [], rs_body := [], rs_code := 404\<rparr>)
      (io_calls io) = Inr (rs, n)" and "rs_code rs \<noteq> - 1"
  shows "\<exists>c' io' msg hdrs. feed cfg ds c io = Inr (c', io') \<and>
    requests_of (io_trace io') = requests_of (io_trace io) @ [(cn_socket c, rq)] \<and>
    wire_of (cn_socket c) (io_trace io') = wire_of (cn_socket c) (io_trace io) @
      response_head p (rs\<lparr>rs_message := msg, rs_headers := hdrs\<rparr>) @ rs_body rs \<and>
    answer_headers rs hdrs \<and>
    cn_state c' = (if wants_keepalive rq \<and> sc_allowKeepalive cfg then Idle else Closing)"
  using request_outcome [OF assms(1-5) disjI1 [OF assms(6)] assms(7-9)] sends_not_both [OF assms(6)] by (simp add: out_of_def)

lemma closing_handler:
  assumes "fits cfg m u p hs body" and "cn_state c = Idle" and "cn_receiveBuffer c = []"
    and "concat ds = head_text m u p hs @ body" and "[] \<notin> set ds"
    and "run_handlers (sc_handlers cfg) ((parsed m u p hs (cn_request c))\<lparr>rq_content := body\<rparr>)
      ((cn_response c)\<lparr>rs_message := [], rs_headers := [], rs_body := [], rs_code := 404\<rparr>) (io_calls io) = Inr (rs, n)"
    and "rs_code rs = - 1"
  shows "feed cfg ds c io = Inl UseAfterFree"
proof -
  let ?cp = "(with_head m u p hs body c body)
    \<lparr>cn_request := (parsed m u p hs (cn_request c))\<lparr>rq_content := body\<rparr>, cn_receiveBuffer := [], cn_state := Processing\<rparr>"
  have "processRequest cfg ?cp io = Inl UseAfterFree" using assms(6,7) by (simp add: processRequest_def with_head_def Let_def)
  then have "st_process cfg ?cp io = (Undefined UseAfterFree, ?cp, io)" by (simp add: st_process_def)
  then have "rest_body cfg ?cp io = (Undefined UseAfterFree, ?cp, io)"
    by (simp add: rest_body_def st_continue_def sending_def st_body_def)
  then show ?thesis
    using loop_from_idle [OF assms(1,2), of body io] with_head_body [of cfg m u p hs body c io] segmentation_eq [OF assms(1-5), of io]
    by (simp add: handleConnection.simps)
qed

text \<open>C20: Where the answer is lost. When a handler asks to close the connection, by the documented result \<open>-1\<close>, the connection is destroyed
  and then used. On a full socket, where \<open>send\<close> reports \<open>EWOULDBLOCK\<close>, the buffer is erased as if it had been sent: the handlers saw
  the request, the connection is idle or closing again, and not a byte of the answer went out.\<close>

theorem answer_is_lost:
  assumes "fits cfg m u p hs body" and "cn_state c = Idle" and "cn_receiveBuffer c = []"
    and "concat ds = head_text m u p hs @ body" and "[] \<notin> set ds"
    and "rq = (parsed m u p hs (cn_request c))\<lparr>rq_content := body\<rparr>"
    and "run_handlers (sc_handlers cfg) rq ((cn_response c)\<lparr>rs_message := [], rs_headers := [], rs_body := [], rs_code := 404\<rparr>)
      (io_calls io) = Inr (rs, n)"
  shows "(rs_code rs = - 1 \<longrightarrow> feed cfg ds c io = Inl UseAfterFree) \<and>
    (rs_code rs \<noteq> - 1 \<and> sends_none (io_env io) \<longrightarrow>
      (\<exists>c' io'. feed cfg ds c io = Inr (c', io') \<and>
        requests_of (io_trace io') = requests_of (io_trace io) @ [(cn_socket c, rq)] \<and>
        wire_of (cn_socket c) (io_trace io') = wire_of (cn_socket c) (io_trace io) \<and>
        cn_state c' = (if wants_keepalive rq \<and> sc_allowKeepalive cfg then Idle else Closing)))"
proof (intro conjI impI)
  assume "rs_code rs = - 1"
  then show "feed cfg ds c io = Inl UseAfterFree" using closing_handler [OF assms(1-5)] assms(6,7) by blast
next
  assume "rs_code rs \<noteq> - 1 \<and> sends_none (io_env io)"
  then show "\<exists>c' io'. feed cfg ds c io = Inr (c', io') \<and>
        requests_of (io_trace io') = requests_of (io_trace io) @ [(cn_socket c, rq)] \<and>
        wire_of (cn_socket c) (io_trace io') = wire_of (cn_socket c) (io_trace io) \<and>
        cn_state c' = (if wants_keepalive rq \<and> sc_allowKeepalive cfg then Idle else Closing)"
    using request_outcome [OF assms(1-5) _ assms(6,7)] by (auto simp: out_of_def)
qed

subsection \<open>One exchange\<close>

text \<open>A handler that echoes the body, and a request in three pieces.\<close>

definition echo_config :: server_config where
  "echo_config = \<lparr>sc_serverHost = ''h'', sc_allowKeepalive = True, sc_maxHeaders = 100, sc_maxContent = 10,
     sc_handlers = [(''/'', Some (\<lambda>n rq rs. (200, rs\<lparr>rs_body := rq_content rq\<rparr>)))]\<rparr>"

definition echo_pieces :: "string list" where
  "echo_pieces = [''POST /'', ''x HTTP/1.1'' @ CRLF @ ''Content-Length: 2'' @ [CR], [LF] @ CRLF @ ''hi'']"

definition env_sending :: "(string \<Rightarrow> send_result) \<Rightarrow> server_env" where
  "env_sending f = \<lparr>ev_send = (\<lambda>n s b. f b), ev_recv = (\<lambda>n s. []), ev_accept = (\<lambda>n u. None), ev_date = (\<lambda>n. ''now'')\<rparr>"

definition echo_io :: "(string \<Rightarrow> send_result) \<Rightarrow> server_io" where
  "echo_io f = \<lparr>io_env = env_sending f, io_calls = 0, io_reactor = Reactor, io_trace = []\<rparr>"

definition echo_headers :: "(string \<times> string) list" where
  "echo_headers = [(''Content-Length'', ''2'')]"

lemma echo_fits: "fits echo_config ''POST'' ''/x'' ''HTTP/1.1'' echo_headers ''hi''"
  unfolding fits_def by (intro conjI; code_simp)

lemma echo_pieces_text: "concat echo_pieces = head_text ''POST'' ''/x'' ''HTTP/1.1'' echo_headers @ ''hi''" "[] \<notin> set echo_pieces"
  by code_simp+

lemma echo_start: "cn_state new_connection = Idle" "cn_receiveBuffer new_connection = []"
  by (simp_all add: new_connection_def)

abbreviation "echo_request \<equiv> (parsed ''POST'' ''/x'' ''HTTP/1.1'' echo_headers (cn_request new_connection))\<lparr>rq_content := ''hi''\<rparr>"
abbreviation "blank_response \<equiv> (cn_response new_connection)\<lparr>rs_message := [], rs_headers := [], rs_body := [], rs_code := 404\<rparr>"
abbreviation "echo_response \<equiv> blank_response\<lparr>rs_body := ''hi'', rs_code := 200\<rparr>"

lemma echo_handled: "run_handlers (sc_handlers echo_config) echo_request blank_response (io_calls (echo_io f)) = Inr (echo_response, 1)"
  by (simp add: echo_config_def echo_io_def parsed_def c_str_def)

lemma echo_request_keeps: "wants_keepalive echo_request" "sc_allowKeepalive echo_config" "rs_code echo_response \<noteq> - 1"
  by code_simp+

lemma segmentation_does_not_matter_witness:
  "feed echo_config echo_pieces new_connection (echo_io (\<lambda>b. Taken 3)) =
   feed echo_config [concat echo_pieces] new_connection (echo_io (\<lambda>b. Taken 3))"
  using segmentation_does_not_matter [OF echo_fits echo_start echo_pieces_text, of "echo_io (\<lambda>b. Taken 3)"] echo_pieces_text(1) echo_start
  by (simp split: sum.split)

lemma request_is_answered_witness:
  "\<exists>c' io' hd. feed echo_config echo_pieces new_connection (echo_io (\<lambda>b. Taken (length b))) = Inr (c', io') \<and>
     wire_of (- 1) (io_trace io') = ''HTTP/1.1 200 '' @ hd @ ''hi'' \<and> requests_of (io_trace io') = [(- 1, echo_request)] \<and> cn_state c' = Idle"
proof -
  have all: "sends_all (io_env (echo_io (\<lambda>b. Taken (length b))))" by (simp add: sends_all_def echo_io_def env_sending_def)
  have start: "cn_socket new_connection = - 1" "io_trace (echo_io f) = []" "to_string 200 = ''200''" for f
    by (simp add: new_connection_def) (simp add: echo_io_def, code_simp)
  from request_is_answered [OF echo_fits echo_start echo_pieces_text all refl echo_handled echo_request_keeps(3)]
  show ?thesis using start echo_request_keeps by (auto simp: response_head_def)
qed

lemma answer_is_lost_witness:
  "\<exists>c' io'. feed echo_config echo_pieces new_connection (echo_io (\<lambda>b. SendFails EWOULDBLOCK)) = Inr (c', io') \<and>
     wire_of (- 1) (io_trace io') = [] \<and> requests_of (io_trace io') = [(- 1, echo_request)] \<and> cn_state c' = Idle"
proof -
  have none: "sends_none (io_env (echo_io (\<lambda>b. SendFails EWOULDBLOCK)))" by (simp add: sends_none_def echo_io_def env_sending_def)
  have start: "cn_socket new_connection = - 1" "io_trace (echo_io f) = []" for f by (simp_all add: new_connection_def echo_io_def)
  from answer_is_lost [OF echo_fits echo_start echo_pieces_text refl echo_handled, of "\<lambda>b. SendFails EWOULDBLOCK"]
  show ?thesis using none start echo_request_keeps by auto
qed

end
