(* ===== verification/File_Http_Server.thy ===== *)
theory File_Http_Server
  imports Http_Server Http_Exchange
begin

text \<open>
  The static file server of \<open>api/ext/http/server/file_http_server.h\<close>: an \<open>HttpServer\<close> whose handler for the root reads the file that the
  target names. The file system is a function of the number of the call and of the path, giving the content of a file that can
  be opened (\<open>std::ifstream\<close> on a directory or a device is not covered).
\<close>

type_synonym file_system = "nat \<Rightarrow> string \<Rightarrow> string option"

definition mime_types :: "(string \<times> string) list" where
  "mime_types =
     [(''css'', ''text/css''), (''png'', ''image/png''), (''js'', ''text/javascript''), (''htm'', ''text/html''),
      (''html'', ''text/html''), (''json'', ''application/json''), (''txt'', ''text/plain''), (''jpg'', ''image/jpeg''),
      (''jpeg'', ''image/jpeg'')]"

definition root_endpt :: string where "root_endpt = ''/''"

definition CONTENT_TYPE :: string where "CONTENT_TYPE = ''Content-Type''"
definition CONTENT_TYPE_TEXT :: string where "CONTENT_TYPE_TEXT = ''text/plain''"

text \<open>\<open>filename.substr(filename.find_last_of(".") + 1)\<close>: without a dot, \<open>npos + 1\<close> is 0 and the whole name is taken.\<close>

definition file_ext :: "string \<Rightarrow> string" where
  "file_ext filename = rev (takeWhile (\<lambda>c. c \<noteq> CHR ''.'') (rev filename))"

definition GetMimeContentType :: "string \<Rightarrow> string" where
  "GetMimeContentType filename =
     (case map_of mime_types (file_ext filename) of Some t \<Rightarrow> t | None \<Rightarrow> CONTENT_TYPE_TEXT)"

text \<open>\<open>back()\<close> of an empty string is undefined.\<close>

definition GetFileName :: "string \<Rightarrow> string option" where
  "GetFileName name =
     (if name = [] then None
      else let name1 = (if last name = CHR ''/'' then take (length name - 1) name else name)
           in Some (if CHR ''.'' \<in> set name1 then name1 else name1 @ ''/index.html''))"

text \<open>\<open>result\<close> stays empty for an empty file.\<close>

definition FileGetSuccess :: "file_system \<Rightarrow> nat \<Rightarrow> string \<Rightarrow> string option" where
  "FileGetSuccess fs n filename =
     (case fs n filename of
        Some content \<Rightarrow> Some (if length content \<noteq> 0 then content else [])
      | None \<Rightarrow> None)"

definition ServeFile :: "file_system \<Rightarrow> nat \<Rightarrow> HttpRequest \<Rightarrow> HttpResponse \<Rightarrow> (int \<times> HttpResponse) option" where
  "ServeFile fs n rq rs =
     (case GetFileName (rq_uri rq) of
        None \<Rightarrow> None
      | Some f \<Rightarrow>
          let filename = drop 1 (c_str f)
          in case FileGetSuccess fs n filename of
               Some content \<Rightarrow>
                 Some (200, rs\<lparr>rs_headers := smap_put CONTENT_TYPE (GetMimeContentType filename) (rs_headers rs),
                               rs_body := content, rs_code := 200, rs_message := getDefaultResponseMessage 200\<rparr>)
             | None \<Rightarrow>
                 Some (404, rs\<lparr>rs_headers := smap_put CONTENT_TYPE CONTENT_TYPE_TEXT (rs_headers rs), rs_code := 404,
                               rs_message := getDefaultResponseMessage 404, rs_body := getDefaultResponseMessage 404\<rparr>))"

text \<open>The handler as the server calls it. It is called for targets that start with \<open>/\<close> only, where \<open>ServeFile\<close> is defined.\<close>

definition file_handler :: "file_system \<Rightarrow> callback" where
  "file_handler fs n rq rs = (case ServeFile fs n rq rs of Some r \<Rightarrow> r | None \<Rightarrow> (0, rs))"

definition FileHttpServer :: "server_env \<Rightarrow> string \<Rightarrow> int \<Rightarrow> fd \<Rightarrow> SocketAddr \<Rightarrow> http_server" where
  "FileHttpServer env host port s bound =
     snd (addListeningPort s bound (setServerName (host @ '':'' @ to_string port) (HttpServer_default env)))"

definition InitializeFileEndpoint :: "file_system \<Rightarrow> http_server \<Rightarrow> http_server" where
  "InitializeFileEndpoint fs sv = assign_handler (file_handler fs) (index_handler root_endpt sv)"

subsection \<open>Which file is read\<close>

lemma ServeFile_defined: "rq_uri rq \<noteq> [] \<Longrightarrow> ServeFile fs n rq rs \<noteq> None"
  by (auto simp: ServeFile_def GetFileName_def Let_def split: option.splits)

lemma file_handlers:
  "sc_handlers (sv_config (InitializeFileEndpoint fs (FileHttpServer env host port s bound))) = [(''/'', Some (file_handler fs))]"
  by (simp add: InitializeFileEndpoint_def assign_handler_def index_handler_def push_handler_def FileHttpServer_def addListeningPort_def
      setServerName_def HttpServer_default_def root_endpt_def Let_def)

text \<open>A path that names a file is what follows the slash, as it is: also when it leaves the folder.\<close>

lemma GetFileName_path:
  "CHR ''.'' \<in> set q \<Longrightarrow> last q \<noteq> CHR ''/'' \<Longrightarrow> GetFileName (CHR ''/'' # q) = Some (CHR ''/'' # q)"
  by (cases q) (auto simp: GetFileName_def)

lemma GetFileName_directory:
  "CHR ''.'' \<notin> set q \<Longrightarrow> GetFileName (CHR ''/'' # q @ ''/'') = Some (CHR ''/'' # q @ ''/index.html'')"
  "CHR ''.'' \<notin> set q \<Longrightarrow> q \<noteq> [] \<Longrightarrow> last q \<noteq> CHR ''/'' \<Longrightarrow> GetFileName (CHR ''/'' # q) = Some (CHR ''/'' # q @ ''/index.html'')"
  by (auto simp: GetFileName_def)

lemma no_NUL_c_str: "NUL \<notin> set q \<Longrightarrow> c_str (CHR ''/'' # q) = CHR ''/'' # q"
proof -
  have "CHR ''/'' \<noteq> NUL" by code_simp
  then show "NUL \<notin> set q \<Longrightarrow> c_str (CHR ''/'' # q) = CHR ''/'' # q" by (simp add: c_str_def takeWhile_eq_all_conv) auto
qed

lemma file_handler_found:
  assumes "rq_uri rq = CHR ''/'' # q" and "CHR ''.'' \<in> set q" and "last q \<noteq> CHR ''/''" and "NUL \<notin> set q" and "fs n q = Some content"
  shows "run_handlers [(''/'', Some (file_handler fs))] rq rs n =
    Inr (rs\<lparr>rs_headers := smap_put CONTENT_TYPE (GetMimeContentType q) (rs_headers rs), rs_body := content, rs_code := 200,
            rs_message := getDefaultResponseMessage 200\<rparr>, n + 1)"
proof -
  have "c_str (CHR ''/'' # q) = CHR ''/'' # q" using assms(4) by (simp add: no_NUL_c_str)
  then show ?thesis using assms GetFileName_path [OF assms(2,3)]
    by (simp add: file_handler_def ServeFile_def FileGetSuccess_def Let_def no_NUL_c_str [of "[]"])
qed

lemma file_handler_missing:
  assumes "rq_uri rq = CHR ''/'' # q" and "CHR ''.'' \<in> set q" and "last q \<noteq> CHR ''/''" and "NUL \<notin> set q" and "fs n q = None"
  shows "run_handlers [(''/'', Some (file_handler fs))] rq rs n =
    Inr (rs\<lparr>rs_headers := smap_put CONTENT_TYPE CONTENT_TYPE_TEXT (rs_headers rs), rs_code := 404,
            rs_message := getDefaultResponseMessage 404, rs_body := getDefaultResponseMessage 404\<rparr>, n + 1)"
proof -
  have "c_str (CHR ''/'' # q) = CHR ''/'' # q" using assms(4) by (simp add: no_NUL_c_str)
  then show ?thesis using assms GetFileName_path [OF assms(2,3)]
    by (simp add: file_handler_def ServeFile_def FileGetSuccess_def Let_def no_NUL_c_str [of "[]"])
qed

text \<open>What goes out, as one response.\<close>

lemma response_out:
  assumes "fits cfg m u p hs body" and "cn_state c = Idle" and "cn_receiveBuffer c = []"
    and "concat ds = head_text m u p hs @ body" and "[] \<notin> set ds" and "sends_all (io_env io)"
    and "run_handlers (sc_handlers cfg) ((parsed m u p hs (cn_request c))\<lparr>rq_content := body\<rparr>)
      ((cn_response c)\<lparr>rs_message := [], rs_headers := [], rs_body := [], rs_code := 404\<rparr>) (io_calls io) = Inr (rs, n)" and "rs_code rs \<noteq> - 1"
  obtains c' io' rs' where "feed cfg ds c io = Inr (c', io')"
    "wire_of (cn_socket c) (io_trace io') = wire_of (cn_socket c) (io_trace io) @ response_head p rs' @ rs_body rs'"
    "rs_code rs' = rs_code rs" "rs_body rs' = rs_body rs" "answer_headers rs (rs_headers rs')"
proof -
  from request_outcome [OF assms(1-5) disjI1 [OF assms(6)] refl assms(7,8)]
  obtain c' io' msg hdrs where o: "feed cfg ds c io = Inr (c', io')" "answer_headers rs hdrs"
      "wire_of (cn_socket c) (io_trace io') = wire_of (cn_socket c) (io_trace io) @
        out_of (io_env io) (response_head p (rs\<lparr>rs_message := msg, rs_headers := hdrs\<rparr>)) @ out_of (io_env io) (rs_body rs)"
    by blast
  show ?thesis
    by (rule that [of c' io' "rs\<lparr>rs_message := msg, rs_headers := hdrs\<rparr>"])
      (use o sends_not_both [OF assms(6)] in \<open>simp_all add: out_of_def\<close>)
qed

text \<open>C19: The file server, end to end. A request for \<open>/q\<close>, where \<open>q\<close> has a dot and does not end in a slash, in any number of pieces, reads the
  file at the path \<open>q\<close>, exactly as the client wrote it: \<open>..\<close> and a leading slash are kept, so any file the process can read is
  given out. Its content goes out under the code 200 with the type of its extension and its length; if there is no such file the answer is 404.\<close>

theorem file_is_served:
  assumes "cfg = sv_config (InitializeFileEndpoint fs (FileHttpServer env host port s bound))"
    and "fits cfg m (CHR ''/'' # q) p hs body" and "CHR ''.'' \<in> set q" and "last q \<noteq> CHR ''/''"
    and "cn_state c = Idle" and "cn_receiveBuffer c = []" and "concat ds = head_text m (CHR ''/'' # q) p hs @ body" and "[] \<notin> set ds"
    and "sends_all (io_env io)"
  shows "\<exists>c' io' rs. feed cfg ds c io = Inr (c', io') \<and>
    wire_of (cn_socket c) (io_trace io') = wire_of (cn_socket c) (io_trace io) @ response_head p rs @ rs_body rs \<and>
    smap_find ''Content-Length'' (rs_headers rs) = Some (nat_digits (length (rs_body rs))) \<and>
    (case fs (io_calls io) q of
       Some content \<Rightarrow> rs_code rs = 200 \<and> rs_body rs = content \<and> smap_find ''Content-Type'' (rs_headers rs) = Some (GetMimeContentType q)
     | None \<Rightarrow> rs_code rs = 404 \<and> rs_body rs = ''Not Found'' \<and> smap_find ''Content-Type'' (rs_headers rs) = Some ''text/plain'')"
proof -
  let ?rq = "(parsed m (CHR ''/'' # q) p hs (cn_request c))\<lparr>rq_content := body\<rparr>"
  let ?rs0 = "(cn_response c)\<lparr>rs_message := [], rs_headers := [], rs_body := [], rs_code := 404\<rparr>"
  have nul: "NUL \<notin> set q" using assms(2) by (auto simp: fits_def good_head_def list_all_iff word_char_def)
  have h: "sc_handlers cfg = [(''/'', Some (file_handler fs))]" using assms(1) by (simp add: file_handlers)
  have u: "rq_uri ?rq = CHR ''/'' # q" by (simp add: parsed_def)
  have ct: "''Content-Type'' \<notin> server_headers" by (simp add: server_headers_def)
  have nf: "getDefaultResponseMessage 404 = ''Not Found''" by code_simp
  note out = response_out [OF assms(2,5-9)]
  show ?thesis
  proof (cases "fs (io_calls io) q")
    case None
    note f = file_handler_missing [of ?rq q fs "io_calls io" ?rs0, OF u assms(3,4) nul None, folded h]
    obtain c' io' rs' where o: "feed cfg ds c io = Inr (c', io')"
        "wire_of (cn_socket c) (io_trace io') = wire_of (cn_socket c) (io_trace io) @ response_head p rs' @ rs_body rs'"
        "rs_code rs' = 404" "rs_body rs' = ''Not Found''"
        "smap_find ''Content-Length'' (rs_headers rs') = Some (nat_digits (length (rs_body rs')))"
        "smap_find ''Content-Type'' (rs_headers rs') = Some ''text/plain''"
      by (rule out [OF f]) (use ct nf in \<open>auto simp: CONTENT_TYPE_def CONTENT_TYPE_TEXT_def answer_headers_def smap_find_def\<close>)
    then show ?thesis using None by (intro exI [of _ c'] exI [of _ io'] exI [of _ rs']) simp
  next
    case (Some content)
    note f = file_handler_found [of ?rq q fs "io_calls io" content ?rs0, OF u assms(3,4) nul Some, folded h]
    obtain c' io' rs' where o: "feed cfg ds c io = Inr (c', io')"
        "wire_of (cn_socket c) (io_trace io') = wire_of (cn_socket c) (io_trace io) @ response_head p rs' @ rs_body rs'"
        "rs_code rs' = 200" "rs_body rs' = content"
        "smap_find ''Content-Length'' (rs_headers rs') = Some (nat_digits (length (rs_body rs')))"
        "smap_find ''Content-Type'' (rs_headers rs') = Some (GetMimeContentType q)"
      by (rule out [OF f]) (use ct in \<open>auto simp: CONTENT_TYPE_def answer_headers_def smap_find_def\<close>)
    then show ?thesis using Some by auto
  qed
qed

text \<open>A client that leaves the folder.\<close>

definition demo_fs :: file_system where
  "demo_fs n f = (if f = ''../x.txt'' then Some ''top secret'' else None)"

definition demo_file_config :: server_config where
  "demo_file_config = sv_config (InitializeFileEndpoint demo_fs (FileHttpServer (env_sending (\<lambda>b. Taken (length b))) ''127.0.0.1'' 3333 3 SocketAddr_default))"

lemma demo_file_fits: "fits demo_file_config ''GET'' ''/../x.txt'' ''HTTP/1.0'' [] []"
proof -
  have "sc_maxHeaders demo_file_config = 8192" "sc_maxContent demo_file_config = 2097152"
    by (simp_all add: demo_file_config_def InitializeFileEndpoint_def assign_handler_def index_handler_def push_handler_def
        FileHttpServer_def addListeningPort_def setServerName_def HttpServer_default_def Let_def)
  moreover have "good_head ''GET'' ''/../x.txt'' ''HTTP/1.0'' []" "length (head_text ''GET'' ''/../x.txt'' ''HTTP/1.0'' []) = 26"
    "content_length (parsed ''GET'' ''/../x.txt'' ''HTTP/1.0'' [] new_request) = 0" "smap_find ''Expect'' (headers_of [] []) = None"
    by code_simp+
  ultimately show ?thesis by (simp add: fits_def)
qed

lemma file_is_served_witness:
  "\<exists>c' io' hd. feed demo_file_config [''GET /../x.txt HTTP/1.0'' @ CRLF @ CRLF] new_connection (echo_io (\<lambda>b. Taken (length b))) = Inr (c', io') \<and>
     wire_of (- 1) (io_trace io') = ''HTTP/1.0 200 '' @ hd @ ''top secret''"
proof -
  have all: "sends_all (io_env (echo_io (\<lambda>b. Taken (length b))))" by (simp add: sends_all_def echo_io_def env_sending_def)
  have start: "cn_socket new_connection = - 1" "io_trace (echo_io f) = []" "to_string 200 = ''200''" "demo_fs n ''../x.txt'' = Some ''top secret''" for f n
    by (simp add: new_connection_def) (simp add: echo_io_def, code_simp, simp add: demo_fs_def)
  have t: "concat [''GET /../x.txt HTTP/1.0'' @ CRLF @ CRLF] = head_text ''GET'' (CHR ''/'' # ''../x.txt'') ''HTTP/1.0'' [] @ []" by code_simp
  have d: "CHR ''.'' \<in> set ''../x.txt''" "last ''../x.txt'' \<noteq> CHR ''/''" "[] \<notin> set [''GET /../x.txt HTTP/1.0'' @ CRLF @ CRLF]" by simp_all
  from file_is_served [OF demo_file_config_def demo_file_fits d(1,2) echo_start t d(3) all]
  show ?thesis using start by (auto simp: response_head_def)
qed

end
