(* ===== verification/Instrumentation_Scope.thy ===== *)
theory Instrumentation_Scope
  imports Attribute_Map
begin

text \<open>
  \<open>opentelemetry/sdk/instrumentationscope/\<close>: the name, version, schema URL and attributes that tell who emits telemetry
  (\<open>instrumentation_scope.h\<close>), and the configurators that choose a configuration for a scope (\<open>scope_configurator.h\<close>).
  \<open>std::hash<std::string>\<close> is an argument; a \<open>std::function\<close> is a HOL function.
\<close>

subsection \<open>Comparing owned values\<close>

text \<open>\<open>operator==\<close> of the variant of owned values, and of an unordered map of them: as many entries, and every entry found in the other.\<close>

fun owned_eq :: "owned_value \<Rightarrow> owned_value \<Rightarrow> bool" where
  "owned_eq (OV_double a) (OV_double b) = dbl_eq a b"
| "owned_eq (OV_vec_double a) (OV_vec_double b) = list_all2 dbl_eq a b"
| "owned_eq a b = (a = b)"

definition attributes_eq :: "attribute_map \<Rightarrow> attribute_map \<Rightarrow> bool" where
  "attributes_eq a b \<longleftrightarrow>
     length a = length b \<and> list_all (\<lambda>(k, v). case map_of b k of None \<Rightarrow> False | Some v' \<Rightarrow> owned_eq v v') a"

subsection \<open>Scopes\<close>

record InstrumentationScope =
  is_name :: string
  is_version :: string
  is_schema_url :: string
  is_hash_code :: u64
  is_attributes :: attribute_map

definition new_InstrumentationScope :: "(string \<Rightarrow> u64) \<Rightarrow> string \<Rightarrow> string \<Rightarrow> string \<Rightarrow> attribute_map \<Rightarrow> InstrumentationScope" where
  "new_InstrumentationScope hash name version schema_url attributes =
     \<lparr>is_name = name, is_version = version, is_schema_url = schema_url,
      is_hash_code = (let hash_data = [] @ name; hash_data = hash_data @ version; hash_data = hash_data @ schema_url in hash hash_data),
      is_attributes = attributes\<rparr>"

definition scope_Create :: "(string \<Rightarrow> u64) \<Rightarrow> string \<Rightarrow> string \<Rightarrow> string \<Rightarrow> attribute_map \<Rightarrow> InstrumentationScope" where
  "scope_Create hash name version schema_url attributes = new_InstrumentationScope hash name version schema_url attributes"

definition scope_SetAttribute :: "string \<Rightarrow> attribute_value \<Rightarrow> InstrumentationScope \<Rightarrow> InstrumentationScope" where
  "scope_SetAttribute key v s = s\<lparr>is_attributes := AList.update key (AttributeConverter v) (is_attributes s)\<rparr>"

definition scope_Create_args :: "(string \<Rightarrow> u64) \<Rightarrow> string \<Rightarrow> string \<Rightarrow> string \<Rightarrow> key_values \<Rightarrow> InstrumentationScope" where
  "scope_Create_args hash name version schema_url arg =
     fold (\<lambda>(k, v). scope_SetAttribute k v) arg (new_InstrumentationScope hash name version schema_url AttributeMap_empty)"

definition scope_HashCode :: "InstrumentationScope \<Rightarrow> u64" where "scope_HashCode s = is_hash_code s"

definition scope_eq :: "InstrumentationScope \<Rightarrow> InstrumentationScope \<Rightarrow> bool" where
  "scope_eq s t \<longleftrightarrow>
     is_name s = is_name t \<and> is_version s = is_version t \<and> is_schema_url s = is_schema_url t \<and> attributes_eq (is_attributes s) (is_attributes t)"

text \<open>A null pointer to attributes is \<open>None\<close>.\<close>

definition scope_equal :: "InstrumentationScope \<Rightarrow> string \<Rightarrow> string \<Rightarrow> string \<Rightarrow> key_values option \<Rightarrow> bool" where
  "scope_equal s name version schema_url attributes =
     (if is_name s \<noteq> name \<or> is_version s \<noteq> version \<or> is_schema_url s \<noteq> schema_url then False
      else case attributes of
             None \<Rightarrow> is_attributes s = []
           | Some kvs \<Rightarrow> am_EqualTo (is_attributes s) kvs)"

subsection \<open>Configurators\<close>

record 'c Condition =
  cn_scope_matcher :: "InstrumentationScope \<Rightarrow> bool"
  cn_scope_config :: 'c

record 'c Builder =
  bd_default_scope_config :: 'c
  bd_conditions :: "'c Condition list"

definition new_Builder :: "'c \<Rightarrow> 'c Builder" where
  "new_Builder config = \<lparr>bd_default_scope_config = config, bd_conditions = []\<rparr>"

definition AddCondition :: "(InstrumentationScope \<Rightarrow> bool) \<Rightarrow> 'c \<Rightarrow> 'c Builder \<Rightarrow> 'c Builder" where
  "AddCondition scope_matcher config b =
     b\<lparr>bd_conditions := bd_conditions b @ [\<lparr>cn_scope_matcher = scope_matcher, cn_scope_config = config\<rparr>]\<rparr>"

definition AddConditionNameEquals :: "string \<Rightarrow> 'c \<Rightarrow> 'c Builder \<Rightarrow> 'c Builder" where
  "AddConditionNameEquals scope_name config b =
     b\<lparr>bd_conditions := bd_conditions b @ [\<lparr>cn_scope_matcher = (\<lambda>scope_info. is_name scope_info = scope_name), cn_scope_config = config\<rparr>]\<rparr>"

fun first_condition :: "'c Condition list \<Rightarrow> 'c \<Rightarrow> InstrumentationScope \<Rightarrow> 'c" where
  "first_condition [] config scope_info = config"
| "first_condition (c # cs) config scope_info =
     (if cn_scope_matcher c scope_info then cn_scope_config c else first_condition cs config scope_info)"

datatype 'c ScopeConfigurator = ScopeConfigurator "InstrumentationScope \<Rightarrow> 'c"

definition Build :: "'c Builder \<Rightarrow> 'c ScopeConfigurator" where
  "Build b =
     (if length (bd_conditions b) = 0 then ScopeConfigurator (\<lambda>_. bd_default_scope_config b)
      else ScopeConfigurator (first_condition (bd_conditions b) (bd_default_scope_config b)))"

fun ComputeConfig :: "'c ScopeConfigurator \<Rightarrow> InstrumentationScope \<Rightarrow> 'c" where
  "ComputeConfig (ScopeConfigurator configurator) scope_info = configurator scope_info"

subsection \<open>Lemmas\<close>

lemma visitor_owned_eq: "AttributeEqualToVisitor a v \<longleftrightarrow> owned_eq a (AttributeConverter v)"
  by (cases a; cases v) (auto simp: AttributeEqualToVisitor_def list_all2_conv_all_nth list_eq_iff_nth_eq)

text \<open>The scopes that the constructors and \<open>SetAttribute\<close> make: the keys of the attributes are distinct, the hash is that of the strings.\<close>

definition scope_wf :: "(string \<Rightarrow> u64) \<Rightarrow> InstrumentationScope \<Rightarrow> bool" where
  "scope_wf hash s \<longleftrightarrow> distinct (map fst (is_attributes s)) \<and> is_hash_code s = hash (is_name s @ is_version s @ is_schema_url s)"

lemma SetAttribute_wf: "scope_wf hash s \<Longrightarrow> scope_wf hash (scope_SetAttribute k v s)"
  by (simp add: scope_wf_def scope_SetAttribute_def distinct_update)

lemma fold_SetAttribute:
  "fold (\<lambda>(k, v). scope_SetAttribute k v) kvs s = s\<lparr>is_attributes := AttributeMap_init kvs (is_attributes s)\<rparr>"
  by (induction kvs arbitrary: s) (auto simp: scope_SetAttribute_def am_SetAttribute_def)

lemma Create_args_eq: "scope_Create_args hash n v u kvs = scope_Create hash n v u (AttributeMap_init kvs [])"
  by (simp add: scope_Create_args_def scope_Create_def fold_SetAttribute new_InstrumentationScope_def AttributeMap_empty_def)

lemma AttributeMap_init_spec: "AttributeMap_init kvs [] = AttributeMap kvs"
  by (simp add: AttributeMap_init_fold AttributeMap_def ForEach_update AttributeMap_empty_def)

lemma Create_args_wf: "scope_wf hash (scope_Create_args hash n v u kvs)"
  by (simp add: Create_args_eq scope_Create_def new_InstrumentationScope_def scope_wf_def AttributeMap_init_spec AttributeMap_spec(1))

text \<open>For maps with distinct keys the comparison is the pointwise one.\<close>

lemma attributes_eq_iff:
  assumes "distinct (map fst a)" and "distinct (map fst b)"
  shows "attributes_eq a b \<longleftrightarrow> fst ` set a = fst ` set b \<and>
           (\<forall>k\<in>fst ` set b. \<exists>v w. map_of a k = Some v \<and> map_of b k = Some w \<and> owned_eq v w)"
proof
  assume e: "attributes_eq a b"
  then have v: "\<exists>w. map_of b k = Some w \<and> owned_eq v w" if "(k, v) \<in> set a" for k v
    using that by (auto simp: attributes_eq_def list_all_iff split: option.splits)
  then have "fst ` set a \<subseteq> fst ` set b" by (force dest: map_of_SomeD)
  moreover have "card (fst ` set a) = card (fst ` set b)"
    using e distinct_card [OF assms(1)] distinct_card [OF assms(2)] by (simp add: attributes_eq_def)
  ultimately have "fst ` set a = fst ` set b" by (simp add: card_subset_eq)
  moreover from this have "\<exists>v. (k, v) \<in> set a" if "k \<in> fst ` set b" for k using that by force
  ultimately show "fst ` set a = fst ` set b \<and> (\<forall>k\<in>fst ` set b. \<exists>v w. map_of a k = Some v \<and> map_of b k = Some w \<and> owned_eq v w)"
    using v assms(1) by (metis map_of_eq_Some_iff)
next
  assume r: "fst ` set a = fst ` set b \<and> (\<forall>k\<in>fst ` set b. \<exists>v w. map_of a k = Some v \<and> map_of b k = Some w \<and> owned_eq v w)"
  then have "length a = length b" using distinct_card [OF assms(1)] distinct_card [OF assms(2)] by simp
  moreover have "\<exists>w. map_of b k = Some w \<and> owned_eq v w" if "(k, v) \<in> set a" for k v
  proof -
    have "k \<in> fst ` set b" "map_of a k = Some v" using r that assms(1) by force+
    with r show ?thesis by fastforce
  qed
  ultimately show "attributes_eq a b" by (force simp: attributes_eq_def list_all_iff)
qed

lemma AttributeMap_distinct:
  assumes "distinct (map fst kvs)"
  shows "fst ` set (AttributeMap kvs) = fst ` set kvs" "map_of (AttributeMap kvs) k = map_option AttributeConverter (map_of kvs k)"
proof -
  have "map_of (rev kvs) = map_of kvs"
    using assms by (intro map_of_inject_set [THEN iffD2]) (auto simp: rev_map [symmetric])
  then show m: "map_of (AttributeMap kvs) k = map_option AttributeConverter (map_of kvs k)" for k
    by (simp add: AttributeMap_spec last_wins_def)
  have "k \<in> fst ` set (AttributeMap kvs) \<longleftrightarrow> k \<in> fst ` set kvs" for k
    using m [of k] map_of_eq_None_iff [of "AttributeMap kvs" k] map_of_eq_None_iff [of kvs k] by auto
  then show "fst ` set (AttributeMap kvs) = fst ` set kvs" by blast
qed

lemma EqualTo_attributes_eq:
  assumes "distinct (map fst m)" and "distinct (map fst kvs)"
  shows "am_EqualTo m kvs \<longleftrightarrow> attributes_eq m (AttributeMap kvs)"
proof -
  have "list_all (\<lambda>(k, v). \<exists>o_v. map_of m k = Some o_v \<and> AttributeEqualToVisitor o_v v) kvs \<longleftrightarrow>
      (\<forall>k\<in>fst ` set kvs. \<exists>v w. map_of m k = Some v \<and> map_option AttributeConverter (map_of kvs k) = Some w \<and> owned_eq v w)"
    (is "_ \<longleftrightarrow> ?r")
  proof -
    have "(\<exists>o_v. map_of m k = Some o_v \<and> AttributeEqualToVisitor o_v v) \<longleftrightarrow>
        (\<exists>x w. map_of m k = Some x \<and> map_option AttributeConverter (map_of kvs k) = Some w \<and> owned_eq x w)" if "(k, v) \<in> set kvs" for k v
      using map_of_is_SomeI [OF assms(2) that] by (simp add: visitor_owned_eq)
    then have "(case p of (k, v) \<Rightarrow> \<exists>o_v. map_of m k = Some o_v \<and> AttributeEqualToVisitor o_v v) \<longleftrightarrow>
        (\<exists>x w. map_of m (fst p) = Some x \<and> map_option AttributeConverter (map_of kvs (fst p)) = Some w \<and> owned_eq x w)" if "p \<in> set kvs" for p
      using that by (cases p) (simp only: prod.case fst_conv)
    then show ?thesis unfolding list_all_iff ball_simps by (rule ball_cong [OF refl])
  qed
  then show ?thesis
    unfolding EqualTo_iff [OF assms] attributes_eq_iff [OF assms(1) AttributeMap_spec(1)]
    using AttributeMap_distinct [OF assms(2)] by simp
qed

text \<open>The first condition that holds decides; a condition that is added later does not change a scope that an earlier one matches.\<close>

lemma first_condition_append:
  "first_condition (cs @ ds) config s =
     (if list_ex (\<lambda>c. cn_scope_matcher c s) cs then first_condition cs config s else first_condition ds config s)"
  by (induction cs) auto

lemma ComputeConfig_Build: "ComputeConfig (Build b) s = first_condition (bd_conditions b) (bd_default_scope_config b) s"
  by (simp add: Build_def)

lemma AddConditionNameEquals_config:
  "ComputeConfig (Build (AddConditionNameEquals n config b)) s =
     (if list_ex (\<lambda>c. cn_scope_matcher c s) (bd_conditions b) then ComputeConfig (Build b) s
      else if is_name s = n then config else bd_default_scope_config b)"
  by (simp add: ComputeConfig_Build AddConditionNameEquals_def first_condition_append)

text \<open>The comparison of a scope with a name, a version, a schema URL and attributes, made to avoid building a second scope, is the comparison with the
  scope they would make, also when no attributes are given; and scopes that are equal have the same hash code.
\<close>

theorem scope_equal_is_comparison:
  assumes "scope_wf hash s" and "distinct (map fst kvs)"
  shows "(scope_equal s n v u (Some kvs) \<longleftrightarrow> scope_eq s (scope_Create_args hash n v u kvs)) \<and>
    (scope_equal s n v u None \<longleftrightarrow> scope_eq s (scope_Create hash n v u AttributeMap_empty)) \<and>
    (scope_equal s n v u (Some kvs) \<longrightarrow> scope_HashCode s = scope_HashCode (scope_Create_args hash n v u kvs))"
proof -
  have "am_EqualTo (is_attributes s) kvs \<longleftrightarrow> attributes_eq (is_attributes s) (AttributeMap kvs)"
    using assms by (simp add: EqualTo_attributes_eq scope_wf_def)
  moreover have "attributes_eq m [] \<longleftrightarrow> m = []" for m by (auto simp: attributes_eq_def)
  ultimately show ?thesis
    using assms(1) by (auto simp: scope_equal_def scope_eq_def Create_args_eq AttributeMap_init_spec scope_Create_def
        new_InstrumentationScope_def AttributeMap_empty_def scope_HashCode_def scope_wf_def)
qed

theorem scope_equal_is_comparison_witness:
  "let s = scope_Create_args (\<lambda>x. of_nat (length x)) ''lib'' ''1.0'' [] [(''b'', AV_bool True), (''a'', AV_uint32 1)]
   in scope_eq s (scope_Create_args (\<lambda>x. of_nat (length x)) ''lib'' ''1.0'' [] [(''a'', AV_uint32 1), (''b'', AV_bool True)]) \<and>
      \<not> scope_eq s (scope_Create (\<lambda>x. of_nat (length x)) ''lib'' ''1.0'' [] AttributeMap_empty)"
proof -
  let ?h = "\<lambda>x::string. of_nat (length x) :: u64"
  let ?s = "scope_Create_args ?h ''lib'' ''1.0'' [] [(''b'', AV_bool True), (''a'', AV_uint32 1)]"
  have "scope_equal ?s ''lib'' ''1.0'' [] (Some [(''a'', AV_uint32 1), (''b'', AV_bool True)])"
       "\<not> scope_equal ?s ''lib'' ''1.0'' [] None" by code_simp+
  then show ?thesis
    using scope_equal_is_comparison [OF Create_args_wf, of "[(''a'', AV_uint32 1), (''b'', AV_bool True)]" ?h
        "''lib''" "''1.0''" "[]" "[(''b'', AV_bool True), (''a'', AV_uint32 1)]" "''lib''" "''1.0''" "[]"]
    by (simp add: Let_def)
qed

end
