(* ===== verification/Metric_Types.thy ===== *)
theory Metric_Types
  imports Instrumentation_Scope
begin

text \<open>
  Instruments and aggregations of the metrics SDK as far as the headers define them: \<open>api/sdk/metrics/instruments.h\<close> (descriptors,
  their identity and hash), \<open>aggregation/default_aggregation.h\<close> (which aggregation an instrument gets),
  \<open>data/point_data.h\<close> and \<open>aggregation/histogram_aggregation.h\<close> (merging, differences and the search for a bucket).
  What an aggregation does with a value is compiled code outside the repository: an aggregation is the class it is an object of.
\<close>

subsection \<open>Instruments\<close>

datatype InstrumentType =
  It_kCounter | It_kHistogram | It_kUpDownCounter | It_kObservableCounter | It_kObservableGauge | It_kObservableUpDownCounter | It_kGauge

datatype InstrumentValueType = Vt_kInt | Vt_kLong | Vt_kFloat | Vt_kDouble

datatype AggregationType =
  At_kDrop | At_kHistogram | At_kLastValue | At_kSum | At_kDefault | At_kBase2ExponentialHistogram

record InstrumentDescriptor =
  id_name :: string
  id_description :: string
  id_unit :: string
  id_type :: InstrumentType
  id_value_type :: InstrumentValueType

definition CaseInsensitiveAsciiEquals :: "string \<Rightarrow> string \<Rightarrow> bool" where
  "CaseInsensitiveAsciiEquals lhs rhs \<longleftrightarrow>
     length lhs = length rhs \<and> list_all2 (\<lambda>a b. to_lower a = to_lower b) lhs rhs"

definition IsDuplicate :: "InstrumentDescriptor \<Rightarrow> InstrumentDescriptor \<Rightarrow> bool" where
  "IsDuplicate lhs rhs =
     (if \<not> CaseInsensitiveAsciiEquals (id_name lhs) (id_name rhs) then False
      else if id_type lhs \<noteq> id_type rhs \<or> id_value_type lhs \<noteq> id_value_type rhs then True
      else if id_unit lhs \<noteq> id_unit rhs then True
      else if id_description lhs \<noteq> id_description rhs then True
      else False)"

definition InstrumentEqualNameCaseInsensitive :: "InstrumentDescriptor \<Rightarrow> InstrumentDescriptor \<Rightarrow> bool" where
  "InstrumentEqualNameCaseInsensitive lhs rhs =
     (if \<not> CaseInsensitiveAsciiEquals (id_name lhs) (id_name rhs) then False
      else if id_type lhs \<noteq> id_type rhs \<or> id_value_type lhs \<noteq> id_value_type rhs then False
      else if id_unit lhs \<noteq> id_unit rhs then False
      else if id_description lhs \<noteq> id_description rhs then False
      else True)"

fun GetInstrumentTypeString :: "InstrumentType \<Rightarrow> string" where
  "GetInstrumentTypeString It_kCounter = ''Counter''"
| "GetInstrumentTypeString It_kUpDownCounter = ''UpDownCounter''"
| "GetInstrumentTypeString It_kHistogram = ''Histogram''"
| "GetInstrumentTypeString It_kObservableCounter = ''ObservableCounter''"
| "GetInstrumentTypeString It_kObservableUpDownCounter = ''ObservableUpDownCounter''"
| "GetInstrumentTypeString It_kObservableGauge = ''ObservableGauge''"
| "GetInstrumentTypeString It_kGauge = ''Gauge''"

fun GetInstrumentValueTypeString :: "InstrumentValueType \<Rightarrow> string" where
  "GetInstrumentValueTypeString Vt_kInt = ''Int''"
| "GetInstrumentValueTypeString Vt_kLong = ''Long''"
| "GetInstrumentValueTypeString Vt_kFloat = ''Float''"
| "GetInstrumentValueTypeString Vt_kDouble = ''Double''"

text \<open>The enumerators as numbers.\<close>

fun instrument_type_code :: "InstrumentType \<Rightarrow> 32 word" where
  "instrument_type_code It_kCounter = 0"
| "instrument_type_code It_kHistogram = 1"
| "instrument_type_code It_kUpDownCounter = 2"
| "instrument_type_code It_kObservableCounter = 3"
| "instrument_type_code It_kObservableGauge = 4"
| "instrument_type_code It_kObservableUpDownCounter = 5"
| "instrument_type_code It_kGauge = 6"

fun value_type_code :: "InstrumentValueType \<Rightarrow> 32 word" where
  "value_type_code Vt_kInt = 0"
| "value_type_code Vt_kLong = 1"
| "value_type_code Vt_kFloat = 2"
| "value_type_code Vt_kDouble = 3"

text \<open>\<open>h_char\<close> is \<open>std::hash<char>\<close>.\<close>

definition InstrumentDescriptorHash :: "hash_ops \<Rightarrow> (char \<Rightarrow> u64) \<Rightarrow> InstrumentDescriptor \<Rightarrow> u64" where
  "InstrumentDescriptorHash h h_char d =
     (let s0 = fold (\<lambda>c seed. GetHash h_char seed (to_lower c)) (id_name d) 0;
          s1 = GetHash (h_string h) s0 (id_description d);
          s2 = GetHash (h_string h) s1 (id_unit d);
          s3 = GetHash (h_uint32 h) s2 (instrument_type_code (id_type d))
      in GetHash (h_uint32 h) s3 (value_type_code (id_value_type d)))"

subsection \<open>Which aggregation an instrument gets\<close>

record AggregationConfig =
  ac_boundaries :: "u64 list"
  ac_max_buckets :: nat

datatype aggregation_class =
    DropAggregation
  | LongSumAggregation bool
  | DoubleSumAggregation bool
  | LongHistogramAggregation
  | DoubleHistogramAggregation
  | LongLastValueAggregation
  | DoubleLastValueAggregation
  | Base2ExponentialHistogramAggregation

fun GetDefaultAggregationType :: "InstrumentType \<Rightarrow> AggregationType \<times> bool" where
  "GetDefaultAggregationType It_kCounter = (At_kSum, True)"
| "GetDefaultAggregationType It_kObservableCounter = (At_kSum, True)"
| "GetDefaultAggregationType It_kUpDownCounter = (At_kSum, False)"
| "GetDefaultAggregationType It_kObservableUpDownCounter = (At_kSum, False)"
| "GetDefaultAggregationType It_kHistogram = (At_kHistogram, False)"
| "GetDefaultAggregationType It_kGauge = (At_kLastValue, False)"
| "GetDefaultAggregationType It_kObservableGauge = (At_kLastValue, False)"

definition CreateAggregation_default :: "InstrumentDescriptor \<Rightarrow> aggregation_class" where
  "CreateAggregation_default d =
     (let (aggr_type, is_monotonic) = GetDefaultAggregationType (id_type d);
          long = (id_value_type d = Vt_kLong)
      in case aggr_type of
           At_kSum \<Rightarrow> if long then LongSumAggregation is_monotonic else DoubleSumAggregation is_monotonic
         | At_kHistogram \<Rightarrow> if long then LongHistogramAggregation else DoubleHistogramAggregation
         | At_kLastValue \<Rightarrow> if long then LongLastValueAggregation else DoubleLastValueAggregation
         | _ \<Rightarrow> DropAggregation)"

definition CreateAggregation :: "AggregationType \<Rightarrow> InstrumentDescriptor \<Rightarrow> aggregation_class" where
  "CreateAggregation aggregation_type d =
     (let long = (id_value_type d = Vt_kLong)
      in case aggregation_type of
           At_kDrop \<Rightarrow> DropAggregation
         | At_kHistogram \<Rightarrow> if long then LongHistogramAggregation else DoubleHistogramAggregation
         | At_kBase2ExponentialHistogram \<Rightarrow> Base2ExponentialHistogramAggregation
         | At_kLastValue \<Rightarrow> if long then LongLastValueAggregation else DoubleLastValueAggregation
         | At_kSum \<Rightarrow>
             let is_monotonic = (id_type d \<notin> {It_kUpDownCounter, It_kObservableUpDownCounter, It_kHistogram})
             in if long then LongSumAggregation is_monotonic else DoubleSumAggregation is_monotonic
         | At_kDefault \<Rightarrow> CreateAggregation_default d)"

text \<open>The alternatives of \<open>PointType\<close>, and what \<open>nostd::get\<close> does with the wrong one. The flag of a sum is in its point.\<close>

datatype point_kind = SumPoint bool | HistogramPoint | Base2ExponentialHistogramPoint | LastValuePoint | DropPoint

datatype metric_error = bad_variant_access | out_of_bounds

fun get_sum :: "point_kind \<Rightarrow> metric_error + bool" where
  "get_sum (SumPoint m) = Inr m"
| "get_sum _ = Inl bad_variant_access"

definition get_point :: "point_kind \<Rightarrow> point_kind \<Rightarrow> 'c \<Rightarrow> metric_error + 'c" where
  "get_point alt p c = (if p = alt then Inr c else Inl bad_variant_access)"

text \<open>\<open>p\<close> is \<open>to_copy.ToPoint()\<close>; the result is a null pointer when no case applies.\<close>

definition CloneAggregation :: "AggregationType \<Rightarrow> InstrumentDescriptor \<Rightarrow> point_kind \<Rightarrow> metric_error + aggregation_class option" where
  "CloneAggregation aggregation_type d p =
     (let t = (if aggregation_type = At_kDefault then fst (GetDefaultAggregationType (id_type d)) else aggregation_type);
          long = (id_value_type d = Vt_kLong)
      in case t of
           At_kDrop \<Rightarrow> Inr (Some DropAggregation)
         | At_kHistogram \<Rightarrow> get_point HistogramPoint p (Some (if long then LongHistogramAggregation else DoubleHistogramAggregation))
         | At_kBase2ExponentialHistogram \<Rightarrow> get_point Base2ExponentialHistogramPoint p (Some Base2ExponentialHistogramAggregation)
         | At_kLastValue \<Rightarrow> get_point LastValuePoint p (Some (if long then LongLastValueAggregation else DoubleLastValueAggregation))
         | At_kSum \<Rightarrow>
             (case get_sum p of
                Inl e \<Rightarrow> Inl e
              | Inr m \<Rightarrow> Inr (Some (if long then LongSumAggregation m else DoubleSumAggregation m)))
         | At_kDefault \<Rightarrow> Inr None)"

text \<open>The classes that drop integer or floating point values by an empty \<open>Aggregate\<close> in the header.\<close>

fun ignores_long :: "aggregation_class \<Rightarrow> bool" where
  "ignores_long (DoubleSumAggregation _) = True"
| "ignores_long DoubleHistogramAggregation = True"
| "ignores_long DoubleLastValueAggregation = True"
| "ignores_long DropAggregation = True"
| "ignores_long _ = False"

fun ignores_double :: "aggregation_class \<Rightarrow> bool" where
  "ignores_double (LongSumAggregation _) = True"
| "ignores_double LongHistogramAggregation = True"
| "ignores_double LongLastValueAggregation = True"
| "ignores_double DropAggregation = True"
| "ignores_double _ = False"

subsection \<open>Histograms\<close>

text \<open>The order of doubles on their bits: sign and magnitude, the two zeros equal, a NaN below and above nothing.\<close>

definition dbl_key :: "u64 \<Rightarrow> int" where
  "dbl_key d = (if bit d 63 then - uint (dbl_magnitude d) else uint (dbl_magnitude d))"

definition dbl_less :: "u64 \<Rightarrow> u64 \<Rightarrow> bool" where
  "dbl_less a b \<longleftrightarrow> \<not> dbl_isnan a \<and> \<not> dbl_isnan b \<and> dbl_key a < dbl_key b"

definition dbl_le :: "u64 \<Rightarrow> u64 \<Rightarrow> bool" where
  "dbl_le a b \<longleftrightarrow> \<not> dbl_isnan a \<and> \<not> dbl_isnan b \<and> dbl_key a \<le> dbl_key b"

text \<open>\<open>std::lower_bound\<close> as a loop over the first position and the length of the rest.\<close>

function lower_bound :: "u64 \<Rightarrow> u64 list \<Rightarrow> nat \<Rightarrow> nat \<Rightarrow> nat" where
  "lower_bound v bs first len =
     (if len = 0 then first
      else let half = len div 2; middle = first + half
           in if dbl_less (bs ! middle) v then lower_bound v bs (middle + 1) (len - half - 1)
              else lower_bound v bs first half)"
  by pat_completeness auto
termination
  by (relation "measure (\<lambda>(v, bs, first, len). len)") auto

declare lower_bound.simps [simp del]

definition BucketBinarySearch :: "u64 \<Rightarrow> u64 list \<Rightarrow> nat" where
  "BucketBinarySearch v boundaries = lower_bound v boundaries 0 (length boundaries)"

text \<open>\<open>ValueType\<close>, and the number type \<open>T\<close> of the templates: its alternative, its addition and its order.\<close>

datatype value_type = V_long "64 word" | V_double u64

record 't number_ops =
  nm_get :: "value_type \<Rightarrow> metric_error + 't"
  nm_put :: "'t \<Rightarrow> value_type"
  nm_add :: "'t \<Rightarrow> 't \<Rightarrow> 't"
  nm_less :: "'t \<Rightarrow> 't \<Rightarrow> bool"

definition long_ops :: "64 word number_ops" where
  "long_ops = \<lparr>nm_get = (\<lambda>v. case v of V_long w \<Rightarrow> Inr w | V_double _ \<Rightarrow> Inl bad_variant_access), nm_put = V_long,
     nm_add = (+), nm_less = (\<lambda>a b. sint a < sint b)\<rparr>"

record HistogramPointData =
  hp_boundaries :: "u64 list"
  hp_sum :: value_type
  hp_min :: value_type
  hp_max :: value_type
  hp_counts :: "u64 list"
  hp_count :: u64
  hp_record_min_max :: bool

text \<open>The loop over the counts, which writes the first \<open>length cur\<close> cells of \<open>target\<close>.\<close>

definition combine_counts :: "(u64 \<Rightarrow> u64 \<Rightarrow> u64) \<Rightarrow> u64 list \<Rightarrow> u64 list \<Rightarrow> u64 list \<Rightarrow> metric_error + u64 list" where
  "combine_counts f cur other target =
     (if length other < length cur \<or> length target < length cur then Inl out_of_bounds
      else Inr (map2 f cur other @ drop (length cur) target))"

definition HistogramMerge :: "'t number_ops \<Rightarrow> HistogramPointData \<Rightarrow> HistogramPointData \<Rightarrow> HistogramPointData
    \<Rightarrow> metric_error + HistogramPointData" where
  "HistogramMerge nm current delta merge =
     (case combine_counts (+) (hp_counts current) (hp_counts delta) (hp_counts merge) of
        Inl e \<Rightarrow> Inl e
      | Inr counts \<Rightarrow>
          (case (nm_get nm (hp_sum current), nm_get nm (hp_sum delta)) of
             (Inr a, Inr b) \<Rightarrow>
               let m1 = merge\<lparr>hp_counts := counts, hp_boundaries := hp_boundaries current, hp_sum := nm_put nm (nm_add nm a b),
                              hp_count := hp_count current + hp_count delta,
                              hp_record_min_max := (hp_record_min_max current \<and> hp_record_min_max delta)\<rparr>
               in if \<not> hp_record_min_max m1 then Inr m1
                  else (case (nm_get nm (hp_min current), nm_get nm (hp_min delta), nm_get nm (hp_max current), nm_get nm (hp_max delta)) of
                          (Inr a, Inr b, Inr c, Inr d) \<Rightarrow>
                            Inr (m1\<lparr>hp_min := nm_put nm (if nm_less nm b a then b else a),
                                     hp_max := nm_put nm (if nm_less nm c d then d else c)\<rparr>)
                        | _ \<Rightarrow> Inl bad_variant_access)
           | _ \<Rightarrow> Inl bad_variant_access))"

definition HistogramDiff :: "HistogramPointData \<Rightarrow> HistogramPointData \<Rightarrow> HistogramPointData \<Rightarrow> metric_error + HistogramPointData" where
  "HistogramDiff current nxt diff =
     (case combine_counts (\<lambda>c n. n - c) (hp_counts current) (hp_counts nxt) (hp_counts diff) of
        Inl e \<Rightarrow> Inl e
      | Inr counts \<Rightarrow>
          Inr (diff\<lparr>hp_counts := counts, hp_boundaries := hp_boundaries current, hp_count := hp_count nxt - hp_count current,
                     hp_record_min_max := False\<rparr>))"

subsection \<open>Lemmas\<close>

lemma names_equal_iff: "CaseInsensitiveAsciiEquals a b \<longleftrightarrow> map to_lower a = map to_lower b"
  by (auto simp: CaseInsensitiveAsciiEquals_def list_all2_conv_all_nth list_eq_iff_nth_eq)

lemma InstrumentEqual_iff:
  "InstrumentEqualNameCaseInsensitive a b \<longleftrightarrow> map to_lower (id_name a) = map to_lower (id_name b) \<and> id_type a = id_type b \<and>
     id_value_type a = id_value_type b \<and> id_unit a = id_unit b \<and> id_description a = id_description b"
  by (auto simp: InstrumentEqualNameCaseInsensitive_def names_equal_iff)

lemma name_hash: "fold (\<lambda>c seed. GetHash h seed (to_lower c)) n s = fold (\<lambda>c seed. GetHash h seed c) (map to_lower n) s"
  by (simp add: fold_map comp_def)

text \<open>Two descriptors are the same instrument up to the case of the name: this is an equivalence, equal descriptors have equal hashes, and a
  duplicate is a descriptor of the same name that is not the same instrument.\<close>

lemma instrument_identity:
  "equivp InstrumentEqualNameCaseInsensitive \<and>
   (InstrumentEqualNameCaseInsensitive a b \<longrightarrow> InstrumentDescriptorHash h hc a = InstrumentDescriptorHash h hc b) \<and>
   (IsDuplicate a b \<longleftrightarrow> CaseInsensitiveAsciiEquals (id_name a) (id_name b) \<and> \<not> InstrumentEqualNameCaseInsensitive a b)"
proof (intro conjI impI)
  show "equivp InstrumentEqualNameCaseInsensitive"
    by (rule equivpI) (auto simp: reflp_def symp_def transp_def InstrumentEqual_iff)
  show "InstrumentDescriptorHash h hc a = InstrumentDescriptorHash h hc b" if "InstrumentEqualNameCaseInsensitive a b"
    using that by (simp add: InstrumentEqual_iff InstrumentDescriptorHash_def name_hash)
  show "IsDuplicate a b \<longleftrightarrow> CaseInsensitiveAsciiEquals (id_name a) (id_name b) \<and> \<not> InstrumentEqualNameCaseInsensitive a b"
    by (simp add: IsDuplicate_def InstrumentEqualNameCaseInsensitive_def)
qed

text \<open>What an aggregation promises of its point: the alternative that its class names, with the flag of a sum.\<close>

definition points_named :: "(aggregation_class \<Rightarrow> point_kind) \<Rightarrow> bool" where
  "points_named ToPoint \<longleftrightarrow>
     (\<forall>m. ToPoint (LongSumAggregation m) = SumPoint m \<and> ToPoint (DoubleSumAggregation m) = SumPoint m) \<and>
     ToPoint LongHistogramAggregation = HistogramPoint \<and> ToPoint DoubleHistogramAggregation = HistogramPoint \<and>
     ToPoint LongLastValueAggregation = LastValuePoint \<and> ToPoint DoubleLastValueAggregation = LastValuePoint \<and>
     ToPoint Base2ExponentialHistogramAggregation = Base2ExponentialHistogramPoint \<and> ToPoint DropAggregation = DropPoint"

text \<open>C23: Aggregations fit their instruments. For every instrument and every aggregation a view may ask for, the aggregation that is
  created takes the values the storage lets through (integers for a long instrument, doubles for a double one) unless it is meant to
  drop everything, and a copy through its point is never a bad variant access: it is an aggregation of the same class.\<close>

theorem aggregation_fits_instrument:
  assumes "points_named ToPoint"
  shows "CloneAggregation t d (ToPoint (CreateAggregation t d)) = Inr (Some (CreateAggregation t d)) \<and>
    (CreateAggregation t d \<noteq> DropAggregation \<longrightarrow>
      (id_value_type d = Vt_kLong \<longrightarrow> \<not> ignores_long (CreateAggregation t d)) \<and>
      (id_value_type d = Vt_kDouble \<longrightarrow> \<not> ignores_double (CreateAggregation t d))) \<and>
    (CreateAggregation t d = DropAggregation \<longleftrightarrow> t = At_kDrop)"
proof -
  have t: "CloneAggregation t d (ToPoint (CreateAggregation t d)) = Inr (Some (CreateAggregation t d))"
    using assms
    by (cases t; cases "id_type d")
      (simp_all add: points_named_def CloneAggregation_def CreateAggregation_def CreateAggregation_default_def get_point_def Let_def)
  show ?thesis using t
    by (cases t; cases "id_type d") (auto simp: CreateAggregation_def CreateAggregation_default_def Let_def)
qed

theorem aggregation_fits_instrument_witness:
  "CloneAggregation At_kDefault \<lparr>id_name = ''n'', id_description = [], id_unit = [], id_type = It_kCounter, id_value_type = Vt_kLong\<rparr> (SumPoint True) =
     Inr (Some (LongSumAggregation True)) \<and> \<not> ignores_long (LongSumAggregation True)"
proof -
  let ?p = "\<lambda>c. case c of LongSumAggregation m \<Rightarrow> SumPoint m | DoubleSumAggregation m \<Rightarrow> SumPoint m | DropAggregation \<Rightarrow> DropPoint
    | LongHistogramAggregation \<Rightarrow> HistogramPoint | DoubleHistogramAggregation \<Rightarrow> HistogramPoint
    | Base2ExponentialHistogramAggregation \<Rightarrow> Base2ExponentialHistogramPoint | _ \<Rightarrow> LastValuePoint"
  let ?d = "\<lparr>id_name = ''n'', id_description = [], id_unit = [], id_type = It_kCounter, id_value_type = Vt_kLong\<rparr>"
  have "points_named ?p" by (simp add: points_named_def)
  from aggregation_fits_instrument [OF this, of At_kDefault ?d]
  show ?thesis by (simp add: CreateAggregation_def CreateAggregation_default_def)
qed

subsection \<open>Searching a bucket\<close>

definition boundaries_ok :: "u64 list \<Rightarrow> bool" where
  "boundaries_ok bs \<longleftrightarrow> list_all (\<lambda>b. \<not> dbl_isnan b) bs \<and> sorted (map dbl_key bs)"

lemma less_down:
  assumes "boundaries_ok bs" and "i \<le> j" and "j < length bs" and "dbl_less (bs ! j) v"
  shows "dbl_less (bs ! i) v"
proof -
  have "dbl_key (bs ! i) \<le> dbl_key (bs ! j)" using assms(1-3) by (auto simp: boundaries_ok_def sorted_iff_nth_mono)
  moreover have "\<not> dbl_isnan (bs ! i)" using assms(1-3) by (auto simp: boundaries_ok_def list_all_length)
  ultimately show ?thesis using assms(4) by (simp add: dbl_less_def)
qed

lemma lower_bound_spec:
  "boundaries_ok bs \<Longrightarrow> first + len \<le> length bs \<Longrightarrow> \<forall>i < first. dbl_less (bs ! i) v \<Longrightarrow>
    \<forall>i. first + len \<le> i \<and> i < length bs \<longrightarrow> \<not> dbl_less (bs ! i) v \<Longrightarrow>
    lower_bound v bs first len \<le> length bs \<and> (\<forall>i < lower_bound v bs first len. dbl_less (bs ! i) v) \<and>
    (\<forall>i. lower_bound v bs first len \<le> i \<and> i < length bs \<longrightarrow> \<not> dbl_less (bs ! i) v)"
proof (induction v bs first len rule: lower_bound.induct)
  case (1 v bs first len)
  show ?case
  proof (cases "len = 0")
    case True
    then show ?thesis using 1(4-6) by (simp add: lower_bound.simps)
  next
    case False
    let ?h = "len div 2"
    have h: "?h < len" "first + ?h < length bs" using False 1(4) by auto
    show ?thesis
    proof (cases "dbl_less (bs ! (first + ?h)) v")
      case True
      have e: "lower_bound v bs first len = lower_bound v bs (first + ?h + 1) (len - ?h - 1)"
        using True False by (subst lower_bound.simps) (simp add: Let_def)
      have l: "first + ?h + 1 + (len - ?h - 1) = first + len" using h by simp
      have b: "\<forall>i < first + ?h + 1. dbl_less (bs ! i) v" using less_down [OF 1(3) _ h(2) True] by simp
      show ?thesis unfolding e by (rule 1(1) [OF False refl refl True 1(3)]) (use l b 1(4,6) in simp_all)
    next
      case no: False
      have e: "lower_bound v bs first len = lower_bound v bs first ?h"
        using no False by (subst lower_bound.simps) (simp add: Let_def)
      have b: "\<forall>i. first + ?h \<le> i \<and> i < length bs \<longrightarrow> \<not> dbl_less (bs ! i) v"
        using less_down [OF 1(3)] no by blast
      show ?thesis unfolding e by (rule 1(2) [OF False refl refl no 1(3)]) (use b h 1(5) in simp_all)
    qed
  qed
qed

lemma BucketBinarySearch_spec:
  assumes "boundaries_ok bs"
  shows "BucketBinarySearch v bs \<le> length bs \<and> (\<forall>i < BucketBinarySearch v bs. dbl_less (bs ! i) v) \<and>
    (\<forall>i. BucketBinarySearch v bs \<le> i \<and> i < length bs \<longrightarrow> \<not> dbl_less (bs ! i) v)"
  unfolding BucketBinarySearch_def by (rule lower_bound_spec [OF assms]) auto

lemma lower_bound_nan: "dbl_isnan v \<Longrightarrow> lower_bound v bs first len = first"
proof (induction v bs first len rule: lower_bound.induct)
  case (1 v bs first len)
  have "\<not> dbl_less b v" for b using 1(3) by (simp add: dbl_less_def)
  then show ?case using 1 by (subst lower_bound.simps) (simp add: Let_def)
qed

subsection \<open>Merging\<close>

lemma combine_minus_plus:
  assumes "length ds = length cs"
  shows "map2 (\<lambda>c n. n - c) cs (map2 (+) cs ds) = (ds :: u64 list)"
  using assms by (induction cs ds rule: list_induct2') auto

text \<open>Merging a difference and taking the difference again gives back the counts, also when they wrap; sum, minimum and maximum of a
  difference are those of the object it is written to.\<close>

lemma histogram_merge_diff:
  assumes "HistogramMerge nm cur delta m0 = Inr m" and "length (hp_counts delta) = length (hp_counts cur)"
    and "length (hp_counts m0) = length (hp_counts cur)" and "length (hp_counts d0) = length (hp_counts cur)"
  shows "HistogramDiff cur m d0 = Inr (d0\<lparr>hp_counts := hp_counts delta, hp_boundaries := hp_boundaries cur,
    hp_count := hp_count delta, hp_record_min_max := False\<rparr>)"
proof -
  have "hp_counts m = map2 (+) (hp_counts cur) (hp_counts delta)" "hp_count m = hp_count cur + hp_count delta"
    using assms by (auto simp: HistogramMerge_def combine_counts_def Let_def split: if_splits sum.splits)
  then show ?thesis using assms combine_minus_plus [OF assms(2)] by (simp add: HistogramDiff_def combine_counts_def)
qed

end
