(* ===== verification/Metric_Storage.thy ===== *)
theory Metric_Storage
  imports Metric_Types
begin

text \<open>
  Where measurements go: \<open>api/sdk/metrics/state/filtered_ordered_attribute_map.h\<close> (attribute sets with their hash),
  \<open>view/attributes_processor.h\<close>, \<open>state/attributes_hashmap.h\<close> (one aggregation for each attribute set, with a limit),
  \<open>state/sync_metric_storage.h\<close>, \<open>state/async_metric_storage.h\<close>, \<open>state/multi_metric_storage.h\<close> and \<open>observer_result.h\<close>, without the
  exemplars (\<open>Metric_Exemplars\<close>). What an aggregation does with a value is compiled code, here the operations \<open>agg_ops\<close>; the same holds
  of the constructor that filters attributes through a processor. The unordered map is the list of its entries, a new one last.
\<close>

subsection \<open>Attribute sets\<close>

record metric_attributes =
  ma_map :: attribute_map
  ma_hash :: u64

definition ma_eq :: "metric_attributes \<Rightarrow> metric_attributes \<Rightarrow> bool" where
  "ma_eq a b \<longleftrightarrow> ma_hash a = ma_hash b \<and> list_all2 (\<lambda>(k, v) (k', v'). k = k' \<and> owned_eq v v') (ma_map a) (ma_map b)"

definition UpdateHash :: "hash_ops \<Rightarrow> metric_attributes \<Rightarrow> metric_attributes" where
  "UpdateHash h a = a\<lparr>ma_hash := GetHashForAttributeMap h (ma_map a)\<rparr>"

definition FilteredOrderedAttributeMap :: "hash_ops \<Rightarrow> metric_attributes" where
  "FilteredOrderedAttributeMap h = UpdateHash h \<lparr>ma_map = [], ma_hash = - 1\<rparr>"

definition FilteredOrderedAttributeMap_init :: "hash_ops \<Rightarrow> key_values \<Rightarrow> metric_attributes" where
  "FilteredOrderedAttributeMap_init h kvs = UpdateHash h \<lparr>ma_map = OrderedAttributeMap_init kvs [], ma_hash = - 1\<rparr>"

text \<open>A key is a view of memory: the bytes from its start on, and its length. The filter looks up what \<open>data()\<close> shows as a C string.\<close>

definition Filtering_isPresent :: "string list \<Rightarrow> string \<Rightarrow> bool" where
  "Filtering_isPresent allowed mem \<longleftrightarrow> c_str mem \<in> set allowed"

definition Filtering_process :: "hash_ops \<Rightarrow> string list \<Rightarrow> (string \<times> nat \<times> attribute_value) list \<Rightarrow> metric_attributes" where
  "Filtering_process h allowed kvs =
     UpdateHash h (fold (\<lambda>(mem, n, v) a. if c_str mem \<in> set allowed
                                          then a\<lparr>ma_map := oam_SetAttribute (ma_map a) (take n mem) v\<rparr> else a)
                     kvs (FilteredOrderedAttributeMap h))"

subsection \<open>The map of aggregations\<close>

definition kAggregationCardinalityLimit :: nat where "kAggregationCardinalityLimit = 2000"

definition kOverflowAttributes :: "hash_ops \<Rightarrow> metric_attributes" where
  "kOverflowAttributes h = FilteredOrderedAttributeMap_init h [(''otel.metrics.overflow'', AV_bool True)]"

text \<open>A \<open>unique_ptr\<close> may be null.\<close>

record 'a attributes_hashmap =
  hm_entries :: "(metric_attributes \<times> 'a option) list"
  hm_limit :: nat

definition AttributesHashMap :: "nat \<Rightarrow> 'a attributes_hashmap" where
  "AttributesHashMap limit = \<lparr>hm_entries = [], hm_limit = limit\<rparr>"

definition hm_find :: "metric_attributes \<Rightarrow> 'a attributes_hashmap \<Rightarrow> nat option" where
  "hm_find attrs m = index_of (\<lambda>e. ma_eq (fst e) attrs) (hm_entries m)"

definition hm_Get :: "metric_attributes \<Rightarrow> 'a attributes_hashmap \<Rightarrow> 'a option" where
  "hm_Get attrs m = (case hm_find attrs m of Some i \<Rightarrow> snd (hm_entries m ! i) | None \<Rightarrow> None)"

definition hm_Has :: "metric_attributes \<Rightarrow> 'a attributes_hashmap \<Rightarrow> bool" where
  "hm_Has attrs m \<longleftrightarrow> hm_find attrs m \<noteq> None"

definition hm_Size :: "'a attributes_hashmap \<Rightarrow> nat" where
  "hm_Size m = length (hm_entries m)"

definition IsOverflowAttributes :: "'a attributes_hashmap \<Rightarrow> bool" where
  "IsOverflowAttributes m \<longleftrightarrow> length (hm_entries m) + 1 \<ge> hm_limit m"

text \<open>\<open>emplace\<close> and \<open>operator[]\<close>, with the position of the entry.\<close>

definition hm_emplace :: "metric_attributes \<Rightarrow> 'a option \<Rightarrow> 'a attributes_hashmap \<Rightarrow> nat \<times> 'a attributes_hashmap" where
  "hm_emplace attrs v m =
     (case hm_find attrs m of
        Some i \<Rightarrow> (i, m)
      | None \<Rightarrow> (length (hm_entries m), m\<lparr>hm_entries := hm_entries m @ [(attrs, v)]\<rparr>))"

definition hm_put :: "nat \<Rightarrow> 'a option \<Rightarrow> 'a attributes_hashmap \<Rightarrow> 'a attributes_hashmap" where
  "hm_put i v m = m\<lparr>hm_entries := (hm_entries m)[i := (fst (hm_entries m ! i), v)]\<rparr>"

definition hm_assign :: "metric_attributes \<Rightarrow> 'a option \<Rightarrow> 'a attributes_hashmap \<Rightarrow> 'a attributes_hashmap" where
  "hm_assign attrs v m = (let (i, m1) = hm_emplace attrs None m in hm_put i v m1)"

definition GetOrSetOveflowAttributes :: "hash_ops \<Rightarrow> 'a \<Rightarrow> 'a attributes_hashmap \<Rightarrow> nat \<times> 'a attributes_hashmap" where
  "GetOrSetOveflowAttributes h agg m =
     (case hm_find (kOverflowAttributes h) m of
        Some i \<Rightarrow> (i, m)
      | None \<Rightarrow> hm_emplace (kOverflowAttributes h) (Some agg) m)"

text \<open>The position of the aggregation whose pointer is returned: the overload for temporaries, and the one for constants, which looks the
  new entry up again.\<close>

definition GetOrSetDefault :: "hash_ops \<Rightarrow> metric_attributes \<Rightarrow> 'a \<Rightarrow> 'a attributes_hashmap \<Rightarrow> nat \<times> 'a attributes_hashmap" where
  "GetOrSetDefault h attrs agg m =
     (case hm_find attrs m of
        Some i \<Rightarrow> (i, m)
      | None \<Rightarrow> if IsOverflowAttributes m then GetOrSetOveflowAttributes h agg m
                else hm_emplace attrs (Some agg) m)"

definition GetOrSetDefault_copy :: "hash_ops \<Rightarrow> metric_attributes \<Rightarrow> 'a \<Rightarrow> 'a attributes_hashmap \<Rightarrow> nat \<times> 'a attributes_hashmap" where
  "GetOrSetDefault_copy h attrs agg m =
     (case hm_find attrs m of
        Some i \<Rightarrow> (i, m)
      | None \<Rightarrow> if IsOverflowAttributes m then GetOrSetOveflowAttributes h agg m
                else hm_emplace attrs None (hm_assign attrs (Some agg) m))"

definition hm_Set :: "hash_ops \<Rightarrow> metric_attributes \<Rightarrow> 'a \<Rightarrow> 'a attributes_hashmap \<Rightarrow> 'a attributes_hashmap" where
  "hm_Set h attrs agg m =
     (case hm_find attrs m of
        Some i \<Rightarrow> hm_put i (Some agg) m
      | None \<Rightarrow> if IsOverflowAttributes m then hm_assign (kOverflowAttributes h) (Some agg) m
                else hm_assign attrs (Some agg) m)"

text \<open>The loop of \<open>GetAllEnteries\<close>; \<open>None\<close> is the dereference of a null pointer.\<close>

fun all_entries :: "(metric_attributes \<times> 'a option) list \<Rightarrow> (metric_attributes \<Rightarrow> 'a \<Rightarrow> 's \<Rightarrow> bool \<times> 's) \<Rightarrow> 's \<Rightarrow> (bool \<times> 's) option" where
  "all_entries [] callback s = Some (True, s)"
| "all_entries ((k, None) # es) callback s = None"
| "all_entries ((k, Some a) # es) callback s =
     (case callback k a s of (False, s') \<Rightarrow> Some (False, s') | (True, s') \<Rightarrow> all_entries es callback s')"

definition GetAllEnteries :: "'a attributes_hashmap \<Rightarrow> (metric_attributes \<Rightarrow> 'a \<Rightarrow> 's \<Rightarrow> bool \<times> 's) \<Rightarrow> 's \<Rightarrow> (bool \<times> 's) option" where
  "GetAllEnteries m = all_entries (hm_entries m)"

subsection \<open>Storages\<close>

text \<open>The aggregations of one instrument: a fresh one, what \<open>Aggregate\<close> makes of a value, \<open>prev->Diff(*next)\<close>, and a copy.\<close>

record 'a agg_ops =
  ag_create :: 'a
  ag_long :: "64 word \<Rightarrow> 'a \<Rightarrow> 'a"
  ag_double :: "u64 \<Rightarrow> 'a \<Rightarrow> 'a"
  ag_diff :: "'a \<Rightarrow> 'a \<Rightarrow> 'a"
  ag_clone :: "'a \<Rightarrow> 'a"

text \<open>\<open>ss_make\<close> is the constructor of the attribute set from a \<open>KeyValueIterable\<close> and the processor of the storage.\<close>

record 'a sync_storage =
  ss_descriptor :: InstrumentDescriptor
  ss_make :: "key_values \<Rightarrow> metric_attributes"
  ss_hashmap :: "'a attributes_hashmap"

definition SyncMetricStorage :: "InstrumentDescriptor \<Rightarrow> (key_values \<Rightarrow> metric_attributes) \<Rightarrow> nat \<Rightarrow> 'a sync_storage" where
  "SyncMetricStorage d mk limit = \<lparr>ss_descriptor = d, ss_make = mk, ss_hashmap = AttributesHashMap limit\<rparr>"

text \<open>\<open>ptr->Aggregate(value)\<close>; \<open>None\<close> is a null pointer.\<close>

definition aggregate_at :: "nat \<times> 'a attributes_hashmap \<Rightarrow> ('a \<Rightarrow> 'a) \<Rightarrow> 'a attributes_hashmap option" where
  "aggregate_at r f =
     (case r of (i, m) \<Rightarrow> case snd (hm_entries m ! i) of None \<Rightarrow> None | Some a \<Rightarrow> Some (hm_put i (Some (f a)) m))"

definition with_map :: "'a sync_storage \<Rightarrow> 'a attributes_hashmap option \<Rightarrow> 'a sync_storage option" where
  "with_map st r = map_option (\<lambda>m. st\<lparr>ss_hashmap := m\<rparr>) r"

definition RecordLong :: "hash_ops \<Rightarrow> 'a agg_ops \<Rightarrow> 64 word \<Rightarrow> 'a sync_storage \<Rightarrow> 'a sync_storage option" where
  "RecordLong h ag v st =
     (if id_value_type (ss_descriptor st) \<noteq> Vt_kLong then Some st
      else with_map st (aggregate_at (GetOrSetDefault_copy h (FilteredOrderedAttributeMap h) (ag_create ag) (ss_hashmap st)) (ag_long ag v)))"

definition RecordLong_attributes :: "hash_ops \<Rightarrow> 'a agg_ops \<Rightarrow> 64 word \<Rightarrow> key_values
    \<Rightarrow> 'a sync_storage \<Rightarrow> 'a sync_storage option" where
  "RecordLong_attributes h ag v kvs st =
     (if id_value_type (ss_descriptor st) \<noteq> Vt_kLong then Some st
      else with_map st (aggregate_at (GetOrSetDefault h (ss_make st kvs) (ag_create ag) (ss_hashmap st)) (ag_long ag v)))"

definition RecordDouble :: "hash_ops \<Rightarrow> 'a agg_ops \<Rightarrow> u64 \<Rightarrow> 'a sync_storage \<Rightarrow> 'a sync_storage option" where
  "RecordDouble h ag v st =
     (if id_value_type (ss_descriptor st) \<noteq> Vt_kDouble then Some st
      else with_map st (aggregate_at (GetOrSetDefault_copy h (FilteredOrderedAttributeMap h) (ag_create ag) (ss_hashmap st)) (ag_double ag v)))"

definition RecordDouble_attributes :: "hash_ops \<Rightarrow> 'a agg_ops \<Rightarrow> u64 \<Rightarrow> key_values
    \<Rightarrow> 'a sync_storage \<Rightarrow> 'a sync_storage option" where
  "RecordDouble_attributes h ag v kvs st =
     (if id_value_type (ss_descriptor st) \<noteq> Vt_kDouble then Some st
      else with_map st (aggregate_at (GetOrSetDefault h (ss_make st kvs) (ag_create ag) (ss_hashmap st)) (ag_double ag v)))"

text \<open>A storage for several views of one instrument.\<close>

fun multi_record :: "('s \<Rightarrow> 's option) \<Rightarrow> 's list \<Rightarrow> 's list option" where
  "multi_record record [] = Some []"
| "multi_record record (s # ss) =
     (case record s of
        None \<Rightarrow> None
      | Some s' \<Rightarrow> (case multi_record record ss of None \<Rightarrow> None | Some ss' \<Rightarrow> Some (s' # ss')))"

definition multi_AddStorage :: "'s \<Rightarrow> 's list \<Rightarrow> 's list" where
  "multi_AddStorage s ss = ss @ [s]"

definition multi_RecordLong :: "hash_ops \<Rightarrow> 'a agg_ops \<Rightarrow> 64 word \<Rightarrow> 'a sync_storage list \<Rightarrow> 'a sync_storage list option" where
  "multi_RecordLong h ag v = multi_record (RecordLong h ag v)"

definition multi_RecordLong_attributes :: "hash_ops \<Rightarrow> 'a agg_ops \<Rightarrow> 64 word \<Rightarrow> key_values \<Rightarrow> 'a sync_storage list
    \<Rightarrow> 'a sync_storage list option" where
  "multi_RecordLong_attributes h ag v kvs = multi_record (RecordLong_attributes h ag v kvs)"

definition multi_RecordDouble_attributes :: "hash_ops \<Rightarrow> 'a agg_ops \<Rightarrow> u64 \<Rightarrow> key_values \<Rightarrow> 'a sync_storage list
    \<Rightarrow> 'a sync_storage list option" where
  "multi_RecordDouble_attributes h ag v kvs = multi_record (RecordDouble_attributes h ag v kvs)"

definition multi_RecordDouble :: "hash_ops \<Rightarrow> 'a agg_ops \<Rightarrow> u64 \<Rightarrow> 'a sync_storage list \<Rightarrow> 'a sync_storage list option" where
  "multi_RecordDouble h ag v = multi_record (RecordDouble h ag v)"

text \<open>Measurements of an asynchronous instrument: a later observation of the same attributes replaces the earlier.\<close>

definition Observe :: "metric_attributes \<Rightarrow> 'v \<Rightarrow> (metric_attributes \<times> 'v) list \<Rightarrow> (metric_attributes \<times> 'v) list" where
  "Observe attrs v data =
     (case index_of (\<lambda>e. ma_eq (fst e) attrs) data of
        Some i \<Rightarrow> data[i := (fst (data ! i), v)]
      | None \<Rightarrow> data @ [(attrs, v)])"

record 'a async_storage =
  as_descriptor :: InstrumentDescriptor
  as_cumulative :: "'a attributes_hashmap"
  as_delta :: "'a attributes_hashmap"

definition AsyncMetricStorage :: "InstrumentDescriptor \<Rightarrow> 'a async_storage" where
  "AsyncMetricStorage d =
     \<lparr>as_descriptor = d, as_cumulative = AttributesHashMap kAggregationCardinalityLimit,
      as_delta = AttributesHashMap kAggregationCardinalityLimit\<rparr>"

definition record_one :: "hash_ops \<Rightarrow> 'a agg_ops \<Rightarrow> ('v \<Rightarrow> 'a \<Rightarrow> 'a) \<Rightarrow> metric_attributes \<times> 'v \<Rightarrow> 'a async_storage \<Rightarrow> 'a async_storage" where
  "record_one h ag aggregate kv st =
     (let aggr = aggregate (snd kv) (ag_create ag)
      in case hm_Get (fst kv) (as_cumulative st) of
           Some prev \<Rightarrow> st\<lparr>as_cumulative := hm_Set h (fst kv) aggr (as_cumulative st),
                            as_delta := hm_Set h (fst kv) (ag_diff ag prev aggr) (as_delta st)\<rparr>
         | None \<Rightarrow> st\<lparr>as_cumulative := hm_Set h (fst kv) (ag_clone ag aggr) (as_cumulative st),
                       as_delta := hm_Set h (fst kv) aggr (as_delta st)\<rparr>)"

definition async_RecordLong :: "hash_ops \<Rightarrow> 'a agg_ops \<Rightarrow> (metric_attributes \<times> 64 word) list \<Rightarrow> 'a async_storage \<Rightarrow> 'a async_storage" where
  "async_RecordLong h ag ms st =
     (if id_value_type (as_descriptor st) \<noteq> Vt_kLong then st else fold (record_one h ag (ag_long ag)) ms st)"

definition async_RecordDouble :: "hash_ops \<Rightarrow> 'a agg_ops \<Rightarrow> (metric_attributes \<times> u64) list \<Rightarrow> 'a async_storage \<Rightarrow> 'a async_storage" where
  "async_RecordDouble h ag ms st =
     (if id_value_type (as_descriptor st) \<noteq> Vt_kDouble then st else fold (record_one h ag (ag_double ag)) ms st)"

definition async_multi_RecordLong :: "hash_ops \<Rightarrow> 'a agg_ops \<Rightarrow> (metric_attributes \<times> 64 word) list \<Rightarrow> 'a async_storage list \<Rightarrow> 'a async_storage list" where
  "async_multi_RecordLong h ag ms storages = map (async_RecordLong h ag ms) storages"

definition async_multi_RecordDouble :: "hash_ops \<Rightarrow> 'a agg_ops \<Rightarrow> (metric_attributes \<times> u64) list \<Rightarrow> 'a async_storage list \<Rightarrow> 'a async_storage list" where
  "async_multi_RecordDouble h ag ms storages = map (async_RecordDouble h ag ms) storages"

text \<open>What \<open>Collect\<close> takes out before it builds the metrics.\<close>

definition take_delta :: "'a async_storage \<Rightarrow> 'a attributes_hashmap \<times> 'a async_storage" where
  "take_delta st = (as_delta st, st\<lparr>as_delta := AttributesHashMap kAggregationCardinalityLimit\<rparr>)"

subsection \<open>Attribute sets as keys\<close>

text \<open>The law that the keys of a hash map obey: on good keys their comparison is equality.\<close>

locale map_keys =
  fixes eq :: "'k \<Rightarrow> 'k \<Rightarrow> bool" and good :: "'k \<Rightarrow> bool"
  assumes eq_iff: "good a \<Longrightarrow> good b \<Longrightarrow> eq a b \<longleftrightarrow> a = b"
begin

lemma index_key:
  assumes "good k" and "\<forall>e \<in> set es. good (fst e)"
  shows "index_of (\<lambda>e. eq (fst e) k) es = index_of (\<lambda>e. fst e = k) es"
  using assms by (induction es) (auto simp: eq_iff)

lemma index_key_None:
  assumes "good k" and "\<forall>e \<in> set es. good (fst e)"
  shows "index_of (\<lambda>e. eq (fst e) k) es = None \<longleftrightarrow> k \<notin> fst ` set es"
  using index_key [OF assms] by force

lemma index_key_Some:
  assumes "good k" and "\<forall>e \<in> set es. good (fst e)" and "k \<in> fst ` set es"
  obtains i where "index_of (\<lambda>e. eq (fst e) k) es = Some i" "i < length es" "fst (es ! i) = k"
proof -
  obtain i where i: "index_of (\<lambda>e. fst e = k) es = Some i" using assms(3) by (cases "index_of (\<lambda>e. fst e = k) es") force+
  then show ?thesis using that index_key [OF assms(1,2)] index_of_Some_less [OF i] index_of_Some_nth [OF i] by simp
qed

end

text \<open>Good attribute values: no NaN, which is not equal to itself, and no negative zero, which is equal to the other zero.\<close>

definition plain_double :: "u64 \<Rightarrow> bool" where
  "plain_double d \<longleftrightarrow> \<not> dbl_isnan d \<and> (dbl_magnitude d = 0 \<longrightarrow> d = 0)"

fun plain_value :: "owned_value \<Rightarrow> bool" where
  "plain_value (OV_double d) = plain_double d"
| "plain_value (OV_vec_double ds) = list_all plain_double ds"
| "plain_value _ = True"

definition plain_attributes :: "metric_attributes \<Rightarrow> bool" where
  "plain_attributes a \<longleftrightarrow> list_all (\<lambda>e. plain_value (snd e)) (ma_map a)"

lemma dbl_eq_plain: "plain_double a \<Longrightarrow> plain_double b \<Longrightarrow> dbl_eq a b \<longleftrightarrow> a = b"
  by (auto simp: plain_double_def dbl_eq_def)

lemma owned_eq_plain: "plain_value a \<Longrightarrow> plain_value b \<Longrightarrow> owned_eq a b \<longleftrightarrow> a = b"
proof (induction a b rule: owned_eq.induct)
  case (2 a b)
  then show ?case by (auto simp: dbl_eq_plain list_all2_conv_all_nth list_all_length list_eq_iff_nth_eq)
qed (auto simp: dbl_eq_plain)

lemma map_eq_plain:
  assumes "list_all (\<lambda>e. plain_value (snd e)) a" and "list_all (\<lambda>e. plain_value (snd e)) b"
  shows "list_all2 (\<lambda>(k, v) (k', v'). k = k' \<and> owned_eq v v') a b \<longleftrightarrow> a = b"
  using assms by (induction a b rule: list_induct2') (auto simp: owned_eq_plain)

interpretation ma: map_keys ma_eq plain_attributes
proof
  show "ma_eq a b \<longleftrightarrow> a = b" if "plain_attributes a" "plain_attributes b" for a b
    using map_eq_plain [of "ma_map a" "ma_map b"] that by (auto simp: ma_eq_def plain_attributes_def)
qed

lemma overflow_plain: "plain_attributes (kOverflowAttributes h)"
  by (simp add: kOverflowAttributes_def FilteredOrderedAttributeMap_init_def UpdateHash_def plain_attributes_def oam_SetAttribute_def)

subsection \<open>Which entry a measurement belongs to\<close>

text \<open>The attribute sets in the order of their first measurement; the first \<open>limit - 1\<close> of them get an entry, all others share the
  overflow entry.\<close>

definition firsts :: "'k list \<Rightarrow> 'k list" where
  "firsts ks = rev (remdups (rev ks))"

definition admitted :: "nat \<Rightarrow> 'k list \<Rightarrow> 'k list" where
  "admitted limit ks = take (limit - 1) (firsts ks)"

definition route :: "'k \<Rightarrow> nat \<Rightarrow> 'k list \<Rightarrow> 'k \<Rightarrow> 'k" where
  "route over limit ks k = (if k \<in> set (admitted limit ks) then k else over)"

definition final_keys :: "'k \<Rightarrow> nat \<Rightarrow> 'k list \<Rightarrow> 'k list" where
  "final_keys over limit ks = admitted limit ks @
     (if set ks \<subseteq> set (admitted limit ks) \<or> over \<in> set (admitted limit ks) then [] else [over])"

lemma firsts_facts [simp]: "set (firsts ks) = set ks" "distinct (firsts ks)" "firsts [] = []"
  by (simp_all add: firsts_def)

lemma firsts_snoc: "firsts (ks @ [k]) = (if k \<in> set ks then firsts ks else firsts ks @ [k])"
  by (simp add: firsts_def)

lemma final_keys_facts:
  "distinct (final_keys over limit ks)" "k \<in> set ks \<Longrightarrow> route over limit ks k \<in> set (final_keys over limit ks)"
  "length (final_keys over limit ks) \<le> max 1 limit"
  by (auto simp: final_keys_def admitted_def route_def)

text \<open>Not every set was admitted: then no further one will be.\<close>

lemma admitted_full:
  assumes "\<not> set ks \<subseteq> set (admitted limit ks)"
  shows "admitted limit (ks @ [k]) = admitted limit ks" "length (admitted limit ks) = limit - 1"
proof -
  have l: "limit - 1 < length (firsts ks)"
  proof (rule ccontr)
    assume "\<not> limit - 1 < length (firsts ks)"
    then have "admitted limit ks = firsts ks" by (simp add: admitted_def)
    then show False using assms by simp
  qed
  then show "admitted limit (ks @ [k]) = admitted limit ks" "length (admitted limit ks) = limit - 1"
    by (simp_all add: admitted_def firsts_snoc)
qed

lemma keys_step:
  defines "K \<equiv> \<lambda>over limit ks. final_keys over limit ks"
  assumes x: "x = (if k \<in> set (K over limit ks) then k else if limit \<le> length (K over limit ks) + 1 then over else k)"
  shows "route over limit (ks @ [k]) k = x \<and> K over limit (ks @ [k]) = (if x \<in> set (K over limit ks) then K over limit ks else K over limit ks @ [x]) \<and>
    (\<forall>k' \<in> set ks. route over limit (ks @ [k]) k' = route over limit ks k')"
proof (cases "set ks \<subseteq> set (admitted limit ks)")
  case all: True
  then have e: "set (admitted limit ks) = set ks" "K over limit ks = admitted limit ks"
    by (auto simp: K_def final_keys_def admitted_def dest: in_set_takeD)
  have "length (admitted limit ks) = length (firsts ks)"
    using e(1) by (metis admitted_def distinct_card distinct_take firsts_facts(1,2))
  then have f: "admitted limit ks = firsts ks" "length (firsts ks) \<le> limit - 1" by (auto simp: admitted_def)
  show ?thesis
  proof (cases "k \<in> set ks")
    case True
    then have "admitted limit (ks @ [k]) = admitted limit ks" by (simp add: admitted_def firsts_snoc)
    then show ?thesis using True all e x unfolding K_def by (auto simp: final_keys_def route_def)
  next
    case False
    then have a: "admitted limit (ks @ [k]) = (if length (firsts ks) < limit - 1 then firsts ks @ [k] else firsts ks)"
      using f(2) by (auto simp: admitted_def firsts_snoc)
    show ?thesis
    proof (cases "length (firsts ks) < limit - 1")
      case True
      then show ?thesis using False a f e x unfolding K_def by (auto simp: final_keys_def route_def)
    next
      case full: False
      then have "x = over" using x e f False by (auto simp: K_def)
      then show ?thesis using False full a f e unfolding K_def by (auto simp: final_keys_def route_def)
    qed
  qed
next
  case some: False
  note full = admitted_full(1) [OF some, of k] admitted_full(2) [OF some]
  have n: "\<not> set (ks @ [k]) \<subseteq> set (admitted limit (ks @ [k]))" using some full(1) by auto
  have "limit \<le> length (K over limit ks) + 1" using full(2) by (simp add: K_def final_keys_def)
  then have "x = (if k \<in> set (K over limit ks) then k else over)" using x by simp
  then show ?thesis using some n full(1) unfolding K_def by (auto simp: final_keys_def route_def)
qed

subsection \<open>The map refines the routing\<close>

definition hm_keys :: "'a attributes_hashmap \<Rightarrow> metric_attributes list" where
  "hm_keys m = map fst (hm_entries m)"

definition hm_ok :: "'a attributes_hashmap \<Rightarrow> bool" where
  "hm_ok m \<longleftrightarrow> distinct (hm_keys m) \<and> list_all plain_attributes (hm_keys m)"

lemma hm_find_None: "hm_ok m \<Longrightarrow> plain_attributes k \<Longrightarrow> hm_find k m = None \<longleftrightarrow> k \<notin> set (hm_keys m)"
  unfolding hm_find_def hm_keys_def set_map by (rule ma.index_key_None) (auto simp: hm_ok_def hm_keys_def list_all_iff)

lemma hm_find_Some:
  assumes "hm_ok m" and "plain_attributes k" and "k \<in> set (hm_keys m)"
  obtains i where "hm_find k m = Some i" "i < length (hm_entries m)" "fst (hm_entries m ! i) = k"
proof -
  have g: "\<forall>e \<in> set (hm_entries m). plain_attributes (fst e)" using assms(1) by (auto simp: hm_ok_def hm_keys_def list_all_iff)
  have "k \<in> fst ` set (hm_entries m)" using assms(3) by (simp add: hm_keys_def)
  from ma.index_key_Some [OF assms(2) g this] show ?thesis using that by (auto simp: hm_find_def)
qed

text \<open>The entry that is found or made, for both overloads.\<close>

definition target :: "hash_ops \<Rightarrow> metric_attributes \<Rightarrow> 'a attributes_hashmap \<Rightarrow> metric_attributes" where
  "target h k m = (if k \<in> set (hm_keys m) then k else if hm_limit m \<le> length (hm_keys m) + 1 then kOverflowAttributes h else k)"

lemma emplace_found: "hm_find k m = Some i \<Longrightarrow> hm_emplace k v m = (i, m)"
  by (simp add: hm_emplace_def)

lemma emplace_new:
  "hm_find k m = None \<Longrightarrow> hm_emplace k v m = (length (hm_entries m), m\<lparr>hm_entries := hm_entries m @ [(k, v)]\<rparr>)"
  by (simp add: hm_emplace_def)

lemma find_appended:
  assumes "hm_ok m" and "plain_attributes k" and "k \<notin> set (hm_keys m)"
  shows "hm_find k (m\<lparr>hm_entries := hm_entries m @ [(k, v)]\<rparr>) = Some (length (hm_entries m))"
proof -
  have "\<forall>e \<in> set (hm_entries m). \<not> ma_eq (fst e) k"
    using hm_find_None [OF assms(1,2)] assms(3) by (simp add: hm_find_def)
  moreover have "ma_eq k k" using ma.eq_iff [OF assms(2,2)] by simp
  ultimately show ?thesis by (simp add: hm_find_def index_of_append)
qed

lemma GetOrSetDefault_new:
  assumes "hm_ok m" and "plain_attributes k" and "target h k m \<notin> set (hm_keys m)"
  shows "GetOrSetDefault h k a m = (length (hm_entries m), m\<lparr>hm_entries := hm_entries m @ [(target h k m, Some a)]\<rparr>)"
    "GetOrSetDefault_copy h k a m = GetOrSetDefault h k a m"
proof -
  have k: "k \<notin> set (hm_keys m)" using assms(3) by (auto simp: target_def)
  then have n: "hm_find k m = None" using hm_find_None [OF assms(1,2)] by simp
  have l: "IsOverflowAttributes m \<longleftrightarrow> hm_limit m \<le> length (hm_keys m) + 1" by (simp add: IsOverflowAttributes_def hm_keys_def)
  have t: "hm_find (target h k m) m = None"
    using hm_find_None [OF assms(1), of "target h k m"] assms(2,3) overflow_plain by (auto simp: target_def)
  show e: "GetOrSetDefault h k a m = (length (hm_entries m), m\<lparr>hm_entries := hm_entries m @ [(target h k m, Some a)]\<rparr>)"
    using n t k l by (auto simp: GetOrSetDefault_def GetOrSetOveflowAttributes_def emplace_new target_def)
  show "GetOrSetDefault_copy h k a m = GetOrSetDefault h k a m"
  proof (cases "IsOverflowAttributes m")
    case False
    have "hm_assign k (Some a) m = m\<lparr>hm_entries := hm_entries m @ [(k, Some a)]\<rparr>"
      by (simp add: hm_assign_def emplace_new [OF n] hm_put_def)
    then show ?thesis using n False emplace_found [OF find_appended [OF assms(1,2) k]] emplace_new [OF n]
      by (simp add: GetOrSetDefault_def GetOrSetDefault_copy_def)
  qed (simp add: GetOrSetDefault_def GetOrSetDefault_copy_def n)
qed

lemma GetOrSetDefault_old:
  assumes "hm_ok m" and "plain_attributes k" and "target h k m \<in> set (hm_keys m)"
  obtains i where "GetOrSetDefault h k a m = (i, m)" "GetOrSetDefault_copy h k a m = (i, m)"
    "i < length (hm_entries m)" "fst (hm_entries m ! i) = target h k m"
proof -
  have "plain_attributes (target h k m)" using assms(2) overflow_plain by (simp add: target_def)
  from hm_find_Some [OF assms(1) this assms(3)]
  obtain i where i: "hm_find (target h k m) m = Some i" "i < length (hm_entries m)" "fst (hm_entries m ! i) = target h k m" .
  have l: "IsOverflowAttributes m \<longleftrightarrow> hm_limit m \<le> length (hm_keys m) + 1" by (simp add: IsOverflowAttributes_def hm_keys_def)
  have "GetOrSetDefault h k a m = (i, m)" "GetOrSetDefault_copy h k a m = (i, m)"
    using i(1) hm_find_None [OF assms(1,2)] l assms(3)
    by (auto simp: GetOrSetDefault_def GetOrSetDefault_copy_def GetOrSetOveflowAttributes_def target_def split: option.splits if_splits)
  then show ?thesis using that i by blast
qed

text \<open>The aggregation of the measurements \<open>ms\<close> that belong to the entry \<open>k\<close>.\<close>

definition entry_total :: "hash_ops \<Rightarrow> ('v \<Rightarrow> 'a \<Rightarrow> 'a) \<Rightarrow> 'a \<Rightarrow> nat \<Rightarrow> (metric_attributes \<times> 'v) list \<Rightarrow> metric_attributes \<Rightarrow> 'a" where
  "entry_total h f a0 limit ms k =
     fold f (map snd (filter (\<lambda>p. route (kOverflowAttributes h) limit (map fst ms) (fst p) = k) ms)) a0"

definition holds_all :: "hash_ops \<Rightarrow> ('v \<Rightarrow> 'a \<Rightarrow> 'a) \<Rightarrow> 'a \<Rightarrow> nat \<Rightarrow> (metric_attributes \<times> 'v) list \<Rightarrow> 'a attributes_hashmap \<Rightarrow> bool" where
  "holds_all h f a0 limit ms m \<longleftrightarrow> hm_limit m = limit \<and>
     hm_entries m = map (\<lambda>k. (k, Some (entry_total h f a0 limit ms k))) (final_keys (kOverflowAttributes h) limit (map fst ms))"

lemma holds_all_ok:
  assumes "holds_all h f a0 limit ms m" and "list_all (\<lambda>p. plain_attributes (fst p)) ms"
  shows "hm_keys m = final_keys (kOverflowAttributes h) limit (map fst ms)" "hm_ok m"
proof -
  show k: "hm_keys m = final_keys (kOverflowAttributes h) limit (map fst ms)"
    using assms(1) by (simp add: holds_all_def hm_keys_def comp_def)
  have "set (admitted limit (map fst ms)) \<subseteq> set (map fst ms)" by (auto simp: admitted_def dest: in_set_takeD)
  then have "list_all plain_attributes (final_keys (kOverflowAttributes h) limit (map fst ms))"
    using assms(2) overflow_plain by (auto simp: final_keys_def list_all_iff split: if_splits)
  then show "hm_ok m" unfolding hm_ok_def k using final_keys_facts(1) by simp
qed

lemma total_step:
  assumes "\<forall>k' \<in> set (map fst ms). route (kOverflowAttributes h) limit (map fst ms @ [k]) k' = route (kOverflowAttributes h) limit (map fst ms) k'"
    and "route (kOverflowAttributes h) limit (map fst ms @ [k]) k = x"
  shows "entry_total h f a0 limit (ms @ [(k, v)]) x = f v (entry_total h f a0 limit ms x)"
    "y \<noteq> x \<Longrightarrow> entry_total h f a0 limit (ms @ [(k, v)]) y = entry_total h f a0 limit ms y"
proof -
  have "filter (\<lambda>p. route (kOverflowAttributes h) limit (map fst ms @ [k]) (fst p) = z) ms =
      filter (\<lambda>p. route (kOverflowAttributes h) limit (map fst ms) (fst p) = z) ms" for z
    using assms(1) by (intro filter_cong) auto
  then show "entry_total h f a0 limit (ms @ [(k, v)]) x = f v (entry_total h f a0 limit ms x)"
    "y \<noteq> x \<Longrightarrow> entry_total h f a0 limit (ms @ [(k, v)]) y = entry_total h f a0 limit ms y"
    using assms(2) by (simp_all add: entry_total_def)
qed

lemma total_unused:
  assumes "x \<notin> set (final_keys (kOverflowAttributes h) limit (map fst ms))"
  shows "entry_total h f a0 limit ms x = a0"
proof -
  have "filter (\<lambda>p. route (kOverflowAttributes h) limit (map fst ms) (fst p) = x) ms = []"
    unfolding filter_empty_conv
  proof
    fix p assume "p \<in> set ms"
    then have "route (kOverflowAttributes h) limit (map fst ms) (fst p) \<in> set (final_keys (kOverflowAttributes h) limit (map fst ms))"
      by (intro final_keys_facts(2)) simp
    then show "route (kOverflowAttributes h) limit (map fst ms) (fst p) \<noteq> x" using assms by blast
  qed
  then show ?thesis by (simp add: entry_total_def)
qed

lemma update_at_key:
  assumes "distinct K" and "i < length K" and "K ! i = x" and "\<And>y. y \<noteq> x \<Longrightarrow> g' y = g y"
  shows "(map (\<lambda>k. (k, g k)) K)[i := (x, g' x)] = map (\<lambda>k. (k, g' k)) K"
proof (rule nth_equalityI)
  fix j assume "j < length ((map (\<lambda>k. (k, g k)) K)[i := (x, g' x)])"
  then have j: "j < length K" by simp
  show "(map (\<lambda>k. (k, g k)) K)[i := (x, g' x)] ! j = map (\<lambda>k. (k, g' k)) K ! j"
  proof (cases "j = i")
    case False
    then have "K ! j \<noteq> x" using assms(1-3) j nth_eq_iff_index_eq by blast
    then show ?thesis using False j assms(4) by simp
  qed (use j assms(2,3) in simp)
qed simp

lemma record_step:
  assumes m: "holds_all h f a0 limit ms m" and ps: "list_all (\<lambda>p. plain_attributes (fst p)) ms" and k: "plain_attributes k"
  shows "\<exists>m'. aggregate_at (GetOrSetDefault h k a0 m) (f v) = Some m' \<and> aggregate_at (GetOrSetDefault_copy h k a0 m) (f v) = Some m' \<and>
    holds_all h f a0 limit (ms @ [(k, v)]) m'"
proof -
  let ?K = "final_keys (kOverflowAttributes h) limit (map fst ms)"
  note ok = holds_all_ok [OF m ps]
  have lim: "hm_limit m = limit" "hm_entries m = map (\<lambda>k. (k, Some (entry_total h f a0 limit ms k))) ?K" using m by (simp_all add: holds_all_def)
  have x: "target h k m = (if k \<in> set ?K then k else if limit \<le> length ?K + 1 then kOverflowAttributes h else k)"
    using ok(1) lim(1) by (simp add: target_def)
  note st = keys_step [OF x]
  have tot: "entry_total h f a0 limit (ms @ [(k, v)]) (target h k m) = f v (entry_total h f a0 limit ms (target h k m))"
      "\<And>y. y \<noteq> target h k m \<Longrightarrow> entry_total h f a0 limit (ms @ [(k, v)]) y = entry_total h f a0 limit ms y"
    using total_step [of ms h limit k "target h k m"] st by auto
  have keys: "final_keys (kOverflowAttributes h) limit (map fst (ms @ [(k, v)])) =
      (if target h k m \<in> set ?K then ?K else ?K @ [target h k m])" using st by simp
  show ?thesis
  proof (cases "target h k m \<in> set ?K")
    case True
    then have "target h k m \<in> set (hm_keys m)" using ok(1) by simp
    from GetOrSetDefault_old [OF ok(2) k this, of a0]
    obtain i where i: "GetOrSetDefault h k a0 m = (i, m)" "GetOrSetDefault_copy h k a0 m = (i, m)" "i < length (hm_entries m)"
        "fst (hm_entries m ! i) = target h k m" .
    have ik: "i < length ?K" "?K ! i = target h k m" using i(3,4) lim(2) by simp_all
    then have e: "snd (hm_entries m ! i) = Some (entry_total h f a0 limit ms (target h k m))" using lim(2) by simp
    let ?m = "hm_put i (Some (f v (entry_total h f a0 limit ms (target h k m)))) m"
    have "hm_entries ?m = map (\<lambda>k'. (k', Some (entry_total h f a0 limit (ms @ [(k, v)]) k'))) ?K"
      using update_at_key [OF final_keys_facts(1) ik, of "\<lambda>k'. Some (entry_total h f a0 limit (ms @ [(k, v)]) k')" "\<lambda>k'. Some (entry_total h f a0 limit ms k')"]
        tot i(4) lim(2) by (simp add: hm_put_def)
    then have "holds_all h f a0 limit (ms @ [(k, v)]) ?m" using True keys lim(1) by (simp add: holds_all_def hm_put_def)
    then show ?thesis using i(1,2) e by (simp add: aggregate_at_def)
  next
    case False
    then have n: "target h k m \<notin> set (hm_keys m)" using ok(1) by simp
    note g = GetOrSetDefault_new [OF ok(2) k n, of a0]
    let ?m = "m\<lparr>hm_entries := hm_entries m @ [(target h k m, Some (f v a0))]\<rparr>"
    have "aggregate_at (GetOrSetDefault h k a0 m) (f v) = Some ?m" using g(1) by (simp add: aggregate_at_def hm_put_def)
    moreover have "entry_total h f a0 limit (ms @ [(k, v)]) k' = entry_total h f a0 limit ms k'" if "k' \<in> set ?K" for k'
      using tot(2) False that by metis
    then have "holds_all h f a0 limit (ms @ [(k, v)]) ?m"
      using False keys lim tot(1) total_unused [OF False, of f a0] by (simp add: holds_all_def)
    ultimately show ?thesis using g(2) by auto
  qed
qed

subsection \<open>A synchronous storage\<close>

text \<open>A measurement, with attributes or without.\<close>

definition attributes_of :: "hash_ops \<Rightarrow> (key_values \<Rightarrow> metric_attributes) \<Rightarrow> key_values option \<Rightarrow> metric_attributes" where
  "attributes_of h mk a = (case a of None \<Rightarrow> FilteredOrderedAttributeMap h | Some kvs \<Rightarrow> mk kvs)"

fun record_longs :: "hash_ops \<Rightarrow> 'a agg_ops \<Rightarrow> (key_values option \<times> 64 word) list \<Rightarrow> 'a sync_storage \<Rightarrow> 'a sync_storage option" where
  "record_longs h ag [] st = Some st"
| "record_longs h ag ((a, v) # ms) st =
     (case (case a of None \<Rightarrow> RecordLong h ag v st | Some kvs \<Rightarrow> RecordLong_attributes h ag v kvs st) of
        None \<Rightarrow> None
      | Some st' \<Rightarrow> record_longs h ag ms st')"

lemma record_one_long:
  assumes "id_value_type (ss_descriptor st) = Vt_kLong" and "holds_all h (ag_long ag) (ag_create ag) limit ps (ss_hashmap st)"
    and "list_all (\<lambda>p. plain_attributes (fst p)) ps" and "plain_attributes (attributes_of h (ss_make st) a)"
  shows "\<exists>m'. (case a of None \<Rightarrow> RecordLong h ag v st | Some kvs \<Rightarrow> RecordLong_attributes h ag v kvs st) = Some (st\<lparr>ss_hashmap := m'\<rparr>) \<and>
    holds_all h (ag_long ag) (ag_create ag) limit (ps @ [(attributes_of h (ss_make st) a, v)]) m'"
  using record_step [OF assms(2-4), of v] assms(1)
  by (cases a) (auto simp: RecordLong_def RecordLong_attributes_def with_map_def attributes_of_def)

lemma record_longs_holds:
  "id_value_type (ss_descriptor st) = Vt_kLong \<Longrightarrow> holds_all h (ag_long ag) (ag_create ag) limit ps (ss_hashmap st) \<Longrightarrow>
   list_all (\<lambda>p. plain_attributes (fst p)) ps \<Longrightarrow> list_all (\<lambda>p. plain_attributes (attributes_of h (ss_make st) (fst p))) ms \<Longrightarrow>
   \<exists>m'. record_longs h ag ms st = Some (st\<lparr>ss_hashmap := m'\<rparr>) \<and>
     holds_all h (ag_long ag) (ag_create ag) limit (ps @ map (\<lambda>(a, v). (attributes_of h (ss_make st) a, v)) ms) m'"
proof (induction ms arbitrary: ps st)
  case Nil
  then show ?case by (intro exI [of _ "ss_hashmap st"]) simp
next
  case (Cons p ms)
  obtain a v where p: "p = (a, v)" by (cases p)
  have a: "plain_attributes (attributes_of h (ss_make st) a)" using Cons.prems(4) p by simp
  from record_one_long [OF Cons.prems(1-3) a]
  obtain m' where m': "(case a of None \<Rightarrow> RecordLong h ag v st | Some kvs \<Rightarrow> RecordLong_attributes h ag v kvs st) = Some (st\<lparr>ss_hashmap := m'\<rparr>)"
      "holds_all h (ag_long ag) (ag_create ag) limit (ps @ [(attributes_of h (ss_make st) a, v)]) m'" by blast
  from Cons.IH [of "st\<lparr>ss_hashmap := m'\<rparr>" "ps @ [(attributes_of h (ss_make st) a, v)]"]
  show ?case using Cons.prems m' a p by simp
qed

text \<open>C21: Every measurement is counted once. Whatever integers are recorded on a long instrument, with whatever attributes (no NaN and no
  negative zero among their values), the storage keeps one aggregation for each of the first \<open>limit - 1\<close> attribute sets and one for all others
  together, at most \<open>limit\<close> in all; each is the aggregation of exactly the measurements that belong to it, in their order. Doubles are ignored.\<close>

theorem sync_storage_counts_everything:
  assumes "id_value_type d = Vt_kLong" and "list_all (\<lambda>p. plain_attributes (attributes_of h mk (fst p))) ms"
    and "ks = map (\<lambda>p. attributes_of h mk (fst p)) ms"
  shows "\<exists>st. record_longs h ag ms (SyncMetricStorage d mk limit) = Some st \<and>
    hm_entries (ss_hashmap st) =
      map (\<lambda>k. (k, Some (fold (ag_long ag)
             (map snd (filter (\<lambda>p. route (kOverflowAttributes h) limit ks (attributes_of h mk (fst p)) = k) ms)) (ag_create ag))))
        (final_keys (kOverflowAttributes h) limit ks) \<and>
    hm_Size (ss_hashmap st) \<le> max 1 limit \<and> RecordDouble h ag x st = Some st"
proof -
  let ?st = "SyncMetricStorage d mk limit"
  have h0: "holds_all h (ag_long ag) (ag_create ag) limit [] (ss_hashmap ?st)"
    by (simp add: SyncMetricStorage_def AttributesHashMap_def holds_all_def final_keys_def admitted_def)
  from record_longs_holds [OF _ h0, of ms] assms(1,2)
  obtain m' where m': "record_longs h ag ms ?st = Some (?st\<lparr>ss_hashmap := m'\<rparr>)"
      "holds_all h (ag_long ag) (ag_create ag) limit (map (\<lambda>(a, v). (attributes_of h mk a, v)) ms) m'"
    by (auto simp: SyncMetricStorage_def)
  have ks: "map fst (map (\<lambda>(a, v). (attributes_of h mk a, v)) ms) = ks" using assms(3) by auto
  have e: "hm_entries m' = map (\<lambda>k. (k, Some (fold (ag_long ag)
             (map snd (filter (\<lambda>p. route (kOverflowAttributes h) limit ks (attributes_of h mk (fst p)) = k) ms)) (ag_create ag))))
        (final_keys (kOverflowAttributes h) limit ks)"
    using m'(2) unfolding holds_all_def entry_total_def ks by (simp add: filter_map comp_def case_prod_unfold)
  then have "hm_Size m' \<le> max 1 limit" using final_keys_facts(3) [of "kOverflowAttributes h" limit ks] by (simp add: hm_Size_def)
  then show ?thesis using m'(1) e assms(1)
    by (intro exI [of _ "?st\<lparr>ss_hashmap := m'\<rparr>"]) (simp add: RecordDouble_def SyncMetricStorage_def)
qed

text \<open>A NaN among the attributes: the overload for constants makes two entries for it, the second without an aggregation, and returns
  the null pointer of the second.\<close>

lemma nan_attributes_null:
  assumes "\<not> ma_eq k k" and "hm_find k m = None" and "\<not> IsOverflowAttributes m"
  shows "aggregate_at (GetOrSetDefault_copy h k a m) f = None"
proof -
  let ?m = "m\<lparr>hm_entries := hm_entries m @ [(k, Some a)]\<rparr>"
  have a: "hm_assign k (Some a) m = ?m" by (simp add: hm_assign_def emplace_new [OF assms(2)] hm_put_def)
  have "hm_find k ?m = None" using assms(1,2) by (simp add: hm_find_def)
  from emplace_new [OF this] show ?thesis using assms(2,3) a by (simp add: GetOrSetDefault_copy_def aggregate_at_def nth_append)
qed

text \<open>Three attribute sets and a limit of three: the third goes to the overflow entry.\<close>

definition demo_hash :: hash_ops where
  "demo_hash = \<lparr>h_bool = (\<lambda>_. 1), h_int32 = (\<lambda>_. 2), h_uint32 = (\<lambda>_. 3), h_int64 = (\<lambda>_. 4), h_uint64 = (\<lambda>_. 5), h_double = (\<lambda>_. 6),
     h_string = (\<lambda>_. 7), h_uint8 = (\<lambda>_. 8)\<rparr>"

definition demo_sum :: "64 word agg_ops" where
  "demo_sum = \<lparr>ag_create = 0, ag_long = (+), ag_double = (\<lambda>_ a. a), ag_diff = (\<lambda>p n. n - p), ag_clone = id\<rparr>"

definition demo_instrument :: InstrumentDescriptor where
  "demo_instrument = \<lparr>id_name = ''n'', id_description = [], id_unit = [], id_type = It_kCounter, id_value_type = Vt_kLong\<rparr>"

definition demo_measurements :: "(key_values option \<times> 64 word) list" where
  "demo_measurements = [(Some [(''a'', AV_bool True)], 1), (None, 2), (Some [(''a'', AV_bool False)], 30), (Some [(''a'', AV_bool True)], 4),
     (Some [(''b'', AV_bool True)], 500)]"

theorem sync_storage_counts_everything_witness:
  "\<exists>st. record_longs demo_hash demo_sum demo_measurements (SyncMetricStorage demo_instrument (FilteredOrderedAttributeMap_init demo_hash) 3) = Some st \<and>
     map snd (hm_entries (ss_hashmap st)) = [Some 5, Some 2, Some 530]"
proof -
  let ?mk = "FilteredOrderedAttributeMap_init demo_hash"
  have l: "id_value_type demo_instrument = Vt_kLong" by (simp add: demo_instrument_def)
  have p: "list_all (\<lambda>p. plain_attributes (attributes_of demo_hash ?mk (fst p))) demo_measurements" by code_simp
  let ?ks = "map (\<lambda>p. attributes_of demo_hash ?mk (fst p)) demo_measurements"
  have v: "map (\<lambda>k. Some (fold (ag_long demo_sum) (map snd (filter (\<lambda>p. route (kOverflowAttributes demo_hash) 3 ?ks
      (attributes_of demo_hash ?mk (fst p)) = k) demo_measurements)) (ag_create demo_sum))) (final_keys (kOverflowAttributes demo_hash) 3 ?ks) =
      [Some 5, Some 2, Some 530]" by code_simp
  from sync_storage_counts_everything [OF l p refl, where ag = demo_sum and limit = 3 and x = 0]
  obtain st where "record_longs demo_hash demo_sum demo_measurements (SyncMetricStorage demo_instrument ?mk 3) = Some st"
      "map snd (hm_entries (ss_hashmap st)) = map (\<lambda>k. Some (fold (ag_long demo_sum) (map snd (filter (\<lambda>p. route (kOverflowAttributes demo_hash) 3 ?ks
        (attributes_of demo_hash ?mk (fst p)) = k) demo_measurements)) (ag_create demo_sum))) (final_keys (kOverflowAttributes demo_hash) 3 ?ks)"
    by (auto simp: comp_def)
  then show ?thesis using v by auto
qed

subsection \<open>An asynchronous storage\<close>

lemma hm_put_keys: "i < length (hm_entries m) \<Longrightarrow> hm_keys (hm_put i v m) = hm_keys m"
  by (simp add: hm_put_def hm_keys_def map_update list_update_same_conv)

lemma hm_index_unique:
  "hm_ok m \<Longrightarrow> i < length (hm_entries m) \<Longrightarrow> j < length (hm_entries m) \<Longrightarrow> fst (hm_entries m ! i) = fst (hm_entries m ! j) \<longleftrightarrow> i = j"
  by (metis hm_keys_def hm_ok_def length_map nth_eq_iff_index_eq nth_map)

lemma hm_Get_iff:
  assumes "hm_ok m" and "plain_attributes k" and "i < length (hm_entries m)" and "fst (hm_entries m ! i) = k"
  shows "hm_Get k m = snd (hm_entries m ! i)"
proof -
  have "k \<in> set (hm_keys m)" using assms(3,4) by (auto simp: hm_keys_def)
  then obtain j where j: "hm_find k m = Some j" "j < length (hm_entries m)" "fst (hm_entries m ! j) = k"
    using hm_find_Some [OF assms(1,2)] by blast
  then have "i = j" using hm_index_unique [OF assms(1,3) j(2)] assms(4) by simp
  then show ?thesis using j(1) by (simp add: hm_Get_def)
qed

lemma hm_Get_absent: "hm_ok m \<Longrightarrow> plain_attributes k \<Longrightarrow> k \<notin> set (hm_keys m) \<Longrightarrow> hm_Get k m = None"
  using hm_find_None [of m k] by (simp add: hm_Get_def)

text \<open>With room for the key, \<open>Set\<close> is the update of a map.\<close>

lemma hm_Set_spec:
  assumes ok: "hm_ok m" and k: "plain_attributes k" and room: "length (hm_keys m) + 1 < hm_limit m" and k': "plain_attributes k'"
  shows "hm_ok (hm_Set h k a m) \<and> length (hm_keys (hm_Set h k a m)) \<le> length (hm_keys m) + 1 \<and> hm_limit (hm_Set h k a m) = hm_limit m \<and>
    hm_Get k' (hm_Set h k a m) = (if k' = k then Some a else hm_Get k' m)"
proof (cases "k \<in> set (hm_keys m)")
  case True
  then obtain i where i: "hm_find k m = Some i" "i < length (hm_entries m)" "fst (hm_entries m ! i) = k"
    using hm_find_Some [OF ok k] by blast
  let ?m = "hm_put i (Some a) m"
  have e: "hm_Set h k a m = ?m" using i by (simp add: hm_Set_def)
  have keys: "hm_keys ?m = hm_keys m" using hm_put_keys [OF i(2)] .
  then have ok': "hm_ok ?m" using ok by (simp add: hm_ok_def)
  have "hm_Get k' ?m = (if k' = k then Some a else hm_Get k' m)"
  proof (cases "k' \<in> set (hm_keys m)")
    case in_keys: True
    then obtain j where j: "j < length (hm_entries m)" "fst (hm_entries m ! j) = k'" by (auto simp: hm_keys_def in_set_conv_nth)
    have "j = i \<longleftrightarrow> k' = k" using hm_index_unique [OF ok j(1) i(2)] j(2) i(3) by auto
    moreover have "hm_Get k' ?m = snd (hm_entries ?m ! j)" using hm_Get_iff [OF ok' k', of j] j i(3) by (cases "j = i") (auto simp: hm_put_def)
    moreover have "hm_Get k' m = snd (hm_entries m ! j)" using hm_Get_iff [OF ok k' j] .
    ultimately show ?thesis using i(2) j(1) by (auto simp: hm_put_def)
  next
    case False
    then show ?thesis using hm_Get_absent [OF ok k'] hm_Get_absent [OF ok' k'] keys True by auto
  qed
  then show ?thesis using e ok' keys by (simp add: hm_put_def)
next
  case False
  then have n: "hm_find k m = None" using hm_find_None [OF ok k] by simp
  have no: "\<not> IsOverflowAttributes m" using room by (simp add: IsOverflowAttributes_def hm_keys_def)
  let ?m = "m\<lparr>hm_entries := hm_entries m @ [(k, Some a)]\<rparr>"
  have e: "hm_Set h k a m = ?m" using n no by (simp add: hm_Set_def hm_assign_def emplace_new [OF n] hm_put_def)
  have keys: "hm_keys ?m = hm_keys m @ [k]" by (simp add: hm_keys_def)
  have ok': "hm_ok ?m" unfolding hm_ok_def keys using ok False k by (simp add: hm_ok_def)
  have "hm_Get k' ?m = (if k' = k then Some a else hm_Get k' m)"
  proof (cases "k' \<in> set (hm_keys m)")
    case True
    then obtain j where j: "j < length (hm_entries m)" "fst (hm_entries m ! j) = k'" by (auto simp: hm_keys_def in_set_conv_nth)
    have "hm_Get k' ?m = snd (hm_entries m ! j)" using hm_Get_iff [OF ok' k', of j] j by (simp add: nth_append)
    then show ?thesis using hm_Get_iff [OF ok k' j] True False by auto
  next
    case absent: False
    show ?thesis
    proof (cases "k' = k")
      case True
      then show ?thesis using hm_Get_iff [OF ok' k', of "length (hm_entries m)"] by simp
    next
      case False
      then show ?thesis using hm_Get_absent [OF ok k' absent] hm_Get_absent [OF ok' k'] keys absent by simp
    qed
  qed
  then show ?thesis using e ok' keys by simp
qed

definition async_ok :: "nat \<Rightarrow> 'a async_storage \<Rightarrow> bool" where
  "async_ok n st \<longleftrightarrow> hm_ok (as_cumulative st) \<and> hm_ok (as_delta st) \<and>
     length (hm_keys (as_cumulative st)) + n < hm_limit (as_cumulative st) \<and> length (hm_keys (as_delta st)) + n < hm_limit (as_delta st)"

text \<open>What a measurement leaves in the two maps, from what the first held.\<close>

definition delta_of :: "'a agg_ops \<Rightarrow> 'a option \<Rightarrow> 'a \<Rightarrow> 'a" where
  "delta_of ag prev aggr = (case prev of Some p \<Rightarrow> ag_diff ag p aggr | None \<Rightarrow> aggr)"

definition kept_of :: "'a agg_ops \<Rightarrow> 'a option \<Rightarrow> 'a \<Rightarrow> 'a" where
  "kept_of ag prev aggr = (case prev of Some p \<Rightarrow> aggr | None \<Rightarrow> ag_clone ag aggr)"

lemma record_one_eq:
  "record_one h ag f (k, v) st = st
     \<lparr>as_cumulative := hm_Set h k (kept_of ag (hm_Get k (as_cumulative st)) (f v (ag_create ag))) (as_cumulative st),
      as_delta := hm_Set h k (delta_of ag (hm_Get k (as_cumulative st)) (f v (ag_create ag))) (as_delta st)\<rparr>"
  by (simp add: record_one_def kept_of_def delta_of_def Let_def split: option.split)

lemma record_one_spec:
  assumes "async_ok (Suc n) st" and "plain_attributes k" and "plain_attributes k'"
  shows "async_ok n (record_one h ag f (k, v) st) \<and> as_descriptor (record_one h ag f (k, v) st) = as_descriptor st \<and>
    hm_Get k' (as_cumulative (record_one h ag f (k, v) st)) =
      (if k' = k then Some (kept_of ag (hm_Get k (as_cumulative st)) (f v (ag_create ag))) else hm_Get k' (as_cumulative st)) \<and>
    hm_Get k' (as_delta (record_one h ag f (k, v) st)) =
      (if k' = k then Some (delta_of ag (hm_Get k (as_cumulative st)) (f v (ag_create ag))) else hm_Get k' (as_delta st))"
proof -
  have r: "length (hm_keys (as_cumulative st)) + 1 < hm_limit (as_cumulative st)" "length (hm_keys (as_delta st)) + 1 < hm_limit (as_delta st)"
      "hm_ok (as_cumulative st)" "hm_ok (as_delta st)"
    using assms(1) by (auto simp: async_ok_def)
  show ?thesis
    unfolding record_one_eq
    using hm_Set_spec [OF r(3) assms(2) r(1) assms(3), of h "kept_of ag (hm_Get k (as_cumulative st)) (f v (ag_create ag))"]
      hm_Set_spec [OF r(4) assms(2) r(2) assms(3), of h "delta_of ag (hm_Get k (as_cumulative st)) (f v (ag_create ag))"] assms(1)
    by (auto simp: async_ok_def)
qed

lemma record_batch_spec:
  "async_ok (length ms) st \<Longrightarrow> list_all (\<lambda>p. plain_attributes (fst p)) ms \<Longrightarrow> distinct (map fst ms) \<Longrightarrow> plain_attributes k \<Longrightarrow>
   hm_Get k (as_cumulative (fold (record_one h ag f) ms st)) =
     (case map_of ms k of
        Some v \<Rightarrow> Some (kept_of ag (hm_Get k (as_cumulative st)) (f v (ag_create ag)))
      | None \<Rightarrow> hm_Get k (as_cumulative st)) \<and>
   hm_Get k (as_delta (fold (record_one h ag f) ms st)) =
     (case map_of ms k of
        Some v \<Rightarrow> Some (delta_of ag (hm_Get k (as_cumulative st)) (f v (ag_create ag)))
      | None \<Rightarrow> hm_Get k (as_delta st)) \<and> as_descriptor (fold (record_one h ag f) ms st) = as_descriptor st"
proof (induction ms arbitrary: st)
  case (Cons p ms)
  obtain k1 v1 where p: "p = (k1, v1)" by (cases p)
  have k1: "plain_attributes k1" "k1 \<notin> fst ` set ms" using Cons.prems p by auto
  have o: "async_ok (Suc (length ms)) st" using Cons.prems(1) by simp
  note st = record_one_spec [OF o k1(1) Cons.prems(4), of h ag f v1]
  have "map_of ms k1 = None" using k1(2) by (simp add: map_of_eq_None_iff)
  then show ?case using Cons.IH [of "record_one h ag f (k1, v1) st"] Cons.prems st p by (cases "k = k1"; cases "map_of ms k") auto
qed simp

text \<open>C22: An asynchronous instrument turns observed totals into differences. When an observed batch is recorded (one value for each attribute set,
  room for all of them), the storage keeps for each set the aggregation of the new total, and as its difference what \<open>Diff\<close> gives against the
  total before, or the total itself when the set is new. The difference replaces the one that was there: a batch that is recorded before the
  last one was collected makes that one vanish from what is reported.\<close>

theorem async_storage_differences:
  assumes "id_value_type (as_descriptor st) = Vt_kLong" and "async_ok (length ms) st" and "list_all (\<lambda>p. plain_attributes (fst p)) ms"
    and "distinct (map fst ms)" and "(k, v) \<in> set ms" and "st' = async_RecordLong h ag ms st"
  shows "hm_Get k (as_cumulative st') = Some (kept_of ag (hm_Get k (as_cumulative st)) (ag_long ag v (ag_create ag))) \<and>
    hm_Get k (fst (take_delta st')) = Some (delta_of ag (hm_Get k (as_cumulative st)) (ag_long ag v (ag_create ag))) \<and>
    hm_Get k (as_delta (snd (take_delta st'))) = None \<and> as_cumulative (snd (take_delta st')) = as_cumulative st'"
proof -
  have k: "plain_attributes k" "map_of ms k = Some v" using assms(3-5) by (auto simp: list_all_iff)
  from record_batch_spec [OF assms(2-4) k(1), of h ag "ag_long ag"] show ?thesis
    using assms(1,6) k(2)
    by (simp add: async_RecordLong_def take_delta_def AttributesHashMap_def hm_Get_def hm_find_def)
qed

text \<open>Totals 10 and then 15, both before a collection: the reported difference is 5.\<close>

theorem async_storage_differences_witness:
  "let k = FilteredOrderedAttributeMap demo_hash;
       st1 = async_RecordLong demo_hash demo_sum [(k, 10)] (AsyncMetricStorage demo_instrument);
       st2 = async_RecordLong demo_hash demo_sum [(k, 15)] st1
   in hm_Get k (fst (take_delta st2)) = Some 5"
proof -
  let ?k = "FilteredOrderedAttributeMap demo_hash"
  let ?st0 = "AsyncMetricStorage demo_instrument :: 64 word async_storage"
  let ?st1 = "async_RecordLong demo_hash demo_sum [(?k, 10)] ?st0"
  have k: "list_all (\<lambda>p. plain_attributes (fst p)) [(?k, v)]" "distinct (map fst [(?k, v)])" "(?k, v) \<in> set [(?k, v)]" for v :: "64 word"
    by (simp_all add: plain_attributes_def FilteredOrderedAttributeMap_def UpdateHash_def)
  have l: "id_value_type (as_descriptor ?st0) = Vt_kLong" by (simp add: AsyncMetricStorage_def demo_instrument_def)
  have o0: "async_ok (Suc (length [(?k, 15::64 word)])) ?st0"
    by (simp add: async_ok_def AsyncMetricStorage_def AttributesHashMap_def hm_ok_def hm_keys_def kAggregationCardinalityLimit_def)
  have s1: "?st1 = record_one demo_hash demo_sum (ag_long demo_sum) (?k, 10) ?st0" using l by (simp add: async_RecordLong_def)
  have p: "plain_attributes ?k" using k(1) [of 0] by simp
  note r = record_one_spec [OF o0 p p, of demo_hash demo_sum "ag_long demo_sum" 10, folded s1]
  have "hm_Get ?k (as_cumulative ?st1) = Some 10"
    using r by (simp add: kept_of_def demo_sum_def AsyncMetricStorage_def AttributesHashMap_def hm_Get_def hm_find_def)
  then show ?thesis
    using async_storage_differences [of ?st1 "[(?k, 15)]", OF _ _ k refl, of demo_hash demo_sum] r l
    by (simp add: delta_of_def demo_sum_def Let_def)
qed

end
