(* ===== verification/Metric_Views.thy ===== *)
theory Metric_Views
  imports Metric_Storage
begin

text \<open>
  Views of the metrics SDK (\<open>api/sdk/metrics/view/\<close>): the predicates on names (\<open>predicate.h\<close>, \<open>predicate_factory.h\<close>), the selectors of
  instruments and meters (\<open>instrument_selector.h\<close>, \<open>meter_selector.h\<close>), views (\<open>view.h\<close>) and the registry that finds the views of an
  instrument (\<open>view_registry.h\<close>). A regular expression of the standard library is an argument: \<open>rx pattern\<close> is the test that the
  compiled pattern makes. A string view from a \<open>std::string\<close> is its bytes; \<open>data()\<close> of it ends at the first NUL.
\<close>

subsection \<open>Predicates and selectors\<close>

datatype PredicateType = kPattern | kExact

datatype Predicate =
    PatternPredicate "string \<Rightarrow> bool"
  | ExactPredicate string
  | MatchEverythingPattern
  | MatchNothingPattern

type_synonym regex_ops = "string \<Rightarrow> string \<Rightarrow> bool"

definition new_PatternPredicate :: "regex_ops \<Rightarrow> string \<Rightarrow> Predicate" where
  "new_PatternPredicate rx pattern = PatternPredicate (rx (c_str pattern))"

fun pred_Match :: "Predicate \<Rightarrow> string \<Rightarrow> bool" where
  "pred_Match (PatternPredicate regex) str = regex (c_str str)"
| "pred_Match (ExactPredicate pattern) str = (if pattern = str then True else False)"
| "pred_Match MatchEverythingPattern str = True"
| "pred_Match MatchNothingPattern str = False"

definition GetPredicate :: "regex_ops \<Rightarrow> string \<Rightarrow> PredicateType \<Rightarrow> Predicate" where
  "GetPredicate rx pattern type =
     (if type = kPattern \<and> pattern = ''*'' \<or> type = kExact \<and> pattern = [] then MatchEverythingPattern
      else if type = kPattern then new_PatternPredicate rx pattern
      else if type = kExact then ExactPredicate pattern
      else MatchNothingPattern)"

record InstrumentSelector =
  sel_name_filter :: Predicate
  sel_unit_filter :: Predicate
  sel_instrument_type :: InstrumentType

definition new_InstrumentSelector :: "regex_ops \<Rightarrow> InstrumentType \<Rightarrow> string \<Rightarrow> string \<Rightarrow> InstrumentSelector" where
  "new_InstrumentSelector rx type name units =
     \<lparr>sel_name_filter = GetPredicate rx name kPattern, sel_unit_filter = GetPredicate rx units kExact, sel_instrument_type = type\<rparr>"

record MeterSelector =
  msel_name_filter :: Predicate
  msel_version_filter :: Predicate
  msel_schema_filter :: Predicate

definition new_MeterSelector :: "regex_ops \<Rightarrow> string \<Rightarrow> string \<Rightarrow> string \<Rightarrow> MeterSelector" where
  "new_MeterSelector rx name version schema =
     \<lparr>msel_name_filter = GetPredicate rx name kExact, msel_version_filter = GetPredicate rx version kExact,
      msel_schema_filter = GetPredicate rx schema kExact\<rparr>"

subsection \<open>Views and their registry\<close>

text \<open>The processor of attributes of a view: the default one keeps all, the other one the keys in a set.\<close>

datatype AttributesProcessor = DefaultAttributesProcessor | FilteringAttributesProcessor "string list"

record View =
  vw_name :: string
  vw_description :: string
  vw_aggregation_type :: AggregationType
  vw_aggregation_config :: "AggregationConfig option"
  vw_attributes_processor :: AttributesProcessor

definition new_View :: "string \<Rightarrow> string \<Rightarrow> AggregationType \<Rightarrow> AggregationConfig option \<Rightarrow> AttributesProcessor \<Rightarrow> View" where
  "new_View name description aggregation_type config processor =
     \<lparr>vw_name = name, vw_description = description, vw_aggregation_type = aggregation_type, vw_aggregation_config = config,
      vw_attributes_processor = processor\<rparr>"

definition View_default :: "string \<Rightarrow> View" where
  "View_default name = new_View name [] At_kDefault None DefaultAttributesProcessor"

record RegisteredView =
  rg_instrument_selector :: InstrumentSelector
  rg_meter_selector :: MeterSelector
  rg_view :: View

type_synonym ViewRegistry = "RegisteredView list"

definition AddView :: "InstrumentSelector \<Rightarrow> MeterSelector \<Rightarrow> View \<Rightarrow> ViewRegistry \<Rightarrow> ViewRegistry" where
  "AddView instrument_selector meter_selector view registered_views =
     registered_views @ [\<lparr>rg_instrument_selector = instrument_selector, rg_meter_selector = meter_selector, rg_view = view\<rparr>]"

definition MatchMeter :: "MeterSelector \<Rightarrow> InstrumentationScope \<Rightarrow> bool" where
  "MatchMeter selector scope \<longleftrightarrow>
     pred_Match (msel_name_filter selector) (is_name scope) \<and>
     (length (is_version scope) = 0 \<or> pred_Match (msel_version_filter selector) (is_version scope)) \<and>
     (length (is_schema_url scope) = 0 \<or> pred_Match (msel_schema_filter selector) (is_schema_url scope))"

definition MatchInstrument :: "InstrumentSelector \<Rightarrow> InstrumentDescriptor \<Rightarrow> bool" where
  "MatchInstrument selector d \<longleftrightarrow>
     pred_Match (sel_name_filter selector) (id_name d) \<and> pred_Match (sel_unit_filter selector) (id_unit d) \<and> sel_instrument_type selector = id_type d"

text \<open>The callback may change a state. \<open>view_loop\<close> is the loop over the registered views: whether it ran to its end, the state, and \<open>found\<close>.\<close>

fun view_loop :: "InstrumentDescriptor \<Rightarrow> InstrumentationScope \<Rightarrow> (View \<Rightarrow> 's \<Rightarrow> bool \<times> 's) \<Rightarrow> bool \<Rightarrow> RegisteredView list \<Rightarrow> 's \<Rightarrow> bool \<times> 's \<times> bool" where
  "view_loop d scope callback found [] s = (True, s, found)"
| "view_loop d scope callback found (r # rs) s =
     (if MatchMeter (rg_meter_selector r) scope \<and> MatchInstrument (rg_instrument_selector r) d
      then case callback (rg_view r) s of (ok, s') \<Rightarrow> if \<not> ok then (False, s', True) else view_loop d scope callback True rs s'
      else view_loop d scope callback found rs s)"

definition FindViews :: "InstrumentDescriptor \<Rightarrow> InstrumentationScope \<Rightarrow> (View \<Rightarrow> 's \<Rightarrow> bool \<times> 's) \<Rightarrow> ViewRegistry \<Rightarrow> 's \<Rightarrow> bool \<times> 's" where
  "FindViews d scope callback registered_views s =
     (case view_loop d scope callback False registered_views s of
        (False, s', found) \<Rightarrow> (False, s')
      | (True, s', found) \<Rightarrow>
          if \<not> found then (case callback (View_default []) s' of (ok, s'') \<Rightarrow> if \<not> ok then (False, s'') else (True, s''))
          else (True, s'))"

subsection \<open>What the registry finds\<close>

text \<open>Calling back for views in order until one refuses.\<close>

fun call_all :: "(View \<Rightarrow> 's \<Rightarrow> bool \<times> 's) \<Rightarrow> View list \<Rightarrow> 's \<Rightarrow> bool \<times> 's" where
  "call_all callback [] s = (True, s)"
| "call_all callback (v # vs) s = (case callback v s of (ok, s') \<Rightarrow> if ok then call_all callback vs s' else (False, s'))"

definition view_matches :: "InstrumentDescriptor \<Rightarrow> InstrumentationScope \<Rightarrow> RegisteredView \<Rightarrow> bool" where
  "view_matches d scope r \<longleftrightarrow> MatchMeter (rg_meter_selector r) scope \<and> MatchInstrument (rg_instrument_selector r) d"

definition views_of :: "InstrumentDescriptor \<Rightarrow> InstrumentationScope \<Rightarrow> ViewRegistry \<Rightarrow> View list" where
  "views_of d scope reg = (let vs = map rg_view (filter (view_matches d scope) reg) in if vs = [] then [View_default []] else vs)"

text \<open>One requested property: empty or equal.\<close>

definition wants :: "string \<Rightarrow> string \<Rightarrow> bool" where
  "wants filt x \<longleftrightarrow> filt = [] \<or> filt = x"

lemma GetPredicate_exact [simp]: "pred_Match (GetPredicate rx pattern kExact) x \<longleftrightarrow> wants pattern x"
  by (auto simp: GetPredicate_def wants_def)

lemma GetPredicate_pattern [simp]:
  "pred_Match (GetPredicate rx pattern kPattern) x \<longleftrightarrow> pattern = ''*'' \<or> rx (c_str pattern) (c_str x)"
  by (auto simp: GetPredicate_def new_PatternPredicate_def)

lemma view_loop_spec:
  "view_loop d scope callback found reg s =
     (let vs = map rg_view (filter (view_matches d scope) reg); r = call_all callback vs s in (fst r, snd r, found \<or> vs \<noteq> []))"
  by (induction reg arbitrary: found s) (auto simp: view_matches_def Let_def split: prod.splits)

lemma FindViews_spec: "FindViews d scope callback reg s = call_all callback (views_of d scope reg) s"
proof (cases "filter (view_matches d scope) reg = []")
  case True
  then show ?thesis by (simp add: FindViews_def view_loop_spec views_of_def split: prod.splits)
next
  case False
  then show ?thesis
    by (cases "call_all callback (map rg_view (filter (view_matches d scope) reg)) s")
       (simp add: FindViews_def view_loop_spec views_of_def split: bool.splits)
qed

lemma call_all_collect: "call_all (\<lambda>v s. (True, s @ [v])) vs s = (True, s @ vs)"
  by (induction vs arbitrary: s) auto

text \<open>The views of an instrument. Registering a view with selectors and then looking up an instrument calls back for the new view, after those registered
  before it, exactly if the name, unit and kind of the instrument are the requested ones and the scope has the requested name and, unless it gives
  none, the requested version and schema URL. An instrument without any view gets the default view, and the first callback that refuses ends the search.
\<close>

theorem find_views_after_add:
  "FindViews d scope callback (AddView (new_InstrumentSelector rx type name units) (new_MeterSelector rx m_name m_version m_schema) view reg) s =
     (let before = map rg_view (filter (view_matches d scope) reg);
          selected = ((name = ''*'' \<or> rx (c_str name) (c_str (id_name d))) \<and> wants units (id_unit d) \<and> type = id_type d \<and>
            wants m_name (is_name scope) \<and> (is_version scope = [] \<or> wants m_version (is_version scope)) \<and>
            (is_schema_url scope = [] \<or> wants m_schema (is_schema_url scope)))
      in if selected then call_all callback (before @ [view]) s
         else if before = [] then call_all callback [View_default []] s else call_all callback before s)"
  unfolding FindViews_spec
  by (auto simp: views_of_def AddView_def Let_def view_matches_def MatchMeter_def MatchInstrument_def new_InstrumentSelector_def new_MeterSelector_def)

text \<open>A scope without a version matches a selector that asks for one.\<close>

lemma version_filter_skipped:
  assumes "is_version scope = []" and "is_schema_url scope = []"
  shows "MatchMeter (new_MeterSelector rx [] version schema) scope"
  using assms by (simp add: MatchMeter_def new_MeterSelector_def wants_def)

end
