(* ===== verification/Metric_Exemplars.thy ===== *)
theory Metric_Exemplars
  imports Metric_Storage
begin

text \<open>
  Exemplars of the metrics SDK (\<open>api/sdk/metrics/exemplar/\<close> and \<open>data/exemplar_data.h\<close>, which are compiled under
  \<open>ENABLE_METRICS_EXEMPLAR_PREVIEW\<close>): cells that hold one measurement with the span it was made in, the two ways to choose a cell, the
  reservoir, and which reservoir an instrument gets. The current span comes from the context (\<open>Otel_Context\<close>); random numbers, the clock and the
  conversion from \<open>int64_t\<close> to \<open>double\<close> are arguments.
\<close>

subsection \<open>Cells\<close>

record reservoir_cell =
  rc_context :: "span_context option"
  rc_value :: value_type
  rc_time :: u64
  rc_attributes :: metric_attributes

definition ReservoirCell :: "hash_ops \<Rightarrow> reservoir_cell" where
  "ReservoirCell h = \<lparr>rc_context = None, rc_value = V_long 0, rc_time = 0, rc_attributes = FilteredOrderedAttributeMap h\<rparr>"

record exemplar_data =
  ex_context :: span_context
  ex_time :: u64
  ex_attributes :: metric_attributes
  ex_sum :: value_type

definition offerMeasurement :: "metric_attributes \<Rightarrow> ctx_heap \<Rightarrow> ctx \<Rightarrow> u64 \<Rightarrow> reservoir_cell \<Rightarrow> reservoir_cell" where
  "offerMeasurement attrs heap context now cell =
     (let c1 = cell\<lparr>rc_attributes := attrs, rc_time := now\<rparr>;
          current_ctx = span_GetContext (GetSpan heap context)
      in if sc_IsValid current_ctx then c1\<lparr>rc_context := Some current_ctx\<rparr> else c1)"

definition RecordMeasurement :: "value_type \<Rightarrow> metric_attributes \<Rightarrow> ctx_heap \<Rightarrow> ctx \<Rightarrow> u64 \<Rightarrow> reservoir_cell \<Rightarrow> reservoir_cell" where
  "RecordMeasurement v attrs heap context now cell = offerMeasurement attrs heap context now (cell\<lparr>rc_value := v\<rparr>)"

definition cell_reset :: "reservoir_cell \<Rightarrow> reservoir_cell" where
  "cell_reset cell = cell\<lparr>rc_value := V_double 0, rc_time := 0\<rparr>"

definition filtered :: "hash_ops \<Rightarrow> metric_attributes \<Rightarrow> metric_attributes \<Rightarrow> metric_attributes" where
  "filtered h original metric_point =
     UpdateHash h (original\<lparr>ma_map := fold (\<lambda>kv. filter (\<lambda>e. fst e \<noteq> fst kv)) (ma_map metric_point) (ma_map original)\<rparr>)"

text \<open>The point of an exemplar is a sum; without a value of the right kind it is the default one, the integer 0.\<close>

fun long_point :: "value_type \<Rightarrow> value_type" where
  "long_point (V_long v) = V_long v"
| "long_point (V_double v) = V_long 0"

fun double_point :: "value_type \<Rightarrow> value_type" where
  "double_point (V_double v) = V_double v"
| "double_point (V_long v) = V_long 0"

definition GetAndReset :: "(value_type \<Rightarrow> value_type) \<Rightarrow> hash_ops \<Rightarrow> metric_attributes \<Rightarrow> reservoir_cell \<Rightarrow> exemplar_data option \<times> reservoir_cell" where
  "GetAndReset point h point_attributes cell =
     (case rc_context cell of
        None \<Rightarrow> (None, cell)
      | Some c \<Rightarrow>
          (Some \<lparr>ex_context = c, ex_time = rc_time cell, ex_attributes = filtered h (rc_attributes cell) point_attributes,
                 ex_sum = point (rc_value cell)\<rparr>, cell_reset cell))"

definition GetAndResetLong :: "hash_ops \<Rightarrow> metric_attributes \<Rightarrow> reservoir_cell \<Rightarrow> exemplar_data option \<times> reservoir_cell" where
  "GetAndResetLong = GetAndReset long_point"

definition GetAndResetDouble :: "hash_ops \<Rightarrow> metric_attributes \<Rightarrow> reservoir_cell \<Rightarrow> exemplar_data option \<times> reservoir_cell" where
  "GetAndResetDouble = GetAndReset double_point"

subsection \<open>Choosing a cell\<close>

text \<open>\<open>static_cast<int>\<close> of a \<open>size_t\<close>.\<close>

definition to_int :: "nat \<Rightarrow> int" where
  "to_int n = sint (word_of_nat n :: 32 word)"

fun histogram_cell :: "u64 \<Rightarrow> u64 list \<Rightarrow> nat \<Rightarrow> nat" where
  "histogram_cell v [] i = i"
| "histogram_cell v (b # bs) i = (if dbl_le v b then i else histogram_cell v bs (i + 1))"

text \<open>The selector for histograms has the boundaries; the simple one the number of measurements seen and its size.\<close>

datatype cell_selector = HistogramCellSelector "u64 list" | SimpleFixedSizeCellSelector nat nat

text \<open>The index and the selector afterwards; \<open>None\<close> is a division by zero. \<open>random\<close> is what \<open>GenerateRandom64\<close> gives.\<close>

fun ReservoirCellIndexFor :: "nat \<Rightarrow> u64 \<Rightarrow> cell_selector \<Rightarrow> (int \<times> cell_selector) option" where
  "ReservoirCellIndexFor random v (HistogramCellSelector bs) = Some (to_int (histogram_cell v bs 0), HistogramCellSelector bs)"
| "ReservoirCellIndexFor random v (SimpleFixedSizeCellSelector seen n) =
     (if seen < n then Some (to_int seen, SimpleFixedSizeCellSelector (seen + 1) n)
      else if seen = 0 then None
      else let random_index = random mod seen
           in Some (if random_index < n then to_int random_index else - 1, SimpleFixedSizeCellSelector (seen + 1) n))"

subsection \<open>The reservoir\<close>

datatype reset_method = ResetLong | ResetDouble

fun call_reset :: "reset_method \<Rightarrow> hash_ops \<Rightarrow> metric_attributes \<Rightarrow> reservoir_cell \<Rightarrow> exemplar_data option \<times> reservoir_cell" where
  "call_reset ResetLong = GetAndResetLong"
| "call_reset ResetDouble = GetAndResetDouble"

record reservoir =
  rv_storage :: "reservoir_cell list"
  rv_selector :: "cell_selector option"
  rv_map_and_reset :: "reset_method option"

definition FixedSizeExemplarReservoir :: "hash_ops \<Rightarrow> nat \<Rightarrow> cell_selector \<Rightarrow> reset_method \<Rightarrow> reservoir" where
  "FixedSizeExemplarReservoir h n sel method =
     \<lparr>rv_storage = replicate n (ReservoirCell h), rv_selector = Some sel, rv_map_and_reset = Some method\<rparr>"

text \<open>A measurement that is offered: its value, and as a double for the selector; its attributes; the context; the clock; the random number.\<close>

record offer =
  of_value :: value_type
  of_double :: u64
  of_attributes :: metric_attributes
  of_heap :: ctx_heap
  of_context :: ctx
  of_time :: u64
  of_random :: nat

text \<open>\<open>None\<close> is undefined behaviour: a division by zero, or an access outside the cells.\<close>

definition OfferMeasurement :: "offer \<Rightarrow> reservoir \<Rightarrow> reservoir option" where
  "OfferMeasurement x rv =
     (case rv_selector rv of
        None \<Rightarrow> Some rv
      | Some sel \<Rightarrow>
          (case ReservoirCellIndexFor (of_random x) (of_double x) sel of
             None \<Rightarrow> None
           | Some (idx, sel') \<Rightarrow>
               let rv' = rv\<lparr>rv_selector := Some sel'\<rparr>
               in if idx = - 1 then Some rv'
                  else if 0 \<le> idx \<and> nat idx < length (rv_storage rv)
                  then Some (rv'\<lparr>rv_storage := (rv_storage rv)[nat idx :=
                         RecordMeasurement (of_value x) (of_attributes x) (of_heap x) (of_context x) (of_time x) (rv_storage rv ! nat idx)]\<rparr>)
                  else None))"

text \<open>The loop of \<open>CollectAndReset\<close> works on copies of the cells, and \<open>reset\<close> is the one of the pointer to the selector.\<close>

definition CollectAndReset :: "hash_ops \<Rightarrow> metric_attributes \<Rightarrow> reservoir \<Rightarrow> exemplar_data option list \<times> reservoir" where
  "CollectAndReset h point_attributes rv =
     (case rv_selector rv of
        None \<Rightarrow> ([], rv)
      | Some _ \<Rightarrow>
          (case rv_map_and_reset rv of
             None \<Rightarrow> ([], rv\<lparr>rv_selector := None\<rparr>)
           | Some method \<Rightarrow>
               (map (\<lambda>cell. fst (call_reset method h point_attributes cell)) (rv_storage rv), rv\<lparr>rv_selector := None\<rparr>)))"

subsection \<open>Which reservoir an instrument gets\<close>

definition GetMapAndResetCellMethod :: "InstrumentDescriptor \<Rightarrow> reset_method" where
  "GetMapAndResetCellMethod d = (if id_value_type d = Vt_kLong then ResetLong else ResetDouble)"

definition kDefaultSimpleReservoirSize :: nat where "kDefaultSimpleReservoirSize = 1"

text \<open>\<open>None\<close> is the use of a null configuration.\<close>

definition GetSimpleFixedReservoirDefaultSize :: "AggregationType \<Rightarrow> AggregationConfig option \<Rightarrow> nat option" where
  "GetSimpleFixedReservoirDefaultSize t cfg =
     (if t = At_kBase2ExponentialHistogram then map_option (\<lambda>c. min 20 (ac_max_buckets c)) cfg
      else Some kDefaultSimpleReservoirSize)"

definition GetExemplarReservoir :: "hash_ops \<Rightarrow> AggregationType \<Rightarrow> AggregationConfig option \<Rightarrow> InstrumentDescriptor \<Rightarrow> reservoir option" where
  "GetExemplarReservoir h t cfg d =
     (let simple = map_option (\<lambda>n. FixedSizeExemplarReservoir h n (SimpleFixedSizeCellSelector 0 kDefaultSimpleReservoirSize) (GetMapAndResetCellMethod d))
                     (GetSimpleFixedReservoirDefaultSize t cfg)
      in case cfg of
           Some c \<Rightarrow>
             if t = At_kHistogram \<and> length (ac_boundaries c) > 1
             then Some (FixedSizeExemplarReservoir h (length (ac_boundaries c) + 1) (HistogramCellSelector (ac_boundaries c)) (GetMapAndResetCellMethod d))
             else simple
         | None \<Rightarrow> simple)"

text \<open>The filter in front of the reservoir, and what recording a measurement does to it.\<close>

datatype ExemplarFilterType = kAlwaysOff | kAlwaysOn | kTraceBased

definition EnableExamplarFilter :: "ExemplarFilterType \<Rightarrow> ctx_heap \<Rightarrow> ctx \<Rightarrow> bool" where
  "EnableExamplarFilter t heap context \<longleftrightarrow>
     t = kAlwaysOn \<or>
     t = kTraceBased \<and> sc_IsValid (span_GetContext (GetSpan heap context)) \<and> sc_IsSampled (span_GetContext (GetSpan heap context))"

definition offer_filtered :: "ExemplarFilterType \<Rightarrow> offer \<Rightarrow> reservoir \<Rightarrow> reservoir option" where
  "offer_filtered t x rv = (if EnableExamplarFilter t (of_heap x) (of_context x) then OfferMeasurement x rv else Some rv)"

fun offer_all :: "offer list \<Rightarrow> reservoir \<Rightarrow> reservoir option" where
  "offer_all [] rv = Some rv"
| "offer_all (x # xs) rv = (case OfferMeasurement x rv of None \<Rightarrow> None | Some rv' \<Rightarrow> offer_all xs rv')"

subsection \<open>The cell of a histogram\<close>

lemma histogram_cell_eq: "histogram_cell v bs i = i + length (takeWhile (\<lambda>b. \<not> dbl_le v b) bs)"
  by (induction v bs i rule: histogram_cell.induct) auto

lemma histogram_cell_spec:
  "histogram_cell v bs 0 \<le> length bs" "j < histogram_cell v bs 0 \<Longrightarrow> \<not> dbl_le v (bs ! j)"
  "histogram_cell v bs 0 < length bs \<Longrightarrow> dbl_le v (bs ! histogram_cell v bs 0)"
proof -
  show "histogram_cell v bs 0 \<le> length bs" by (simp add: histogram_cell_eq length_takeWhile_le)
  show "\<not> dbl_le v (bs ! j)" if "j < histogram_cell v bs 0"
    using that by (simp add: histogram_cell_eq) (metis nth_mem set_takeWhileD takeWhile_nth)
  show "dbl_le v (bs ! histogram_cell v bs 0)" if "histogram_cell v bs 0 < length bs"
    using that nth_length_takeWhile [of "\<lambda>b. \<not> dbl_le v b" bs] by (simp add: histogram_cell_eq)
qed

text \<open>The linear search of the reservoir finds the bucket of the binary search of the histogram. For a NaN they are the two ends.\<close>

lemma histogram_cell_bucket:
  assumes "boundaries_ok bs" and "\<not> dbl_isnan v"
  shows "histogram_cell v bs 0 = BucketBinarySearch v bs"
proof -
  note b = BucketBinarySearch_spec [OF assms(1), of v]
  note c = histogram_cell_spec(1,3) [of v bs] histogram_cell_spec(2) [of _ v bs]
  have le: "dbl_le v (bs ! i) \<longleftrightarrow> \<not> dbl_less (bs ! i) v" if "i < length bs" for i
    using assms that by (auto simp: boundaries_ok_def list_all_length dbl_le_def dbl_less_def)
  show ?thesis
  proof (rule linorder_cases [of "histogram_cell v bs 0" "BucketBinarySearch v bs"])
    assume l: "histogram_cell v bs 0 < BucketBinarySearch v bs"
    then have "dbl_less (bs ! histogram_cell v bs 0) v" "histogram_cell v bs 0 < length bs" using b by auto
    then show ?thesis using c le by auto
  next
    assume l: "BucketBinarySearch v bs < histogram_cell v bs 0"
    then have "\<not> dbl_le v (bs ! BucketBinarySearch v bs)" "BucketBinarySearch v bs < length bs" using c by auto
    then show ?thesis using b le by auto
  qed
qed

lemma histogram_cell_nan: "dbl_isnan v \<Longrightarrow> histogram_cell v bs 0 = length bs \<and> BucketBinarySearch v bs = 0"
proof -
  assume n: "dbl_isnan v"
  have "histogram_cell v bs i = i + length bs" for i
    using n by (induction v bs i rule: histogram_cell.induct) (auto simp: dbl_le_def)
  then show ?thesis using lower_bound_nan [OF n] by (simp add: BucketBinarySearch_def)
qed

lemma to_int_small: "n < 2 ^ 31 \<Longrightarrow> to_int n = int n"
  unfolding to_int_def by (simp add: signed_of_nat signed_take_bit_int_eq_self)

subsection \<open>The reservoir of a histogram\<close>

definition record_offer :: "offer \<Rightarrow> reservoir_cell \<Rightarrow> reservoir_cell" where
  "record_offer x = RecordMeasurement (of_value x) (of_attributes x) (of_heap x) (of_context x) (of_time x)"

definition offer_span :: "offer \<Rightarrow> span_context" where
  "offer_span x = span_GetContext (GetSpan (of_heap x) (of_context x))"

text \<open>The exemplar that a measurement should become.\<close>

definition exemplar_of :: "(value_type \<Rightarrow> value_type) \<Rightarrow> hash_ops \<Rightarrow> metric_attributes \<Rightarrow> offer \<Rightarrow> exemplar_data" where
  "exemplar_of point h point_attributes x =
     \<lparr>ex_context = offer_span x, ex_time = of_time x, ex_attributes = filtered h (of_attributes x) point_attributes, ex_sum = point (of_value x)\<rparr>"

definition last_exemplar :: "(value_type \<Rightarrow> value_type) \<Rightarrow> hash_ops \<Rightarrow> metric_attributes \<Rightarrow> offer list \<Rightarrow> exemplar_data option" where
  "last_exemplar point h point_attributes xs = (if xs = [] then None else Some (exemplar_of point h point_attributes (last xs)))"

fun point_of :: "reset_method \<Rightarrow> value_type \<Rightarrow> value_type" where
  "point_of ResetLong = long_point"
| "point_of ResetDouble = double_point"

lemma call_reset_eq: "call_reset m = GetAndReset (point_of m)"
  by (cases m) (simp_all add: GetAndResetLong_def GetAndResetDouble_def)

lemma record_offer_valid:
  "sc_IsValid (offer_span x) \<Longrightarrow>
     record_offer x cell = cell\<lparr>rc_context := Some (offer_span x), rc_value := of_value x, rc_time := of_time x, rc_attributes := of_attributes x\<rparr>"
  by (simp add: record_offer_def RecordMeasurement_def offerMeasurement_def offer_span_def Let_def)

lemma collect_after_offers:
  assumes "\<forall>x\<in>set xs. sc_IsValid (offer_span x)"
  shows "fst (GetAndReset point h pa (fold record_offer xs (ReservoirCell h))) = last_exemplar point h pa xs"
proof (cases xs rule: rev_cases)
  case Nil
  then show ?thesis by (simp add: GetAndReset_def ReservoirCell_def last_exemplar_def)
next
  case (snoc ys y)
  with assms have "sc_IsValid (offer_span y)" by simp
  with snoc show ?thesis by (simp add: record_offer_valid GetAndReset_def last_exemplar_def exemplar_of_def)
qed

definition offer_bucket :: "u64 list \<Rightarrow> offer \<Rightarrow> nat" where
  "offer_bucket bs x = histogram_cell (of_double x) bs 0"

lemma OfferMeasurement_histogram:
  assumes "rv_selector rv = Some (HistogramCellSelector bs)" and "length (rv_storage rv) = length bs + 1" and "length bs < 2 ^ 31"
  shows "OfferMeasurement x rv =
           Some (rv\<lparr>rv_storage := (rv_storage rv)[offer_bucket bs x := record_offer x (rv_storage rv ! offer_bucket bs x)]\<rparr>)"
proof -
  have le: "offer_bucket bs x \<le> length bs" by (simp add: offer_bucket_def histogram_cell_spec(1))
  with assms(3) have "to_int (offer_bucket bs x) = int (offer_bucket bs x)" by (intro to_int_small) simp
  with assms le show ?thesis by (simp add: OfferMeasurement_def offer_bucket_def record_offer_def Let_def)
qed

lemma offer_all_histogram:
  assumes "rv_selector rv = Some (HistogramCellSelector bs)" and "length (rv_storage rv) = length bs + 1" and "length bs < 2 ^ 31"
  shows "offer_all xs rv =
           Some (rv\<lparr>rv_storage := map (\<lambda>i. fold record_offer (filter (\<lambda>x. offer_bucket bs x = i) xs) (rv_storage rv ! i)) [0..<length bs + 1]\<rparr>)"
  using assms
proof (induction xs arbitrary: rv)
  case Nil
  then have "map ((!) (rv_storage rv)) [0..<length bs + 1] = rv_storage rv" by (metis map_nth)
  then show ?case by (simp del: upt_Suc)
next
  case (Cons x xs)
  let ?rv = "rv\<lparr>rv_storage := (rv_storage rv)[offer_bucket bs x := record_offer x (rv_storage rv ! offer_bucket bs x)]\<rparr>"
  have "offer_all xs ?rv = Some (?rv\<lparr>rv_storage :=
      map (\<lambda>i. fold record_offer (filter (\<lambda>x. offer_bucket bs x = i) xs) (rv_storage ?rv ! i)) [0..<length bs + 1]\<rparr>)"
    by (rule Cons.IH) (use Cons.prems in simp_all)
  then show ?case
    using Cons.prems by (auto simp: OfferMeasurement_histogram nth_list_update simp del: upt_Suc intro!: map_cong)
qed

text \<open>C24: The reservoir of an explicit-bucket histogram is aligned with its buckets: after any sequence of measurements, each made inside a valid
  span, collection gives for every bucket the exemplar of the last measurement that the histogram's own binary search puts there, and nothing for a
  bucket without measurements. No measurement falls outside the cells.
\<close>

theorem aligned_reservoir_keeps_last:
  fixes c d pa
  defines "bs \<equiv> ac_boundaries c"
  assumes "boundaries_ok bs" and "1 < length bs" and "length bs < 2 ^ 31"
    and "GetExemplarReservoir h At_kHistogram (Some c) d = Some rv"
    and "\<forall>x\<in>set xs. \<not> dbl_isnan (of_double x) \<and> sc_IsValid (offer_span x)"
  shows "\<exists>rv'. offer_all xs rv = Some rv' \<and>
           fst (CollectAndReset h pa rv') =
             map (\<lambda>i. last_exemplar (point_of (GetMapAndResetCellMethod d)) h pa (filter (\<lambda>x. BucketBinarySearch (of_double x) bs = i) xs))
               [0..<length bs + 1]"
proof -
  have rv: "rv = FixedSizeExemplarReservoir h (length bs + 1) (HistogramCellSelector bs) (GetMapAndResetCellMethod d)"
    using assms by (simp add: GetExemplarReservoir_def)
  have "filter (\<lambda>x. BucketBinarySearch (of_double x) bs = i) xs = filter (\<lambda>x. offer_bucket bs x = i) xs" for i
    using assms by (auto simp: offer_bucket_def histogram_cell_bucket intro!: filter_cong)
  then show ?thesis
    using assms(4,6) unfolding rv
    by (subst offer_all_histogram)
       (auto simp: FixedSizeExemplarReservoir_def CollectAndReset_def call_reset_eq collect_after_offers o_def simp del: upt_Suc replicate_Suc intro!: map_cong)
qed

definition demo_offer :: "u64 \<Rightarrow> u64 \<Rightarrow> offer" where
  "demo_offer v t =
     (let hc = SetSpan [] Context_default (DefaultSpan demo_span_context)
      in \<lparr>of_value = V_double v, of_double = v, of_attributes = FilteredOrderedAttributeMap demo_hash, of_heap = fst hc, of_context = snd hc,
          of_time = t, of_random = 0\<rparr>)"

text \<open>Boundaries 1 and 2; the values 0.5, 1 and 3.\<close>

theorem aligned_reservoir_keeps_last_witness:
  "\<exists>rv rv'. GetExemplarReservoir demo_hash At_kHistogram (Some \<lparr>ac_boundaries = [0x3FF0000000000000, 0x4000000000000000], ac_max_buckets = 0\<rparr>) demo_instrument = Some rv \<and>
     offer_all [demo_offer 0x3FE0000000000000 1, demo_offer 0x3FF0000000000000 2, demo_offer 0x4008000000000000 3] rv = Some rv' \<and>
     map (map_option ex_time) (fst (CollectAndReset demo_hash (FilteredOrderedAttributeMap demo_hash) rv')) = [Some 2, None, Some 3]"
proof -
  let ?bs = "[0x3FF0000000000000, 0x4000000000000000] :: u64 list"
  let ?c = "\<lparr>ac_boundaries = ?bs, ac_max_buckets = 0\<rparr>"
  let ?xs = "[demo_offer 0x3FE0000000000000 1, demo_offer 0x3FF0000000000000 2, demo_offer 0x4008000000000000 3]"
  have s: "offer_span (demo_offer v t) = demo_span_context" for v t
    using GetSpan_SetSpan [OF surjective_pairing, of "[]" Context_default "DefaultSpan demo_span_context"]
    by (simp add: offer_span_def demo_offer_def Let_def)
  have d: "of_double (demo_offer v t) = v" "of_time (demo_offer v t) = t" for v t by (simp_all add: demo_offer_def Let_def)
  have b: "boundaries_ok ?bs" "\<not> dbl_isnan 0x3FE0000000000000" "\<not> dbl_isnan 0x3FF0000000000000" "\<not> dbl_isnan 0x4008000000000000" by code_simp+
  have n: "BucketBinarySearch 0x3FE0000000000000 ?bs = 0" "BucketBinarySearch 0x3FF0000000000000 ?bs = 0" "BucketBinarySearch 0x4008000000000000 ?bs = 2"
    by code_simp+
  have v: "\<forall>x\<in>set ?xs. \<not> dbl_isnan (of_double x) \<and> sc_IsValid (offer_span x)" using b by (simp add: s d demo_span_context_ok)
  obtain rv where rv: "GetExemplarReservoir demo_hash At_kHistogram (Some ?c) demo_instrument = Some rv" by (simp add: GetExemplarReservoir_def)
  from aligned_reservoir_keeps_last [OF _ _ _ rv v, of "FilteredOrderedAttributeMap demo_hash"] b(1) rv
  show ?thesis by (auto simp: d n last_exemplar_def exemplar_of_def upt_rec)
qed

text \<open>What the reservoir of any instrument does once it has been collected: nothing. The first collection drops the selector, so every later
  measurement is ignored and every later collection is empty.
\<close>

theorem reservoir_collects_once:
  "offer_all xs (snd (CollectAndReset h pa rv)) = Some (snd (CollectAndReset h pa rv)) \<and>
   CollectAndReset h pa' (snd (CollectAndReset h pa rv)) = ([], snd (CollectAndReset h pa rv))"
proof -
  have none: "rv_selector (snd (CollectAndReset h pa rv)) = None" by (simp add: CollectAndReset_def split: option.splits)
  have "offer_all xs rv' = Some rv'" if "rv_selector rv' = None" for rv'
    using that by (induction xs) (simp_all add: OfferMeasurement_def)
  with none show ?thesis by (simp add: CollectAndReset_def [of h pa'])
qed

text \<open>The fallback reservoir: a base-2 histogram needs a configuration, and one with no bucket has no cell for its first measurement.\<close>

lemma base2_reservoir_null_config: "GetExemplarReservoir h At_kBase2ExponentialHistogram None d = None"
  by (simp add: GetExemplarReservoir_def GetSimpleFixedReservoirDefaultSize_def)

lemma base2_reservoir_without_buckets:
  assumes "ac_max_buckets c = 0" and "GetExemplarReservoir h At_kBase2ExponentialHistogram (Some c) d = Some rv"
  shows "OfferMeasurement x rv = None"
  using assms by (auto simp: GetExemplarReservoir_def GetSimpleFixedReservoirDefaultSize_def FixedSizeExemplarReservoir_def
      kDefaultSimpleReservoirSize_def OfferMeasurement_def to_int_def)

text \<open>A full reservoir of size one always replaces: the second measurement draws modulo 1.\<close>

lemma simple_selector_second: "ReservoirCellIndexFor r v (SimpleFixedSizeCellSelector 1 1) = Some (0, SimpleFixedSizeCellSelector 2 1)"
  by (simp add: to_int_def)

end
