(* ===== verification/Owning_Pointers.thy ===== *)
theory Owning_Pointers
  imports Cpp_Prelude
begin

text \<open>
  \<open>opentelemetry/nostd/unique_ptr.h\<close> and \<open>nostd/shared_ptr.h\<close>: the owning pointers of the API. An object is an
  address, alive from \<open>new\<close> to \<open>delete\<close>. The shared pointer keeps a wrapper of a \<open>std::shared_ptr\<close> in a buffer that it fills by
  placement \<open>new\<close> and empties by an explicit destructor call, so a buffer is raw memory or holds a wrapper; a \<open>std::shared_ptr\<close> is
  empty or one of the counted references to a control block. The wrapper's class is the only one, so its virtual functions are called directly.
\<close>

subsection \<open>Memory\<close>

datatype ptr_error = Use_of_destroyed | Double_delete

text \<open>A pointer variable: raw memory, or the pointer that it holds (\<open>None\<close> is null).\<close>

datatype slot = Raw | Held "nat option"

text \<open>A control block has the object it deletes and the number of references.\<close>

record pointers =
  ps_objects :: "bool list"
  ps_blocks :: "(nat option \<times> nat) list"
  ps_shared :: "slot list"
  ps_unique :: "slot list"

definition new_object :: "pointers \<Rightarrow> nat \<times> pointers" where
  "new_object w = (length (ps_objects w), w\<lparr>ps_objects := ps_objects w @ [True]\<rparr>)"

definition delete_ptr :: "nat option \<Rightarrow> pointers \<Rightarrow> ptr_error + pointers" where
  "delete_ptr p w =
     (case p of
        None \<Rightarrow> Inr w
      | Some a \<Rightarrow> if a < length (ps_objects w) \<and> ps_objects w ! a then Inr (w\<lparr>ps_objects := (ps_objects w)[a := False]\<rparr>)
                  else Inl Double_delete)"

text \<open>The \<open>std::shared_ptr\<close>: made from a plain pointer, copied, destroyed.\<close>

definition std_shared :: "nat option \<Rightarrow> pointers \<Rightarrow> nat option \<times> pointers" where
  "std_shared p w = (Some (length (ps_blocks w)), w\<lparr>ps_blocks := ps_blocks w @ [(p, 1)]\<rparr>)"

definition std_copy :: "nat option \<Rightarrow> pointers \<Rightarrow> ptr_error + pointers" where
  "std_copy v w =
     (case v of
        None \<Rightarrow> Inr w
      | Some b \<Rightarrow> if b < length (ps_blocks w) \<and> snd (ps_blocks w ! b) > 0
                  then Inr (w\<lparr>ps_blocks := (ps_blocks w)[b := (fst (ps_blocks w ! b), snd (ps_blocks w ! b) + 1)]\<rparr>)
                  else Inl Use_of_destroyed)"

definition std_destroy :: "nat option \<Rightarrow> pointers \<Rightarrow> ptr_error + pointers" where
  "std_destroy v w =
     (case v of
        None \<Rightarrow> Inr w
      | Some b \<Rightarrow>
          if b < length (ps_blocks w) \<and> snd (ps_blocks w ! b) > 0
          then let w' = w\<lparr>ps_blocks := (ps_blocks w)[b := (fst (ps_blocks w ! b), snd (ps_blocks w ! b) - 1)]\<rparr>
               in if snd (ps_blocks w ! b) = 1 then delete_ptr (fst (ps_blocks w ! b)) w' else Inr w'
          else Inl Use_of_destroyed)"

subsection \<open>unique_ptr\<close>

definition un_get :: "nat \<Rightarrow> pointers \<Rightarrow> ptr_error + nat option" where
  "un_get i w = (case ps_unique w ! i of Raw \<Rightarrow> Inl Use_of_destroyed | Held p \<Rightarrow> Inr p)"

definition un_init :: "nat \<Rightarrow> nat option \<Rightarrow> pointers \<Rightarrow> pointers" where
  "un_init i p w = w\<lparr>ps_unique := (ps_unique w)[i := Held p]\<rparr>"

definition un_reset :: "nat \<Rightarrow> nat option \<Rightarrow> pointers \<Rightarrow> ptr_error + pointers" where
  "un_reset i p w =
     (case un_get i w of
        Inl e \<Rightarrow> Inl e
      | Inr old \<Rightarrow>
          (case (if old \<noteq> None then delete_ptr old w else Inr w) of
             Inl e \<Rightarrow> Inl e
           | Inr w' \<Rightarrow> Inr (un_init i p w')))"

definition un_release :: "nat \<Rightarrow> pointers \<Rightarrow> ptr_error + nat option \<times> pointers" where
  "un_release i w = (case un_get i w of Inl e \<Rightarrow> Inl e | Inr p \<Rightarrow> Inr (p, un_init i None w))"

definition un_move_init :: "nat \<Rightarrow> nat \<Rightarrow> pointers \<Rightarrow> ptr_error + pointers" where
  "un_move_init i other w = (case un_release other w of Inl e \<Rightarrow> Inl e | Inr (p, w') \<Rightarrow> Inr (un_init i p w'))"

definition un_assign :: "nat \<Rightarrow> nat \<Rightarrow> pointers \<Rightarrow> ptr_error + pointers" where
  "un_assign i other w = (case un_release other w of Inl e \<Rightarrow> Inl e | Inr (p, w') \<Rightarrow> un_reset i p w')"

definition un_assign_null :: "nat \<Rightarrow> pointers \<Rightarrow> ptr_error + pointers" where
  "un_assign_null i w = un_reset i None w"

definition un_destroy :: "nat \<Rightarrow> pointers \<Rightarrow> ptr_error + pointers" where
  "un_destroy i w =
     (case un_reset i None w of Inl e \<Rightarrow> Inl e | Inr w' \<Rightarrow> Inr (w'\<lparr>ps_unique := (ps_unique w')[i := Raw]\<rparr>))"

definition un_swap :: "nat \<Rightarrow> nat \<Rightarrow> pointers \<Rightarrow> ptr_error + pointers" where
  "un_swap i other w =
     (case (un_get i w, un_get other w) of
        (Inr p, Inr q) \<Rightarrow> Inr (un_init other p (un_init i q w))
      | (Inl e, _) \<Rightarrow> Inl e
      | (_, Inl e) \<Rightarrow> Inl e)"

subsection \<open>shared_ptr\<close>

text \<open>\<open>wrapper()\<close>, and placement \<open>new\<close> of a wrapper in the buffer.\<close>

definition sh_wrapper :: "nat \<Rightarrow> pointers \<Rightarrow> ptr_error + nat option" where
  "sh_wrapper i w = (case ps_shared w ! i of Raw \<Rightarrow> Inl Use_of_destroyed | Held v \<Rightarrow> Inr v)"

definition sh_place :: "nat \<Rightarrow> nat option \<Rightarrow> pointers \<Rightarrow> pointers" where
  "sh_place i v w = w\<lparr>ps_shared := (ps_shared w)[i := Held v]\<rparr>"

definition CopyTo :: "nat \<Rightarrow> nat \<Rightarrow> pointers \<Rightarrow> ptr_error + pointers" where
  "CopyTo i buffer w =
     (case sh_wrapper i w of
        Inl e \<Rightarrow> Inl e
      | Inr v \<Rightarrow> (case std_copy v w of Inl e \<Rightarrow> Inl e | Inr w' \<Rightarrow> Inr (sh_place buffer v w')))"

definition MoveTo :: "nat \<Rightarrow> nat \<Rightarrow> pointers \<Rightarrow> ptr_error + pointers" where
  "MoveTo i buffer w =
     (case sh_wrapper i w of Inl e \<Rightarrow> Inl e | Inr v \<Rightarrow> Inr (sh_place buffer v (sh_place i None w)))"

definition wrapper_destroy :: "nat \<Rightarrow> pointers \<Rightarrow> ptr_error + pointers" where
  "wrapper_destroy i w =
     (case sh_wrapper i w of
        Inl e \<Rightarrow> Inl e
      | Inr v \<Rightarrow>
          (case std_destroy v w of Inl e \<Rightarrow> Inl e | Inr w' \<Rightarrow> Inr (w'\<lparr>ps_shared := (ps_shared w')[i := Raw]\<rparr>)))"

definition wrapper_Reset :: "nat \<Rightarrow> pointers \<Rightarrow> ptr_error + pointers" where
  "wrapper_Reset i w =
     (case sh_wrapper i w of
        Inl e \<Rightarrow> Inl e
      | Inr v \<Rightarrow> (case std_destroy v w of Inl e \<Rightarrow> Inl e | Inr w' \<Rightarrow> Inr (sh_place i None w')))"

definition sh_default :: "nat \<Rightarrow> pointers \<Rightarrow> pointers" where
  "sh_default i w = sh_place i None w"

definition sh_pointer :: "nat \<Rightarrow> nat option \<Rightarrow> pointers \<Rightarrow> pointers" where
  "sh_pointer i p w = (case std_shared p w of (v, w') \<Rightarrow> sh_place i v w')"

definition sh_move_init :: "nat \<Rightarrow> nat \<Rightarrow> pointers \<Rightarrow> ptr_error + pointers" where
  "sh_move_init i other w = MoveTo other i w"

definition sh_copy_init :: "nat \<Rightarrow> nat \<Rightarrow> pointers \<Rightarrow> ptr_error + pointers" where
  "sh_copy_init i other w = CopyTo other i w"

definition sh_from_unique :: "nat \<Rightarrow> nat \<Rightarrow> pointers \<Rightarrow> ptr_error + pointers" where
  "sh_from_unique i other w = (case un_release other w of Inl e \<Rightarrow> Inl e | Inr (p, w') \<Rightarrow> Inr (sh_pointer i p w'))"

definition sh_destroy :: "nat \<Rightarrow> pointers \<Rightarrow> ptr_error + pointers" where
  "sh_destroy i w = wrapper_destroy i w"

definition sh_assign_move :: "nat \<Rightarrow> nat \<Rightarrow> pointers \<Rightarrow> ptr_error + pointers" where
  "sh_assign_move i other w = (case wrapper_destroy i w of Inl e \<Rightarrow> Inl e | Inr w' \<Rightarrow> MoveTo other i w')"

definition sh_assign_null :: "nat \<Rightarrow> pointers \<Rightarrow> ptr_error + pointers" where
  "sh_assign_null i w = wrapper_Reset i w"

definition sh_assign_copy :: "nat \<Rightarrow> nat \<Rightarrow> pointers \<Rightarrow> ptr_error + pointers" where
  "sh_assign_copy i other w = (case wrapper_destroy i w of Inl e \<Rightarrow> Inl e | Inr w' \<Rightarrow> CopyTo other i w')"

text \<open>The local variable of \<open>swap\<close> is one more buffer, after all others, that goes away at the end.\<close>

definition sh_swap :: "nat \<Rightarrow> nat \<Rightarrow> pointers \<Rightarrow> ptr_error + pointers" where
  "sh_swap i other w =
     (let tmp = length (ps_shared w); w0 = w\<lparr>ps_shared := ps_shared w @ [Raw]\<rparr>
      in case sh_move_init tmp other w0 of
           Inl e \<Rightarrow> Inl e
         | Inr w1 \<Rightarrow>
             (case MoveTo i other w1 of
                Inl e \<Rightarrow> Inl e
              | Inr w2 \<Rightarrow>
                  (case MoveTo tmp i w2 of
                     Inl e \<Rightarrow> Inl e
                   | Inr w3 \<Rightarrow>
                       (case sh_destroy tmp w3 of
                          Inl e \<Rightarrow> Inl e
                        | Inr w4 \<Rightarrow> Inr (w4\<lparr>ps_shared := take tmp (ps_shared w4)\<rparr>)))))"

text \<open>\<open>get\<close>: the object of the control block.\<close>

definition sh_get :: "nat \<Rightarrow> pointers \<Rightarrow> ptr_error + nat option" where
  "sh_get i w =
     (case sh_wrapper i w of Inl e \<Rightarrow> Inl e | Inr None \<Rightarrow> Inr None | Inr (Some b) \<Rightarrow> Inr (fst (ps_blocks w ! b)))"

subsection \<open>Programs over pointers\<close>

datatype ptr_op =
    New_unique nat | New_shared nat
  | Default_unique nat | Default_shared nat
  | Move_unique nat nat | Move_shared nat nat | Copy_shared nat nat | Unique_to_shared nat nat
  | Assign_unique nat nat | Null_unique nat | Swap_unique nat nat
  | Assign_move nat nat | Assign_copy nat nat | Null_shared nat | Swap_shared nat nat
  | Destroy_unique nat | Destroy_shared nat

fun run_op :: "ptr_op \<Rightarrow> pointers \<Rightarrow> ptr_error + pointers" where
  "run_op (New_unique i) w = (case new_object w of (a, w') \<Rightarrow> Inr (un_init i (Some a) w'))"
| "run_op (New_shared i) w = (case new_object w of (a, w') \<Rightarrow> Inr (sh_pointer i (Some a) w'))"
| "run_op (Default_unique i) w = Inr (un_init i None w)"
| "run_op (Default_shared i) w = Inr (sh_default i w)"
| "run_op (Move_unique i j) w = un_move_init i j w"
| "run_op (Move_shared i j) w = sh_move_init i j w"
| "run_op (Copy_shared i j) w = sh_copy_init i j w"
| "run_op (Unique_to_shared i j) w = sh_from_unique i j w"
| "run_op (Assign_unique i j) w = un_assign i j w"
| "run_op (Null_unique i) w = un_assign_null i w"
| "run_op (Swap_unique i j) w = un_swap i j w"
| "run_op (Assign_move i j) w = sh_assign_move i j w"
| "run_op (Assign_copy i j) w = sh_assign_copy i j w"
| "run_op (Null_shared i) w = sh_assign_null i w"
| "run_op (Swap_shared i j) w = sh_swap i j w"
| "run_op (Destroy_unique i) w = un_destroy i w"
| "run_op (Destroy_shared i) w = sh_destroy i w"

fun run_ops :: "ptr_op list \<Rightarrow> pointers \<Rightarrow> ptr_error + pointers" where
  "run_ops [] w = Inr w"
| "run_ops (x # xs) w = (case run_op x w of Inl e \<Rightarrow> Inl e | Inr w' \<Rightarrow> run_ops xs w')"

text \<open>The rules of the language: constructors run on raw memory, everything else on constructed variables. Assigning a shared pointer
  to itself is left out.\<close>

definition raw_at :: "slot list \<Rightarrow> nat \<Rightarrow> bool" where
  "raw_at ss i \<longleftrightarrow> i < length ss \<and> ss ! i = Raw"

definition held_at :: "slot list \<Rightarrow> nat \<Rightarrow> bool" where
  "held_at ss i \<longleftrightarrow> i < length ss \<and> ss ! i \<noteq> Raw"

fun op_ok :: "ptr_op \<Rightarrow> pointers \<Rightarrow> bool" where
  "op_ok (New_unique i) w = raw_at (ps_unique w) i"
| "op_ok (New_shared i) w = raw_at (ps_shared w) i"
| "op_ok (Default_unique i) w = raw_at (ps_unique w) i"
| "op_ok (Default_shared i) w = raw_at (ps_shared w) i"
| "op_ok (Move_unique i j) w = (raw_at (ps_unique w) i \<and> held_at (ps_unique w) j)"
| "op_ok (Move_shared i j) w = (raw_at (ps_shared w) i \<and> held_at (ps_shared w) j)"
| "op_ok (Copy_shared i j) w = (raw_at (ps_shared w) i \<and> held_at (ps_shared w) j)"
| "op_ok (Unique_to_shared i j) w = (raw_at (ps_shared w) i \<and> held_at (ps_unique w) j)"
| "op_ok (Assign_unique i j) w = (held_at (ps_unique w) i \<and> held_at (ps_unique w) j)"
| "op_ok (Null_unique i) w = held_at (ps_unique w) i"
| "op_ok (Swap_unique i j) w = (held_at (ps_unique w) i \<and> held_at (ps_unique w) j)"
| "op_ok (Assign_move i j) w = (held_at (ps_shared w) i \<and> held_at (ps_shared w) j \<and> i \<noteq> j)"
| "op_ok (Assign_copy i j) w = (held_at (ps_shared w) i \<and> held_at (ps_shared w) j \<and> i \<noteq> j)"
| "op_ok (Null_shared i) w = held_at (ps_shared w) i"
| "op_ok (Swap_shared i j) w = (held_at (ps_shared w) i \<and> held_at (ps_shared w) j)"
| "op_ok (Destroy_unique i) w = held_at (ps_unique w) i"
| "op_ok (Destroy_shared i) w = held_at (ps_shared w) i"

fun ops_ok :: "ptr_op list \<Rightarrow> pointers \<Rightarrow> bool" where
  "ops_ok [] w = True"
| "ops_ok (x # xs) w = (op_ok x w \<and> (case run_op x w of Inl e \<Rightarrow> True | Inr w' \<Rightarrow> ops_ok xs w'))"

definition no_pointers :: "nat \<Rightarrow> nat \<Rightarrow> pointers" where
  "no_pointers n m = \<lparr>ps_objects = [], ps_blocks = [], ps_shared = replicate n Raw, ps_unique = replicate m Raw\<rparr>"

subsection \<open>Ownership\<close>

text \<open>
  The invariant, relative to the references \<open>xs\<close> and the plain pointers \<open>ys\<close> that the running operation has in its hands: the count of
  a control block is the number of references to it, and a living object has exactly one owner, a unique pointer or a control block.
\<close>

definition block_object :: "nat option \<times> nat \<Rightarrow> nat option" where
  "block_object b = (if snd b > 0 then fst b else None)"

definition owners :: "pointers \<Rightarrow> nat \<Rightarrow> nat" where
  "owners w a = count_list (ps_unique w) (Held (Some a)) + count_list (map block_object (ps_blocks w)) (Some a)"

definition alive :: "pointers \<Rightarrow> nat \<Rightarrow> bool" where
  "alive w a \<longleftrightarrow> a < length (ps_objects w) \<and> ps_objects w ! a"

definition owned :: "nat option list \<Rightarrow> nat option list \<Rightarrow> pointers \<Rightarrow> bool" where
  "owned xs ys w \<longleftrightarrow>
     (\<forall>b < length (ps_blocks w). snd (ps_blocks w ! b) = count_list (ps_shared w) (Held (Some b)) + count_list xs (Some b)) \<and>
     (\<forall>b. Held (Some b) \<in> set (ps_shared w) \<or> Some b \<in> set xs \<longrightarrow> b < length (ps_blocks w)) \<and>
     (\<forall>a. owners w a + count_list ys (Some a) = of_bool (alive w a))"

lemma count_list_update:
  "i < length xs \<Longrightarrow> count_list (xs[i := y]) z + of_bool (xs ! i = z) = count_list xs z + of_bool (y = z)"
proof (induction xs arbitrary: i)
  case (Cons x xs)
  show ?case
  proof (cases i)
    case (Suc j)
    with Cons.IH [of j] Cons.prems show ?thesis by (cases "x = z") simp_all
  qed simp
qed simp

lemma count_list_zero: "count_list xs x = 0 \<longleftrightarrow> x \<notin> set xs"
  by (simp add: count_list_0_iff)

lemma count_Cons: "count_list (x # xs) z = of_bool (x = z) + count_list xs z"
  by simp

lemma owned_owner: "owned xs ys w \<Longrightarrow> owners w a + count_list ys (Some a) = of_bool (alive w a)"
  by (simp add: owned_def)

text \<open>A change that keeps the counts and the references needs a look at the owners only.\<close>

lemma owned_change:
  assumes "owned xs ys w" and "map snd (ps_blocks w') = map snd (ps_blocks w)" and "ps_shared w' = ps_shared w"
    and "\<And>a. owners w' a + count_list ys' (Some a) = of_bool (alive w' a)"
  shows "owned xs ys' w'"
proof -
  have l: "length (ps_blocks w') = length (ps_blocks w)" using assms(2) by (metis length_map)
  have "snd (ps_blocks w' ! b) = snd (ps_blocks w ! b)" if "b < length (ps_blocks w)" for b
    using that l arg_cong [OF assms(2), of "\<lambda>l. l ! b"] by simp
  then show ?thesis using assms(1,3,4) l by (simp add: owned_def)
qed

lemma owned_new_object:
  assumes "owned xs ys w" and "new_object w = (a, w')"
  shows "owned xs (Some a # ys) w' \<and> ps_shared w' = ps_shared w \<and> ps_unique w' = ps_unique w"
proof -
  have "owners w' c + count_list (Some a # ys) (Some c) = of_bool (alive w' c)" for c
    using assms by (auto simp: owned_def new_object_def alive_def owners_def nth_append less_Suc_eq split: if_splits dest!: spec [of _ c])
  then show ?thesis using assms by (auto simp: owned_def new_object_def)
qed

lemma owned_delete:
  assumes "owned xs (p # ys) w"
  shows "\<exists>w'. delete_ptr p w = Inr w' \<and> owned xs ys w' \<and> ps_shared w' = ps_shared w \<and> ps_unique w' = ps_unique w"
proof (cases p)
  case None
  with assms show ?thesis by (simp add: delete_ptr_def owned_def)
next
  case (Some a)
  then have e: "owners w c + (of_bool (a = c) + count_list ys (Some c)) = of_bool (alive w c)" for c
    using owned_owner [OF assms, of c] by (simp only: count_Cons option.inject)
  from e [of a] have "alive w a" by (cases "alive w a") simp_all
  then have d: "delete_ptr p w = Inr (w\<lparr>ps_objects := (ps_objects w)[a := False]\<rparr>)" using Some by (simp add: delete_ptr_def alive_def)
  let ?w = "w\<lparr>ps_objects := (ps_objects w)[a := False]\<rparr>"
  have "owners ?w c = owners w c" "alive ?w c \<longleftrightarrow> alive w c \<and> a \<noteq> c" for c
    using \<open>alive w a\<close> by (auto simp: owners_def alive_def nth_list_update)
  then have "owners ?w c + count_list ys (Some c) = of_bool (alive ?w c)" for c
    using e [of c] by (cases "a = c"; cases "alive w c") simp_all
  then show ?thesis using d owned_change [OF assms, of "w\<lparr>ps_objects := (ps_objects w)[a := False]\<rparr>" ys] by simp
qed

lemma owned_std_shared:
  assumes "owned xs (p # ys) w" and "std_shared p w = (v, w')"
  shows "owned (v # xs) ys w' \<and> ps_shared w' = ps_shared w \<and> ps_unique w' = ps_unique w"
proof -
  let ?b = "length (ps_blocks w)"
  have v: "v = Some ?b" "w' = w\<lparr>ps_blocks := ps_blocks w @ [(p, 1)]\<rparr>" using assms(2) by (auto simp: std_shared_def)
  have z: "count_list (ps_shared w) (Held (Some ?b)) = 0" "count_list xs (Some ?b) = 0"
    using assms(1) by (auto simp: owned_def count_list_zero)
  have "owners w' c + count_list ys (Some c) = of_bool (alive w' c)" for c
    using assms(1) unfolding v by (auto simp: owned_def owners_def alive_def block_object_def dest!: spec [of _ c] split: if_splits)
  then show ?thesis using assms(1) z unfolding v by (auto simp: owned_def nth_append less_Suc_eq)
qed

lemma map_block_update:
  assumes "b < length bs" and "fst x = fst (bs ! b)"
  shows "count_list (map block_object (bs[b := x])) (Some a) + of_bool (block_object (bs ! b) = Some a) =
         count_list (map block_object bs) (Some a) + of_bool (block_object x = Some a)"
  using count_list_update [of b "map block_object bs" "block_object x" "Some a"] assms by (simp add: map_update)

lemma owned_std_copy:
  assumes "owned xs ys w" and "v \<noteq> None \<Longrightarrow> Held v \<in> set (ps_shared w)"
  shows "\<exists>w'. std_copy v w = Inr w' \<and> owned (v # xs) ys w' \<and> ps_shared w' = ps_shared w \<and> ps_unique w' = ps_unique w"
proof (cases v)
  case None
  with assms(1) show ?thesis by (simp add: std_copy_def owned_def)
next
  case (Some b)
  let ?w = "w\<lparr>ps_blocks := (ps_blocks w)[b := (fst (ps_blocks w ! b), snd (ps_blocks w ! b) + 1)]\<rparr>"
  have h: "Held (Some b) \<in> set (ps_shared w)" using assms(2) Some by simp
  then have b: "b < length (ps_blocks w)" "snd (ps_blocks w ! b) > 0"
    using assms(1) count_list_zero [of "ps_shared w" "Held (Some b)"] by (auto simp: owned_def)
  have "owners ?w a = owners w a" for a
    using map_block_update [OF b(1), of "(fst (ps_blocks w ! b), snd (ps_blocks w ! b) + 1)" a] b(2)
    by (simp add: owners_def block_object_def)
  moreover have "alive ?w a = alive w a" for a by (simp add: alive_def)
  ultimately have "owned (v # xs) ys ?w" using assms(1) b Some by (auto simp: owned_def nth_list_update)
  then show ?thesis using b Some by (simp add: std_copy_def)
qed

lemma owned_std_destroy:
  assumes "owned (v # xs) ys w"
  shows "\<exists>w'. std_destroy v w = Inr w' \<and> owned xs ys w' \<and> ps_shared w' = ps_shared w \<and> ps_unique w' = ps_unique w"
proof (cases v)
  case None
  with assms show ?thesis by (simp add: std_destroy_def owned_def)
next
  case (Some b)
  let ?x = "(fst (ps_blocks w ! b), snd (ps_blocks w ! b) - 1)"
  let ?w = "w\<lparr>ps_blocks := (ps_blocks w)[b := ?x]\<rparr>"
  have b: "b < length (ps_blocks w)" "snd (ps_blocks w ! b) > 0" using assms Some by (auto simp: owned_def)
  have m: "owners ?w a + of_bool (fst (ps_blocks w ! b) = Some a) = owners w a + of_bool (block_object ?x = Some a)" for a
    using map_block_update [OF b(1), of ?x a] b(2) by (simp add: owners_def block_object_def)
  have al: "alive ?w a = alive w a" for a by (simp add: alive_def)
  show ?thesis
  proof (cases "snd (ps_blocks w ! b) = 1")
    case True
    have "owners ?w a + count_list (fst (ps_blocks w ! b) # ys) (Some a) = of_bool (alive ?w a)" for a
      using assms m [of a] True al by (auto simp: owned_def block_object_def dest!: spec [of _ a] split: if_splits)
    then have "owned xs (fst (ps_blocks w ! b) # ys) ?w" using assms b Some by (auto simp: owned_def nth_list_update)
    from owned_delete [OF this] show ?thesis using b Some True by (auto simp: std_destroy_def)
  next
    case False
    have "owners ?w a + count_list ys (Some a) = of_bool (alive ?w a)" for a
      using assms m [of a] False b(2) al by (auto simp: owned_def block_object_def dest!: spec [of _ a] split: if_splits)
    then have "owned xs ys ?w" using assms b Some by (auto simp: owned_def nth_list_update)
    then show ?thesis using b Some False by (simp add: std_destroy_def)
  qed
qed

text \<open>Putting a reference into a variable and taking it out.\<close>

lemma owned_place:
  assumes "owned (v # xs) ys w" and "i < length (ps_shared w)" and "ps_shared w ! i = Raw \<or> ps_shared w ! i = Held None"
  shows "owned xs ys (sh_place i v w)"
proof -
  have c: "count_list ((ps_shared w)[i := Held v]) (Held (Some b)) = count_list (ps_shared w) (Held (Some b)) + of_bool (v = Some b)" for b
    using count_list_update [OF assms(2), of "Held v" "Held (Some b)"] assms(3) by auto
  have "Held (Some b) \<in> set ((ps_shared w)[i := Held v]) \<Longrightarrow> b < length (ps_blocks w)" for b
    using assms(1) set_update_subset_insert [of "ps_shared w" i "Held v"] by (auto simp: owned_def)
  then show ?thesis using assms(1) by (auto simp: owned_def sh_place_def c owners_def alive_def)
qed

lemma owned_take:
  assumes "owned xs ys w" and "i < length (ps_shared w)" and "ps_shared w ! i = Held v" and "s = Raw \<or> s = Held None"
  shows "owned (v # xs) ys (w\<lparr>ps_shared := (ps_shared w)[i := s]\<rparr>)"
proof -
  have c: "count_list (ps_shared w) (Held (Some b)) = count_list ((ps_shared w)[i := s]) (Held (Some b)) + of_bool (v = Some b)" for b
    using count_list_update [OF assms(2), of s "Held (Some b)"] assms(3,4) by auto
  have "Held v \<in> set (ps_shared w)" using assms(2,3) by (metis nth_mem)
  moreover have "Held (Some b) \<in> set ((ps_shared w)[i := s]) \<Longrightarrow> Held (Some b) \<in> set (ps_shared w)" for b
    using assms(4) set_update_subset_insert [of "ps_shared w" i s] by auto
  ultimately show ?thesis using assms(1) by (auto simp: owned_def c owners_def alive_def)
qed

lemma owned_init:
  assumes "owned xs (p # ys) w" and "i < length (ps_unique w)" and "ps_unique w ! i = Raw \<or> ps_unique w ! i = Held None"
  shows "owned xs ys (un_init i p w)"
proof -
  have "count_list ((ps_unique w)[i := Held p]) (Held (Some a)) = count_list (ps_unique w) (Held (Some a)) + of_bool (p = Some a)" for a
    using count_list_update [OF assms(2), of "Held p" "Held (Some a)"] assms(3) by auto
  then have "owners (un_init i p w) a + count_list ys (Some a) = owners w a + count_list (p # ys) (Some a)" for a
    by (simp del: count_list.simps add: owners_def un_init_def count_Cons)
  then show ?thesis using owned_owner [OF assms(1)] by (intro owned_change [OF assms(1)]) (simp_all add: un_init_def alive_def)
qed

lemma owned_take_unique:
  assumes "owned xs ys w" and "i < length (ps_unique w)" and "ps_unique w ! i = Held p" and "s = Raw \<or> s = Held None"
  shows "owned xs (p # ys) (w\<lparr>ps_unique := (ps_unique w)[i := s]\<rparr>)"
proof -
  have c: "count_list (ps_unique w) (Held (Some a)) = count_list ((ps_unique w)[i := s]) (Held (Some a)) + of_bool (p = Some a)" for a
    using count_list_update [OF assms(2), of s "Held (Some a)"] assms(3,4) by auto
  have "owners (w\<lparr>ps_unique := (ps_unique w)[i := s]\<rparr>) a + count_list (p # ys) (Some a) = owners w a + count_list ys (Some a)" for a
    by (simp del: count_list.simps add: owners_def c [of a] count_Cons)
  then show ?thesis using owned_owner [OF assms(1)] by (intro owned_change [OF assms(1)]) (simp_all add: alive_def)
qed

lemma delete_frame: "delete_ptr p (w\<lparr>ps_unique := u\<rparr>) = map_sum id (ps_unique_update (\<lambda>_. u)) (delete_ptr p w)"
  by (auto simp: delete_ptr_def split: option.splits)

lemma delete_frame_shared: "delete_ptr p (w\<lparr>ps_shared := u\<rparr>) = map_sum id (ps_shared_update (\<lambda>_. u)) (delete_ptr p w)"
  by (auto simp: delete_ptr_def split: option.splits)

lemma destroy_frame: "std_destroy v (w\<lparr>ps_shared := u\<rparr>) = map_sum id (ps_shared_update (\<lambda>_. u)) (std_destroy v w)"
  by (cases w) (auto simp: std_destroy_def delete_ptr_def Let_def split: option.splits)

lemma delete_slots: "delete_ptr p w = Inr w' \<Longrightarrow> ps_unique w' = ps_unique w \<and> ps_shared w' = ps_shared w"
  by (auto simp: delete_ptr_def split: option.splits if_splits)

lemma destroy_slots: "std_destroy v w = Inr w' \<Longrightarrow> ps_unique w' = ps_unique w \<and> ps_shared w' = ps_shared w"
  by (auto simp: std_destroy_def Let_def split: option.splits if_splits dest: delete_slots)

lemma held_atD: "held_at ss i \<Longrightarrow> \<exists>v. i < length ss \<and> ss ! i = Held v"
  by (cases "ss ! i") (auto simp: held_at_def)

subsection \<open>The operations keep the ownership\<close>

lemma un_release_owned:
  assumes "owned xs ys w" and "held_at (ps_unique w) i"
  shows "\<exists>p w'. un_release i w = Inr (p, w') \<and> owned xs (p # ys) w' \<and> ps_unique w' = (ps_unique w)[i := Held None] \<and> ps_shared w' = ps_shared w"
proof -
  obtain p where p: "i < length (ps_unique w)" "ps_unique w ! i = Held p" using held_atD [OF assms(2)] by blast
  with owned_take_unique [OF assms(1) p, of "Held None"] show ?thesis by (simp add: un_release_def un_get_def un_init_def)
qed

lemma un_reset_owned:
  assumes "owned xs (p # ys) w" and "held_at (ps_unique w) i"
  shows "\<exists>w'. un_reset i p w = Inr w' \<and> owned xs ys w' \<and> ps_unique w' = (ps_unique w)[i := Held p] \<and> ps_shared w' = ps_shared w"
proof -
  obtain old where old: "i < length (ps_unique w)" "ps_unique w ! i = Held old" using held_atD [OF assms(2)] by blast
  let ?w1 = "w\<lparr>ps_unique := (ps_unique w)[i := Held None]\<rparr>"
  obtain w2 where w2: "delete_ptr old ?w1 = Inr w2" "owned xs (p # ys) w2" "ps_shared w2 = ps_shared w" "ps_unique w2 = (ps_unique w)[i := Held None]"
    using owned_delete [OF owned_take_unique [OF assms(1) old, of "Held None"]] by auto
  then obtain w3 where w3: "delete_ptr old w = Inr w3" "w2 = w3\<lparr>ps_unique := (ps_unique w)[i := Held None]\<rparr>"
    by (cases "delete_ptr old w") (auto simp: delete_frame)
  have "(if old \<noteq> None then delete_ptr old w else Inr w) = Inr w3" using w3(1) by (auto simp: delete_ptr_def)
  then have r: "un_reset i p w = Inr (un_init i p w2)"
    using old w3 delete_slots [OF w3(1)] by (simp add: un_reset_def un_get_def un_init_def)
  moreover have "owned xs ys (un_init i p w2)" using w2 old by (intro owned_init) simp_all
  ultimately show ?thesis using w2 by (simp add: un_init_def)
qed

text \<open>Destroying and resetting a wrapper, with what is left in the buffer.\<close>

lemma std_destroy_slot:
  assumes "owned xs ys w" and "i < length (ps_shared w)" and "ps_shared w ! i = Held v" and "s = Raw \<or> s = Held None"
  shows "\<exists>w'. std_destroy v w = Inr w' \<and> owned xs ys (w'\<lparr>ps_shared := (ps_shared w)[i := s]\<rparr>) \<and> ps_shared w' = ps_shared w \<and> ps_unique w' = ps_unique w"
proof -
  let ?w1 = "w\<lparr>ps_shared := (ps_shared w)[i := s]\<rparr>"
  obtain w2 where w2: "std_destroy v ?w1 = Inr w2" "owned xs ys w2" using owned_std_destroy [OF owned_take [OF assms]] by auto
  then obtain w3 where w3: "std_destroy v w = Inr w3" "w2 = w3\<lparr>ps_shared := (ps_shared w)[i := s]\<rparr>"
    by (cases "std_destroy v w") (auto simp: destroy_frame)
  then show ?thesis using w2 destroy_slots [OF w3(1)] by auto
qed

lemma wrapper_destroy_owned:
  assumes "owned xs ys w" and "held_at (ps_shared w) i"
  shows "\<exists>w'. wrapper_destroy i w = Inr w' \<and> owned xs ys w' \<and> ps_shared w' = (ps_shared w)[i := Raw] \<and> ps_unique w' = ps_unique w"
proof -
  obtain v where v: "i < length (ps_shared w)" "ps_shared w ! i = Held v" using held_atD [OF assms(2)] by blast
  from std_destroy_slot [OF assms(1) v, of Raw] obtain w' where
    "std_destroy v w = Inr w'" "owned xs ys (w'\<lparr>ps_shared := (ps_shared w)[i := Raw]\<rparr>)" "ps_shared w' = ps_shared w" "ps_unique w' = ps_unique w"
    by auto
  then show ?thesis using v by (simp add: wrapper_destroy_def sh_wrapper_def)
qed

lemma wrapper_Reset_owned:
  assumes "owned xs ys w" and "held_at (ps_shared w) i"
  shows "\<exists>w'. wrapper_Reset i w = Inr w' \<and> owned xs ys w'"
proof -
  obtain v where v: "i < length (ps_shared w)" "ps_shared w ! i = Held v" using held_atD [OF assms(2)] by blast
  from std_destroy_slot [OF assms(1) v, of "Held None"] obtain w' where
    "std_destroy v w = Inr w'" "owned xs ys (w'\<lparr>ps_shared := (ps_shared w)[i := Held None]\<rparr>)" "ps_shared w' = ps_shared w"
    by auto
  then show ?thesis using v by (simp add: wrapper_Reset_def sh_wrapper_def sh_place_def)
qed

lemma CopyTo_owned:
  assumes "owned xs ys w" and "held_at (ps_shared w) i" and "j < length (ps_shared w)" and "ps_shared w ! j = Raw"
  shows "\<exists>w'. CopyTo i j w = Inr w' \<and> owned xs ys w'"
proof -
  obtain v where v: "i < length (ps_shared w)" "ps_shared w ! i = Held v" using held_atD [OF assms(2)] by blast
  then have "Held v \<in> set (ps_shared w)" by (metis nth_mem)
  with owned_std_copy [OF assms(1), of v] obtain w' where
    "std_copy v w = Inr w'" "owned (v # xs) ys w'" "ps_shared w' = ps_shared w" by auto
  then show ?thesis using v assms(3,4) owned_place [of v xs ys w' j] by (simp add: CopyTo_def sh_wrapper_def)
qed

lemma MoveTo_owned:
  assumes "owned xs ys w" and "held_at (ps_shared w) i" and "j < length (ps_shared w)"
    and "ps_shared w ! j = Raw \<or> ps_shared w ! j = Held None \<or> j = i"
  shows "\<exists>w' v. MoveTo i j w = Inr w' \<and> owned xs ys w' \<and> ps_shared w ! i = Held v \<and>
           ps_shared w' = (ps_shared w)[i := Held None, j := Held v] \<and> ps_unique w' = ps_unique w"
proof -
  obtain v where v: "i < length (ps_shared w)" "ps_shared w ! i = Held v" using held_atD [OF assms(2)] by blast
  have "owned (v # xs) ys (sh_place i None w)" using owned_take [OF assms(1) v, of "Held None"] by (simp add: sh_place_def)
  from owned_place [OF this, of j] have "owned xs ys (sh_place j v (sh_place i None w))"
    using assms(3,4) v by (auto simp: sh_place_def nth_list_update)
  then show ?thesis using v by (simp add: MoveTo_def sh_wrapper_def sh_place_def)
qed

lemma raw_atD: "raw_at ss i \<Longrightarrow> i < length ss \<and> ss ! i = Raw"
  by (simp add: raw_at_def)

lemma sh_pointer_owned:
  assumes "owned xs (p # ys) w" and "raw_at (ps_shared w) i"
  shows "owned xs ys (sh_pointer i p w)"
proof -
  obtain v w' where v: "std_shared p w = (v, w')" by (cases "std_shared p w")
  from owned_std_shared [OF assms(1) v] owned_place [of v xs ys w' i] show ?thesis
    using assms(2) by (simp add: sh_pointer_def v raw_at_def)
qed

lemma sh_swap_owned:
  assumes "owned [] [] w" and "held_at (ps_shared w) i" and "held_at (ps_shared w) j"
  shows "\<exists>w'. sh_swap i j w = Inr w' \<and> owned [] [] w'"
proof -
  let ?t = "length (ps_shared w)" and ?w0 = "w\<lparr>ps_shared := ps_shared w @ [Raw]\<rparr>"
  have ij: "i < ?t" "j < ?t" "ps_shared w ! i \<noteq> Raw" "ps_shared w ! j \<noteq> Raw" using assms(2,3) by (auto simp: held_at_def)
  have o0: "owned [] [] ?w0" using assms(1) by (simp add: owned_def owners_def alive_def)
  obtain w1 vj where w1: "MoveTo j ?t ?w0 = Inr w1" "owned [] [] w1" "ps_shared w1 = (ps_shared ?w0)[j := Held None, ?t := Held vj]"
    using MoveTo_owned [OF o0, of j ?t] ij by (auto simp: held_at_def nth_append)
  have s1: "held_at (ps_shared w1) i" "j < length (ps_shared w1)" "ps_shared w1 ! j = Held None" "length (ps_shared w1) = Suc ?t"
    using w1(3) ij by (auto simp: held_at_def nth_list_update nth_append)
  obtain w2 vi where w2: "MoveTo i j w1 = Inr w2" "owned [] [] w2" "ps_shared w2 = (ps_shared w1)[i := Held None, j := Held vi]" "ps_shared w1 ! i = Held vi"
    using MoveTo_owned [OF w1(2) s1(1,2)] s1(3) by auto
  have s2: "held_at (ps_shared w2) ?t" "i < length (ps_shared w2)" "ps_shared w2 ! i = Held None"
    using w2(3,4) w1(3) s1 ij by (auto simp: held_at_def nth_list_update nth_append)
  obtain w3 vt where w3: "MoveTo ?t i w2 = Inr w3" "owned [] [] w3" "ps_shared w3 = (ps_shared w2)[?t := Held None, i := Held vt]"
    using MoveTo_owned [OF w2(2) s2(1,2)] s2(3) by auto
  have "held_at (ps_shared w3) ?t" using w3(3) s2 w2(3) s1 ij by (auto simp: held_at_def nth_list_update)
  from wrapper_destroy_owned [OF w3(2) this] obtain w4 where
    w4: "wrapper_destroy ?t w3 = Inr w4" "owned [] [] w4" "ps_shared w4 = (ps_shared w3)[?t := Raw]" by auto
  have l4: "length (ps_shared w4) = Suc ?t" using w4(3) w3(3) w2(3) s1 by simp
  then have "ps_shared w4 = take ?t (ps_shared w4) @ [Raw]"
    using w4(3) by (metis length_list_update lessI nth_list_update_eq take_Suc_conv_app_nth take_all order_refl)
  then have "count_list (ps_shared w4) (Held (Some b)) = count_list (take ?t (ps_shared w4)) (Held (Some b))" for b
    by (metis add_0_right count_list.simps(1) count_list_append slot.distinct(1) count_list.simps(2))
  then have "owned [] [] (w4\<lparr>ps_shared := take ?t (ps_shared w4)\<rparr>)"
    using w4(2) by (auto simp: owned_def owners_def alive_def dest: in_set_takeD)
  then show ?thesis using w1 w2 w3 w4 by (simp add: sh_swap_def sh_move_init_def sh_destroy_def Let_def)
qed

lemma owned_None [simp]: "owned (None # xs) ys w = owned xs ys w" "owned xs (None # ys) w = owned xs ys w"
  by (simp_all add: owned_def)

lemma un_swap_owned:
  assumes "owned [] [] w" and "held_at (ps_unique w) i" and "held_at (ps_unique w) j"
  shows "\<exists>w'. un_swap i j w = Inr w' \<and> owned [] [] w'"
proof -
  obtain p where p: "i < length (ps_unique w)" "ps_unique w ! i = Held p" using held_atD [OF assms(2)] by blast
  obtain q where q: "j < length (ps_unique w)" "ps_unique w ! j = Held q" using held_atD [OF assms(3)] by blast
  have "un_swap i j w = Inr (un_init j p (un_init i q w))" using p q by (simp add: un_swap_def un_get_def)
  moreover have "owned [] [] (un_init j p (un_init i q w))"
  proof (cases "i = j")
    case True
    then have "(ps_unique w)[i := Held p] = ps_unique w" using p by (metis list_update_id)
    then show ?thesis using True p q assms(1) by (simp add: un_init_def)
  next
    case False
    let ?w2 = "w\<lparr>ps_unique := (ps_unique w)[i := Held None, j := Held None]\<rparr>"
    have "owned [] [q, p] ?w2"
      using owned_take_unique [OF owned_take_unique [OF assms(1) p, of "Held None"], of j q "Held None"] q False by simp
    then have "owned [] [] (un_init j p (un_init i q ?w2))"
      using p q False by (intro owned_init) (simp_all add: un_init_def)
    moreover have "un_init j p (un_init i q ?w2) = un_init j p (un_init i q w)"
      using False by (simp add: un_init_def list_update_swap)
    ultimately show ?thesis by simp
  qed
  ultimately show ?thesis by blast
qed

lemma run_op_owned: "owned [] [] w \<Longrightarrow> op_ok x w \<Longrightarrow> \<exists>w'. run_op x w = Inr w' \<and> owned [] [] w'"
proof (induction x w rule: run_op.induct)
  case (1 i w)
  then show ?case
    using owned_new_object [OF 1(1), of "fst (new_object w)" "snd (new_object w)"]
      owned_init [of "[]" "Some (fst (new_object w))" "[]" "snd (new_object w)" i] by (simp add: raw_at_def split_def)
next
  case (2 i w)
  then show ?case
    using owned_new_object [OF 2(1), of "fst (new_object w)" "snd (new_object w)"]
      sh_pointer_owned [of "[]" "Some (fst (new_object w))" "[]" "snd (new_object w)" i] by (simp add: split_def)
next
  case (3 i w)
  then show ?case using owned_init [of "[]" None "[]" w i] by (simp add: raw_at_def)
next
  case (4 i w)
  then show ?case using owned_place [of None "[]" "[]" w i] by (simp add: raw_at_def sh_default_def)
next
  case (5 i j w)
  then obtain p w' where "un_release j w = Inr (p, w')" "owned [] [p] w'" "ps_unique w' = (ps_unique w)[j := Held None]"
    using un_release_owned [OF 5(1), of j] by auto
  with 5(2) show ?case
    using owned_init [of "[]" p "[]" w' i] by (auto simp: un_move_init_def raw_at_def held_at_def nth_list_update)
next
  case (6 i j w)
  then show ?case using MoveTo_owned [OF 6(1), of j i] by (auto simp: sh_move_init_def raw_at_def)
next
  case (7 i j w)
  then show ?case using CopyTo_owned [OF 7(1), of j i] by (auto simp: sh_copy_init_def raw_at_def)
next
  case (8 i j w)
  then obtain p w' where "un_release j w = Inr (p, w')" "owned [] [p] w'" "ps_shared w' = ps_shared w"
    using un_release_owned [OF 8(1), of j] by auto
  with 8(2) show ?case using sh_pointer_owned [of "[]" p "[]" w' i] by (simp add: sh_from_unique_def)
next
  case (9 i j w)
  then obtain p w' where r: "un_release j w = Inr (p, w')" "owned [] [p] w'" "ps_unique w' = (ps_unique w)[j := Held None]"
    using un_release_owned [OF 9(1), of j] by auto
  then have "held_at (ps_unique w') i" using 9(2) by (auto simp: held_at_def nth_list_update)
  from un_reset_owned [OF r(2) this] show ?case using r by (auto simp: un_assign_def)
next
  case (10 i w)
  then show ?case using un_reset_owned [of "[]" None "[]" w i] by (auto simp: un_assign_null_def)
next
  case (11 i j w)
  then show ?case using un_swap_owned by simp
next
  case (12 i j w)
  then obtain w' where d: "wrapper_destroy i w = Inr w'" "owned [] [] w'" "ps_shared w' = (ps_shared w)[i := Raw]"
    using wrapper_destroy_owned [OF 12(1), of i] by auto
  with 12(2) show ?case using MoveTo_owned [OF d(2), of j i] by (auto simp: sh_assign_move_def held_at_def)
next
  case (13 i j w)
  then obtain w' where d: "wrapper_destroy i w = Inr w'" "owned [] [] w'" "ps_shared w' = (ps_shared w)[i := Raw]"
    using wrapper_destroy_owned [OF 13(1), of i] by auto
  with 13(2) show ?case using CopyTo_owned [OF d(2), of j i] by (auto simp: sh_assign_copy_def held_at_def)
next
  case (14 i w)
  then show ?case using wrapper_Reset_owned by (simp add: sh_assign_null_def)
next
  case (15 i j w)
  then show ?case using sh_swap_owned by simp
next
  case (16 i w)
  then obtain w' where r: "un_reset i None w = Inr w'" "owned [] [] w'" "ps_unique w' = (ps_unique w)[i := Held None]"
    using un_reset_owned [of "[]" None "[]" w i] by auto
  with 16(2) have "owned [] [] (w'\<lparr>ps_unique := (ps_unique w')[i := Raw]\<rparr>)"
    using owned_take_unique [OF r(2), of i None Raw] by (simp add: held_at_def)
  with r show ?case by (simp add: un_destroy_def)
next
  case (17 i w)
  then show ?case using wrapper_destroy_owned [OF 17(1), of i] by (auto simp: sh_destroy_def)
qed

lemma run_ops_owned: "owned [] [] w \<Longrightarrow> ops_ok xs w \<Longrightarrow> \<exists>w'. run_ops xs w = Inr w' \<and> owned [] [] w'"
proof (induction xs arbitrary: w)
  case (Cons x xs)
  then obtain w' where "run_op x w = Inr w'" "owned [] [] w'" using run_op_owned [of w x] by auto
  with Cons show ?case by simp
qed simp

lemma owned_no_pointers: "owned [] [] (no_pointers n m)"
  by (simp add: owned_def no_pointers_def owners_def alive_def count_list_zero)

text \<open>The variables that point to an object.\<close>

definition points_to :: "pointers \<Rightarrow> nat \<Rightarrow> bool" where
  "points_to w a \<longleftrightarrow>
     list_ex (\<lambda>i. un_get i w = Inr (Some a)) [0..<length (ps_unique w)] \<or> list_ex (\<lambda>i. sh_get i w = Inr (Some a)) [0..<length (ps_shared w)]"

lemma get_iff:
  "un_get i w = Inr p \<longleftrightarrow> ps_unique w ! i = Held p"
  "sh_get i w = Inr (Some a) \<longleftrightarrow> (\<exists>b. ps_shared w ! i = Held (Some b) \<and> fst (ps_blocks w ! b) = Some a)"
  by (auto simp: un_get_def sh_get_def sh_wrapper_def split: slot.splits option.splits sum.splits)

lemma owned_points_to:
  assumes "owned [] [] w"
  shows "alive w a \<longleftrightarrow> points_to w a"
proof -
  have u: "Held (Some a) \<in> set (ps_unique w) \<longleftrightarrow> list_ex (\<lambda>i. un_get i w = Inr (Some a)) [0..<length (ps_unique w)]"
    by (auto simp: list_ex_iff in_set_conv_nth get_iff)
  have pos: "snd (ps_blocks w ! b) > 0 \<longleftrightarrow> Held (Some b) \<in> set (ps_shared w)" if "b < length (ps_blocks w)" for b
    using assms that count_list_zero [of "ps_shared w" "Held (Some b)"] by (auto simp: owned_def)
  have lt: "Held (Some b) \<in> set (ps_shared w) \<Longrightarrow> b < length (ps_blocks w)" for b using assms by (simp add: owned_def)
  have "Some a \<in> set (map block_object (ps_blocks w)) \<longleftrightarrow> (\<exists>b. Held (Some b) \<in> set (ps_shared w) \<and> fst (ps_blocks w ! b) = Some a)"
    (is "?l \<longleftrightarrow> ?r")
  proof
    assume ?l
    then obtain b where b: "b < length (ps_blocks w)" "block_object (ps_blocks w ! b) = Some a" by (metis in_set_conv_nth length_map nth_map)
    then have "snd (ps_blocks w ! b) > 0 \<and> fst (ps_blocks w ! b) = Some a" by (auto simp: block_object_def split: if_splits)
    with pos [OF b(1)] show ?r by (intro exI [of _ b]) simp
  next
    assume ?r
    then obtain b where b: "Held (Some b) \<in> set (ps_shared w)" "fst (ps_blocks w ! b) = Some a" by blast
    with pos [OF lt [OF b(1)]] have "block_object (ps_blocks w ! b) = Some a" by (simp add: block_object_def)
    then show ?l using lt [OF b(1)] by (metis in_set_conv_nth length_map nth_map)
  qed
  also have "\<dots> \<longleftrightarrow> list_ex (\<lambda>i. sh_get i w = Inr (Some a)) [0..<length (ps_shared w)]"
    unfolding list_ex_iff in_set_conv_nth get_iff by (simp add: Bex_def) metis
  finally have "owners w a > 0 \<longleftrightarrow> points_to w a"
    using u count_list_zero [of "ps_unique w" "Held (Some a)"] count_list_zero [of "map block_object (ps_blocks w)" "Some a"]
    by (auto simp: owners_def points_to_def)
  then show ?thesis using owned_owner [OF assms, of a] by (cases "alive w a") simp_all
qed

text \<open>C25: The owning pointers own. In every program that constructs, moves, copies, assigns, swaps, resets and destroys unique and shared pointers by the rules of the
  language, and never assigns a shared pointer to itself, no destroyed pointer is used and no object is deleted twice; at every moment an object is alive exactly
  if some pointer points to it. In particular nothing is left once all pointers are destroyed.\<close>

theorem pointers_own_their_objects:
  assumes "ops_ok ops (no_pointers n m)"
  shows "\<exists>w. run_ops ops (no_pointers n m) = Inr w \<and> (\<forall>a. alive w a \<longleftrightarrow> points_to w a) \<and>
     (set (ps_shared w) \<union> set (ps_unique w) \<subseteq> {Raw} \<longrightarrow> \<not> list_ex id (ps_objects w))"
proof -
  obtain w where w: "run_ops ops (no_pointers n m) = Inr w" "owned [] [] w" using run_ops_owned [OF owned_no_pointers assms] by blast
  have "\<not> list_ex id (ps_objects w)" if r: "set (ps_shared w) \<union> set (ps_unique w) \<subseteq> {Raw}"
  proof -
    have "ps_unique w ! i = Raw" if "i < length (ps_unique w)" for i using that r nth_mem by blast
    moreover have "ps_shared w ! i = Raw" if "i < length (ps_shared w)" for i using that r nth_mem by blast
    ultimately have "\<not> points_to w a" for a by (auto simp: points_to_def list_ex_iff get_iff)
    then show ?thesis using owned_points_to [OF w(2)] by (auto simp: list_ex_iff alive_def in_set_conv_nth)
  qed
  then show ?thesis using w owned_points_to by blast
qed

definition demo_ptr_ops :: "ptr_op list" where
  "demo_ptr_ops = [New_unique 0, Unique_to_shared 0 0, Copy_shared 1 0, New_shared 2, Assign_copy 2 1, Swap_shared 0 2, Destroy_unique 0,
     Destroy_shared 0, Null_shared 1, Destroy_shared 1, Destroy_shared 2]"

theorem pointers_own_their_objects_witness:
  "\<exists>w. run_ops demo_ptr_ops (no_pointers 3 1) = Inr w \<and> ps_objects w = [False, False]"
proof -
  have "ops_ok demo_ptr_ops (no_pointers 3 1)" by code_simp
  from pointers_own_their_objects [OF this] obtain w where w: "run_ops demo_ptr_ops (no_pointers 3 1) = Inr w"
    "set (ps_shared w) \<union> set (ps_unique w) \<subseteq> {Raw} \<longrightarrow> \<not> list_ex id (ps_objects w)" by blast
  moreover have "(case run_ops demo_ptr_ops (no_pointers 3 1) of Inl e \<Rightarrow> False
      | Inr w \<Rightarrow> ps_shared w = [Raw, Raw, Raw] \<and> ps_unique w = [Raw] \<and> length (ps_objects w) = 2)" by code_simp
  ultimately show ?thesis by (auto simp: length_Suc_conv numeral_2_eq_2)
qed

text \<open>Without a check for self-assignment the wrapper is copied after its destructor has run.\<close>

lemma self_assignment:
  assumes "owned [] [] w" and "held_at (ps_shared w) i"
  shows "sh_assign_copy i i w = Inl Use_of_destroyed" "sh_assign_move i i w = Inl Use_of_destroyed"
  using wrapper_destroy_owned [OF assms] assms(2)
  by (auto simp: sh_assign_copy_def sh_assign_move_def CopyTo_def MoveTo_def sh_wrapper_def held_at_def)

end
