(* ===== verification/Timestamps.thy ===== *)
theory Timestamps
  imports Cpp_Prelude
begin

text \<open>
  \<open>opentelemetry/common/timestamp.h\<close>: the two time stamps and the bound on a wait. A
  \<open>std::chrono::duration\<close> is its 64-bit count together with the length of its tick in nanoseconds
  (1 for \<open>nanoseconds\<close>, 1000 for \<open>microseconds\<close>, \<dots>); the durations of the two clocks are
  nanoseconds. Signed arithmetic that leaves 64 bits is undefined: it gives \<open>None\<close>.
\<close>

subsection \<open>Durations\<close>

definition int64 :: "int \<Rightarrow> bool" where
  "int64 n \<longleftrightarrow> LONG_MIN \<le> n \<and> n \<le> LONG_MAX"

definition checked :: "int \<Rightarrow> int option" where
  "checked n = (if int64 n then Some n else None)"

text \<open>Integer division of C++ truncates towards zero.\<close>

definition quot :: "int \<Rightarrow> int \<Rightarrow> int" where
  "quot a b = (if 0 \<le> a then a div b else - ((- a) div b))"

definition to_nanoseconds :: "int \<Rightarrow> int \<Rightarrow> int option" where
  "to_nanoseconds unit n = checked (n * unit)"

definition from_nanoseconds :: "int \<Rightarrow> int \<Rightarrow> int" where
  "from_nanoseconds unit n = quot n unit"

subsection \<open>SystemTimestamp and SteadyTimestamp\<close>

record system_timestamp =
  sys_nanos_since_epoch :: int

record steady_timestamp =
  std_nanos_since_epoch :: int

definition SystemTimestamp :: system_timestamp where
  "SystemTimestamp = \<lparr>sys_nanos_since_epoch = 0\<rparr>"

definition SystemTimestamp_duration :: "int \<Rightarrow> int \<Rightarrow> system_timestamp option" where
  "SystemTimestamp_duration unit n =
     map_option (\<lambda>ns. \<lparr>sys_nanos_since_epoch = ns\<rparr>) (to_nanoseconds unit n)"

text \<open>A time point of the system clock is its nanoseconds since the epoch.\<close>

definition SystemTimestamp_time_point :: "int \<Rightarrow> system_timestamp option" where
  "SystemTimestamp_time_point tp = SystemTimestamp_duration 1 tp"

definition sys_time_point :: "system_timestamp \<Rightarrow> int" where
  "sys_time_point t = from_nanoseconds 1 (sys_nanos_since_epoch t)"

definition sys_time_since_epoch :: "system_timestamp \<Rightarrow> int" where
  "sys_time_since_epoch t = sys_nanos_since_epoch t"

definition sys_eq :: "system_timestamp \<Rightarrow> system_timestamp \<Rightarrow> bool" where
  "sys_eq a b \<longleftrightarrow> sys_nanos_since_epoch a = sys_nanos_since_epoch b"

definition sys_ne :: "system_timestamp \<Rightarrow> system_timestamp \<Rightarrow> bool" where
  "sys_ne a b \<longleftrightarrow> sys_nanos_since_epoch a \<noteq> sys_nanos_since_epoch b"

definition SteadyTimestamp :: steady_timestamp where
  "SteadyTimestamp = \<lparr>std_nanos_since_epoch = 0\<rparr>"

definition SteadyTimestamp_duration :: "int \<Rightarrow> int \<Rightarrow> steady_timestamp option" where
  "SteadyTimestamp_duration unit n =
     map_option (\<lambda>ns. \<lparr>std_nanos_since_epoch = ns\<rparr>) (to_nanoseconds unit n)"

definition SteadyTimestamp_time_point :: "int \<Rightarrow> steady_timestamp option" where
  "SteadyTimestamp_time_point tp = SteadyTimestamp_duration 1 tp"

definition std_time_point :: "steady_timestamp \<Rightarrow> int" where
  "std_time_point t = from_nanoseconds 1 (std_nanos_since_epoch t)"

definition std_time_since_epoch :: "steady_timestamp \<Rightarrow> int" where
  "std_time_since_epoch t = std_nanos_since_epoch t"

definition std_eq :: "steady_timestamp \<Rightarrow> steady_timestamp \<Rightarrow> bool" where
  "std_eq a b \<longleftrightarrow> std_nanos_since_epoch a = std_nanos_since_epoch b"

definition std_ne :: "steady_timestamp \<Rightarrow> steady_timestamp \<Rightarrow> bool" where
  "std_ne a b \<longleftrightarrow> std_nanos_since_epoch a \<noteq> std_nanos_since_epoch b"

subsection \<open>DurationUtil\<close>

text \<open>The longest wait from \<open>now\<close> in ticks of the given length: \<open>time_point::max() - now()\<close>.\<close>

definition max_timeout :: "int \<Rightarrow> int \<Rightarrow> int option" where
  "max_timeout unit now = map_option (from_nanoseconds unit) (checked (LONG_MAX - now))"

text \<open>\<open>steady_now\<close> and \<open>system_now\<close> are what the two clocks return.\<close>

definition AdjustWaitForTimeout :: "int \<Rightarrow> int \<Rightarrow> int \<Rightarrow> int \<Rightarrow> int \<Rightarrow> int option" where
  "AdjustWaitForTimeout unit steady_now system_now timeout indefinite_value =
     (if timeout = LONG_MAX then Some indefinite_value
      else case max_timeout unit steady_now of
        None \<Rightarrow> None
      | Some m \<Rightarrow>
          if timeout \<ge> m then Some indefinite_value
          else case max_timeout unit system_now of
            None \<Rightarrow> None
          | Some m \<Rightarrow> if timeout \<ge> m then Some indefinite_value else Some timeout)"

subsection \<open>Lemmas\<close>

lemma quot_one [simp]: "quot n 1 = n"
  by (simp add: quot_def)



text \<open>A time point survives the conversion to a time stamp, for both clocks.\<close>

lemma timestamp_round_trip:
  "int64 tp \<Longrightarrow> map_option sys_time_point (SystemTimestamp_time_point tp) = Some tp"
  "int64 tp \<Longrightarrow> map_option std_time_point (SteadyTimestamp_time_point tp) = Some tp"
  by (simp_all add: SystemTimestamp_time_point_def SystemTimestamp_duration_def sys_time_point_def
    SteadyTimestamp_time_point_def SteadyTimestamp_duration_def std_time_point_def
    to_nanoseconds_def from_nanoseconds_def checked_def)

lemma sys_eq_iff: "sys_eq a b \<longleftrightarrow> a = b" "sys_ne a b \<longleftrightarrow> a \<noteq> b"
  by (cases a; cases b; simp add: sys_eq_def sys_ne_def)+

lemma std_eq_iff: "std_eq a b \<longleftrightarrow> a = b" "std_ne a b \<longleftrightarrow> a \<noteq> b"
  by (cases a; cases b; simp add: std_eq_def std_ne_def)+

text \<open>The bound is only an upper one: a negative timeout of any size is passed on, although the
  wait that follows converts it to nanoseconds.\<close>

lemma negative_timeout_unchecked:
  "AdjustWaitForTimeout 1000000000 0 0 LONG_MIN 0 = Some LONG_MIN"
  "to_nanoseconds 1000000000 LONG_MIN = None"
  by (simp_all add: AdjustWaitForTimeout_def max_timeout_def checked_def int64_def from_nanoseconds_def
    to_nanoseconds_def quot_def LONG_MAX_def LONG_MIN_def)

subsection \<open>Properties\<close>



end
