(* ===== verification/Tracer_Scope.thy ===== *)
theory Tracer_Scope
  imports Runtime_Context Timestamps
begin

text \<open>
  The active span of a thread: \<open>opentelemetry/trace/scope.h\<close>, the static operations and the
  timeouts of \<open>trace/tracer.h\<close>, the no-op implementations of \<open>trace/noop.h\<close> and the constant
  samplers of \<open>sdk/trace/samplers\<close>. The state is the heap of context nodes together with the stack
  of the thread. \<open>run_scoped\<close> runs a block structure of scopes; \<open>Scope_destroy\<close> is the destructor of
  the token that a scope owns.
\<close>

type_synonym active_state = "ctx_heap \<times> ctx_stack"

subsection \<open>Scope\<close>

fun Scope_new :: "active_state \<Rightarrow> span \<Rightarrow> active_state \<times> token" where
  "Scope_new (h, s) sp =
     (let (h1, c) = ctx_SetValue h (rt_GetCurrent s) kSpanKey (CV_span sp);
          (s1, t) = rt_Attach s c
      in ((h1, s1), t))"

fun Scope_destroy :: "token \<Rightarrow> active_state \<Rightarrow> active_state" where
  "Scope_destroy t (h, s) = (h, token_destroy s t)"

subsection \<open>Tracer\<close>

definition WithActiveSpan :: "active_state \<Rightarrow> span \<Rightarrow> active_state \<times> token" where
  "WithActiveSpan st sp = Scope_new st sp"

fun GetCurrentSpan :: "active_state \<Rightarrow> span" where
  "GetCurrentSpan (h, s) =
     (case rt_GetValue s h kSpanKey None of CV_span sp \<Rightarrow> sp | _ \<Rightarrow> DefaultSpan sc_GetInvalid)"

text \<open>\<open>duration_cast<microseconds>\<close> multiplies and divides by the reduced ratio of the periods; the
  count is then cast to an unsigned 64-bit number. The virtual operation behind it is an argument.\<close>

definition to_microseconds :: "int \<Rightarrow> int \<Rightarrow> int option" where
  "to_microseconds unit n =
     map_option (\<lambda>m. quot m (1000 div gcd unit 1000)) (checked (n * (unit div gcd unit 1000)))"

definition tracer_ForceFlush :: "(u64 \<Rightarrow> 't \<Rightarrow> 't) \<Rightarrow> int \<Rightarrow> int \<Rightarrow> 't \<Rightarrow> 't option" where
  "tracer_ForceFlush ForceFlushWithMicroseconds unit timeout tr =
     map_option (\<lambda>us. ForceFlushWithMicroseconds (word_of_int us) tr) (to_microseconds unit timeout)"

definition tracer_Close :: "(u64 \<Rightarrow> 't \<Rightarrow> 't) \<Rightarrow> int \<Rightarrow> int \<Rightarrow> 't \<Rightarrow> 't option" where
  "tracer_Close CloseWithMicroseconds unit timeout tr =
     map_option (\<lambda>us. CloseWithMicroseconds (word_of_int us) tr) (to_microseconds unit timeout)"

subsection \<open>No-op tracing\<close>

text \<open>A \<open>NoopSpan\<close> holds its tracer (by address) and a context; its operations do nothing.\<close>

record noop_span =
  ns_tracer :: nat
  ns_span_context :: span_context

definition NoopSpan :: "nat \<Rightarrow> noop_span" where
  "NoopSpan tracer = \<lparr>ns_tracer = tracer, ns_span_context = SpanContext_flagged False False\<rparr>"

definition NoopSpan_context :: "nat \<Rightarrow> span_context \<Rightarrow> noop_span" where
  "NoopSpan_context tracer c = \<lparr>ns_tracer = tracer, ns_span_context = c\<rparr>"

definition NoopSpan_op :: "noop_span \<Rightarrow> span_op \<Rightarrow> noop_span" where
  "NoopSpan_op sp op = sp"

definition NoopSpan_IsRecording :: "noop_span \<Rightarrow> bool" where
  "NoopSpan_IsRecording sp = False"

definition NoopSpan_GetContext :: "noop_span \<Rightarrow> span_context" where
  "NoopSpan_GetContext sp = ns_span_context sp"

text \<open>The span is a static variable of \<open>StartSpan\<close>: one object for all no-op tracers of the
  process, made by the first call and for its tracer.\<close>

definition NoopTracer_StartSpan :: "nat \<Rightarrow> noop_span option \<Rightarrow> noop_span option \<times> noop_span" where
  "NoopTracer_StartSpan this static =
     (case static of
        Some sp \<Rightarrow> (static, sp)
      | None \<Rightarrow> (Some (NoopSpan this), NoopSpan this))"

fun noop_spans :: "noop_span option \<Rightarrow> nat list \<Rightarrow> noop_span list" where
  "noop_spans static [] = []"
| "noop_spans static (tr # trs) =
     (let (static1, sp) = NoopTracer_StartSpan tr static in sp # noop_spans static1 trs)"

subsection \<open>Samplers\<close>

datatype decision = DROP | RECORD_ONLY | RECORD_AND_SAMPLE

text \<open>The attributes are null in both samplers.\<close>

record sampling_result =
  sr_decision :: decision
  sr_trace_state :: trace_state

definition sr_IsRecording :: "sampling_result \<Rightarrow> bool" where
  "sr_IsRecording r \<longleftrightarrow> sr_decision r = RECORD_ONLY \<or> sr_decision r = RECORD_AND_SAMPLE"

definition sr_IsSampled :: "sampling_result \<Rightarrow> bool" where
  "sr_IsSampled r \<longleftrightarrow> sr_decision r = RECORD_AND_SAMPLE"

definition AlwaysOn_ShouldSample :: "span_context \<Rightarrow> sampling_result" where
  "AlwaysOn_ShouldSample parent_context =
     (if \<not> sc_IsValid parent_context
      then \<lparr>sr_decision = RECORD_AND_SAMPLE, sr_trace_state = ts_GetDefault\<rparr>
      else \<lparr>sr_decision = RECORD_AND_SAMPLE, sr_trace_state = sc_trace_state parent_context\<rparr>)"

definition AlwaysOff_ShouldSample :: "span_context \<Rightarrow> sampling_result" where
  "AlwaysOff_ShouldSample parent_context =
     (if \<not> sc_IsValid parent_context
      then \<lparr>sr_decision = DROP, sr_trace_state = ts_GetDefault\<rparr>
      else \<lparr>sr_decision = DROP, sr_trace_state = sc_trace_state parent_context\<rparr>)"

subsection \<open>Blocks of scopes\<close>

text \<open>\<open>{ Scope scope(span); body }\<close>. The observed spans are what \<open>GetCurrentSpan\<close> returns after the
  scope was made and after each block of the body.\<close>

datatype scoped = InScope span "scoped list"

fun run_scoped :: "active_state \<Rightarrow> scoped \<Rightarrow> active_state \<times> span list"
  and run_scopes :: "active_state \<Rightarrow> scoped list \<Rightarrow> active_state \<times> span list" where
  "run_scoped st (InScope sp body) =
     (let (st1, t) = Scope_new st sp;
          (st2, obs) = run_scopes st1 body
      in (Scope_destroy t st2, GetCurrentSpan st1 # obs))"
| "run_scopes st [] = (st, [])"
| "run_scopes st (b # bs) =
     (let (st1, obs) = run_scoped st b;
          (st2, obs') = run_scopes st1 bs
      in (st2, obs @ GetCurrentSpan st1 # obs'))"

text \<open>What lexical scoping says: the span of the innermost open block.\<close>

fun active_spans :: "scoped \<Rightarrow> span list" and actives_spans :: "span \<Rightarrow> scoped list \<Rightarrow> span list" where
  "active_spans (InScope sp body) = sp # actives_spans sp body"
| "actives_spans sp [] = []"
| "actives_spans sp (b # bs) = active_spans b @ sp # actives_spans sp bs"

text \<open>Scopes opened one after the other, with their tokens.\<close>

fun open_scopes :: "active_state \<Rightarrow> span list \<Rightarrow> active_state \<times> token list" where
  "open_scopes st [] = (st, [])"
| "open_scopes st (sp # sps) =
     (let (st1, t) = Scope_new st sp; (st2, ts) = open_scopes st1 sps in (st2, t # ts))"

subsection \<open>Invariant\<close>

text \<open>Every attached context is an allocated list.\<close>

definition attached_ok :: "active_state \<Rightarrow> bool" where
  "attached_ok st \<longleftrightarrow> wf_stack (snd st) \<and> (\<forall>c\<in>set (stk_list (snd st)). \<exists>l. ctx_rep (fst st) c l)"

text \<open>The heap grows, nothing in it changes, and the same contexts are attached.\<close>

definition same_attached :: "active_state \<Rightarrow> active_state \<Rightarrow> bool" where
  "same_attached st st' \<longleftrightarrow> attached_ok st' \<and> (\<exists>ns. fst st' = fst st @ ns) \<and> stk_list (snd st') = stk_list (snd st)"

lemma same_attached_refl: "attached_ok st \<Longrightarrow> same_attached st st"
  by (simp add: same_attached_def)

lemma same_attached_trans: "same_attached a b \<Longrightarrow> same_attached b c \<Longrightarrow> same_attached a c"
  by (auto simp: same_attached_def)

lemma current_rep: "attached_ok (h, s) \<Longrightarrow> \<exists>l. ctx_rep h (rt_GetCurrent s) l"
  using exI [where P = "ctx_rep h Context_default", OF ctx_rep_default]
  by (auto simp: attached_ok_def rt_GetCurrent_def tls.current split: list.splits)

lemma ctx_rep_bound: "ctx_rep h (Context (Some a)) l \<Longrightarrow> a < length h"
  by (auto simp: ctx_rep_def elim: chain.elims)

text \<open>The value of a key in the current context is kept while the same contexts are attached.\<close>

lemma same_attached_value:
  assumes "attached_ok (h, s)" and "same_attached (h, s) (h', s')"
  shows "rt_GetValue s' h' key None = rt_GetValue s h key None"
proof -
  obtain l where l: "ctx_rep h (rt_GetCurrent s) l" using current_rep [OF assms(1)] by blast
  have "rt_GetCurrent s' = rt_GetCurrent s"
    using assms by (auto simp: same_attached_def attached_ok_def rt_GetCurrent_def tls.current)
  moreover have "ctx_rep h' (rt_GetCurrent s) l"
    using assms(2) ctx_rep_grow [OF l] by (auto simp: same_attached_def)
  ultimately show ?thesis using l by (simp add: rt_GetValue_def ctx_GetValue_rep)
qed

lemma same_attached_span: "attached_ok st \<Longrightarrow> same_attached st st' \<Longrightarrow> GetCurrentSpan st' = GetCurrentSpan st"
  by (cases st; cases st') (simp add: same_attached_value)

text \<open>A new scope attaches a context that was not there, in which its span is the current one.\<close>

lemma Scope_new:
  assumes "attached_ok st" and "Scope_new st sp = (st', t)"
  shows "attached_ok st'" and "stk_list (snd st') = tok_context t # stk_list (snd st)"
    and "\<exists>ns. fst st' = fst st @ ns" and "GetCurrentSpan st' = sp"
    and "tok_context t = Context (Some (length (fst st)))" and "length (fst st') = Suc (length (fst st))"
proof -
  obtain h s where st: "st = (h, s)" by (cases st)
  obtain h1 c where hc: "ctx_SetValue h (rt_GetCurrent s) kSpanKey (CV_span sp) = (h1, c)" by fastforce
  obtain s1 t1 where "rt_Attach s c = (s1, t1)" by fastforce
  with assms(2) st hc have a: "rt_Attach s c = (s1, t)" and st': "st' = (h1, s1)" by simp_all
  have w: "wf_stack s" using assms(1) st by (simp add: attached_ok_def)
  have s1: "wf_stack s1" "stk_list s1 = c # stk_list s" "t = Token c"
    using tls.attach [OF w, of c s1 t] a by (simp_all add: rt_Attach_def)
  obtain l where l: "ctx_rep h (rt_GetCurrent s) l" using current_rep assms(1) st by blast
  note r = ctx_SetValue_rep [OF l hc]
  show "stk_list (snd st') = tok_context t # stk_list (snd st)" using s1 st st' by simp
  show "attached_ok st'" using assms(1) r s1 st st' by (fastforce simp: attached_ok_def)
  show "\<exists>ns. fst st' = fst st @ ns" and "tok_context t = Context (Some (length (fst st)))"
    and "length (fst st') = Suc (length (fst st))"
    using hc s1 st st' by (auto simp: ctx_SetValue_eq)
  have "rt_GetCurrent s1 = c" using s1 by (simp add: rt_GetCurrent_def tls.current)
  with hc show "GetCurrentSpan st' = sp" by (simp add: st' rt_GetValue_def)
qed

lemma Scope_destroy:
  assumes "attached_ok st" and "stk_list (snd st) = xs @ tok_context t # ys" and "tok_context t \<notin> set xs"
  shows "attached_ok (Scope_destroy t st)" and "stk_list (snd (Scope_destroy t st)) = ys"
    and "fst (Scope_destroy t st) = fst st"
proof -
  obtain s' where "tls_Detach (snd st) t = (True, s')" "wf_stack s'" "stk_list s' = ys"
    using tls.detach_found [OF _ assms(2,3)] assms(1) by (auto simp: attached_ok_def)
  then show "attached_ok (Scope_destroy t st)" and "stk_list (snd (Scope_destroy t st)) = ys"
    and "fst (Scope_destroy t st) = fst st"
    using assms(1,2) by (cases st; auto simp: token_destroy_def attached_ok_def)+
qed

text \<open>A token whose context is not attached any more has nothing to do.\<close>

lemma Scope_destroy_gone:
  assumes "attached_ok st" and "tok_context t \<notin> set (stk_list (snd st))"
  shows "Scope_destroy t st = st"
  using assms tls.detach_missing [of "snd st" t] by (cases st) (simp add: token_destroy_def attached_ok_def)

lemma run_scoped_ok:
  "attached_ok st \<Longrightarrow> run_scoped st b = (st', obs) \<Longrightarrow> same_attached st st' \<and> obs = active_spans b"
  "attached_ok st \<Longrightarrow> run_scopes st bs = (st', obs) \<Longrightarrow>
     same_attached st st' \<and> obs = actives_spans (GetCurrentSpan st) bs"
proof (induction st b and st bs arbitrary: st' obs and st' obs rule: run_scoped_run_scopes.induct)
  case (1 st sp body)
  obtain st1 t where n: "Scope_new st sp = (st1, t)" by fastforce
  obtain st2 obs2 where r: "run_scopes st1 body = (st2, obs2)" by fastforce
  note new = Scope_new [OF 1(2) n]
  from "1.IH" [OF n [symmetric] refl new(1) r] new(4)
  have b: "same_attached st1 st2" "obs2 = actives_spans sp body" by simp_all
  have e: "st' = Scope_destroy t st2" "obs = GetCurrentSpan st1 # obs2" using 1(3) n r by simp_all
  have "attached_ok st2" "stk_list (snd st2) = [] @ tok_context t # stk_list (snd st)"
    using b(1) new(2) by (simp_all add: same_attached_def)
  note d = Scope_destroy [OF this]
  have "same_attached st st'" using d new(3) b(1) by (auto simp: same_attached_def e(1))
  with b(2) new(4) e(2) show ?case by simp
next
  case (2 st)
  then show ?case by (simp add: same_attached_refl)
next
  case (3 st b bs)
  obtain st1 obs1 where r: "run_scoped st b = (st1, obs1)" by fastforce
  obtain st2 obs2 where rs: "run_scopes st1 bs = (st2, obs2)" by fastforce
  have i1: "same_attached st st1" "obs1 = active_spans b" using "3.IH"(1) [OF 3(3) r] by simp_all
  then have ok: "attached_ok st1" by (simp add: same_attached_def)
  from "3.IH"(2) [OF r [symmetric] refl ok rs]
  have i2: "same_attached st1 st2" "obs2 = actives_spans (GetCurrentSpan st1) bs" by simp_all
  have "GetCurrentSpan st1 = GetCurrentSpan st" by (rule same_attached_span [OF 3(3) i1(1)])
  with 3(4) r rs i1 i2 show ?case using same_attached_trans [OF i1(1) i2(1)] by auto
qed

lemma open_scopes_ok:
  "attached_ok st \<Longrightarrow> open_scopes st sps = (st', ts) \<Longrightarrow>
   attached_ok st' \<and> (\<exists>ns. fst st' = fst st @ ns) \<and>
   stk_list (snd st') = rev (map tok_context ts) @ stk_list (snd st) \<and>
   map tok_context ts = map (\<lambda>a. Context (Some a)) [length (fst st)..<length (fst st) + length sps]"
proof (induction sps arbitrary: st st' ts)
  case (Cons sp sps)
  obtain st1 t where n: "Scope_new st sp = (st1, t)" by fastforce
  obtain st2 us where o: "open_scopes st1 sps = (st2, us)" by fastforce
  note new = Scope_new [OF Cons.prems(1) n]
  from Cons.IH [OF new(1) o] new(2,3,5,6) Cons.prems(2) n o show ?case
    by (auto simp: upt_conv_Cons simp del: upt_Suc)
qed (simp add: same_attached_refl)

text \<open>The attached contexts while some of the tokens have been destroyed: the older part of the
  scopes, still in order, or the contexts from before.\<close>

lemma destroy_scopes:
  assumes "attached_ok st" and "distinct (rev cs @ base)"
    and "stk_list (snd st) = rev cs @ base" and "set (map tok_context ts) \<inter> set base = {}"
  shows "\<exists>n. attached_ok (fold Scope_destroy ts st) \<and> fst (fold Scope_destroy ts st) = fst st \<and>
    stk_list (snd (fold Scope_destroy ts st)) = rev (take n cs) @ base \<and>
    (\<forall>t\<in>set ts. tok_context t \<notin> set (take n cs))"
  using assms
proof (induction ts arbitrary: st cs)
  case Nil
  then show ?case by (auto intro!: exI [of _ "length cs"])
next
  case (Cons t ts)
  show ?case
  proof (cases "tok_context t \<in> set cs")
    case True
    then obtain us vs where cs: "cs = us @ tok_context t # vs" by (auto dest: split_list)
    have nt: "tok_context t \<notin> set (rev vs)" "tok_context t \<notin> set us" using Cons.prems(2) cs by auto
    have "stk_list (snd st) = rev vs @ tok_context t # rev us @ base" using Cons.prems(3) cs by simp
    note d = Scope_destroy [OF Cons.prems(1) this nt(1)]
    have "distinct (rev us @ base)" "set (map tok_context ts) \<inter> set base = {}"
      using Cons.prems(2,4) cs by auto
    from Cons.IH [OF d(1) this(1) d(2) this(2)] d(3) obtain n where
      n: "attached_ok (fold Scope_destroy ts (Scope_destroy t st))"
        "fst (fold Scope_destroy ts (Scope_destroy t st)) = fst st"
        "stk_list (snd (fold Scope_destroy ts (Scope_destroy t st))) = rev (take n us) @ base"
        "\<forall>t\<in>set ts. tok_context t \<notin> set (take n us)" by auto
    moreover have "tok_context t \<notin> set (take n us)" using nt(2) in_set_takeD by fastforce
    moreover have "take (min n (length us)) cs = take n us" using cs by (simp add: min_def)
    ultimately show ?thesis by (intro exI [of _ "min n (length us)"]) simp
  next
    case False
    then have gone: "Scope_destroy t st = st"
      using Cons.prems by (intro Scope_destroy_gone) auto
    from Cons.IH [OF Cons.prems(1-3)] Cons.prems(4) gone False show ?thesis
      by (auto dest: in_set_takeD)
  qed
qed

subsection \<open>Properties\<close>

text \<open>C33: Scopes nest. In any block structure of scopes the current span is that of the innermost open
  scope, again after each inner block has ended; when the block is left, the same contexts are
  attached as before and the current span, like every other value of the context, is what it was.\<close>

theorem scopes_nest:
  assumes "attached_ok (h, s)" and "run_scoped (h, s) b = ((h', s'), obs)"
  shows "attached_ok (h', s') \<and> obs = active_spans b \<and> stk_list s' = stk_list s \<and>
    GetCurrentSpan (h', s') = GetCurrentSpan (h, s) \<and>
    (\<forall>key. rt_GetValue s' h' key None = rt_GetValue s h key None)"
  using run_scoped_ok(1) [OF assms] same_attached_value [OF assms(1)] same_attached_span [OF assms(1)]
  by (auto simp: same_attached_def)

definition demo_span :: "nat \<Rightarrow> span" where
  "demo_span i = ForeignSpan i sc_GetInvalid"

theorem scopes_nest_witness:
  "snd (run_scoped ([], Stack_new)
     (InScope (demo_span 1) [InScope (demo_span 2) [], InScope (demo_span 3) [InScope (demo_span 4) []]])) =
   map demo_span [1, 2, 1, 3, 4, 3, 1]"
proof -
  let ?b = "InScope (demo_span 1) [InScope (demo_span 2) [], InScope (demo_span 3) [InScope (demo_span 4) []]]"
  obtain h s obs where r: "run_scoped ([], Stack_new) ?b = ((h, s), obs)" by (metis prod.exhaust)
  have "attached_ok ([], Stack_new)" by (simp add: attached_ok_def)
  from scopes_nest [OF this r] have "obs = active_spans ?b" by blast
  then show ?thesis unfolding r by simp
qed

text \<open>C34: Scopes opened one after the other may be destroyed in any order. As long as the outermost is
  still open, the attached contexts are an initial part of them above what was there before, without
  any that was destroyed; once the outermost was destroyed, exactly the contexts from before are
  attached and the current span is the one from before.\<close>

theorem scopes_in_any_order:
  assumes "attached_ok (h, s)" and "distinct (stk_list s)"
    and "open_scopes (h, s) sps = (st1, ts)" and "set us \<subseteq> set ts"
    and "fold Scope_destroy us st1 = (h', s')"
  shows "\<exists>n. stk_list s' = rev (take n (map tok_context ts)) @ stk_list s \<and>
    (\<forall>t\<in>set us. tok_context t \<notin> set (take n (map tok_context ts))) \<and>
    (ts \<noteq> [] \<and> hd ts \<in> set us \<longrightarrow> stk_list s' = stk_list s \<and> GetCurrentSpan (h', s') = GetCurrentSpan (h, s))"
proof -
  note o = open_scopes_ok [OF assms(1,3)]
  let ?cs = "map tok_context ts"
  have old: "Context (Some a) \<notin> set (stk_list s)" if "length h \<le> a" for a
    using assms(1) ctx_rep_bound that by (fastforce simp: attached_ok_def)
  then have fresh: "set ?cs \<inter> set (stk_list s) = {}" using o by auto
  have "distinct ?cs" using o by (simp add: distinct_map inj_on_def)
  with fresh assms(2) have "distinct (rev ?cs @ stk_list s)" by auto
  moreover have "set (map tok_context us) \<inter> set (stk_list s) = {}" using fresh assms(4) by auto
  ultimately obtain n where n: "attached_ok (h', s')" "h' = fst st1"
    "stk_list s' = rev (take n ?cs) @ stk_list s" "\<forall>t\<in>set us. tok_context t \<notin> set (take n ?cs)"
    using destroy_scopes [of st1 ?cs "stk_list s" us] o assms(5) by auto
  have "stk_list s' = stk_list s" if "ts \<noteq> []" "hd ts \<in> set us"
    using n(3,4) that by (cases n; cases ts) auto
  moreover have "same_attached (h, s) (h', s')" if "stk_list s' = stk_list s"
    using n(1,2) o that by (auto simp: same_attached_def)
  ultimately show ?thesis using n(3,4) same_attached_span [OF assms(1)] by blast
qed

theorem scopes_in_any_order_witness:
  "stk_list (snd (fold Scope_destroy [Token (Context (Some 1)), Token (Context (Some 0)), Token (Context (Some 2))]
     (fst (open_scopes ([], Stack_new) (map demo_span [1, 2, 3]))))) = []"
proof -
  obtain st1 ts where o: "open_scopes ([], Stack_new) (map demo_span [1, 2, 3]) = (st1, ts)" by fastforce
  let ?us = "[Token (Context (Some 1)), Token (Context (Some 0)), Token (Context (Some 2))]"
  have ts: "ts = map (\<lambda>a. Token (Context (Some a))) [0, 1, 2]"
    using o by (auto simp: ctx_SetValue_eq rt_Attach_def tls_Attach_def numeral_eq_Suc)
  obtain h' s' where f: "fold Scope_destroy ?us st1 = (h', s')" by fastforce
  have "attached_ok ([], Stack_new)" by (simp add: attached_ok_def)
  from scopes_in_any_order [OF this _ o _ f] ts have "stk_list s' = []" by auto
  then show ?thesis unfolding o fst_conv f by simp
qed

text \<open>Every span of the no-op tracers is one object: it records nothing and has no valid context.\<close>

lemma noop_spans_shared:
  assumes "sp \<in> set (noop_spans None (tr # trs))"
  shows "sp = NoopSpan tr \<and> \<not> NoopSpan_IsRecording sp \<and> \<not> sc_IsValid (NoopSpan_GetContext sp)"
proof -
  have "set (noop_spans (Some x) ys) \<subseteq> {x}" for x ys
    by (induction ys) (auto simp: NoopTracer_StartSpan_def)
  with assms have "sp = NoopSpan tr" by (auto simp: NoopTracer_StartSpan_def)
  then show ?thesis
    using GetInvalid_not_valid by (simp add: NoopSpan_def NoopSpan_IsRecording_def NoopSpan_GetContext_def sc_GetInvalid_def)
qed

text \<open>The constant samplers differ in the decision only, and pass the trace state of a valid parent on.\<close>

lemma constant_samplers:
  "sr_IsSampled (AlwaysOn_ShouldSample p)" "sr_IsRecording (AlwaysOn_ShouldSample p)"
  "\<not> sr_IsSampled (AlwaysOff_ShouldSample p)" "\<not> sr_IsRecording (AlwaysOff_ShouldSample p)"
  "sr_trace_state (AlwaysOn_ShouldSample p) = sr_trace_state (AlwaysOff_ShouldSample p)"
  "sc_IsValid p \<Longrightarrow> sr_trace_state (AlwaysOn_ShouldSample p) = sc_trace_state p"
  by (simp_all add: AlwaysOn_ShouldSample_def AlwaysOff_ShouldSample_def sr_IsSampled_def sr_IsRecording_def)

text \<open>A negative timeout reaches the tracer as an enormous one.\<close>

lemma negative_flush_timeout:
  "tracer_ForceFlush (\<lambda>us log. us # log) 1000000 (- 1) [] = Some [18446744073709550616]"
  by (simp add: tracer_ForceFlush_def to_microseconds_def checked_def int64_def quot_def LONG_MAX_def LONG_MIN_def
    gcd_non_0_int)

end
