(* ===== verification/Log_Api.thy ===== *)
theory Log_Api
  imports Otel_Api Timestamps "HOL-Library.Multiset"
begin

text \<open>
  The logs API: \<open>opentelemetry/logs\<close> (\<open>severity.h\<close>, \<open>event_id.h\<close>, \<open>logger_type_traits.h\<close>, \<open>logger.h\<close>,
  \<open>event_logger.h\<close>, \<open>noop.h\<close>). The receivers of the interfaces (\<open>LogRecord\<close>, the virtual operations of
  \<open>Logger\<close> and \<open>EventLogger\<close>) belong to the SDK, whose code is not part of the repository: a record is
  the sequence of the calls made on it, \<open>CreateLogRecord\<close> is an argument and the emitted records are
  collected in order. Arguments of the variadic templates are a list of values tagged by their
  types. \<open>None\<close> as a result is undefined behaviour.
\<close>

subsection \<open>Severity\<close>

datatype severity =
    Severity_kInvalid | Severity_kTrace | Severity_kTrace2 | Severity_kTrace3 | Severity_kTrace4 |
    Severity_kDebug | Severity_kDebug2 | Severity_kDebug3 | Severity_kDebug4 | Severity_kInfo |
    Severity_kInfo2 | Severity_kInfo3 | Severity_kInfo4 | Severity_kWarn | Severity_kWarn2 |
    Severity_kWarn3 | Severity_kWarn4 | Severity_kError | Severity_kError2 | Severity_kError3 |
    Severity_kError4 | Severity_kFatal | Severity_kFatal2 | Severity_kFatal3 | Severity_kFatal4

primrec severity_num :: "severity \<Rightarrow> u8" where
  "severity_num Severity_kInvalid = 0"
| "severity_num Severity_kTrace = 1"
| "severity_num Severity_kTrace2 = 2"
| "severity_num Severity_kTrace3 = 3"
| "severity_num Severity_kTrace4 = 4"
| "severity_num Severity_kDebug = 5"
| "severity_num Severity_kDebug2 = 6"
| "severity_num Severity_kDebug3 = 7"
| "severity_num Severity_kDebug4 = 8"
| "severity_num Severity_kInfo = 9"
| "severity_num Severity_kInfo2 = 10"
| "severity_num Severity_kInfo3 = 11"
| "severity_num Severity_kInfo4 = 12"
| "severity_num Severity_kWarn = 13"
| "severity_num Severity_kWarn2 = 14"
| "severity_num Severity_kWarn3 = 15"
| "severity_num Severity_kWarn4 = 16"
| "severity_num Severity_kError = 17"
| "severity_num Severity_kError2 = 18"
| "severity_num Severity_kError3 = 19"
| "severity_num Severity_kError4 = 20"
| "severity_num Severity_kFatal = 21"
| "severity_num Severity_kFatal2 = 22"
| "severity_num Severity_kFatal3 = 23"
| "severity_num Severity_kFatal4 = 24"

definition SeverityNumToText :: "string list" where
  "SeverityNumToText =
     [''INVALID'', ''TRACE'', ''TRACE2'', ''TRACE3'', ''TRACE4'', ''DEBUG'', ''DEBUG2'',
      ''DEBUG3'', ''DEBUG4'', ''INFO'', ''INFO2'', ''INFO3'', ''INFO4'', ''WARN'', ''WARN2'',
      ''WARN3'', ''WARN4'', ''ERROR'', ''ERROR2'', ''ERROR3'', ''ERROR4'', ''FATAL'',
      ''FATAL2'', ''FATAL3'', ''FATAL4'']"

definition kMaxSeverity :: u8 where
  "kMaxSeverity = 255"

subsection \<open>EventId\<close>

text \<open>The name is an owned C string, or null.\<close>

record event_id =
  ei_id :: "64 word"
  ei_name :: "string option"

definition EventId_named :: "64 word \<Rightarrow> string \<Rightarrow> event_id" where
  "EventId_named i name = \<lparr>ei_id = i, ei_name = Some name\<rparr>"

definition EventId :: "64 word \<Rightarrow> event_id" where
  "EventId i = \<lparr>ei_id = i, ei_name = None\<rparr>"

subsection \<open>Log records\<close>

datatype log_call =
    SetSeverity severity
  | SetEventId "64 word" string
  | SetSpanId span_id
  | SetTraceId trace_id
  | SetTraceFlags trace_flags
  | SetTimestamp system_timestamp
  | SetLogAttribute string attribute_value
  | SetBody attribute_value

type_synonym log_record = "log_call list"

datatype log_arg =
    ArgSeverity severity
  | ArgEventId event_id
  | ArgSpanContext span_context
  | ArgSpanId span_id
  | ArgTraceId trace_id
  | ArgTraceFlags trace_flags
  | ArgSystemTimestamp system_timestamp
  | ArgTimePoint int
  | ArgKeyValueIterable "(string \<times> attribute_value) list"
  | ArgKeyValueContainer "(string \<times> attribute_value) list"
  | ArgBody attribute_value

text \<open>\<open>string_view{arg.name_.get()}\<close> takes \<open>strlen\<close> of the pointer: undefined for null, and up to the
  first null character of the name otherwise.\<close>

definition view_of_c_string :: "string option \<Rightarrow> string option" where
  "view_of_c_string p = map_option c_str p"

text \<open>One \<open>LogRecordSetterTrait<T>::Set\<close> per type.\<close>

fun LogRecordSetterTrait_Set :: "log_arg \<Rightarrow> log_record \<Rightarrow> log_record option" where
  "LogRecordSetterTrait_Set (ArgSeverity s) r = Some (r @ [SetSeverity s])"
| "LogRecordSetterTrait_Set (ArgEventId e) r =
     (case view_of_c_string (ei_name e) of
        None \<Rightarrow> None
      | Some name \<Rightarrow> Some (r @ [SetEventId (ei_id e) name]))"
| "LogRecordSetterTrait_Set (ArgSpanContext c) r =
     Some (r @ [SetSpanId (sc_span_id c), SetTraceId (sc_trace_id c), SetTraceFlags (sc_trace_flags c)])"
| "LogRecordSetterTrait_Set (ArgSpanId i) r = Some (r @ [SetSpanId i])"
| "LogRecordSetterTrait_Set (ArgTraceId i) r = Some (r @ [SetTraceId i])"
| "LogRecordSetterTrait_Set (ArgTraceFlags f) r = Some (r @ [SetTraceFlags f])"
| "LogRecordSetterTrait_Set (ArgSystemTimestamp t) r = Some (r @ [SetTimestamp t])"
| "LogRecordSetterTrait_Set (ArgTimePoint tp) r =
     map_option (\<lambda>t. r @ [SetTimestamp t]) (SystemTimestamp_time_point tp)"
| "LogRecordSetterTrait_Set (ArgKeyValueIterable kvs) r = Some (r @ map (\<lambda>(k, v). SetLogAttribute k v) kvs)"
| "LogRecordSetterTrait_Set (ArgKeyValueContainer kvs) r = Some (r @ map (\<lambda>(k, v). SetLogAttribute k v) kvs)"
| "LogRecordSetterTrait_Set (ArgBody b) r = Some (r @ [SetBody b])"

fun LogRecordHasType_Severity :: "log_arg list \<Rightarrow> bool" where
  "LogRecordHasType_Severity [] = False"
| "LogRecordHasType_Severity (a # args) =
     (case a of ArgSeverity s \<Rightarrow> True | _ \<Rightarrow> LogRecordHasType_Severity args)"

text \<open>The pack expansion, from left to right.\<close>

fun set_args :: "log_record \<Rightarrow> log_arg list \<Rightarrow> log_record option" where
  "set_args r [] = Some r"
| "set_args r (a # args) = Option.bind (LogRecordSetterTrait_Set a r) (\<lambda>r. set_args r args)"

subsection \<open>Logger\<close>

record logger =
  lg_minimum_severity :: u8
  lg_emitted :: "log_record list"

definition Logger_default :: logger where
  "Logger_default = \<lparr>lg_minimum_severity = kMaxSeverity, lg_emitted = []\<rparr>"

text \<open>The virtual operation: the logger receives the record.\<close>

definition EmitLogRecord :: "logger \<Rightarrow> log_record \<Rightarrow> logger" where
  "EmitLogRecord l r = l\<lparr>lg_emitted := lg_emitted l @ [r]\<rparr>"

definition EmitLogRecord_args :: "logger \<Rightarrow> log_record option \<Rightarrow> log_arg list \<Rightarrow> logger option" where
  "EmitLogRecord_args l log_record args =
     (case log_record of
        None \<Rightarrow> Some l
      | Some r \<Rightarrow>
          (case set_args r args of None \<Rightarrow> None | Some r \<Rightarrow> Some (EmitLogRecord l r)))"

type_synonym create = "logger \<Rightarrow> log_record option"

definition EmitLogRecord_new :: "create \<Rightarrow> logger \<Rightarrow> log_arg list \<Rightarrow> logger option" where
  "EmitLogRecord_new CreateLogRecord l args = EmitLogRecord_args l (CreateLogRecord l) args"

text \<open>The six variadic templates; the \<open>static_assert\<close> refuses a severity among the arguments.\<close>

definition log_Trace :: "create \<Rightarrow> logger \<Rightarrow> log_arg list \<Rightarrow> logger option" where
  "log_Trace CreateLogRecord l args = EmitLogRecord_new CreateLogRecord l (ArgSeverity Severity_kTrace # args)"

definition log_Debug :: "create \<Rightarrow> logger \<Rightarrow> log_arg list \<Rightarrow> logger option" where
  "log_Debug CreateLogRecord l args = EmitLogRecord_new CreateLogRecord l (ArgSeverity Severity_kDebug # args)"

definition log_Info :: "create \<Rightarrow> logger \<Rightarrow> log_arg list \<Rightarrow> logger option" where
  "log_Info CreateLogRecord l args = EmitLogRecord_new CreateLogRecord l (ArgSeverity Severity_kInfo # args)"

definition log_Warn :: "create \<Rightarrow> logger \<Rightarrow> log_arg list \<Rightarrow> logger option" where
  "log_Warn CreateLogRecord l args = EmitLogRecord_new CreateLogRecord l (ArgSeverity Severity_kWarn # args)"

definition log_Error :: "create \<Rightarrow> logger \<Rightarrow> log_arg list \<Rightarrow> logger option" where
  "log_Error CreateLogRecord l args = EmitLogRecord_new CreateLogRecord l (ArgSeverity Severity_kError # args)"

definition log_Fatal :: "create \<Rightarrow> logger \<Rightarrow> log_arg list \<Rightarrow> logger option" where
  "log_Fatal CreateLogRecord l args = EmitLogRecord_new CreateLogRecord l (ArgSeverity Severity_kFatal # args)"

definition Enabled :: "logger \<Rightarrow> severity \<Rightarrow> bool" where
  "Enabled l s \<longleftrightarrow> severity_num s \<ge> lg_minimum_severity l"

definition EnabledImplementation_event :: "severity \<Rightarrow> event_id \<Rightarrow> bool" where
  "EnabledImplementation_event s e = False"

definition EnabledImplementation_id :: "severity \<Rightarrow> 64 word \<Rightarrow> bool" where
  "EnabledImplementation_id s i = False"

text \<open>\<open>EnabledImplementation\<close> is virtual: an argument.\<close>

definition Enabled_event :: "(severity \<Rightarrow> event_id \<Rightarrow> bool) \<Rightarrow> logger \<Rightarrow> severity \<Rightarrow> event_id \<Rightarrow> bool" where
  "Enabled_event impl l s e = (if \<not> Enabled l s then False else impl s e)"

definition Enabled_id :: "(severity \<Rightarrow> 64 word \<Rightarrow> bool) \<Rightarrow> logger \<Rightarrow> severity \<Rightarrow> 64 word \<Rightarrow> bool" where
  "Enabled_id impl l s i = (if \<not> Enabled l s then False else impl s i)"

definition SetMinimumSeverity :: "logger \<Rightarrow> u8 \<Rightarrow> logger" where
  "SetMinimumSeverity l severity_or_max = l\<lparr>lg_minimum_severity := severity_or_max\<rparr>"

text \<open>The overloads of \<open>Log\<close>.\<close>

definition Log_event ::
  "create \<Rightarrow> logger \<Rightarrow> severity \<Rightarrow> event_id \<Rightarrow> string \<Rightarrow> (string \<times> attribute_value) list \<Rightarrow> logger option" where
  "Log_event CreateLogRecord l s e format attributes =
     EmitLogRecord_new CreateLogRecord l
       [ArgSeverity s, ArgEventId e, ArgBody (AV_string format), ArgKeyValueIterable attributes]"

definition Log_id ::
  "create \<Rightarrow> logger \<Rightarrow> severity \<Rightarrow> 64 word \<Rightarrow> string \<Rightarrow> (string \<times> attribute_value) list \<Rightarrow> logger option" where
  "Log_id CreateLogRecord l s i format attributes =
     EmitLogRecord_new CreateLogRecord l
       [ArgSeverity s, ArgEventId (EventId i), ArgBody (AV_string format), ArgKeyValueIterable attributes]"

definition Log_format ::
  "create \<Rightarrow> logger \<Rightarrow> severity \<Rightarrow> string \<Rightarrow> (string \<times> attribute_value) list \<Rightarrow> logger option" where
  "Log_format CreateLogRecord l s format attributes =
     EmitLogRecord_new CreateLogRecord l [ArgSeverity s, ArgBody (AV_string format), ArgKeyValueIterable attributes]"

definition Log_message :: "create \<Rightarrow> logger \<Rightarrow> severity \<Rightarrow> string \<Rightarrow> logger option" where
  "Log_message CreateLogRecord l s message =
     EmitLogRecord_new CreateLogRecord l [ArgSeverity s, ArgBody (AV_string message)]"

text \<open>The four wrappers of a severity, by their parameters.\<close>

datatype log_params =
    LogEvent event_id string "(string \<times> attribute_value) list"
  | LogId "64 word" string "(string \<times> attribute_value) list"
  | LogFormat string "(string \<times> attribute_value) list"
  | LogMessage string

fun wrap_Trace :: "create \<Rightarrow> logger \<Rightarrow> log_params \<Rightarrow> logger option" where
  "wrap_Trace create l (LogEvent e format attributes) = Log_event create l Severity_kTrace e format attributes"
| "wrap_Trace create l (LogId i format attributes) = Log_event create l Severity_kTrace (EventId i) format attributes"
| "wrap_Trace create l (LogFormat format attributes) = Log_format create l Severity_kTrace format attributes"
| "wrap_Trace create l (LogMessage message) = Log_message create l Severity_kTrace message"

fun wrap_Debug :: "create \<Rightarrow> logger \<Rightarrow> log_params \<Rightarrow> logger option" where
  "wrap_Debug create l (LogEvent e format attributes) = Log_event create l Severity_kDebug e format attributes"
| "wrap_Debug create l (LogId i format attributes) = Log_event create l Severity_kDebug (EventId i) format attributes"
| "wrap_Debug create l (LogFormat format attributes) = Log_format create l Severity_kDebug format attributes"
| "wrap_Debug create l (LogMessage message) = Log_message create l Severity_kDebug message"

fun wrap_Info :: "create \<Rightarrow> logger \<Rightarrow> log_params \<Rightarrow> logger option" where
  "wrap_Info create l (LogEvent e format attributes) = Log_event create l Severity_kInfo e format attributes"
| "wrap_Info create l (LogId i format attributes) = Log_event create l Severity_kInfo (EventId i) format attributes"
| "wrap_Info create l (LogFormat format attributes) = Log_format create l Severity_kInfo format attributes"
| "wrap_Info create l (LogMessage message) = Log_message create l Severity_kInfo message"

fun wrap_Warn :: "create \<Rightarrow> logger \<Rightarrow> log_params \<Rightarrow> logger option" where
  "wrap_Warn create l (LogEvent e format attributes) = Log_event create l Severity_kWarn e format attributes"
| "wrap_Warn create l (LogId i format attributes) = Log_event create l Severity_kWarn (EventId i) format attributes"
| "wrap_Warn create l (LogFormat format attributes) = Log_format create l Severity_kWarn format attributes"
| "wrap_Warn create l (LogMessage message) = Log_message create l Severity_kWarn message"

fun wrap_Error :: "create \<Rightarrow> logger \<Rightarrow> log_params \<Rightarrow> logger option" where
  "wrap_Error create l (LogEvent e format attributes) = Log_event create l Severity_kError e format attributes"
| "wrap_Error create l (LogId i format attributes) = Log_event create l Severity_kError (EventId i) format attributes"
| "wrap_Error create l (LogFormat format attributes) = Log_format create l Severity_kError format attributes"
| "wrap_Error create l (LogMessage message) = Log_message create l Severity_kError message"

fun wrap_Fatal :: "create \<Rightarrow> logger \<Rightarrow> log_params \<Rightarrow> logger option" where
  "wrap_Fatal create l (LogEvent e format attributes) = Log_event create l Severity_kFatal e format attributes"
| "wrap_Fatal create l (LogId i format attributes) = Log_event create l Severity_kFatal (EventId i) format attributes"
| "wrap_Fatal create l (LogFormat format attributes) = Log_format create l Severity_kFatal format attributes"
| "wrap_Fatal create l (LogMessage message) = Log_message create l Severity_kFatal message"

subsection \<open>EventLogger\<close>

text \<open>The events are what the virtual \<open>EmitEvent\<close> received, a null record included. The setters are
  the arguments of a function call, so C++ leaves open in which order they run: \<open>order\<close> is the list
  of the arguments in the order chosen.\<close>

record event_logger =
  el_delegate :: "logger option"
  el_events :: "(string \<times> log_record option) list"

definition EmitEvent :: "create \<Rightarrow> event_logger \<Rightarrow> string \<Rightarrow> log_arg list \<Rightarrow> event_logger option" where
  "EmitEvent CreateLogRecord el event_name order =
     (case el_delegate el of
        None \<Rightarrow> Some el
      | Some delegate_logger \<Rightarrow>
          (case CreateLogRecord delegate_logger of
             None \<Rightarrow>
               if order = [] then Some (el\<lparr>el_events := el_events el @ [(event_name, None)]\<rparr>) else None
           | Some r \<Rightarrow>
               (case set_args r order of
                  None \<Rightarrow> None
                | Some r \<Rightarrow> Some (el\<lparr>el_events := el_events el @ [(event_name, Some r)]\<rparr>))))"

subsection \<open>No-op logger\<close>

text \<open>The record of \<open>NoopLogger\<close> has no state: its setters do nothing, and neither does emitting it.\<close>

definition NoopLogger_CreateLogRecord :: create where
  "NoopLogger_CreateLogRecord l = Some []"

definition NoopLogger_EmitLogRecord :: "logger \<Rightarrow> log_record \<Rightarrow> logger" where
  "NoopLogger_EmitLogRecord l r = l"

subsection \<open>The fields of a record\<close>

text \<open>What the setters of \<open>log_record.h\<close> promise: each sets its field.\<close>

record log_fields =
  lf_severity :: "severity option"
  lf_event :: "(64 word \<times> string) option"
  lf_span_id :: "span_id option"
  lf_trace_id :: "trace_id option"
  lf_trace_flags :: "trace_flags option"
  lf_timestamp :: "system_timestamp option"
  lf_body :: "attribute_value option"
  lf_attributes :: "string \<rightharpoonup> attribute_value"

fun apply_log_call :: "log_call \<Rightarrow> log_fields \<Rightarrow> log_fields" where
  "apply_log_call (SetSeverity s) f = f\<lparr>lf_severity := Some s\<rparr>"
| "apply_log_call (SetEventId i n) f = f\<lparr>lf_event := Some (i, n)\<rparr>"
| "apply_log_call (SetSpanId i) f = f\<lparr>lf_span_id := Some i\<rparr>"
| "apply_log_call (SetTraceId i) f = f\<lparr>lf_trace_id := Some i\<rparr>"
| "apply_log_call (SetTraceFlags x) f = f\<lparr>lf_trace_flags := Some x\<rparr>"
| "apply_log_call (SetTimestamp t) f = f\<lparr>lf_timestamp := Some t\<rparr>"
| "apply_log_call (SetLogAttribute k v) f = f\<lparr>lf_attributes := (lf_attributes f)(k \<mapsto> v)\<rparr>"
| "apply_log_call (SetBody b) f = f\<lparr>lf_body := Some b\<rparr>"

definition fields_of :: "log_record \<Rightarrow> log_fields \<Rightarrow> log_fields" where
  "fields_of r f = fold apply_log_call r f"

definition no_fields :: log_fields where
  "no_fields = \<lparr>lf_severity = None, lf_event = None, lf_span_id = None, lf_trace_id = None,
     lf_trace_flags = None, lf_timestamp = None, lf_body = None, lf_attributes = Map.empty\<rparr>"

text \<open>What an argument says about each field.\<close>

fun arg_severity :: "log_arg \<Rightarrow> severity option" where
  "arg_severity (ArgSeverity s) = Some s"
| "arg_severity _ = None"

fun arg_event :: "log_arg \<Rightarrow> (64 word \<times> string) option" where
  "arg_event (ArgEventId e) = map_option (\<lambda>n. (ei_id e, c_str n)) (ei_name e)"
| "arg_event _ = None"

fun arg_span_id :: "log_arg \<Rightarrow> span_id option" where
  "arg_span_id (ArgSpanId i) = Some i"
| "arg_span_id (ArgSpanContext c) = Some (sc_span_id c)"
| "arg_span_id _ = None"

fun arg_trace_id :: "log_arg \<Rightarrow> trace_id option" where
  "arg_trace_id (ArgTraceId i) = Some i"
| "arg_trace_id (ArgSpanContext c) = Some (sc_trace_id c)"
| "arg_trace_id _ = None"

fun arg_trace_flags :: "log_arg \<Rightarrow> trace_flags option" where
  "arg_trace_flags (ArgTraceFlags f) = Some f"
| "arg_trace_flags (ArgSpanContext c) = Some (sc_trace_flags c)"
| "arg_trace_flags _ = None"

fun arg_timestamp :: "log_arg \<Rightarrow> system_timestamp option" where
  "arg_timestamp (ArgSystemTimestamp t) = Some t"
| "arg_timestamp (ArgTimePoint tp) = Some \<lparr>sys_nanos_since_epoch = tp\<rparr>"
| "arg_timestamp _ = None"

fun arg_body :: "log_arg \<Rightarrow> attribute_value option" where
  "arg_body (ArgBody b) = Some b"
| "arg_body _ = None"

fun arg_attributes :: "log_arg \<Rightarrow> (string \<times> attribute_value) list" where
  "arg_attributes (ArgKeyValueIterable kvs) = kvs"
| "arg_attributes (ArgKeyValueContainer kvs) = kvs"
| "arg_attributes _ = []"

text \<open>The last argument that sets the field decides it.\<close>

definition last_arg :: "(log_arg \<Rightarrow> 'a option) \<Rightarrow> log_arg list \<Rightarrow> 'a option \<Rightarrow> 'a option" where
  "last_arg g args d = (case List.map_filter g args of [] \<Rightarrow> d | vs \<Rightarrow> Some (last vs))"

definition fields_by_args :: "log_arg list \<Rightarrow> log_fields \<Rightarrow> log_fields" where
  "fields_by_args args f =
     \<lparr>lf_severity = last_arg arg_severity args (lf_severity f),
      lf_event = last_arg arg_event args (lf_event f),
      lf_span_id = last_arg arg_span_id args (lf_span_id f),
      lf_trace_id = last_arg arg_trace_id args (lf_trace_id f),
      lf_trace_flags = last_arg arg_trace_flags args (lf_trace_flags f),
      lf_timestamp = last_arg arg_timestamp args (lf_timestamp f),
      lf_body = last_arg arg_body args (lf_body f),
      lf_attributes = lf_attributes f ++ map_of (rev (concat (map arg_attributes args)))\<rparr>"

text \<open>The arguments the setters accept: an event id has a name, a time point is one of the clock.\<close>

fun arg_ok :: "log_arg \<Rightarrow> bool" where
  "arg_ok (ArgEventId e) = (ei_name e \<noteq> None)"
| "arg_ok (ArgTimePoint tp) = int64 tp"
| "arg_ok _ = True"

text \<open>A value takes the place of an older one.\<close>

definition or_else :: "'a option \<Rightarrow> 'a option \<Rightarrow> 'a option" where
  "or_else a d = (case a of None \<Rightarrow> d | Some v \<Rightarrow> Some v)"

text \<open>Two arguments that set different fields, or the same field to the same value.\<close>

definition agree :: "'a option \<Rightarrow> 'a option \<Rightarrow> bool" where
  "agree a b \<longleftrightarrow> a = None \<or> b = None \<or> a = b"

definition compatible_args :: "log_arg \<Rightarrow> log_arg \<Rightarrow> bool" where
  "compatible_args a b \<longleftrightarrow>
     agree (arg_severity a) (arg_severity b) \<and> agree (arg_event a) (arg_event b) \<and>
     agree (arg_span_id a) (arg_span_id b) \<and> agree (arg_trace_id a) (arg_trace_id b) \<and>
     agree (arg_trace_flags a) (arg_trace_flags b) \<and> agree (arg_timestamp a) (arg_timestamp b) \<and>
     agree (arg_body a) (arg_body b) \<and>
     fst ` set (arg_attributes a) \<inter> fst ` set (arg_attributes b) = {}"

subsection \<open>Lemmas\<close>

lemma or_else_simps [simp]: "or_else None d = d" "or_else (Some v) d = Some v"
  by (simp_all add: or_else_def)

lemma agree_commute: "agree a b \<Longrightarrow> or_else a (or_else b d) = or_else b (or_else a d)"
  by (auto simp: agree_def or_else_def split: option.splits)

lemma last_arg_simps [simp]:
  "last_arg g [] d = d"
  "last_arg g (a # args) d = last_arg g args (or_else (g a) d)"
  by (auto simp: last_arg_def or_else_def map_filter_simps split: option.splits list.splits)

lemma fields_by_args_Cons: "fields_by_args (a # args) f = fields_by_args args (fields_by_args [a] f)"
  by (simp add: fields_by_args_def)

lemma fields_by_args_Nil [simp]: "fields_by_args [] f = f"
  by (simp add: fields_by_args_def)

lemma fields_of_append [simp]: "fields_of (r @ r') f = fields_of r' (fields_of r f)"
  by (simp add: fields_of_def)

lemma fields_of_attributes:
  "fields_of (map (\<lambda>(k, v). SetLogAttribute k v) kvs) f = f\<lparr>lf_attributes := lf_attributes f ++ map_of (rev kvs)\<rparr>"
  by (induction kvs arbitrary: f) (auto simp: fields_of_def)

text \<open>One setter does what its argument says.\<close>

lemma setter_fields:
  "LogRecordSetterTrait_Set a r = Some r' \<Longrightarrow> fields_of r' f = fields_by_args [a] (fields_of r f)"
  by (cases a)
    (auto simp: fields_by_args_def fields_of_attributes view_of_c_string_def SystemTimestamp_time_point_def
      SystemTimestamp_duration_def to_nanoseconds_def checked_def split: option.splits if_splits,
     auto simp: fields_of_def)

lemma setter_defined: "LogRecordSetterTrait_Set a r \<noteq> None \<longleftrightarrow> arg_ok a"
  by (cases a)
    (auto simp: view_of_c_string_def SystemTimestamp_time_point_def SystemTimestamp_duration_def
      to_nanoseconds_def checked_def split: option.splits)

lemma set_args_fields: "set_args r args = Some r' \<Longrightarrow> fields_of r' f = fields_by_args args (fields_of r f)"
proof (induction args arbitrary: r)
  case (Cons a args)
  then obtain r1 where "LogRecordSetterTrait_Set a r = Some r1" "set_args r1 args = Some r'"
    by (auto split: Option.bind_splits)
  with Cons.IH [of r1] show ?case by (simp add: fields_by_args_Cons [of a args] setter_fields)
qed simp

lemma set_args_defined: "(\<exists>r'. set_args r args = Some r') \<longleftrightarrow> (\<forall>a\<in>set args. arg_ok a)"
proof (induction args arbitrary: r)
  case (Cons a args)
  then show ?case using setter_defined [of a r] by (cases "LogRecordSetterTrait_Set a r") auto
qed simp

text \<open>Compatible arguments commute.\<close>

lemma map_add_disjoint:
  "fst ` set xs \<inter> fst ` set ys = {} \<Longrightarrow> m ++ map_of (rev xs) ++ map_of (rev ys) = m ++ map_of (rev ys) ++ map_of (rev xs)"
  by (metis (no_types, lifting) dom_map_of_conv_image_fst map_add_assoc map_add_comm set_rev)

lemma compatible_commute:
  assumes "compatible_args a b"
  shows "fields_by_args [a] (fields_by_args [b] f) = fields_by_args [b] (fields_by_args [a] f)"
proof -
  note c = assms [unfolded compatible_args_def]
  have "or_else (arg_severity a) (or_else (arg_severity b) d) = or_else (arg_severity b) (or_else (arg_severity a) d)" for d
    using c by (intro agree_commute) simp
  moreover have "or_else (arg_event a) (or_else (arg_event b) d) = or_else (arg_event b) (or_else (arg_event a) d)" for d
    using c by (intro agree_commute) simp
  moreover have "or_else (arg_span_id a) (or_else (arg_span_id b) d) = or_else (arg_span_id b) (or_else (arg_span_id a) d)" for d
    using c by (intro agree_commute) simp
  moreover have "or_else (arg_trace_id a) (or_else (arg_trace_id b) d) = or_else (arg_trace_id b) (or_else (arg_trace_id a) d)" for d
    using c by (intro agree_commute) simp
  moreover have "or_else (arg_trace_flags a) (or_else (arg_trace_flags b) d) = or_else (arg_trace_flags b) (or_else (arg_trace_flags a) d)" for d
    using c by (intro agree_commute) simp
  moreover have "or_else (arg_timestamp a) (or_else (arg_timestamp b) d) = or_else (arg_timestamp b) (or_else (arg_timestamp a) d)" for d
    using c by (intro agree_commute) simp
  moreover have "or_else (arg_body a) (or_else (arg_body b) d) = or_else (arg_body b) (or_else (arg_body a) d)" for d
    using c by (intro agree_commute) simp
  moreover have "m ++ map_of (rev (arg_attributes b)) ++ map_of (rev (arg_attributes a)) =
      m ++ map_of (rev (arg_attributes a)) ++ map_of (rev (arg_attributes b))" for m
    using c by (intro map_add_disjoint) blast
  ultimately show ?thesis unfolding fields_by_args_def last_arg_simps by simp
qed

lemma fields_by_args_fold: "fields_by_args args f = fold (\<lambda>a. fields_by_args [a]) args f"
proof (induction args arbitrary: f)
  case (Cons a args)
  then show ?case by (simp add: fields_by_args_Cons [of a args])
qed simp

lemma fields_by_args_order:
  assumes "mset order = mset args"
    and "\<forall>a\<in>set args. \<forall>b\<in>set args. a \<noteq> b \<longrightarrow> compatible_args a b"
  shows "fields_by_args order f = fields_by_args args f"
proof -
  have "fold (\<lambda>a. fields_by_args [a]) order = fold (\<lambda>a. fields_by_args [a]) args"
  proof (rule fold_multiset_equiv)
    fix a b
    assume "a \<in> set order" "b \<in> set order"
    then have "a = b \<or> compatible_args a b" using assms(2) mset_eq_setD [OF assms(1)] by auto
    then show "fields_by_args [a] \<circ> fields_by_args [b] = fields_by_args [b] \<circ> fields_by_args [a]"
      using compatible_commute by (auto simp: fun_eq_iff)
  qed (rule assms(1))
  then show ?thesis by (simp add: fields_by_args_fold)
qed

text \<open>Every severity has its own text.\<close>

lemma severity_num_bound: "unat (severity_num s) < length SeverityNumToText"
  by (cases s) (simp_all add: SeverityNumToText_def)

lemma severity_num_inject: "severity_num s = severity_num s' \<longleftrightarrow> s = s'"
proof -
  let ?all = "[Severity_kInvalid, Severity_kTrace, Severity_kTrace2, Severity_kTrace3, Severity_kTrace4,
      Severity_kDebug, Severity_kDebug2, Severity_kDebug3, Severity_kDebug4, Severity_kInfo,
      Severity_kInfo2, Severity_kInfo3, Severity_kInfo4, Severity_kWarn, Severity_kWarn2, Severity_kWarn3,
      Severity_kWarn4, Severity_kError, Severity_kError2, Severity_kError3, Severity_kError4,
      Severity_kFatal, Severity_kFatal2, Severity_kFatal3, Severity_kFatal4]"
  have "?all ! unat (severity_num x) = x" for x by (cases x) simp_all
  then show ?thesis by metis
qed

lemma severity_text_inject:
  "SeverityNumToText ! unat (severity_num s) = SeverityNumToText ! unat (severity_num s') \<longleftrightarrow> s = s'"
proof -
  have "distinct SeverityNumToText" by (simp add: SeverityNumToText_def)
  then show ?thesis
    using severity_num_bound by (simp add: nth_eq_iff_index_eq severity_num_inject flip: word_unat_eq_iff)
qed

text \<open>A logger is disabled until its minimum severity is set, and logging does not ask.\<close>

lemma default_disabled: "\<not> Enabled Logger_default s"
  by (cases s) (simp_all add: Enabled_def Logger_default_def kMaxSeverity_def word_le_nat_alt)

lemma Enabled_after_SetMinimumSeverity:
  "Enabled (SetMinimumSeverity l m) s \<longleftrightarrow> m \<le> severity_num s"
  "\<not> Enabled_event EnabledImplementation_event l s e" "\<not> Enabled_id EnabledImplementation_id l s i"
  by (simp_all add: Enabled_def SetMinimumSeverity_def Enabled_event_def Enabled_id_def
    EnabledImplementation_event_def EnabledImplementation_id_def)

text \<open>The overload with a number for the event cannot be used: no name, so \<open>strlen\<close> of null, whatever
  the logger does with its records.\<close>

lemma log_by_id_undefined:
  assumes "create l \<noteq> None"
  shows "Log_id create l s i format attributes = None" and "wrap_Trace create l (LogId i format attributes) = None"
  using assms
  by (auto simp: Log_id_def Log_event_def EmitLogRecord_new_def EmitLogRecord_args_def EventId_def view_of_c_string_def)

subsection \<open>Properties\<close>


text \<open>The order in which the setters of \<open>EmitEvent\<close> run does not matter for arguments that set
  different fields (or the same to the same value): every order emits one event with the given
  name, and the fields are those of the order written down.\<close>

theorem event_in_any_order:
  assumes "el_delegate el = Some l" and "create l = Some r" and "list_all arg_ok args"
    and "\<forall>a\<in>set args. \<forall>b\<in>set args. a \<noteq> b \<longrightarrow> compatible_args a b"
    and "mset order = mset args"
  shows "\<exists>r'. EmitEvent create el name order = Some (el\<lparr>el_events := el_events el @ [(name, Some r')]\<rparr>) \<and>
    fields_of r' f = fields_by_args args (fields_of r f)"
proof -
  have "\<forall>a\<in>set order. arg_ok a" using assms(3) mset_eq_setD [OF assms(5)] by (simp add: list_all_iff)
  then obtain r' where r': "set_args r order = Some r'" using set_args_defined by blast
  have "fields_by_args order (fields_of r f) = fields_by_args args (fields_of r f)"
    by (rule fields_by_args_order [OF assms(5,4)])
  with set_args_fields [OF r'] r' assms(1,2) show ?thesis
    by (intro exI [of _ r']) (simp add: EmitEvent_def)
qed

theorem event_in_any_order_witness:
  "\<exists>r'. EmitEvent (\<lambda>_. Some []) \<lparr>el_delegate = Some Logger_default, el_events = []\<rparr> ''e''
      [ArgBody (AV_bool True), ArgSeverity Severity_kInfo] =
      Some \<lparr>el_delegate = Some Logger_default, el_events = [(''e'', Some r')]\<rparr> \<and>
    lf_severity (fields_of r' no_fields) = Some Severity_kInfo \<and>
    lf_body (fields_of r' no_fields) = Some (AV_bool True)"
proof -
  let ?args = "[ArgSeverity Severity_kInfo, ArgBody (AV_bool True)]"
  let ?el = "\<lparr>el_delegate = Some Logger_default, el_events = []\<rparr>"
  have c: "\<forall>a\<in>set ?args. \<forall>b\<in>set ?args. a \<noteq> b \<longrightarrow> compatible_args a b"
    by (auto simp: compatible_args_def agree_def)
  have d: "el_delegate ?el = Some Logger_default" "list_all arg_ok ?args"
    "mset [ArgBody (AV_bool True), ArgSeverity Severity_kInfo] = mset ?args" by simp_all
  obtain r' where "EmitEvent (\<lambda>_. Some []) ?el ''e'' [ArgBody (AV_bool True), ArgSeverity Severity_kInfo] =
      Some (?el\<lparr>el_events := el_events ?el @ [(''e'', Some r')]\<rparr>)"
    "fields_of r' no_fields = fields_by_args ?args (fields_of [] no_fields)"
    using event_in_any_order [where create = "\<lambda>_. Some []", OF d(1) refl d(2) c d(3)] by blast
  then show ?thesis by (intro exI [of _ r']) (simp add: fields_by_args_def)
qed

end
