(* ===== verification/Plugin_Loader.thy ===== *)
theory Plugin_Loader
  imports Cpp_Prelude
begin

text \<open>
  \<open>opentelemetry/plugin\<close>: loading a tracer from a shared library (\<open>detail/dynamic_load_unix.h\<close>,
  \<open>detail/utility.h\<close>, \<open>factory.h\<close>, \<open>tracer.h\<close>). The plugin and the dynamic linker are not part of the
  repository: what they answer is an argument (\<open>load_env\<close> and the parameters of the operations).
  The state counts the shared pointers: to the library, to each tracer and to each span, together
  with those the host program holds. The log has what the linker and the plugin see; \<open>log_step\<close>
  says what they allow: objects of the plugin are used only while they live, and the library is
  closed only when none of them lives.
\<close>

subsection \<open>What the plugin sees\<close>

datatype plugin_object = Impl | Handle nat | PluginSpan nat

datatype plugin_event =
    Dlopen
  | Dlclose
  | Make plugin_object
  | Use plugin_object
  | Destroy plugin_object

fun log_step :: "plugin_event \<Rightarrow> bool \<times> plugin_object set \<Rightarrow> (bool \<times> plugin_object set) option" where
  "log_step Dlopen (opened, live) = (if opened then None else Some (True, live))"
| "log_step Dlclose (opened, live) = (if opened \<and> live = {} then Some (False, {}) else None)"
| "log_step (Make x) (opened, live) = (if opened \<and> x \<notin> live then Some (True, insert x live) else None)"
| "log_step (Use x) (opened, live) = (if opened \<and> x \<in> live then Some (True, live) else None)"
| "log_step (Destroy x) (opened, live) = (if opened \<and> x \<in> live then Some (True, live - {x}) else None)"

fun replay_log :: "plugin_event list \<Rightarrow> bool \<times> plugin_object set \<Rightarrow> (bool \<times> plugin_object set) option" where
  "replay_log [] st = Some st"
| "replay_log (e # es) st = Option.bind (log_step e st) (replay_log es)"

subsection \<open>State\<close>

record plugin_state =
  pl_log :: "plugin_event list"
  pl_lib :: nat
  pl_factory :: bool
  pl_tracers :: nat
  pl_tracer_refs :: "nat \<Rightarrow> nat"
  pl_tracer_held :: "nat \<Rightarrow> nat"
  pl_spans :: nat
  pl_span_refs :: "nat \<Rightarrow> nat"
  pl_span_tracer :: "nat \<Rightarrow> nat"

definition no_plugin :: plugin_state where
  "no_plugin = \<lparr>pl_log = [], pl_lib = 0, pl_factory = False, pl_tracers = 0, pl_tracer_refs = (\<lambda>_. 0),
     pl_tracer_held = (\<lambda>_. 0), pl_spans = 0, pl_span_refs = (\<lambda>_. 0), pl_span_tracer = (\<lambda>_. 0)\<rparr>"

definition pl_emit :: "plugin_event \<Rightarrow> plugin_state \<Rightarrow> plugin_state" where
  "pl_emit e s = s\<lparr>pl_log := pl_log s @ [e]\<rparr>"

subsection \<open>Releasing\<close>

text \<open>The last pointer to the handle runs \<open>~DynamicLibraryHandleUnix\<close>.\<close>

definition release_library :: "plugin_state \<Rightarrow> plugin_state" where
  "release_library s =
     (if pl_lib s = 1 then pl_emit Dlclose (s\<lparr>pl_lib := 0\<rparr>) else s\<lparr>pl_lib := pl_lib s - 1\<rparr>)"

text \<open>Members are destroyed in the reverse order of their declaration: in a tracer the handle of the
  plugin's tracer goes before the library, in a span the plugin's span before the tracer, in a
  factory the implementation before the library.\<close>

definition release_tracer :: "nat \<Rightarrow> plugin_state \<Rightarrow> plugin_state" where
  "release_tracer i s =
     (if pl_tracer_refs s i = 1
      then release_library (pl_emit (Destroy (Handle i)) (s\<lparr>pl_tracer_refs := (pl_tracer_refs s)(i := 0)\<rparr>))
      else s\<lparr>pl_tracer_refs := (pl_tracer_refs s)(i := pl_tracer_refs s i - 1)\<rparr>)"

definition release_span :: "nat \<Rightarrow> plugin_state \<Rightarrow> plugin_state" where
  "release_span j s =
     (if pl_span_refs s j = 1
      then release_tracer (pl_span_tracer s j)
             (pl_emit (Destroy (PluginSpan j)) (s\<lparr>pl_span_refs := (pl_span_refs s)(j := 0)\<rparr>))
      else s\<lparr>pl_span_refs := (pl_span_refs s)(j := pl_span_refs s j - 1)\<rparr>)"

definition Factory_destroy :: "plugin_state \<Rightarrow> plugin_state" where
  "Factory_destroy s = release_library (pl_emit (Destroy Impl) (s\<lparr>pl_factory := False\<rparr>))"

subsection \<open>Loading\<close>

definition CopyErrorMessage :: "string option \<Rightarrow> string \<Rightarrow> string" where
  "CopyErrorMessage source destination = (case source of None \<Rightarrow> destination | Some m \<Rightarrow> c_str m)"

text \<open>Whether \<open>dlopen\<close>, the allocation of the handle, \<open>dlsym\<close>, the hook and the allocation of the
  factory give a pointer; the hook returns an implementation or an error message; \<open>dlerror\<close>.\<close>

record load_env =
  le_dlopen :: bool
  le_new_handle :: bool
  le_dlsym :: bool
  le_hook :: bool
  le_factory_impl :: "string option + unit"
  le_new_factory :: bool
  le_dlerror :: "string option"

definition LoadFactory :: "load_env \<Rightarrow> string \<Rightarrow> plugin_state \<Rightarrow> plugin_state \<times> string" where
  "LoadFactory env error_message s =
     (if \<not> le_dlopen env then (s, CopyErrorMessage (le_dlerror env) error_message)
      else let s = pl_emit Dlopen s in
      if \<not> le_new_handle env then (s, error_message)
      else let s = s\<lparr>pl_lib := 1\<rparr> in
      if \<not> le_dlsym env then (release_library s, CopyErrorMessage (le_dlerror env) error_message)
      else if \<not> le_hook env then (release_library s, CopyErrorMessage (Some ''Invalid plugin hook'') error_message)
      else case le_factory_impl env of
        Inl plugin_error_message \<Rightarrow>
          (release_library s, CopyErrorMessage plugin_error_message error_message)
      | Inr _ \<Rightarrow>
          let s = pl_emit (Make Impl) s in
          if le_new_factory env then (s\<lparr>pl_factory := True\<rparr>, error_message)
          else (release_library (pl_emit (Destroy Impl) s), error_message))"

subsection \<open>Factory and Tracer\<close>

text \<open>The implementation's \<open>MakeTracerHandle\<close> returns a handle or an error message; the tracer takes a
  copy of the library pointer.\<close>

definition MakeTracer ::
  "string option + unit \<Rightarrow> bool \<Rightarrow> string \<Rightarrow> plugin_state \<Rightarrow> plugin_state \<times> string" where
  "MakeTracer handle new_tracer error_message s =
     (let s = pl_emit (Use Impl) s in
      case handle of
        Inl plugin_error_message \<Rightarrow> (s, CopyErrorMessage plugin_error_message error_message)
      | Inr _ \<Rightarrow>
          let i = pl_tracers s; s = pl_emit (Make (Handle i)) (s\<lparr>pl_tracers := i + 1\<rparr>) in
          if new_tracer
          then (s\<lparr>pl_lib := pl_lib s + 1, pl_tracer_refs := (pl_tracer_refs s)(i := 1),
                  pl_tracer_held := (pl_tracer_held s)(i := 1)\<rparr>, error_message)
          else (pl_emit (Destroy (Handle i)) s, error_message))"

text \<open>\<open>plugin::Tracer::StartSpan\<close>: the new span shares the tracer.\<close>

definition plugin_StartSpan :: "nat \<Rightarrow> bool \<Rightarrow> bool \<Rightarrow> plugin_state \<Rightarrow> plugin_state" where
  "plugin_StartSpan i span new_span s =
     (let s = pl_emit (Use (Handle i)) s in
      if \<not> span then s
      else let j = pl_spans s; s = pl_emit (Make (PluginSpan j)) (s\<lparr>pl_spans := j + 1\<rparr>) in
        if new_span
        then s\<lparr>pl_tracer_refs := (pl_tracer_refs s)(i := pl_tracer_refs s i + 1),
               pl_span_refs := (pl_span_refs s)(j := 1), pl_span_tracer := (pl_span_tracer s)(j := i)\<rparr>
        else pl_emit (Destroy (PluginSpan j)) s)"

text \<open>The other operations of \<open>plugin::Tracer\<close> and those of \<open>plugin::Span\<close> forward to the plugin.\<close>

definition plugin_Tracer_op :: "nat \<Rightarrow> plugin_state \<Rightarrow> plugin_state" where
  "plugin_Tracer_op i s = pl_emit (Use (Handle i)) s"

definition plugin_Span_op :: "nat \<Rightarrow> plugin_state \<Rightarrow> plugin_state" where
  "plugin_Span_op j s = pl_emit (Use (PluginSpan j)) s"

subsection \<open>The host program\<close>

datatype host_op =
    HLoad load_env string
  | HMakeTracer "string option + unit" bool string
  | HDropFactory
  | HCopyTracer nat
  | HDropTracer nat
  | HTracerOp nat
  | HStartSpan nat bool bool
  | HCopySpan nat
  | HDropSpan nat
  | HSpanOp nat

text \<open>What the program holds: it can use and drop only that. One library is loaded at a time.\<close>

fun can :: "host_op \<Rightarrow> plugin_state \<Rightarrow> bool" where
  "can (HLoad env m) s = (pl_lib s = 0)"
| "can (HMakeTracer h n m) s = pl_factory s"
| "can HDropFactory s = pl_factory s"
| "can (HCopyTracer i) s = (0 < pl_tracer_held s i)"
| "can (HDropTracer i) s = (0 < pl_tracer_held s i)"
| "can (HTracerOp i) s = (0 < pl_tracer_held s i)"
| "can (HStartSpan i sp n) s = (0 < pl_tracer_held s i)"
| "can (HCopySpan j) s = (0 < pl_span_refs s j)"
| "can (HDropSpan j) s = (0 < pl_span_refs s j)"
| "can (HSpanOp j) s = (0 < pl_span_refs s j)"

fun host_step :: "host_op \<Rightarrow> plugin_state \<Rightarrow> plugin_state" where
  "host_step (HLoad env m) s = fst (LoadFactory env m s)"
| "host_step (HMakeTracer h n m) s = fst (MakeTracer h n m s)"
| "host_step HDropFactory s = Factory_destroy s"
| "host_step (HCopyTracer i) s =
     s\<lparr>pl_tracer_refs := (pl_tracer_refs s)(i := pl_tracer_refs s i + 1),
       pl_tracer_held := (pl_tracer_held s)(i := pl_tracer_held s i + 1)\<rparr>"
| "host_step (HDropTracer i) s =
     release_tracer i (s\<lparr>pl_tracer_held := (pl_tracer_held s)(i := pl_tracer_held s i - 1)\<rparr>)"
| "host_step (HTracerOp i) s = plugin_Tracer_op i s"
| "host_step (HStartSpan i sp n) s = plugin_StartSpan i sp n s"
| "host_step (HCopySpan j) s = s\<lparr>pl_span_refs := (pl_span_refs s)(j := pl_span_refs s j + 1)\<rparr>"
| "host_step (HDropSpan j) s = release_span j s"
| "host_step (HSpanOp j) s = plugin_Span_op j s"

text \<open>The runs in which the small object for the library handle can be allocated.\<close>

fun handle_allocated :: "host_op \<Rightarrow> bool" where
  "handle_allocated (HLoad env m) = le_new_handle env"
| "handle_allocated _ = True"

inductive host_run :: "plugin_state \<Rightarrow> bool" where
  start: "host_run no_plugin"
| step: "host_run s \<Longrightarrow> can op s \<Longrightarrow> handle_allocated op \<Longrightarrow> host_run (host_step op s)"

definition holds_nothing :: "plugin_state \<Rightarrow> bool" where
  "holds_nothing s \<longleftrightarrow> \<not> pl_factory s \<and> (\<forall>i. pl_tracer_held s i = 0) \<and> (\<forall>j. pl_span_refs s j = 0)"

subsection \<open>Invariant\<close>

definition live_tracers :: "plugin_state \<Rightarrow> nat set" where
  "live_tracers s = {i. 0 < pl_tracer_refs s i}"

definition live_spans :: "plugin_state \<Rightarrow> nat set" where
  "live_spans s = {j. 0 < pl_span_refs s j}"

definition spans_of :: "plugin_state \<Rightarrow> nat \<Rightarrow> nat set" where
  "spans_of s i = {j \<in> live_spans s. pl_span_tracer s j = i}"

definition live_objects :: "plugin_state \<Rightarrow> plugin_object set" where
  "live_objects s = (if pl_factory s then {Impl} else {}) \<union> Handle ` live_tracers s \<union> PluginSpan ` live_spans s"

text \<open>The counts are those of the pointers there are; a tracer pointer beyond these (\<open>extra\<close>) and a
  library pointer beyond these belong to an operation that is running.\<close>

definition counts :: "nat \<Rightarrow> (nat \<Rightarrow> nat) \<Rightarrow> plugin_state \<Rightarrow> bool" where
  "counts lib extra s \<longleftrightarrow>
     (\<forall>i. pl_tracers s \<le> i \<longrightarrow> pl_tracer_refs s i = 0) \<and> (\<forall>j. pl_spans s \<le> j \<longrightarrow> pl_span_refs s j = 0) \<and>
     (\<forall>i. pl_tracer_refs s i = pl_tracer_held s i + card (spans_of s i) + extra i) \<and>
     pl_lib s = (if pl_factory s then 1 else 0) + card (live_tracers s) + lib"

definition logged :: "plugin_state \<Rightarrow> bool" where
  "logged s \<longleftrightarrow> replay_log (pl_log s) (False, {}) = Some (0 < pl_lib s, live_objects s)"

definition plugin_inv :: "plugin_state \<Rightarrow> bool" where
  "plugin_inv s \<longleftrightarrow> counts 0 (\<lambda>_. 0) s \<and> logged s"

lemma replay_log_append: "replay_log (xs @ ys) st = Option.bind (replay_log xs st) (replay_log ys)"
  by (induction xs arbitrary: st) (auto split: Option.bind_splits)

lemma countsD:
  assumes "counts lib extra s"
  shows "pl_tracers s \<le> i \<Longrightarrow> pl_tracer_refs s i = 0" and "pl_spans s \<le> j \<Longrightarrow> pl_span_refs s j = 0"
    and "pl_tracer_refs s i = pl_tracer_held s i + card (spans_of s i) + extra i"
    and "pl_lib s = (if pl_factory s then 1 else 0) + card (live_tracers s) + lib"
  using assms unfolding counts_def by blast+

lemma countsI:
  assumes "\<And>i. pl_tracers s \<le> i \<Longrightarrow> pl_tracer_refs s i = 0" and "\<And>j. pl_spans s \<le> j \<Longrightarrow> pl_span_refs s j = 0"
    and "\<And>i. pl_tracer_refs s i = pl_tracer_held s i + card (spans_of s i) + extra i"
    and "pl_lib s = (if pl_factory s then 1 else 0) + card (live_tracers s) + lib"
  shows "counts lib extra s"
  using assms unfolding counts_def by blast

lemma finite_live:
  assumes "counts lib extra s"
  shows "finite (live_tracers s)" and "finite (live_spans s)" and "finite (spans_of s i)"
proof -
  have z: "pl_tracers s \<le> i \<Longrightarrow> pl_tracer_refs s i = 0" "pl_spans s \<le> i \<Longrightarrow> pl_span_refs s i = 0" for i
    using countsD(1,2) [OF assms] by auto
  have "i < pl_tracers s" if "i \<in> live_tracers s" for i
    using z(1) [of i] that by (cases "pl_tracers s \<le> i") (auto simp: live_tracers_def)
  moreover have "i < pl_spans s" if "i \<in> live_spans s" for i
    using z(2) [of i] that by (cases "pl_spans s \<le> i") (auto simp: live_spans_def)
  ultimately have "live_tracers s \<subseteq> {..<pl_tracers s}" "live_spans s \<subseteq> {..<pl_spans s}" by auto
  then show "finite (live_tracers s)" "finite (live_spans s)" by (auto intro: finite_subset)
  then show "finite (spans_of s i)" by (simp add: spans_of_def)
qed

lemma pl_emit_simps [simp]:
  "pl_log (pl_emit e s) = pl_log s @ [e]" "pl_lib (pl_emit e s) = pl_lib s" "pl_factory (pl_emit e s) = pl_factory s"
  "pl_tracers (pl_emit e s) = pl_tracers s" "pl_tracer_refs (pl_emit e s) = pl_tracer_refs s"
  "pl_tracer_held (pl_emit e s) = pl_tracer_held s" "pl_spans (pl_emit e s) = pl_spans s"
  "pl_span_refs (pl_emit e s) = pl_span_refs s" "pl_span_tracer (pl_emit e s) = pl_span_tracer s"
  by (simp_all add: pl_emit_def)

lemmas plugin_view_defs = live_objects_def live_tracers_def live_spans_def spans_of_def

text \<open>No library, no objects.\<close>

lemma closed_is_empty:
  assumes "counts lib extra s" and "pl_lib s = 0"
  shows "\<not> pl_factory s" and "pl_tracer_refs s i = 0" and "pl_span_refs s j = 0"
proof -
  have "live_tracers s = {}" and f: "\<not> pl_factory s"
    using assms finite_live(1) [OF assms(1)] by (auto simp: counts_def split: if_splits)
  then have z: "pl_tracer_refs s i = 0" for i by (auto simp: live_tracers_def)
  have "j \<notin> spans_of s (pl_span_tracer s j)"
    using assms(1) z finite_live(3) [OF assms(1)] by (auto simp: counts_def)
  then show "pl_span_refs s j = 0" by (simp add: spans_of_def live_spans_def)
  show "\<not> pl_factory s" "pl_tracer_refs s i = 0" using f z by auto
qed

text \<open>Releasing the pointer of a running operation.\<close>

lemma release_library_inv:
  assumes "counts (Suc 0) (\<lambda>_. 0) s" and "replay_log (pl_log s) (False, {}) = Some (True, live_objects s)"
  shows "plugin_inv (release_library s)"
proof (cases "pl_lib s = 1")
  case True
  then have "counts 0 (\<lambda>_. 0) (s\<lparr>pl_lib := 0\<rparr>)"
    using assms(1) by (auto simp: counts_def plugin_view_defs)
  from closed_is_empty [OF this] have "live_objects s = {}" by (simp add: plugin_view_defs)
  with True assms \<open>counts 0 (\<lambda>_. 0) (s\<lparr>pl_lib := 0\<rparr>)\<close> show ?thesis
    by (auto simp: plugin_inv_def release_library_def logged_def replay_log_append counts_def plugin_view_defs)
next
  case False
  with assms show ?thesis
    by (auto simp: plugin_inv_def release_library_def logged_def counts_def plugin_view_defs)
qed

lemma release_tracer_inv:
  assumes "counts 0 ((\<lambda>_. 0)(i := 1)) s" and "logged s"
  shows "plugin_inv (release_tracer i s)"
proof -
  have "pl_tracer_refs s i \<noteq> 0" using assms(1) by (simp add: counts_def)
  then have lib: "0 < pl_lib s" using closed_is_empty(2) [OF assms(1), of i] by auto
  show ?thesis
  proof (cases "pl_tracer_refs s i = 1")
    case True
    let ?s = "pl_emit (Destroy (Handle i)) (s\<lparr>pl_tracer_refs := (pl_tracer_refs s)(i := 0)\<rparr>)"
    have l: "live_tracers s = insert i (live_tracers ?s)" "i \<notin> live_tracers ?s"
      using True by (auto simp: live_tracers_def)
    have fin: "finite (live_tracers ?s)" using finite_live(1) [OF assms(1)] l(1) by simp
    have "counts (Suc 0) (\<lambda>_. 0) ?s"
      using assms(1) True l fin by (auto simp: counts_def spans_of_def live_spans_def split: if_splits)
    moreover have "live_objects ?s = live_objects s - {Handle i}"
      using l by (auto simp: live_objects_def live_spans_def)
    then have "replay_log (pl_log ?s) (False, {}) = Some (True, live_objects ?s)"
      using assms(2) lib l(1) by (auto simp: logged_def replay_log_append live_objects_def)
    ultimately show ?thesis using True release_library_inv [of ?s] by (simp add: release_tracer_def)
  next
    case False
    let ?s = "s\<lparr>pl_tracer_refs := (pl_tracer_refs s)(i := pl_tracer_refs s i - 1)\<rparr>"
    have r: "1 < pl_tracer_refs s i" using assms(1) False by (auto simp: counts_def)
    then have l: "live_tracers ?s = live_tracers s" by (auto simp: live_tracers_def)
    have "counts 0 (\<lambda>_. 0) ?s"
      using assms(1) l r by (auto simp: counts_def spans_of_def live_spans_def split: if_splits)
    moreover have "logged ?s" using assms(2) l by (simp add: logged_def live_objects_def live_spans_def)
    ultimately show ?thesis using False by (simp add: release_tracer_def plugin_inv_def)
  qed
qed

lemma release_span_inv:
  assumes "plugin_inv s" and "0 < pl_span_refs s j"
  shows "plugin_inv (release_span j s)"
proof (cases "pl_span_refs s j = 1")
  case True
  let ?i = "pl_span_tracer s j"
  let ?s = "pl_emit (Destroy (PluginSpan j)) (s\<lparr>pl_span_refs := (pl_span_refs s)(j := 0)\<rparr>)"
  have c: "counts 0 (\<lambda>_. 0) s" and g: "logged s" using assms(1) by (simp_all add: plugin_inv_def)
  have lib: "0 < pl_lib s" using closed_is_empty(3) [OF c, of j] assms(2) by auto
  have sp: "spans_of s ?i = insert j (spans_of ?s ?i)" "j \<notin> spans_of ?s ?i"
    using assms(2) by (auto simp: spans_of_def live_spans_def)
  have other: "spans_of ?s k = spans_of s k" if "k \<noteq> ?i" for k
    using that by (auto simp: spans_of_def live_spans_def)
  have "finite (spans_of ?s ?i)" using finite_live(3) [OF c, of ?i] sp(1) by simp
  with sp have card: "card (spans_of s ?i) = Suc (card (spans_of ?s ?i))" by simp
  have "pl_tracer_refs s k = pl_tracer_held s k + card (spans_of ?s k) + ((\<lambda>_. 0)(?i := 1)) k" for k
    using c card other [of k] by (cases "k = ?i") (simp_all add: counts_def)
  then have "counts 0 ((\<lambda>_. 0)(?i := 1)) ?s"
    using c by (simp add: counts_def live_tracers_def)
  moreover have "live_objects ?s = live_objects s - {PluginSpan j}"
    by (auto simp: live_objects_def live_spans_def live_tracers_def)
  then have "logged ?s"
    using g lib assms(2) by (auto simp: logged_def replay_log_append live_objects_def live_spans_def)
  ultimately show ?thesis using True release_tracer_inv [of ?i ?s] by (simp add: release_span_def)
next
  case False
  with assms have "live_spans (s\<lparr>pl_span_refs := (pl_span_refs s)(j := pl_span_refs s j - 1)\<rparr>) = live_spans s"
    by (auto simp: live_spans_def)
  with assms False show ?thesis
    by (auto simp: release_span_def plugin_inv_def counts_def logged_def live_objects_def spans_of_def
      live_tracers_def)
qed

lemma use_inv:
  "plugin_inv s \<Longrightarrow> x \<in> live_objects s \<Longrightarrow> 0 < pl_lib s \<Longrightarrow> plugin_inv (pl_emit (Use x) s)"
  by (auto simp: plugin_inv_def counts_def logged_def replay_log_append live_objects_def spans_of_def
    live_tracers_def live_spans_def)

lemma make_destroy_inv:
  "plugin_inv s \<Longrightarrow> x \<notin> live_objects s \<Longrightarrow> 0 < pl_lib s \<Longrightarrow> plugin_inv (pl_emit (Destroy x) (pl_emit (Make x) s))"
  by (auto simp: plugin_inv_def counts_def logged_def replay_log_append live_objects_def spans_of_def
    live_tracers_def live_spans_def)

lemma load_inv:
  assumes "plugin_inv s" and "pl_lib s = 0" and "le_new_handle env"
  shows "plugin_inv (fst (LoadFactory env m s))"
proof -
  have c: "counts 0 (\<lambda>_. 0) s" and g: "logged s" using assms(1) by (simp_all add: plugin_inv_def)
  note z = closed_is_empty [OF c assms(2)]
  have e: "live_objects s = {}" "replay_log (pl_log s) (False, {}) = Some (False, {})"
    using g z assms(2) by (simp_all add: logged_def plugin_view_defs)
  let ?s = "(pl_emit Dlopen s)\<lparr>pl_lib := 1\<rparr>"
  let ?d = "pl_emit (Destroy Impl) (pl_emit (Make Impl) ?s)"
  have views: "live_objects ?s = {}" "live_objects ?d = {}" using z by (simp_all add: plugin_view_defs)
  have "counts (Suc 0) (\<lambda>_. 0) ?s" "counts (Suc 0) (\<lambda>_. 0) ?d"
    using c assms(2) by (auto simp: counts_def plugin_view_defs)
  moreover have "replay_log (pl_log ?s) (False, {}) = Some (True, live_objects ?s)"
    "replay_log (pl_log ?d) (False, {}) = Some (True, live_objects ?d)"
    unfolding views by (simp_all add: replay_log_append e(2))
  ultimately have o: "plugin_inv (release_library ?s)" "plugin_inv (release_library ?d)"
    by (simp_all only: release_library_inv)
  let ?f = "(pl_emit (Make Impl) ?s)\<lparr>pl_factory := True\<rparr>"
  have "counts 0 (\<lambda>_. 0) ?f" using c assms(2) z(1) by (auto simp: counts_def plugin_view_defs)
  moreover have "live_objects ?f = {Impl}" using z by (simp add: plugin_view_defs)
  then have "logged ?f" by (simp add: logged_def replay_log_append e(2))
  ultimately have "plugin_inv ?f" by (simp add: plugin_inv_def)
  with assms o show ?thesis
    by (simp add: LoadFactory_def Let_def split: sum.splits)
qed

lemma make_tracer_inv:
  assumes "plugin_inv s" and "pl_factory s"
  shows "plugin_inv (fst (MakeTracer h n m s))"
proof -
  define u where "u = pl_emit (Use Impl) s"
  let ?i = "pl_tracers u"
  let ?v = "u\<lparr>pl_tracers := ?i + 1\<rparr>"
  have lib: "0 < pl_lib s" using assms by (simp add: plugin_inv_def counts_def)
  have u: "plugin_inv u" "0 < pl_lib u"
    unfolding u_def using assms lib by (simp_all add: use_inv live_objects_def)
  have v: "plugin_inv ?v" "Handle ?i \<notin> live_objects ?v"
    using u(1) by (auto simp: plugin_inv_def counts_def logged_def plugin_view_defs)
  have c: "counts 0 (\<lambda>_. 0) ?v" using v(1) by (simp add: plugin_inv_def)
  have cu: "counts 0 (\<lambda>_. 0) u" using u(1) by (simp add: plugin_inv_def)
  then have fresh: "pl_tracer_refs u ?i = 0" by (rule countsD(1)) simp
  let ?w = "(pl_emit (Make (Handle ?i)) ?v)\<lparr>pl_lib := pl_lib u + 1, pl_tracer_refs := (pl_tracer_refs u)(?i := 1),
    pl_tracer_held := (pl_tracer_held u)(?i := 1)\<rparr>"
  have l: "live_tracers ?w = insert ?i (live_tracers u)" "?i \<notin> live_tracers u"
    using fresh by (auto simp: live_tracers_def)
  have "finite (live_tracers u)" using finite_live(1) [OF c] by (simp add: live_tracers_def)
  with l have card: "card (live_tracers ?w) = Suc (card (live_tracers u))" by simp
  have "pl_tracer_held u ?i = 0" "card (spans_of u ?i) = 0"
    using countsD(3) [OF cu, of ?i] fresh by simp_all
  moreover have "spans_of ?w k = spans_of u k" for k by (simp add: spans_of_def live_spans_def)
  ultimately have "counts 0 (\<lambda>_. 0) ?w" using u(1) card by (auto simp: plugin_inv_def counts_def)
  moreover have "live_objects ?w = insert (Handle ?i) (live_objects u)"
    using l by (auto simp: live_objects_def live_spans_def)
  then have "logged ?w" using u v(2) by (simp add: plugin_inv_def logged_def replay_log_append plugin_view_defs)
  ultimately have w: "plugin_inv ?w" by (simp add: plugin_inv_def)
  have d: "plugin_inv (pl_emit (Destroy (Handle ?i)) (pl_emit (Make (Handle ?i)) ?v))"
    using make_destroy_inv [OF v] u(2) by simp
  show ?thesis using u(1) w d by (simp add: MakeTracer_def Let_def flip: u_def split: sum.splits)
qed

lemma start_span_inv:
  assumes "plugin_inv s" and "0 < pl_tracer_held s i"
  shows "plugin_inv (plugin_StartSpan i sp n s)"
proof -
  define u where "u = pl_emit (Use (Handle i)) s"
  let ?j = "pl_spans u"
  let ?v = "u\<lparr>pl_spans := ?j + 1\<rparr>"
  have r: "0 < pl_tracer_refs s i" using assms by (simp add: plugin_inv_def counts_def)
  then have lib: "0 < pl_lib s" using closed_is_empty(2) [of 0 "\<lambda>_. 0" s i] assms(1) by (auto simp: plugin_inv_def)
  have u: "plugin_inv u" "0 < pl_lib u" "0 < pl_tracer_refs u i"
    unfolding u_def using assms lib r by (simp_all add: use_inv live_objects_def live_tracers_def)
  have v: "plugin_inv ?v" "PluginSpan ?j \<notin> live_objects ?v"
    using u(1) by (auto simp: plugin_inv_def counts_def logged_def plugin_view_defs)
  have fresh: "pl_span_refs u ?j = 0" using u(1) by (simp add: plugin_inv_def counts_def)
  let ?w = "(pl_emit (Make (PluginSpan ?j)) ?v)\<lparr>pl_tracer_refs := (pl_tracer_refs u)(i := pl_tracer_refs u i + 1),
    pl_span_refs := (pl_span_refs u)(?j := 1), pl_span_tracer := (pl_span_tracer u)(?j := i)\<rparr>"
  have sp: "spans_of ?w i = insert ?j (spans_of u i)" "?j \<notin> spans_of u i"
    using fresh by (auto simp: spans_of_def live_spans_def)
  have other: "spans_of ?w k = spans_of u k" if "k \<noteq> i" for k
    using that fresh by (auto simp: spans_of_def live_spans_def)
  have "finite (spans_of u i)" using finite_live(3) [of 0 "\<lambda>_. 0" u i] u(1) by (simp add: plugin_inv_def)
  with sp have card: "card (spans_of ?w i) = Suc (card (spans_of u i))" by simp
  have l: "live_tracers ?w = live_tracers u" using u(3) by (auto simp: live_tracers_def)
  have "pl_tracer_refs ?w k = pl_tracer_held ?w k + card (spans_of ?w k)" for k
    using u(1) card other [of k] by (cases "k = i") (simp_all add: plugin_inv_def counts_def)
  note cu = this
  have c: "counts 0 (\<lambda>_. 0) u" using u(1) by (simp add: plugin_inv_def)
  have i: "i < pl_tracers u" using countsD(1) [OF c, of i] u(3) by (cases "pl_tracers u \<le> i") auto
  have "counts 0 (\<lambda>_. 0) ?w"
  proof (rule countsI)
    fix k
    show "pl_tracers ?w \<le> k \<Longrightarrow> pl_tracer_refs ?w k = 0" using countsD(1) [OF c, of k] i by auto
    show "pl_spans ?w \<le> k \<Longrightarrow> pl_span_refs ?w k = 0" using countsD(2) [OF c, of k] by auto
    show "pl_tracer_refs ?w k = pl_tracer_held ?w k + card (spans_of ?w k) + 0" using cu [of k] by simp
    show "pl_lib ?w = (if pl_factory ?w then 1 else 0) + card (live_tracers ?w) + 0"
      using countsD(4) [OF c] l by simp
  qed
  moreover have "live_objects ?w = insert (PluginSpan ?j) (live_objects u)"
    using l by (auto simp: live_objects_def live_spans_def)
  then have "logged ?w" using u v(2) by (simp add: plugin_inv_def logged_def replay_log_append plugin_view_defs)
  ultimately have w: "plugin_inv ?w" by (simp add: plugin_inv_def)
  have d: "plugin_inv (pl_emit (Destroy (PluginSpan ?j)) (pl_emit (Make (PluginSpan ?j)) ?v))"
    using make_destroy_inv [OF v] u(2) by simp
  show ?thesis using u(1) w d by (simp add: plugin_StartSpan_def Let_def flip: u_def)
qed

lemma copy_tracer_inv:
  assumes "plugin_inv s" and "0 < pl_tracer_held s i"
  shows "plugin_inv (host_step (HCopyTracer i) s)"
proof -
  have "0 < pl_tracer_refs s i" using assms by (simp add: plugin_inv_def counts_def)
  then have "live_tracers (host_step (HCopyTracer i) s) = live_tracers s" by (auto simp: live_tracers_def)
  with assms show ?thesis
    by (auto simp: plugin_inv_def counts_def logged_def live_objects_def spans_of_def live_spans_def)
qed

lemma host_step_inv:
  assumes "plugin_inv s" and "can op s" and "handle_allocated op"
  shows "plugin_inv (host_step op s)"
proof -
  have c: "counts 0 (\<lambda>_. 0) s" and g: "logged s" using assms(1) by (simp_all add: plugin_inv_def)
  have held: "0 < pl_lib s \<and> Handle i \<in> live_objects s" if "0 < pl_tracer_held s i" for i
    using c that closed_is_empty(2) [OF c, of i] by (fastforce simp: counts_def live_objects_def live_tracers_def)
  have span: "0 < pl_lib s \<and> PluginSpan j \<in> live_objects s" if "0 < pl_span_refs s j" for j
    using that closed_is_empty(3) [OF c, of j] by (fastforce simp: live_objects_def live_spans_def)
  show ?thesis
  proof (cases op)
    case HDropFactory
    let ?s = "pl_emit (Destroy Impl) (s\<lparr>pl_factory := False\<rparr>)"
    have "counts (Suc 0) (\<lambda>_. 0) ?s" "replay_log (pl_log ?s) (False, {}) = Some (True, live_objects ?s)"
      using c g assms(2) HDropFactory by (auto simp: counts_def logged_def replay_log_append plugin_view_defs)
    from release_library_inv [OF this] HDropFactory show ?thesis by (simp add: Factory_destroy_def)
  next
    case (HDropTracer i)
    let ?s = "s\<lparr>pl_tracer_held := (pl_tracer_held s)(i := pl_tracer_held s i - 1)\<rparr>"
    have "counts 0 ((\<lambda>_. 0)(i := 1)) ?s" "logged ?s"
      using c g assms(2) HDropTracer by (auto simp: counts_def logged_def plugin_view_defs)
    from release_tracer_inv [OF this] HDropTracer show ?thesis by simp
  next
    case (HCopySpan j)
    with assms have "live_spans (host_step op s) = live_spans s" by (auto simp: live_spans_def)
    with assms HCopySpan show ?thesis
      by (auto simp: plugin_inv_def counts_def logged_def live_objects_def spans_of_def live_tracers_def)
  qed (use assms load_inv make_tracer_inv start_span_inv copy_tracer_inv release_span_inv held span
      in \<open>auto simp: plugin_Tracer_op_def plugin_Span_op_def use_inv simp del: host_step.simps(4)\<close>)
qed

lemma host_run_inv: "host_run s \<Longrightarrow> plugin_inv s"
  by (induction rule: host_run.induct)
    (simp_all add: host_step_inv, simp add: plugin_inv_def counts_def logged_def plugin_view_defs no_plugin_def)

text \<open>Without the handle object nobody closes the library.\<close>

lemma library_leaks:
  assumes "le_dlopen env" and "\<not> le_new_handle env"
  shows "pl_log (fst (LoadFactory env m no_plugin)) = [Dlopen]" and "holds_nothing (fst (LoadFactory env m no_plugin))"
  using assms by (simp_all add: LoadFactory_def no_plugin_def holds_nothing_def)

text \<open>A failed call of the plugin leaves its message, and an earlier one if it gave none.\<close>

lemma load_error_message:
  assumes "le_dlopen env" and "le_new_handle env" and "le_dlsym env" and "le_hook env"
    and "le_factory_impl env = Inl e"
  shows "snd (LoadFactory env m s) = (case e of None \<Rightarrow> m | Some msg \<Rightarrow> c_str msg)"
  using assms by (simp add: LoadFactory_def CopyErrorMessage_def Let_def)

subsection \<open>Properties\<close>

text \<open>C26: Whatever the host does with the pointers it holds, in any order, and whatever loading or the
  plugin answers, the plugin is used properly: its objects are made once, used and destroyed only
  while they live, and the library is closed only when none is left and never used again. When the
  host holds nothing any more, every object was destroyed and the library is closed.\<close>

theorem plugin_outlives_its_objects:
  assumes "host_run s"
  shows "replay_log (pl_log s) (False, {}) = Some (0 < pl_lib s, live_objects s) \<and>
    (holds_nothing s \<longrightarrow> replay_log (pl_log s) (False, {}) = Some (False, {}))"
proof -
  have i: "counts 0 (\<lambda>_. 0) s" "logged s" using host_run_inv [OF assms] by (simp_all add: plugin_inv_def)
  have "pl_lib s = 0 \<and> live_objects s = {}" if h: "holds_nothing s"
  proof -
    have "live_spans s = {}" using h by (simp add: holds_nothing_def live_spans_def)
    then have "live_tracers s = {}"
      using h i(1) by (simp add: holds_nothing_def counts_def live_tracers_def spans_of_def)
    with h i(1) \<open>live_spans s = {}\<close> show ?thesis by (simp add: counts_def live_objects_def holds_nothing_def)
  qed
  with i(2) show ?thesis by (auto simp: logged_def)
qed

definition demo_load_env :: load_env where
  "demo_load_env = \<lparr>le_dlopen = True, le_new_handle = True, le_dlsym = True, le_hook = True,
     le_factory_impl = Inr (), le_new_factory = True, le_dlerror = None\<rparr>"

text \<open>A span that outlives its tracer and the factory.\<close>

definition demo_host :: plugin_state where
  "demo_host = fold host_step [HLoad demo_load_env [], HMakeTracer (Inr ()) True [], HDropFactory,
     HStartSpan 0 True True, HDropTracer 0, HSpanOp 0, HDropSpan 0] no_plugin"

theorem plugin_outlives_its_objects_witness:
  "pl_log demo_host = [Dlopen, Make Impl, Use Impl, Make (Handle 0), Destroy Impl, Use (Handle 0),
     Make (PluginSpan 0), Use (PluginSpan 0), Destroy (PluginSpan 0), Destroy (Handle 0), Dlclose] \<and>
   replay_log (pl_log demo_host) (False, {}) = Some (False, {})"
proof -
  note e = demo_load_env_def no_plugin_def LoadFactory_def MakeTracer_def plugin_StartSpan_def Factory_destroy_def
    release_library_def release_tracer_def release_span_def plugin_Span_op_def pl_emit_def Let_def
  have "host_run demo_host"
    unfolding demo_host_def fold_simps comp_apply id_apply
    by (intro host_run.step host_run.start) (simp_all add: e)
  moreover have "holds_nothing demo_host" by (simp add: demo_host_def holds_nothing_def e)
  moreover have "pl_log demo_host = [Dlopen, Make Impl, Use Impl, Make (Handle 0), Destroy Impl, Use (Handle 0),
     Make (PluginSpan 0), Use (PluginSpan 0), Destroy (PluginSpan 0), Destroy (Handle 0), Dlclose]"
    by (simp add: demo_host_def e)
  ultimately show ?thesis using plugin_outlives_its_objects [of demo_host] by blast
qed

end
