(* ===== verification/Http_Client.thy ===== *)
theory Http_Client
  imports Cpp_Prelude "HOL-Library.List_Lexorder"
begin

text \<open>
  The HTTP client that the exporters are built on, as far as it is in headers:
  \<open>opentelemetry/ext/http/client/http_client.h\<close> and the inline parts of
  \<open>ext/http/client/curl/http_client_curl.h\<close> and \<open>http_operation_curl.h\<close>. Sending is done by libcurl, so
  what an operation ended with is an argument (\<open>curl_outcome\<close>). A \<open>std::multimap\<close> is the list of its
  elements in iteration order. A string view is its text together with the bytes that follow it in
  memory, up to the end of the buffer, because some of the code reads on from \<open>data()\<close>.
\<close>

subsection \<open>Headers\<close>

fun lexicographical_compare :: "('a \<Rightarrow> 'a \<Rightarrow> bool) \<Rightarrow> 'a list \<Rightarrow> 'a list \<Rightarrow> bool" where
  "lexicographical_compare lt xs [] = False"
| "lexicographical_compare lt [] (y # ys) = True"
| "lexicographical_compare lt (x # xs) (y # ys) =
     (if lt x y then True else if lt y x then False else lexicographical_compare lt xs ys)"

definition cmp_ic :: "string \<Rightarrow> string \<Rightarrow> bool" where
  "cmp_ic s1 s2 = lexicographical_compare (\<lambda>c1 c2. schar_val (to_lower c1) < schar_val (to_lower c2)) s1 s2"

type_synonym headers = "(string \<times> string) list"

text \<open>\<open>multimap::insert\<close> puts an element behind those that are not greater.\<close>

fun mm_insert :: "string \<times> string \<Rightarrow> headers \<Rightarrow> headers" where
  "mm_insert kv [] = [kv]"
| "mm_insert kv (x # xs) = (if cmp_ic (fst kv) (fst x) then kv # x # xs else x # mm_insert kv xs)"

text \<open>\<open>equal_range\<close>: from the first element that is not less to the first that is greater.\<close>

definition mm_before :: "string \<Rightarrow> headers \<Rightarrow> headers" where
  "mm_before name hs = takeWhile (\<lambda>x. cmp_ic (fst x) name) hs"

definition mm_range :: "string \<Rightarrow> headers \<Rightarrow> headers" where
  "mm_range name hs = takeWhile (\<lambda>x. \<not> cmp_ic name (fst x)) (dropWhile (\<lambda>x. cmp_ic (fst x) name) hs)"

definition mm_after :: "string \<Rightarrow> headers \<Rightarrow> headers" where
  "mm_after name hs = dropWhile (\<lambda>x. \<not> cmp_ic name (fst x)) (dropWhile (\<lambda>x. cmp_ic (fst x) name) hs)"

subsection \<open>Options\<close>

datatype http_method = Method_Get | Method_Post | Method_Put | Method_Options | Method_Head | Method_Patch | Method_Delete

datatype session_state =
    SS_CreateFailed | SS_Created | SS_Destroyed | SS_Connecting | SS_ConnectFailed | SS_Connected |
    SS_Sending | SS_SendFailed | SS_Response | SS_SSLHandshakeFailed | SS_TimedOut | SS_NetworkError |
    SS_ReadError | SS_WriteError | SS_Cancelled

datatype compression = Compression_kNone | Compression_kGzip

type_synonym view_in_buffer = "string \<times> string"

definition view_text :: "view_in_buffer \<Rightarrow> string" where
  "view_text v = fst v"

text \<open>The C string that starts at \<open>data()\<close>.\<close>

definition view_data :: "view_in_buffer \<Rightarrow> string" where
  "view_data v = c_str (fst v @ snd v)"

record ssl_options =
  use_ssl :: bool
  ssl_insecure_skip_verify :: bool
  ssl_ca_cert_path :: string
  ssl_ca_cert_string :: string
  ssl_client_key_path :: string
  ssl_client_key_string :: string
  ssl_client_cert_path :: string
  ssl_client_cert_string :: string
  ssl_min_tls :: string
  ssl_max_tls :: string
  ssl_cipher :: string
  ssl_cipher_suite :: string

definition HttpSslOptions_default :: ssl_options where
  "HttpSslOptions_default = \<lparr>use_ssl = False, ssl_insecure_skip_verify = False, ssl_ca_cert_path = [],
     ssl_ca_cert_string = [], ssl_client_key_path = [], ssl_client_key_string = [], ssl_client_cert_path = [],
     ssl_client_cert_string = [], ssl_min_tls = [], ssl_max_tls = [], ssl_cipher = [], ssl_cipher_suite = []\<rparr>"

text \<open>The constructor copies its arguments; \<open>options\<close> stands for them. \<open>strncmp(url.data(), "https:", 6)\<close>
  looks at the C string.\<close>

definition HttpSslOptions :: "view_in_buffer \<Rightarrow> ssl_options \<Rightarrow> ssl_options" where
  "HttpSslOptions url options =
     (let o1 = options\<lparr>use_ssl := False\<rparr>
      in if take 6 (view_data url) = ''https:'' then o1\<lparr>use_ssl := True\<rparr> else o1)"

text \<open>The numbers of a policy are 32-bit floats, kept as bits.\<close>

record retry_policy =
  max_attempts :: "32 word"
  initial_backoff :: "32 word"
  max_backoff :: "32 word"
  backoff_multiplier :: "32 word"

definition RetryPolicy :: "32 word \<Rightarrow> 32 word \<Rightarrow> 32 word \<Rightarrow> 32 word \<Rightarrow> retry_policy" where
  "RetryPolicy attempts initial maximum multiplier =
     \<lparr>max_attempts = attempts, initial_backoff = initial, max_backoff = maximum, backoff_multiplier = multiplier\<rparr>"

subsection \<open>Request\<close>

record client_request =
  rq_method :: http_method
  rq_ssl_options :: ssl_options
  rq_body :: "u8 list"
  rq_headers :: headers
  rq_uri :: string
  rq_timeout_ms :: int
  rq_compression :: compression
  rq_is_log_enabled :: bool
  rq_retry_policy :: retry_policy

definition Request_new :: client_request where
  "Request_new = \<lparr>rq_method = Method_Get, rq_ssl_options = HttpSslOptions_default, rq_body = [], rq_headers = [],
     rq_uri = ''/'', rq_timeout_ms = 5000, rq_compression = Compression_kNone, rq_is_log_enabled = False,
     rq_retry_policy = RetryPolicy 0 0 0 0\<rparr>"

definition SetMethod :: "http_method \<Rightarrow> client_request \<Rightarrow> client_request" where
  "SetMethod m r = r\<lparr>rq_method := m\<rparr>"

definition SetSslOptions :: "ssl_options \<Rightarrow> client_request \<Rightarrow> client_request" where
  "SetSslOptions o1 r = r\<lparr>rq_ssl_options := o1\<rparr>"

text \<open>The body is moved: the caller's vector is empty afterwards.\<close>

definition request_SetBody :: "u8 list \<Rightarrow> client_request \<Rightarrow> client_request \<times> u8 list" where
  "request_SetBody body r = (r\<lparr>rq_body := body\<rparr>, [])"

definition AddHeader :: "string \<Rightarrow> string \<Rightarrow> client_request \<Rightarrow> client_request" where
  "AddHeader name val r = r\<lparr>rq_headers := mm_insert (name, val) (rq_headers r)\<rparr>"

definition ReplaceHeader :: "string \<Rightarrow> string \<Rightarrow> client_request \<Rightarrow> client_request" where
  "ReplaceHeader name val r =
     AddHeader name val (r\<lparr>rq_headers := mm_before name (rq_headers r) @ mm_after name (rq_headers r)\<rparr>)"

definition SetUri :: "string \<Rightarrow> client_request \<Rightarrow> client_request" where
  "SetUri uri r = r\<lparr>rq_uri := uri\<rparr>"

definition SetTimeoutMs :: "int \<Rightarrow> client_request \<Rightarrow> client_request" where
  "SetTimeoutMs ms r = r\<lparr>rq_timeout_ms := ms\<rparr>"

definition SetCompression :: "compression \<Rightarrow> client_request \<Rightarrow> client_request" where
  "SetCompression c r = r\<lparr>rq_compression := c\<rparr>"

definition EnableLogging :: "bool \<Rightarrow> client_request \<Rightarrow> client_request" where
  "EnableLogging b r = r\<lparr>rq_is_log_enabled := b\<rparr>"

definition SetRetryPolicy :: "retry_policy \<Rightarrow> client_request \<Rightarrow> client_request" where
  "SetRetryPolicy p r = r\<lparr>rq_retry_policy := p\<rparr>"

subsection \<open>Response and Result\<close>

record client_response =
  rs_headers :: headers
  rs_body :: "u8 list"
  rs_status_code :: u16

definition Http_Ok :: u16 where
  "Http_Ok = 200"

definition Response_new :: client_response where
  "Response_new = \<lparr>rs_headers = [], rs_body = [], rs_status_code = Http_Ok\<rparr>"

text \<open>Iteration stops when the callback returns false.\<close>

fun ForEachHeader :: "(string \<Rightarrow> string \<Rightarrow> 's \<Rightarrow> 's \<times> bool) \<Rightarrow> headers \<Rightarrow> 's \<Rightarrow> 's \<times> bool" where
  "ForEachHeader callable [] st = (st, True)"
| "ForEachHeader callable (h # hs) st =
     (let (st, go_on) = callable (fst h) (snd h) st
      in if \<not> go_on then (st, False) else ForEachHeader callable hs st)"

definition ForEachHeader_named ::
  "string \<Rightarrow> (string \<Rightarrow> string \<Rightarrow> 's \<Rightarrow> 's \<times> bool) \<Rightarrow> headers \<Rightarrow> 's \<Rightarrow> 's \<times> bool" where
  "ForEachHeader_named name callable hs st = ForEachHeader callable (mm_range name hs) st"

datatype response = CurlResponse client_response | NoopResponse

fun resp_GetStatusCode :: "response \<Rightarrow> u16" where
  "resp_GetStatusCode (CurlResponse r) = rs_status_code r"
| "resp_GetStatusCode NoopResponse = 0"

fun resp_GetBody :: "response \<Rightarrow> u8 list" where
  "resp_GetBody (CurlResponse r) = rs_body r"
| "resp_GetBody NoopResponse = []"

fun resp_headers :: "response \<Rightarrow> headers" where
  "resp_headers (CurlResponse r) = rs_headers r"
| "resp_headers NoopResponse = []"

record http_result =
  re_response :: "response option"
  re_session_state :: session_state

definition Result_bool :: "http_result \<Rightarrow> bool" where
  "Result_bool r \<longleftrightarrow> re_session_state r = SS_Response"

definition Result_GetResponse :: "http_result \<Rightarrow> http_result \<times> response" where
  "Result_GetResponse r =
     (case re_response r of
        None \<Rightarrow> (r\<lparr>re_response := Some NoopResponse\<rparr>, NoopResponse)
      | Some x \<Rightarrow> (r, x))"

subsection \<open>The synchronous client\<close>

text \<open>What \<open>HttpOperation\<close> holds after \<open>SendSync\<close>, given the method, the URL, the options, the headers,
  the body and the compression.\<close>

record curl_outcome =
  oc_session_state :: session_state
  oc_aborted :: bool
  oc_response_code :: int
  oc_headers :: headers
  oc_body :: "u8 list"

type_synonym send_sync =
  "http_method \<Rightarrow> string \<Rightarrow> ssl_options \<Rightarrow> headers \<Rightarrow> u8 list \<Rightarrow> compression \<Rightarrow> curl_outcome"

definition GetResponseCode :: "curl_outcome \<Rightarrow> u16" where
  "GetResponseCode oc = word_of_int (oc_response_code oc)"

definition sync_Get :: "int \<Rightarrow> send_sync \<Rightarrow> view_in_buffer \<Rightarrow> ssl_options \<Rightarrow> headers \<Rightarrow> compression \<Rightarrow> http_result" where
  "sync_Get CURL_LAST send url options hs c =
     (let oc = send Method_Get (view_data url) options hs [] c;
          st = (if oc_aborted oc then SS_Cancelled else oc_session_state oc);
          response =
            (if uint (GetResponseCode oc) \<ge> CURL_LAST
             then Response_new\<lparr>rs_headers := oc_headers oc, rs_body := oc_body oc, rs_status_code := GetResponseCode oc\<rparr>
             else Response_new)
      in \<lparr>re_response = Some (CurlResponse response), re_session_state = st\<rparr>)"

definition sync_Post ::
  "int \<Rightarrow> send_sync \<Rightarrow> view_in_buffer \<Rightarrow> ssl_options \<Rightarrow> u8 list \<Rightarrow> headers \<Rightarrow> compression \<Rightarrow> http_result" where
  "sync_Post CURL_LAST send url options body hs c =
     (let oc = send Method_Post (view_data url) options hs body c;
          st = (if oc_aborted oc then SS_Cancelled else oc_session_state oc);
          response =
            (if uint (GetResponseCode oc) \<ge> CURL_LAST
             then Response_new\<lparr>rs_headers := oc_headers oc, rs_body := oc_body oc, rs_status_code := GetResponseCode oc\<rparr>
             else Response_new)
      in \<lparr>re_response = Some (CurlResponse response), re_session_state = st\<rparr>)"

text \<open>The default arguments: \<open>{{}}\<close> is a map with one element, the pair of empty strings.\<close>

definition default_get_headers :: headers where
  "default_get_headers = [([], [])]"

definition default_post_headers :: headers where
  "default_post_headers = [(''content-type'', ''application/json'')]"

definition GetNoSsl :: "int \<Rightarrow> send_sync \<Rightarrow> view_in_buffer \<Rightarrow> headers \<Rightarrow> compression \<Rightarrow> http_result" where
  "GetNoSsl CURL_LAST send url hs c = sync_Get CURL_LAST send url HttpSslOptions_default hs c"

definition PostNoSsl :: "int \<Rightarrow> send_sync \<Rightarrow> view_in_buffer \<Rightarrow> u8 list \<Rightarrow> headers \<Rightarrow> compression \<Rightarrow> http_result" where
  "PostNoSsl CURL_LAST send url body hs c = sync_Post CURL_LAST send url HttpSslOptions_default body hs c"

subsection \<open>Sessions and handles\<close>

record client_session =
  se_request :: "client_request option"
  se_host :: string
  se_session_id :: u64
  se_is_active :: bool

definition Session_new :: "string \<Rightarrow> string \<Rightarrow> u16 \<Rightarrow> client_session" where
  "Session_new scheme host port = \<lparr>se_request = None,
     se_host = scheme @ ''://'' @ host @ '':'' @ to_string (uint port) @ ''/'', se_session_id = 0, se_is_active = False\<rparr>"

definition CreateRequest :: "client_session \<Rightarrow> client_session" where
  "CreateRequest s = s\<lparr>se_request := Some Request_new\<rparr>"

definition session_SetId :: "u64 \<Rightarrow> client_session \<Rightarrow> client_session" where
  "session_SetId i s = s\<lparr>se_session_id := i\<rparr>"

text \<open>A libcurl handle and its header list, as addresses; move assignment swaps.\<close>

record curl_resource =
  easy_handle :: "nat option"
  headers_chunk :: "nat option"

definition CurlResource_move :: "curl_resource \<Rightarrow> curl_resource \<times> curl_resource" where
  "CurlResource_move other = (other, other\<lparr>easy_handle := None, headers_chunk := None\<rparr>)"

definition CurlResource_assign :: "curl_resource \<Rightarrow> curl_resource \<Rightarrow> curl_resource \<times> curl_resource" where
  "CurlResource_assign this other =
     (this\<lparr>easy_handle := easy_handle other, headers_chunk := headers_chunk other\<rparr>,
      other\<lparr>easy_handle := easy_handle this, headers_chunk := headers_chunk this\<rparr>)"

subsection \<open>The order of header names\<close>

text \<open>The comparison is that of the lower-case names, a linear order; names that differ in case only
  are equivalent.\<close>

definition folded :: "string \<Rightarrow> int list" where
  "folded s = map (\<lambda>c. schar_val (to_lower c)) s"

lemma cmp_ic_less: "cmp_ic s1 s2 \<longleftrightarrow> folded s1 < folded s2"
proof -
  have "lexicographical_compare (\<lambda>c1 c2. f c1 < f c2) xs ys \<longleftrightarrow> map f xs < map f ys"
    for f :: "char \<Rightarrow> int" and xs ys
    by (induction "\<lambda>c1 c2. f c1 < f c2" xs ys rule: lexicographical_compare.induct) auto
  then show ?thesis by (simp add: cmp_ic_def folded_def)
qed

definition headers_sorted :: "headers \<Rightarrow> bool" where
  "headers_sorted hs \<longleftrightarrow> sorted (map (folded \<circ> fst) hs)"

lemma headers_sorted_Cons: "headers_sorted (h # hs) \<longleftrightarrow> (\<forall>x\<in>set hs. folded (fst h) \<le> folded (fst x)) \<and> headers_sorted hs"
  by (auto simp: headers_sorted_def)

lemma headers_sorted_append:
  "headers_sorted (xs @ ys) \<longleftrightarrow>
   headers_sorted xs \<and> headers_sorted ys \<and> (\<forall>x\<in>set xs. \<forall>y\<in>set ys. folded (fst x) \<le> folded (fst y))"
  by (auto simp: headers_sorted_def sorted_append)

definition named :: "int list \<Rightarrow> headers \<Rightarrow> headers" where
  "named key hs = filter (\<lambda>h. folded (fst h) = key) hs"

lemma set_mm_insert [simp]: "set (mm_insert kv hs) = insert kv (set hs)"
  by (induction hs) auto

lemma mm_insert_sorted: "headers_sorted hs \<Longrightarrow> headers_sorted (mm_insert kv hs)"
proof (induction hs)
  case (Cons h hs)
  then show ?case by (auto simp: headers_sorted_Cons cmp_ic_less intro: less_imp_le order.trans)
qed (simp add: headers_sorted_def)

lemma named_mm_insert:
  "headers_sorted hs \<Longrightarrow>
   named key (mm_insert kv hs) = named key hs @ (if folded (fst kv) = key then [kv] else [])"
proof (induction hs)
  case (Cons h hs)
  show ?case
  proof (cases "cmp_ic (fst kv) (fst h)")
    case True
    with Cons.prems have "\<forall>x\<in>set (h # hs). folded (fst kv) < folded (fst x)"
      by (auto simp: headers_sorted_Cons cmp_ic_less)
    then have "folded (fst kv) = key \<Longrightarrow> named key (h # hs) = []" by (auto simp: named_def filter_empty_conv)
    with True show ?thesis by (auto simp: named_def)
  next
    case False
    with Cons show ?thesis by (auto simp: headers_sorted_Cons named_def)
  qed
qed (simp add: named_def)

lemma mm_parts: "mm_before name hs @ mm_range name hs @ mm_after name hs = hs"
  by (simp add: mm_before_def mm_range_def mm_after_def)

text \<open>In a sorted map the range has exactly the equivalent names.\<close>

lemma mm_dropWhile_sorted:
  assumes "headers_sorted hs"
  shows "headers_sorted (dropWhile P hs)" and "headers_sorted (takeWhile P hs)"
  using assms headers_sorted_append [of "takeWhile P hs" "dropWhile P hs"] by simp_all

lemma mm_before_less: "x \<in> set (mm_before name hs) \<Longrightarrow> folded (fst x) < folded name"
  by (auto simp: mm_before_def cmp_ic_less dest: set_takeWhileD)

lemma sorted_hd_le: "headers_sorted hs \<Longrightarrow> x \<in> set hs \<Longrightarrow> folded (fst (hd hs)) \<le> folded (fst x)"
  by (cases hs) (auto simp: headers_sorted_Cons)

lemma mm_range_eq:
  assumes "headers_sorted hs" and "x \<in> set (mm_range name hs)"
  shows "folded (fst x) = folded name"
proof -
  let ?r = "dropWhile (\<lambda>x. cmp_ic (fst x) name) hs"
  have x: "x \<in> set ?r" "\<not> cmp_ic name (fst x)" using assms(2) by (auto simp: mm_range_def dest: set_takeWhileD)
  then have "?r \<noteq> []" by (cases ?r) simp_all
  then have "\<not> cmp_ic (fst (hd ?r)) name" by (rule hd_dropWhile)
  with sorted_hd_le [OF mm_dropWhile_sorted(1) [OF assms(1)] x(1)] x(2) show ?thesis
    by (simp add: cmp_ic_less)
qed

lemma mm_after_greater:
  assumes "headers_sorted hs" and "x \<in> set (mm_after name hs)"
  shows "folded name < folded (fst x)"
proof -
  have "mm_after name hs \<noteq> []" using assms(2) by (cases "mm_after name hs") simp_all
  then have "\<not> \<not> cmp_ic name (fst (hd (mm_after name hs)))" unfolding mm_after_def by (rule hd_dropWhile)
  then have "cmp_ic name (fst (hd (mm_after name hs)))" by simp
  moreover have "headers_sorted (mm_after name hs)"
    using assms(1) by (simp add: mm_after_def mm_dropWhile_sorted)
  ultimately show ?thesis using sorted_hd_le [of "mm_after name hs" x] assms(2) by (simp add: cmp_ic_less)
qed

lemma named_parts:
  assumes "headers_sorted hs"
  shows "mm_range name hs = named (folded name) hs"
    and "mm_before name hs @ mm_after name hs = filter (\<lambda>h. folded (fst h) \<noteq> folded name) hs"
proof -
  have b: "\<forall>x\<in>set (mm_before name hs). folded (fst x) \<noteq> folded name"
    and a: "\<forall>x\<in>set (mm_after name hs). folded (fst x) \<noteq> folded name"
    and r: "\<forall>x\<in>set (mm_range name hs). folded (fst x) = folded name"
    using mm_before_less mm_after_greater [OF assms] mm_range_eq [OF assms] by fastforce+
  have hs: "hs = mm_before name hs @ mm_range name hs @ mm_after name hs" by (simp add: mm_parts)
  show "mm_range name hs = named (folded name) hs"
    by (subst (2) hs) (use a b r in \<open>simp add: named_def\<close>)
  show "mm_before name hs @ mm_after name hs = filter (\<lambda>h. folded (fst h) \<noteq> folded name) hs"
    by (subst (3) hs) (use a b r in \<open>simp add: named_def\<close>)
qed

subsection \<open>Header operations on a request\<close>

datatype header_op = OpAddHeader string string | OpReplaceHeader string string

fun header_step :: "header_op \<Rightarrow> client_request \<Rightarrow> client_request" where
  "header_step (OpAddHeader n v) r = AddHeader n v r"
| "header_step (OpReplaceHeader n v) r = ReplaceHeader n v r"

text \<open>The specification: for each name without its case, the list of its headers.\<close>

type_synonym header_spec = "int list \<Rightarrow> headers"

fun spec_step :: "header_op \<Rightarrow> header_spec \<Rightarrow> header_spec" where
  "spec_step (OpAddHeader n v) m = m(folded n := m (folded n) @ [(n, v)])"
| "spec_step (OpReplaceHeader n v) m = m(folded n := [(n, v)])"

lemma header_step_refines:
  assumes "headers_sorted (rq_headers r)"
  shows "headers_sorted (rq_headers (header_step op r))"
    and "named key (rq_headers (header_step op r)) = spec_step op (\<lambda>k. named k (rq_headers r)) key"
proof -
  have e: "headers_sorted (filter P (rq_headers r))" for P
    using assms by (simp add: headers_sorted_def sorted_filter)
  have n: "named key (filter (\<lambda>h. folded (fst h) \<noteq> k) (rq_headers r)) =
      (if key = k then [] else named key (rq_headers r))" for k
    by (auto simp: named_def intro: filter_cong)
  show "headers_sorted (rq_headers (header_step op r))"
    using assms e by (cases op) (simp_all add: AddHeader_def ReplaceHeader_def mm_insert_sorted named_parts)
  show "named key (rq_headers (header_step op r)) = spec_step op (\<lambda>k. named k (rq_headers r)) key"
    using assms e n by (cases op) (auto simp: AddHeader_def ReplaceHeader_def named_mm_insert named_parts)
qed

text \<open>A request that failed has a response that looks like a success; only the session state tells.\<close>

lemma failed_request_status:
  assumes "uint (GetResponseCode (send Method_Get (view_data url) options hs [] c)) < CURL_LAST"
  shows "resp_GetStatusCode (snd (Result_GetResponse (sync_Get CURL_LAST send url options hs c))) = Http_Ok"
  using assms by (simp add: sync_Get_def Result_GetResponse_def Let_def Response_new_def)

text \<open>A URL that is part of a longer buffer is sent with what follows it, and may count as \<open>https:\<close>.\<close>

lemma url_reads_on:
  "view_data (''http'', ''s://x'') = ''https://x''"
  "use_ssl (HttpSslOptions (''http'', ''s://x'') HttpSslOptions_default)"
  by code_simp+

lemma CurlResource_owned_once:
  "CurlResource_move a = (b, a') \<Longrightarrow> b = a \<and> easy_handle a' = None \<and> headers_chunk a' = None"
  "CurlResource_assign a b = (a', b') \<Longrightarrow> a' = b \<and> b' = a"
  by (auto simp: CurlResource_move_def CurlResource_assign_def)

subsection \<open>Properties\<close>

text \<open>C28: The headers of a request are a multimap over names without case. After any sequence of
  \<open>AddHeader\<close> and \<open>ReplaceHeader\<close> the map is sorted and holds for each name exactly the headers of the
  specification, in the order they were added; looking a name up visits exactly these.\<close>

theorem request_headers_refine:
  assumes "r = fold header_step ops Request_new"
  shows "headers_sorted (rq_headers r) \<and>
    (\<forall>key. named key (rq_headers r) = fold spec_step ops (\<lambda>_. []) key) \<and>
    ForEachHeader_named name callable (rq_headers r) st =
      ForEachHeader callable (fold spec_step ops (\<lambda>_. []) (folded name)) st"
proof -
  have "headers_sorted (rq_headers (fold header_step ops q)) \<and>
      (\<forall>key. named key (rq_headers (fold header_step ops q)) = fold spec_step ops (\<lambda>k. named k (rq_headers q)) key)"
    if "headers_sorted (rq_headers q)" for q
    using that
  proof (induction ops arbitrary: q)
    case (Cons op ops)
    have "(\<lambda>k. named k (rq_headers (header_step op q))) = spec_step op (\<lambda>k. named k (rq_headers q))"
      using header_step_refines(2) [OF Cons.prems] by (rule ext)
    with Cons.IH [OF header_step_refines(1) [OF Cons.prems, of op]] show ?case by simp
  qed simp
  from this [of Request_new] have "headers_sorted (rq_headers r)"
      "\<forall>key. named key (rq_headers r) = fold spec_step ops (\<lambda>_. []) key"
    by (simp_all add: assms Request_new_def headers_sorted_def named_def)
  then show ?thesis by (simp add: ForEachHeader_named_def named_parts)
qed

theorem request_headers_refine_witness:
  "named (folded ''ACCEPT'') (rq_headers (fold header_step [OpAddHeader ''accept'' ''a'', OpAddHeader ''Host'' ''h'',
     OpAddHeader ''Accept'' ''b'', OpReplaceHeader ''HOST'' ''g''] Request_new)) =
   [(''accept'', ''a''), (''Accept'', ''b'')]"
proof -
  let ?ops = "[OpAddHeader ''accept'' ''a'', OpAddHeader ''Host'' ''h'', OpAddHeader ''Accept'' ''b'',
    OpReplaceHeader ''HOST'' ''g'']"
  have "fold spec_step ?ops (\<lambda>_. []) (folded ''ACCEPT'') = [(''accept'', ''a''), (''Accept'', ''b'')]"
    by (simp add: folded_def schar_val_def to_lower_def isupper_def char_val_def)
  moreover have "\<forall>key. named key (rq_headers (fold header_step ?ops Request_new)) = fold spec_step ?ops (\<lambda>_. []) key"
    using request_headers_refine [OF refl, of ?ops "[]" "\<lambda>n v s. (s, True)" "()"] by (rule conjunct1 [OF conjunct2])
  ultimately show ?thesis by (simp only:)
qed

end
