(* ===== verification/Spec2Isabelle.thy ===== *)
theory Spec2Isabelle
  imports Cpp_Prelude Trace_Ids Trace_State Runtime_Context B3_Jaeger Baggage_Propagator Preload_Tracer
    Preload_Threads Roll_Dice Ads_Demo Preload_Ads Span_Processors Tracer_Provider Url_Parser
    File_Http_Server Metric_Views Metric_Exemplars Owning_Pointers Tracer_Scope Log_Api
    Plugin_Loader Http_Client
begin

text \<open>
  \<^bold>\<open>Verification of the OpenTelemetry C++ APM demo.\<close>

  The repository instruments two small servers with libraries that are preloaded into them and report spans
  through the OpenTelemetry C++ SDK, whose installed headers are part of the repository. The development models the
  programs of the demo and the parts of the headers that they rest on: trace identifiers, trace state and
  baggage, contexts and propagators, what the SDK does with a finished span and with measurements as far as it is written in
  headers, the logs interface, the plugin loader, the owning pointers, and the HTTP server and client that come with them. Paths below are relative to \<open>src/\<close>; \<open>api/\<close> stands for
  \<open>otel-cpp/install/include/opentelemetry/\<close>.

  \<^bold>\<open>The parts and their theories.\<close>

  \<^item> \<open>Cpp_Prelude\<close>: what the code uses of C++: errors as values, bytes and characters, NUL-terminated strings,
    \<open>strtol\<close> and \<open>stol\<close> with their failures, printing of integers; the collections of definitions
    (\<open>wf_simps\<close>, \<open>char_class\<close>, \<open>op_defs\<close>) that the component proofs unfold.
  \<^item> \<open>String_View\<close>, \<open>Hex_Codec\<close>: \<open>api/nostd/string_view.h\<close> and the helpers of
    \<open>api/trace/propagation/detail/\<close>: comparing, searching, splitting, and hexadecimal numbers read into a buffer of a
    fixed size.
  \<^item> \<open>Kv_Properties\<close>, \<open>Trace_State\<close>, \<open>Baggage\<close>: the tokenizer and the array of key-value pairs
    (\<open>api/common/kv_properties.h\<close>, \<open>string_util.h\<close>) and its two clients, \<open>api/trace/trace_state.h\<close> and
    \<open>api/baggage/baggage.h\<close>. The array is a buffer with a count, as in the code; \<open>wf_kvp\<close>, \<open>wf_ts\<close> and
    \<open>wf_bag\<close> are the invariants that every operation keeps, and the operations refine operations on lists.
  \<^item> \<open>Trace_Ids\<close>, \<open>Span_Context\<close>: identifiers, flags and span contexts. The locale \<open>byte_id\<close> has the laws that
    trace and span identifiers share and is interpreted for both.
  \<^item> \<open>Otel_Context\<close>, \<open>Runtime_Context\<close>: the immutable context as a linked list of shared nodes on an
    explicit heap (\<open>api/context/context.h\<close>), and the stack of contexts of a thread
    (\<open>api/context/runtime_context.h\<close>). The locale \<open>context_storage\<close> is the contract of a storage, interpreted for the
    thread-local one.
  \<^item> \<open>Text_Map_Propagator\<close>, \<open>Http_Trace_Context\<close>, \<open>B3_Jaeger\<close>, \<open>Baggage_Propagator\<close>: the propagators of
    \<open>api/trace/propagation/\<close>, \<open>api/baggage/propagation/\<close> and \<open>api/context/propagation/\<close>. The locale
    \<open>span_propagator\<close> says what a propagator of span contexts promises, and is interpreted for W3C trace context, both B3
    formats and Jaeger.
  \<^item> \<open>Otel_Api\<close>: the calls that the instrumentation makes (start a span, set an attribute, end), as data.
  \<^item> \<open>Preload_Tracer\<close>: \<open>roll-dice/preload_tracer.cpp\<close>. The globals are the record \<open>preload_state\<close>, the hooks
    \<open>hook_accept\<close>, \<open>hook_read\<close>, \<open>hook_write\<close>, \<open>hook_close\<close> are functions from the result of the real call, and
    \<open>preload_step\<close> is the step relation of the process: any hook, on any descriptor, in any order. The calls on the
    SDK are recorded in order.
  \<^item> \<open>Preload_Threads\<close>: the same hooks in several threads, one step for each call on the SDK, each operation on the mutex and each access
    to the map (\<open>hooks_step\<close>).
  \<^item> \<open>Roll_Dice\<close>: \<open>roll-dice/main.cpp\<close>, every handler and the route table; \<open>Ads_Demo\<close>: \<open>ads_server.cpp\<close>,
    \<open>ads_client.cpp\<close> and the container's client as sequences of system calls; \<open>Preload_Ads\<close>: the two preload libraries
    \<open>libotel_preload.cpp\<close> and \<open>docker/src/ads_server/libotel_preload.cpp\<close>.
  \<^item> \<open>Circular_Buffer\<close>: \<open>api/sdk/common/atomic_unique_ptr.h\<close>, \<open>circular_buffer_range.h\<close>,
    \<open>circular_buffer.h\<close> and \<open>api/exporters/memory/in_memory_data.h\<close>. The operations are functions for one thread, and
    the atomic accesses of \<open>Add\<close> and \<open>Consume\<close> are the steps of \<open>cb_step\<close> for any number of producers. The locale
    \<open>bounded_store\<close> is what the exporter relies on, interpreted for the in-memory store.
  \<^item> \<open>Attribute_Map\<close>, \<open>Span_Data\<close>: \<open>api/sdk/common/attribute_utils.h\<close>, \<open>attributemap_hash.h\<close>,
    \<open>api/sdk/trace/span_data.h\<close> and \<open>multi_recordable.h\<close>: owned attributes, their comparison and hash, the record of a
    span and the fan-out of its operations.
  \<^item> \<open>Span_Processors\<close>: \<open>api/sdk/trace/simple_processor.h\<close>, \<open>multi_span_processor.h\<close> and
    \<open>api/exporters/memory/in_memory_span_exporter.h\<close>: what becomes of an ended span. The list of processors is a doubly
    linked list on a heap where deleted nodes are gone. The locale \<open>span_processor\<close> is the contract of a processor,
    interpreted for the simple processor with the in-memory exporter.
  \<^item> \<open>Tracer_Provider\<close>: \<open>api/common/spin_lock_mutex.h\<close> and \<open>api/trace/provider.h\<close>: the spin lock and the global provider it
    guards, every access to the shared memory a step of \<open>provider_step\<close>, for any number of threads.
  \<^item> \<open>Url_Parser\<close>: \<open>api/ext/http/common/url_parser.h\<close>, which takes the endpoint apart.
  \<^item> \<open>Socket_Tools\<close>, \<open>Http_Message\<close>, \<open>Http_Connection\<close>, \<open>Http_Server\<close>, \<open>Http_Exchange\<close>, \<open>File_Http_Server\<close>:
    \<open>api/ext/http/server/\<close>. Addresses and the reactor over \<open>epoll\<close>; requests and responses as text; the state machine of one connection
    (\<open>handleConnection\<close>); the server with all its connections, whose callbacks are the steps of a relation; a connection from the first
    byte of a request to the last of the response; and the server that answers with files.
  \<^item> \<open>Instrumentation_Scope\<close>: \<open>api/sdk/instrumentationscope/\<close>: who emits telemetry, and configurations by scope.
  \<^item> \<open>Metric_Types\<close>: \<open>api/sdk/metrics/instruments.h\<close>, \<open>aggregation/default_aggregation.h\<close> and the functions of
    \<open>aggregation/histogram_aggregation.h\<close>: instruments, which aggregation they get, and how histograms are merged, compared and searched.
  \<^item> \<open>Metric_Storage\<close>: the attribute sets and the storages of \<open>api/sdk/metrics/state/\<close>. The locale \<open>map_keys\<close> says when the
    comparison of the keys of a hash map is equality, and is interpreted for attribute sets.
  \<^item> \<open>Metric_Views\<close>: the registry of views, \<open>api/sdk/metrics/view/\<close>; \<open>Metric_Exemplars\<close>: the reservoirs of
    \<open>api/sdk/metrics/exemplar/\<close>.
  \<^item> \<open>Owning_Pointers\<close>: \<open>api/nostd/unique_ptr.h\<close> and \<open>shared_ptr.h\<close> over an explicit memory (\<open>pointers\<close>): objects are alive or
    deleted, the buffer of a shared pointer is raw or holds a wrapper, and use of destroyed memory is an error value.
  \<^item> \<open>Timestamps\<close>: \<open>api/common/timestamp.h\<close>, with signed 64-bit overflow as \<open>None\<close>.
  \<^item> \<open>Tracer_Scope\<close>: the active span of a thread (\<open>api/trace/scope.h\<close>, \<open>tracer.h\<close>) on the runtime context, the no-operation
    span and tracer (\<open>api/trace/noop.h\<close>) and the constant samplers (\<open>api/sdk/trace/samplers/\<close>).
  \<^item> \<open>Log_Api\<close>: \<open>api/logs/\<close>: severities, event identifiers, the setters by the type of an argument, the logger and the event logger.
    A log record is the sequence of the calls made on it.
  \<^item> \<open>Plugin_Loader\<close>: \<open>api/plugin/\<close>: loading a tracer from a shared library and who keeps the library open. The host program is the
    step relation \<open>host_run\<close> over the pointers it holds.
  \<^item> \<open>Http_Client\<close>: \<open>api/ext/http/client/\<close>: headers without case as a sorted multimap, requests, results and the synchronous
    client over the outcome of a transfer.

  \<^bold>\<open>How the parts interact.\<close> A hook of the preload tracer parses the bytes it passes on, extracts the remote
  parent with the W3C propagator (\<open>Http_Trace_Context\<close>, on a carrier over the parsed headers) into a context
  (\<open>Otel_Context\<close>), and starts a span with it. The propagators read and write trace state and baggage through their
  headers. A span that ends goes through the processors to an exporter, the in-memory one keeping it in the circular buffer.
  The file server is a handler of the HTTP server, which is the callback of the reactor. A measurement goes through the storages
  of the views of its instrument, each of which keeps an aggregation for every attribute set, and is offered to a reservoir with the span
  of its context. A scope attaches a context with its span, made from the current one, to the stack of the thread, and its destructor detaches it.
  A log record takes the identifiers of a span context and time stamps from the same types as spans.

  \<^bold>\<open>What the theorems show.\<close>

  \<^item> The preload tracer (C1 to C6, C36, and lemmas on its parser): in every reachable state the recorded calls follow
    the life of a span, a span gets no call after its end, a request followed by a response gives one server span with
    the parsed attributes, the span continues the trace of the caller, the hooks return what the real call returned or
    throw, and without an endpoint nothing is reported. The protocol of spans holds for every interleaving of hooks in several threads, and a
    hook that runs alone is the function of \<open>Preload_Tracer\<close>.
  \<^item> Propagation: injecting and extracting is the identity on valid span contexts and portable baggage, for each format
    and for the composition; the exact set of accepted \<open>traceparent\<close> headers; what parsing a \<open>tracestate\<close> or a baggage
    header gives, on every input; the two validators of the trace state compared.
  \<^item> Contexts: a context never changes, adding a key shadows, and the stack of a thread refines a list even when
    tokens are detached out of order. Scopes nest: the current span is that of the innermost open scope, and scopes that are destroyed in
    any order leave what was there before.
  \<^item> The SDK's pipeline: the lock-free buffer is first-in first-out and loses nothing under every interleaving of producers
    and consumer; for one thread it refines a bounded list, and \<open>Add\<close> returns; the simple processor keeps the first
    spans in order; the multi processor gives every processor its own complete recordable, returns from every use, and
    its destructor frees every node and processor exactly once; comparison and canonical form of attribute maps.
  \<^item> Shared state and endpoints: the global provider is an atomic variable under every interleaving and the lock does not deadlock;
    a printed URL is taken apart into its parts.
  \<^item> The HTTP server: in every reachable state the reactor watches exactly the open sockets, with the events that their
    connections wait for; a request is answered by the handler's response, however it is cut into segments; the file server answers
    with the file at the path that the client wrote, or with 404; when an answer is lost and when a connection stalls.
  \<^item> Metrics: an instrument gets an aggregation that takes its values; a storage loses and invents no measurement, also beyond the limit of
    attribute sets; what a collection of an asynchronous instrument sees; the reservoir of a histogram has the last measurement of
    every bucket, and (as lemmas) it works for one collection only; which views an instrument has; when scopes are equal.
  \<^item> Foundations: the owning pointers never use a destroyed object, delete nothing twice and leak nothing, except in a self-assignment; a
    plugin's library is closed after the last of its objects and not later than the last pointer to one; a wait is shortened exactly when it
    would leave the range of a clock.
  \<^item> Logs and the client: the fields of an emitted record are those of the last argument for each, in whatever order an event's setters run
    when they do not overlap; which calls are undefined; the headers of a request refine a map from names to lists.
  \<^item> The demo programs: rolls are in range, connections of the server are independent, spans of
    the ADS library end in the hook that started them, the container library initialises once.

  \<^bold>\<open>Bounds and fuel.\<close> Loops over data are structural recursions. The walks over a context's linked list take the
  length of the heap as fuel, which is enough since a chain has no repeated node (\<open>chain_length\<close>). The loops over the linked
  list of processors are partial functions into \<^typ>\<open>'a option\<close> without fuel, and are proved to return. \<open>Add\<close> on the
  circular buffer may be retried by spurious failures of its weak exchanges; it runs along the list of failures that
  happen, and is proved to return at the first round without one. Identifiers, flags, attribute values and hashes are
  words of their width. The counters of the circular buffer are natural numbers, which is exact as long as fewer than
  \<open>2^64\<close> elements were added; that the difference of head and tail never wraps is proved. Doubles are their bits.

  \<^bold>\<open>Parameters.\<close> Code that is not in the repository is an argument: the SDK's bodies behind the API calls (whether they return or
  throw), the web framework, the operating system's results of calls, the environment, \<open>dlsym\<close>, \<open>rand\<close>,
  \<open>std::hash\<close>, \<open>atof\<close>, regular expressions, random numbers and the clock, the operations of a metric aggregation, the handlers of the
  HTTP server and the file system, the outcome of a transfer by curl, a plugin and the dynamic linker, the logger's \<open>CreateLogRecord\<close>; carriers of headers are arguments with the law that a value set is the value got.

  \<^bold>\<open>Not modelled.\<close> The bodies of the SDK's tracer, batch processor, ratio and parent samplers and OTLP exporters are compiled libraries
  outside the repository, and so are those of the metric aggregations, meters, readers and temporal storage, of the logs SDK and of the
  asynchronous HTTP client. The metrics interface, the overloads of \<open>StartSpan\<close>, the configuration registry and the remaining adaptors of
  \<open>api/nostd/\<close> (span, variant, function reference) rearrange arguments or hold one pointer each. The logger provider repeats the tracer
  provider. Semantic-convention headers are generated constants; Abseil, Protocol Buffers, gRPC, zlib and the JSON
  library are third-party code. Scripts, container and collector configuration are no programs in C or C++. Memory
  orderings weaker than sequential consistency are not modelled, neither in the circular buffer nor in the spin lock.
\<close>

end
